(* ===== verification/Prelude.thy ===== *)
theory Prelude
  imports Main "HOL-Library.Multiset"
begin

text \<open>
  Shared ground of the development: the result type the fallible operations return, the
  reachability relation every state machine of the scheduler is run with, and the two
  contracts those machines share. \<open>inv_system\<close> is a machine with an inductive
  invariant; \<open>slot_system\<close> is a machine that lends VM slots out and takes them back
  without making or losing one. The orchestrator's and the pool manager's machines are
  instances of both, interpreted in their own theories.
\<close>

section \<open>Collections and names\<close>

named_theorems slot_simps \<open>how a scheduler step changes the free and the lent slots\<close>
named_theorems machine_defs \<open>operations a scheduler step is made of\<close>
named_theorems str_simps \<open>equations of the string layer that are safe on symbolic strings\<close>

text \<open>Rust's \<open>Result\<close>: \<open>Inl\<close> is \<open>Err\<close>, \<open>Inr\<close> is \<open>Ok\<close>.\<close>

type_synonym ('e, 'a) result = "'e + 'a"

fun is_ok :: "('e, 'a) result \<Rightarrow> bool" where
  "is_ok (Inl _) = False"
| "is_ok (Inr _) = True"

lemma is_ok_iff: "is_ok r \<longleftrightarrow> (\<exists>x. r = Inr x)"
  by (cases r) auto

lemma not_is_ok_iff: "\<not> is_ok r \<longleftrightarrow> (\<exists>e. r = Inl e)"
  by (cases r) auto

text \<open>The \<open>?\<close> operator: an error returns at once.\<close>

fun bindE :: "('e, 'a) result \<Rightarrow> ('a \<Rightarrow> ('e, 'b) result) \<Rightarrow> ('e, 'b) result" where
  "bindE (Inl e) f = Inl e"
| "bindE (Inr x) f = f x"

lemma bindE_Inr_iff [simp]: "bindE m f = Inr y \<longleftrightarrow> (\<exists>x. m = Inr x \<and> f x = Inr y)"
  by (cases m) auto

lemma bindE_Inl_iff: "bindE m f = Inl e \<longleftrightarrow> m = Inl e \<or> (\<exists>x. m = Inr x \<and> f x = Inl e)"
  by (cases m) auto

text \<open>\<open>if !cond { bail!(e) }\<close>.\<close>

definition ensure :: "bool \<Rightarrow> 'e \<Rightarrow> ('e, unit) result" where
  "ensure b e = (if b then Inr () else Inl e)"

lemma ensure_True [simp]: "ensure True e = Inr ()"
  by (simp add: ensure_def)

lemma ensure_False [simp]: "ensure False e = Inl e"
  by (simp add: ensure_def)

lemma ensure_Inr_iff [simp]: "ensure b e = Inr u \<longleftrightarrow> b"
  by (simp add: ensure_def)

lemma ensure_Inl_iff [simp]: "ensure b e = Inl e' \<longleftrightarrow> \<not> b \<and> e' = e"
  by (auto simp: ensure_def)

text \<open>\<open>ok_or(e)\<close>.\<close>

fun ok_or :: "'a option \<Rightarrow> 'e \<Rightarrow> ('e, 'a) result" where
  "ok_or None e = Inl e"
| "ok_or (Some x) e = Inr x"

lemma ok_or_Inr_iff [simp]: "ok_or m e = Inr x \<longleftrightarrow> m = Some x"
  by (cases m) auto

text \<open>
  Fallible operations that change a state, in the order the code has them: an error stops the
  sequence and keeps the changes made before it.
\<close>

type_synonym ('s, 'e, 'a) op = "'s \<Rightarrow> ('e, 'a) result \<times> 's"

definition op_ret :: "'a \<Rightarrow> ('s, 'e, 'a) op" where
  "op_ret x s = (Inr x, s)"

definition op_fail :: "'e \<Rightarrow> ('s, 'e, 'a) op" where
  "op_fail e s = (Inl e, s)"

definition op_lift :: "('e, 'a) result \<Rightarrow> ('s, 'e, 'a) op" where
  "op_lift r s = (r, s)"

definition op_modify :: "('s \<Rightarrow> 's) \<Rightarrow> ('s, 'e, unit) op" where
  "op_modify f s = (Inr (), f s)"

definition op_bind :: "('s, 'e, 'a) op \<Rightarrow> ('a \<Rightarrow> ('s, 'e, 'b) op) \<Rightarrow> ('s, 'e, 'b) op" where
  "op_bind m f s = (case m s of (Inl e, s') \<Rightarrow> (Inl e, s') | (Inr x, s') \<Rightarrow> f x s')"

definition op_seq :: "('s, 'e, 'a) op \<Rightarrow> ('s, 'e, 'b) op \<Rightarrow> ('s, 'e, 'b) op" where
  "op_seq m n = op_bind m (\<lambda>_. n)"

named_theorems op_simps \<open>how a sequence of operations runs from a state\<close>

lemma op_ret_apply [op_simps]: "op_ret x s = (Inr x, s)"
  by (simp add: op_ret_def)

lemma op_fail_apply [op_simps]: "op_fail e s = (Inl e, s)"
  by (simp add: op_fail_def)

lemma op_lift_apply [op_simps]: "op_lift r s = (r, s)"
  by (simp add: op_lift_def)

lemma op_modify_apply [op_simps]: "op_modify f s = (Inr (), f s)"
  by (simp add: op_modify_def)

lemma op_bind_apply [op_simps]:
  "op_bind m f s = (case m s of (Inl e, s') \<Rightarrow> (Inl e, s') | (Inr x, s') \<Rightarrow> f x s')"
  by (simp add: op_bind_def)

lemma op_seq_apply [op_simps]:
  "op_seq m n s = (case m s of (Inl e, s') \<Rightarrow> (Inl e, s') | (Inr x, s') \<Rightarrow> n s')"
  by (simp add: op_seq_def op_bind_def)

lemma op_bind_ret_left [simp]: "op_bind (op_ret x) f = f x"
  by (rule ext) (simp add: op_simps)

lemma op_bind_fail_left [simp]: "op_bind (op_fail e) f = op_fail e"
  by (rule ext) (simp add: op_simps)

lemma op_bind_assoc: "op_bind (op_bind m f) g = op_bind m (\<lambda>x. op_bind (f x) g)"
  by (rule ext) (simp add: op_simps split: prod.splits sum.splits)

section \<open>Lists\<close>

text \<open>The first list element that satisfies a predicate is the one \<open>find\<close> returns.\<close>

lemma find_SomeD: "find P xs = Some x \<Longrightarrow> x \<in> set xs \<and> P x"
  by (induction xs) (auto split: if_splits)

lemma find_None_iff_all: "find P xs = None \<longleftrightarrow> (\<forall>x \<in> set xs. \<not> P x)"
  by (induction xs) auto

lemma distinct_map_filter_fst: "distinct (map f xs) \<Longrightarrow> distinct (map f (filter P xs))"
  by (induction xs) auto

lemma distinct_upt_mset: "mset xs = mset [0..<n] \<Longrightarrow> distinct xs"
  by (metis distinct_upt mset_eq_imp_distinct_iff)

lemma inj_on_distinct_map: "distinct xs \<Longrightarrow> (\<And>x y. f x = f y \<Longrightarrow> x = y) \<Longrightarrow> distinct (map f xs)"
  by (simp add: distinct_map inj_on_def)

section \<open>Multisets\<close>

definition mset_distinct :: "'a multiset \<Rightarrow> bool" where
  "mset_distinct M \<longleftrightarrow> (\<forall>x. count M x \<le> 1)"

lemma mset_distinct_mset [simp]: "mset_distinct (mset xs) \<longleftrightarrow> distinct xs"
proof
  assume D: "mset_distinct (mset xs)"
  have "count (mset xs) a = (if a \<in> set xs then 1 else 0)" for a
  proof (cases "a \<in> set xs")
    case True
    then have "0 < count (mset xs) a" by simp
    moreover have "count (mset xs) a \<le> 1" using D by (simp add: mset_distinct_def)
    ultimately have "count (mset xs) a = 1" by linarith
    then show ?thesis using True by simp
  qed simp
  then show "distinct xs" by (simp add: distinct_count_atmost_1)
qed (simp add: mset_distinct_def distinct_count_atmost_1)

lemma mset_distinct_add:
  "mset_distinct (A + B) \<Longrightarrow> mset_distinct A \<and> mset_distinct B \<and> set_mset A \<inter> set_mset B = {}"
proof (intro conjI)
  assume D: "mset_distinct (A + B)"
  show "mset_distinct A" "mset_distinct B"
    using D by (auto simp: mset_distinct_def intro: le_trans [OF le_add1] le_trans [OF le_add2])
  show "set_mset A \<inter> set_mset B = {}"
  proof (rule ccontr)
    assume "set_mset A \<inter> set_mset B \<noteq> {}"
    then obtain x where "x \<in># A" and "x \<in># B" by blast
    then have "1 \<le> count A x" and "1 \<le> count B x" by (simp_all add: Suc_leI)
    moreover have "count A x + count B x \<le> 1"
      using D by (simp add: mset_distinct_def)
    ultimately show False by linarith
  qed
qed

section \<open>Reachable states\<close>

inductive reach :: "('s \<Rightarrow> bool) \<Rightarrow> ('s \<Rightarrow> 's \<Rightarrow> bool) \<Rightarrow> 's \<Rightarrow> bool"
  for I :: "'s \<Rightarrow> bool" and T :: "'s \<Rightarrow> 's \<Rightarrow> bool" where
  reach_init: "I s \<Longrightarrow> reach I T s"
| reach_step: "reach I T s \<Longrightarrow> T s t \<Longrightarrow> reach I T t"

text \<open>States joined by a finite run of steps.\<close>

inductive steps :: "('s \<Rightarrow> 's \<Rightarrow> bool) \<Rightarrow> 's \<Rightarrow> 's \<Rightarrow> bool"
  for T :: "'s \<Rightarrow> 's \<Rightarrow> bool" where
  steps_refl: "steps T s s"
| steps_step: "T s t \<Longrightarrow> steps T t u \<Longrightarrow> steps T s u"

lemma steps_one: "T s t \<Longrightarrow> steps T s t"
  by (blast intro: steps.intros)

lemma steps_trans: "steps T s t \<Longrightarrow> steps T t u \<Longrightarrow> steps T s u"
  by (induction rule: steps.induct) (auto intro: steps.intros)

lemma reach_steps: "steps T s t \<Longrightarrow> reach I T s \<Longrightarrow> reach I T t"
  by (induction rule: steps.induct) (auto intro: reach_step)

lemma steps_invariant: "steps T s t \<Longrightarrow> (\<And>a b. P a \<Longrightarrow> T a b \<Longrightarrow> P b) \<Longrightarrow> P s \<Longrightarrow> P t"
  by (induction rule: steps.induct) auto

section \<open>The contract of a machine with an invariant\<close>

locale inv_system =
  fixes init :: "'s \<Rightarrow> bool"
    and step :: "'s \<Rightarrow> 's \<Rightarrow> bool"
    and inv :: "'s \<Rightarrow> bool"
  assumes inv_init: "init s \<Longrightarrow> inv s"
    and inv_step: "inv s \<Longrightarrow> step s t \<Longrightarrow> inv t"
begin

lemma reach_inv: "reach init step s \<Longrightarrow> inv s"
  by (induction rule: reach.induct) (auto intro: inv_init inv_step)

lemma steps_inv: "steps step s t \<Longrightarrow> inv s \<Longrightarrow> inv t"
  by (erule steps_invariant) (auto intro: inv_step)

end

section \<open>The contract of a machine that lends slots\<close>

text \<open>
  \<open>owned\<close> is the list of slots the machine was given. In every state each of them is
  either free (in the pool) or lent (held by a VM task, or on its way back). A step may move
  slots between the two, and never changes the total.
\<close>

locale slot_system = inv_system +
  fixes free :: "'a \<Rightarrow> nat multiset"
    and lent :: "'a \<Rightarrow> nat multiset"
    and owned :: "nat list"
  assumes slots_init: "init s \<Longrightarrow> free s + lent s = mset owned"
    and slots_step: "inv s \<Longrightarrow> step s t \<Longrightarrow> free t + lent t = free s + lent s"
begin

lemma conserved: "reach init step s \<Longrightarrow> free s + lent s = mset owned"
proof (induction rule: reach.induct)
  case (reach_init s)
  then show ?case by (rule slots_init)
next
  case (reach_step s t)
  then show ?case using slots_step [OF reach_inv] by simp
qed

lemma exclusive: "distinct owned \<Longrightarrow> reach init step s \<Longrightarrow> mset_distinct (free s + lent s)"
  by (simp add: conserved)

lemma lent_distinct: "distinct owned \<Longrightarrow> reach init step s \<Longrightarrow> mset_distinct (lent s)"
  using exclusive mset_distinct_add by blast

lemma free_lent_disjoint:
  "distinct owned \<Longrightarrow> reach init step s \<Longrightarrow> set_mset (free s) \<inter> set_mset (lent s) = {}"
  using exclusive mset_distinct_add by blast

lemma size_conserved: "reach init step s \<Longrightarrow> size (free s) + size (lent s) = length owned"
  by (metis conserved size_mset size_union)

lemma lent_bound: "reach init step s \<Longrightarrow> size (lent s) \<le> length owned"
  using size_conserved by fastforce

lemma free_available:
  "reach init step s \<Longrightarrow> size (lent s) < length owned \<Longrightarrow> free s \<noteq> {#}"
  using size_conserved by fastforce

lemma lent_owned: "reach init step s \<Longrightarrow> x \<in># lent s \<Longrightarrow> x \<in> set owned"
  by (metis conserved set_mset_mset union_iff)

end

section \<open>Slot pools and task bags\<close>

text \<open>\<open>Vec::pop\<close> and \<open>Vec::push\<close>: both at the end.\<close>

definition vec_pop :: "'a list \<Rightarrow> ('a \<times> 'a list) option" where
  "vec_pop xs = (if xs = [] then None else Some (last xs, butlast xs))"

definition vec_push :: "'a list \<Rightarrow> 'a \<Rightarrow> 'a list" where
  "vec_push xs x = xs @ [x]"

lemma vec_pop_None [simp]: "vec_pop xs = None \<longleftrightarrow> xs = []"
  by (simp add: vec_pop_def)

lemma vec_pop_Some: "vec_pop xs = Some (x, ys) \<longleftrightarrow> xs = ys @ [x]"
  by (auto simp: vec_pop_def)

lemma vec_pop_push [simp]: "vec_pop (vec_push xs x) = Some (x, xs)"
  by (simp add: vec_pop_Some vec_push_def)

lemma mset_vec_push [slot_simps]: "mset (vec_push xs x) = add_mset x (mset xs)"
  by (simp add: vec_push_def)

lemma mset_vec_pop: "vec_pop xs = Some (x, ys) \<Longrightarrow> mset xs = add_mset x (mset ys)"
  by (simp add: vec_pop_Some)

text \<open>What the tasks of a bag hold together.\<close>

definition held :: "('t \<Rightarrow> 'a multiset) \<Rightarrow> 't multiset \<Rightarrow> 'a multiset" where
  "held f M = sum_mset (image_mset f M)"

lemma held_empty [simp]: "held f {#} = {#}"
  by (simp add: held_def)

lemma held_add [simp]: "held f (add_mset t M) = f t + held f M"
  by (simp add: held_def)

lemma held_mono: "(\<And>t. t \<in># M \<Longrightarrow> f t \<subseteq># g t) \<Longrightarrow> held f M \<subseteq># held g M"
  by (induction M) (auto intro: subset_mset.add_mono)

lemma held_size_le: "(\<And>t. size (f t) \<le> size (g t)) \<Longrightarrow> size (held f M) \<le> size (held g M)"
  by (induction M) (auto intro: add_mono)

lemma mset_distinct_subset: "A \<subseteq># B \<Longrightarrow> mset_distinct B \<Longrightarrow> mset_distinct A"
  by (meson mset_distinct_def le_trans mset_subset_eq_count)

text \<open>The number of tasks of a bag in a stage.\<close>

definition tally :: "('t \<Rightarrow> bool) \<Rightarrow> 't multiset \<Rightarrow> nat" where
  "tally P M = size (filter_mset P M)"

lemma tally_empty [simp]: "tally P {#} = 0"
  by (simp add: tally_def)

lemma tally_add [simp]: "tally P (add_mset t M) = (if P t then Suc (tally P M) else tally P M)"
  by (simp add: tally_def)

lemma tally_held: "tally P M = size (held (\<lambda>t. if P t then {#t#} else {#}) M)"
  by (induction M) auto

lemma tally_le_size: "tally P M \<le> size M"
  by (simp add: tally_def size_filter_mset_lesseq)

end
