(* ===== verification/Rust_Strings.thy ===== *)
theory Rust_Strings
  imports Prelude "HOL-Library.Sublist" "HOL-Library.Word"
begin

text \<open>
  The string operations of Rust's standard library the program uses, over \<open>string\<close>: a
  Rust \<open>str\<close> is its list of bytes. \<open>trim\<close>, \<open>to_lowercase\<close> and
  \<open>eq_ignore_ascii_case\<close> are modelled on their ASCII part: white space outside ASCII
  and letters outside \<open>A\<close>-\<open>Z\<close> are left alone. Decimal printing and parsing carry the
  bounds of the integer types. The contract \<open>codec\<close> (what is printed can be read back,
  so printing is injective) is interpreted for decimal numbers; the names of devices, files,
  addresses and storage keys that the program builds from a number rest on it.
\<close>

section \<open>Splitting and joining\<close>

text \<open>\<open>s.split(c)\<close>: the pieces between separators, never none of them.\<close>

fun split_on :: "char \<Rightarrow> string \<Rightarrow> string list" where
  "split_on c [] = [[]]"
| "split_on c (x # xs) =
     (if x = c then [] # split_on c xs
      else (case split_on c xs of [] \<Rightarrow> [[x]] | y # ys \<Rightarrow> (x # y) # ys))"

text \<open>\<open>parts.join(sep)\<close>.\<close>

fun join_with :: "string \<Rightarrow> string list \<Rightarrow> string" where
  "join_with sep [] = []"
| "join_with sep [x] = x"
| "join_with sep (x # y # xs) = x @ sep @ join_with sep (y # xs)"

lemma split_on_not_Nil [simp]: "split_on c s \<noteq> []"
  by (cases s) (auto split: list.splits)

lemma join_with_Cons: "xs \<noteq> [] \<Longrightarrow> join_with sep (x # xs) = x @ sep @ join_with sep xs"
  by (cases xs) auto

lemma join_split_on: "join_with [c] (split_on c s) = s"
proof (induction s)
  case Nil
  show ?case by simp
next
  case (Cons x s)
  obtain y ys where y: "split_on c s = y # ys"
    using split_on_not_Nil by (metis neq_Nil_conv)
  show ?case
  proof (cases "x = c")
    case True
    with Cons y show ?thesis by simp
  next
    case False
    with Cons y show ?thesis by (cases ys) auto
  qed
qed

lemma split_on_no_sep: "c \<notin> set s \<Longrightarrow> split_on c s = [s]"
  by (induction s) auto

lemma split_on_append: "c \<notin> set s \<Longrightarrow> split_on c (s @ c # t) = s # split_on c t"
  by (induction s) auto

lemma split_on_parts_no_sep: "p \<in> set (split_on c s) \<Longrightarrow> c \<notin> set p"
  by (induction s arbitrary: p) (auto split: if_splits list.splits)

lemma split_on_join: "xs \<noteq> [] \<Longrightarrow> (\<And>x. x \<in> set xs \<Longrightarrow> c \<notin> set x) \<Longrightarrow> split_on c (join_with [c] xs) = xs"
proof (induction xs)
  case Nil
  then show ?case by simp
next
  case (Cons x xs)
  show ?case
  proof (cases xs)
    case Nil
    with Cons.prems show ?thesis by (simp add: split_on_no_sep)
  next
    case (Cons y ys)
    then show ?thesis
      using Cons.IH Cons.prems(2) by (simp add: split_on_append)
  qed
qed

text \<open>\<open>s.split_once(c)\<close>.\<close>

fun split_once :: "char \<Rightarrow> string \<Rightarrow> (string \<times> string) option" where
  "split_once c [] = None"
| "split_once c (x # xs) =
     (if x = c then Some ([], xs)
      else map_option (\<lambda>(a, b). (x # a, b)) (split_once c xs))"

lemma split_once_app: "c \<notin> set a \<Longrightarrow> split_once c (a @ c # b) = Some (a, b)"
  by (induction a) auto

lemma split_once_SomeD: "split_once c s = Some (a, b) \<Longrightarrow> s = a @ c # b \<and> c \<notin> set a"
  by (induction s arbitrary: a) (auto split: if_splits)

lemma split_once_None: "split_once c s = None \<longleftrightarrow> c \<notin> set s"
  by (induction s) auto

text \<open>\<open>s.rsplit(c).next()\<close>: what follows the last separator, or all of \<open>s\<close>.\<close>

definition after_last :: "char \<Rightarrow> string \<Rightarrow> string" where
  "after_last c s = last (split_on c s)"

lemma split_on_last: "c \<notin> set t \<Longrightarrow>
    last (split_on c (s @ c # t)) = t \<and> 2 \<le> length (split_on c (s @ c # t))"
  by (induction s) (auto simp: split_on_no_sep split: list.splits)

lemma after_last_app [str_simps]: "c \<notin> set t \<Longrightarrow> after_last c (s @ c # t) = t"
  by (simp add: after_last_def split_on_last)

lemma after_last_no_sep: "c \<notin> set s \<Longrightarrow> after_last c s = s"
  by (simp add: after_last_def split_on_no_sep)

section \<open>Prefixes, suffixes and replacement\<close>

fun strip_prefix :: "string \<Rightarrow> string \<Rightarrow> string option" where
  "strip_prefix [] s = Some s"
| "strip_prefix (p # ps) [] = None"
| "strip_prefix (p # ps) (x # xs) = (if p = x then strip_prefix ps xs else None)"

definition starts_with :: "string \<Rightarrow> string \<Rightarrow> bool" where
  "starts_with s p \<longleftrightarrow> strip_prefix p s \<noteq> None"

definition ends_with :: "string \<Rightarrow> string \<Rightarrow> bool" where
  "ends_with s p \<longleftrightarrow> strip_prefix (rev p) (rev s) \<noteq> None"

lemma strip_prefix_Some_iff: "strip_prefix p s = Some r \<longleftrightarrow> s = p @ r"
  by (induction p s rule: strip_prefix.induct) auto

lemma strip_prefix_append [simp]: "strip_prefix p (p @ r) = Some r"
  by (simp add: strip_prefix_Some_iff)

lemma starts_with_iff: "starts_with s p \<longleftrightarrow> (\<exists>r. s = p @ r)"
  by (auto simp: starts_with_def strip_prefix_Some_iff)

lemma starts_with_append [simp]: "starts_with (p @ r) p"
  by (auto simp: starts_with_iff)

lemma starts_with_self [simp]: "starts_with p p"
  by (auto simp: starts_with_iff)

lemma starts_with_Nil [simp]: "starts_with s []"
  by (simp add: starts_with_iff)

text \<open>\<open>s.contains(p)\<close>.\<close>

fun contains_str :: "string \<Rightarrow> string \<Rightarrow> bool" where
  "contains_str [] p = (p = [])"
| "contains_str (x # xs) p = (starts_with (x # xs) p \<or> contains_str xs p)"

lemma contains_str_iff: "contains_str s p \<longleftrightarrow> (\<exists>a b. s = a @ p @ b)"
proof (induction s)
  case Nil
  show ?case by auto
next
  case (Cons x xs)
  show ?case
  proof
    assume "contains_str (x # xs) p"
    then consider "starts_with (x # xs) p" | "contains_str xs p" by auto
    then show "\<exists>a b. x # xs = a @ p @ b"
    proof cases
      case 1
      then obtain r where "x # xs = [] @ p @ r" by (auto simp: starts_with_iff)
      then show ?thesis by blast
    next
      case 2
      then obtain a b where "x # xs = (x # a) @ p @ b" using Cons by auto
      then show ?thesis by blast
    qed
  next
    assume "\<exists>a b. x # xs = a @ p @ b"
    then obtain a b where ab: "x # xs = a @ p @ b" by blast
    show "contains_str (x # xs) p"
    proof (cases a)
      case Nil
      with ab have "starts_with (x # xs) p" by (simp add: starts_with_iff)
      then show ?thesis by simp
    next
      case (Cons y ys)
      with ab have "xs = ys @ p @ b" by simp
      with \<open>contains_str xs p = (\<exists>a b. xs = a @ p @ b)\<close> show ?thesis by auto
    qed
  qed
qed

text \<open>
  \<open>s.replace(pat, by)\<close> for a non-empty pattern: left to right, without overlaps. The
  program's patterns are literals, none of them empty.
\<close>

function replace_all :: "string \<Rightarrow> string \<Rightarrow> string \<Rightarrow> string" where
  "replace_all pat by s =
     (if pat = [] then s
      else (case s of [] \<Rightarrow> []
            | x # xs \<Rightarrow> (case strip_prefix pat s of
                 Some r \<Rightarrow> by @ replace_all pat by r
               | None \<Rightarrow> x # replace_all pat by xs)))"
  by pat_completeness auto
termination
  by (relation "measure (\<lambda>(pat, by, s). length s)") (auto simp: strip_prefix_Some_iff)

declare replace_all.simps [simp del]

lemma replace_all_Nil [simp]: "replace_all pat by [] = []"
  by (simp add: replace_all.simps)

lemma replace_all_hit:
  assumes "pat \<noteq> []"
  shows "replace_all pat by (pat @ r) = by @ replace_all pat by r"
proof -
  obtain x xs where x: "pat @ r = x # xs" using assms by (cases pat) auto
  have "strip_prefix pat (x # xs) = Some r" by (simp add: strip_prefix_Some_iff x)
  then show ?thesis
    unfolding x using assms by (subst replace_all.simps) simp
qed

lemma replace_all_miss:
  "pat \<noteq> [] \<Longrightarrow> strip_prefix pat (x # xs) = None \<Longrightarrow>
     replace_all pat by (x # xs) = x # replace_all pat by xs"
  by (subst replace_all.simps) simp

text \<open>A string that does not contain the pattern is left as it is.\<close>

lemma contains_str_Nil [simp]: "contains_str s []"
  by (cases s) auto

lemma replace_all_absent: "\<not> contains_str s pat \<Longrightarrow> replace_all pat by s = s"
proof (induction s)
  case Nil
  show ?case by simp
next
  case (Cons x xs)
  have "pat \<noteq> []" using Cons.prems by auto
  moreover have "strip_prefix pat (x # xs) = None"
    using Cons.prems by (simp add: starts_with_def)
  ultimately show ?case using Cons by (simp add: replace_all_miss)
qed

section \<open>White space, lines and case\<close>

definition is_ws :: "char \<Rightarrow> bool" where
  "is_ws c \<longleftrightarrow> c \<in> {CHR '' '', CHR 0x09, CHR 0x0A, CHR 0x0B, CHR 0x0C, CHR 0x0D}"

definition trim :: "string \<Rightarrow> string" where
  "trim s = rev (dropWhile is_ws (rev (dropWhile is_ws s)))"

lemma dropWhile_hd: "s = [] \<or> \<not> P (hd s) \<Longrightarrow> dropWhile P s = s"
  by (cases s) auto

lemma trim_id: "s = [] \<or> \<not> is_ws (hd s) \<and> \<not> is_ws (last s) \<Longrightarrow> trim s = s"
  by (auto simp: trim_def dropWhile_hd hd_rev)

lemma trim_no_ws: "(\<And>c. c \<in> set s \<Longrightarrow> \<not> is_ws c) \<Longrightarrow> trim s = s"
  by (rule trim_id) (metis hd_in_set last_in_set)

lemma set_trim: "set (trim s) \<subseteq> set s"
  unfolding trim_def by (auto dest!: set_dropWhileD)

text \<open>\<open>s.lines()\<close>: at every newline, a carriage return before it dropped, no empty last line.\<close>

definition strip_cr :: "string \<Rightarrow> string" where
  "strip_cr l = (if l \<noteq> [] \<and> last l = CHR 0x0D then butlast l else l)"

definition str_lines :: "string \<Rightarrow> string list" where
  "str_lines s = (let ps = split_on (CHR 0x0A) s in
     map strip_cr (butlast ps) @ (if last ps = [] then [] else [last ps]))"

text \<open>\<open>format!("{}\n", l)\<close> for each line.\<close>

definition unlines :: "string list \<Rightarrow> string" where
  "unlines ls = concat (map (\<lambda>l. l @ [CHR 0x0A]) ls)"

lemma unlines_Cons [simp]: "unlines (l # ls) = l @ CHR 0x0A # unlines ls"
  by (simp add: unlines_def)

lemma unlines_Nil [simp]: "unlines [] = []"
  by (simp add: unlines_def)

lemma unlines_append: "unlines (a @ b) = unlines a @ unlines b"
  by (simp add: unlines_def)

definition plain_line :: "string \<Rightarrow> bool" where
  "plain_line l \<longleftrightarrow> CHR 0x0A \<notin> set l \<and> CHR 0x0D \<notin> set l"

lemma split_on_unlines:
  "(\<And>l. l \<in> set ls \<Longrightarrow> CHR 0x0A \<notin> set l) \<Longrightarrow> split_on (CHR 0x0A) (unlines ls) = ls @ [[]]"
  by (induction ls) (auto simp: split_on_append)

lemma str_lines_unlines: "(\<And>l. l \<in> set ls \<Longrightarrow> plain_line l) \<Longrightarrow> str_lines (unlines ls) = ls"
proof -
  assume P: "\<And>l. l \<in> set ls \<Longrightarrow> plain_line l"
  then have "split_on (CHR 0x0A) (unlines ls) = ls @ [[]]"
    by (auto simp: plain_line_def intro!: split_on_unlines)
  moreover have "map strip_cr ls = ls"
    by (rule map_idI) (metis P strip_cr_def plain_line_def last_in_set)
  ultimately show ?thesis by (simp add: str_lines_def)
qed

definition lower_char :: "char \<Rightarrow> char" where
  "lower_char c = (let n = of_char c :: nat in
     if 65 \<le> n \<and> n \<le> 90 then char_of (n + 32) else c)"

definition to_lower :: "string \<Rightarrow> string" where
  "to_lower s = map lower_char s"

definition eq_ignore_ascii_case :: "string \<Rightarrow> string \<Rightarrow> bool" where
  "eq_ignore_ascii_case a b \<longleftrightarrow> to_lower a = to_lower b"

section \<open>Decimal numbers\<close>

definition digit_char :: "nat \<Rightarrow> char" where
  "digit_char d = char_of (48 + d)"

definition digit_val :: "char \<Rightarrow> nat option" where
  "digit_val c = (let n = of_char c :: nat in if 48 \<le> n \<and> n \<le> 57 then Some (n - 48) else None)"

lemma digit_val_char [simp]: "d < 10 \<Longrightarrow> digit_val (digit_char d) = Some d"
  by (simp add: digit_val_def digit_char_def)

text \<open>\<open>format!("{}", n)\<close> for an unsigned integer.\<close>

fun show_nat :: "nat \<Rightarrow> string" where
  "show_nat n = (if n < 10 then [digit_char n] else show_nat (n div 10) @ [digit_char (n mod 10)])"

declare show_nat.simps [simp del]

fun digits_val :: "nat \<Rightarrow> string \<Rightarrow> nat option" where
  "digits_val acc [] = Some acc"
| "digits_val acc (c # cs) =
     (case digit_val c of None \<Rightarrow> None | Some d \<Rightarrow> digits_val (10 * acc + d) cs)"

text \<open>
  \<open>s.parse::<T>()\<close> for an unsigned \<open>T\<close> with maximum \<open>m\<close>: an optional \<open>+\<close>, at
  least one digit, no other character, and no overflow.
\<close>

definition parse_unsigned :: "nat \<Rightarrow> string \<Rightarrow> nat option" where
  "parse_unsigned m s =
     (let ds = (case s of [] \<Rightarrow> [] | c # cs \<Rightarrow> if c = CHR ''+'' then cs else s) in
      if ds = [] then None
      else (case digits_val 0 ds of None \<Rightarrow> None | Some n \<Rightarrow> if n \<le> m then Some n else None))"

abbreviation u16_max :: nat where "u16_max \<equiv> 2 ^ 16 - 1"
abbreviation u32_max :: nat where "u32_max \<equiv> 2 ^ 32 - 1"
abbreviation u64_max :: nat where "u64_max \<equiv> 2 ^ 64 - 1"

text \<open>\<open>s.parse::<i64>()\<close>.\<close>

definition parse_i64 :: "string \<Rightarrow> int option" where
  "parse_i64 s =
     (case s of
        [] \<Rightarrow> None
      | c # cs \<Rightarrow>
          (if c = CHR ''-'' then
             (if cs = [] then None
              else (case digits_val 0 cs of
                      None \<Rightarrow> None
                    | Some n \<Rightarrow> if n \<le> 2 ^ 63 then Some (- int n) else None))
           else map_option int (parse_unsigned (2 ^ 63 - 1) s)))"

text \<open>\<open>format!("{}", n)\<close> for a signed integer.\<close>

definition show_int :: "int \<Rightarrow> string" where
  "show_int i = (if i < 0 then CHR ''-'' # show_nat (nat (- i)) else show_nat (nat i))"

lemma show_nat_not_Nil [simp]: "show_nat n \<noteq> []"
  by (subst show_nat.simps) simp

lemma show_nat_digits: "c \<in> set (show_nat n) \<Longrightarrow> \<exists>d < 10. c = digit_char d"
proof (induction n rule: show_nat.induct)
  case (1 n)
  show ?case
  proof (cases "n < 10")
    case True
    with 1 show ?thesis by (auto simp: show_nat.simps [of n])
  next
    case False
    then have "show_nat n = show_nat (n div 10) @ [digit_char (n mod 10)]"
      by (simp add: show_nat.simps [of n])
    with 1 False show ?thesis by (auto intro: exI [of _ "n mod 10"])
  qed
qed

lemma show_nat_avoids: "digit_val c = None \<Longrightarrow> c \<notin> set (show_nat n)"
  using show_nat_digits digit_val_char by fastforce

lemma digits_val_snoc:
  "digits_val acc (xs @ [c]) =
     (case digits_val acc xs of None \<Rightarrow> None
      | Some v \<Rightarrow> map_option (\<lambda>d. 10 * v + d) (digit_val c))"
  by (induction xs arbitrary: acc) (auto split: option.splits)

lemma digits_val_show_nat: "digits_val 0 (show_nat n) = Some n"
proof (induction n rule: show_nat.induct)
  case (1 n)
  show ?case
  proof (cases "n < 10")
    case True
    then show ?thesis by (subst show_nat.simps) simp
  next
    case False
    with 1 have "digits_val 0 (show_nat (n div 10)) = Some (n div 10)" by simp
    with False show ?thesis by (subst show_nat.simps) (simp add: digits_val_snoc)
  qed
qed

lemma parse_show_nat [simp]: "n \<le> m \<Longrightarrow> parse_unsigned m (show_nat n) = Some n"
proof -
  assume "n \<le> m"
  moreover obtain c cs where c: "show_nat n = c # cs"
    using show_nat_not_Nil by (metis neq_Nil_conv)
  moreover have "c \<noteq> CHR ''+''"
    using show_nat_avoids [of "CHR ''+''" n] c by (auto simp: digit_val_def)
  ultimately show ?thesis
    using digits_val_show_nat [of n] by (auto simp: parse_unsigned_def)
qed

lemma parse_unsigned_bound: "parse_unsigned m s = Some n \<Longrightarrow> n \<le> m"
  by (auto simp: parse_unsigned_def Let_def split: if_splits option.splits)

lemma parse_show_int:
  assumes "- (2 ^ 63) \<le> i" and "i < 2 ^ 63"
  shows "parse_i64 (show_int i) = Some i"
proof (cases "i < 0")
  case True
  then have "nat (- i) \<le> 2 ^ 63" using assms by simp
  with True show ?thesis
    using digits_val_show_nat [of "nat (- i)"] by (simp add: parse_i64_def show_int_def)
next
  case False
  obtain c cs where c: "show_nat (nat i) = c # cs"
    using show_nat_not_Nil by (metis neq_Nil_conv)
  have "c \<noteq> CHR ''-''"
    using show_nat_avoids [of "CHR ''-''" "nat i"] c by (auto simp: digit_val_def)
  moreover have "parse_unsigned (2 ^ 63 - 1) (show_nat (nat i)) = Some (nat i)"
    using assms by (intro parse_show_nat) simp
  ultimately show ?thesis
    using False c by (simp add: parse_i64_def show_int_def)
qed

section \<open>The contract of a printed key\<close>

locale codec =
  fixes enc :: "'a \<Rightarrow> string"
    and dec :: "string \<Rightarrow> 'a option"
    and dom :: "'a \<Rightarrow> bool"
  assumes dec_enc: "dom x \<Longrightarrow> dec (enc x) = Some x"
begin

lemma enc_inj: "dom x \<Longrightarrow> dom y \<Longrightarrow> enc x = enc y \<Longrightarrow> x = y"
  by (metis dec_enc option.inject)

lemma framed_inj: "dom x \<Longrightarrow> dom y \<Longrightarrow> pre @ enc x @ suf = pre @ enc y @ suf \<Longrightarrow> x = y"
  by (auto intro: enc_inj)

lemma framed_distinct:
  "distinct xs \<Longrightarrow> (\<And>x. x \<in> set xs \<Longrightarrow> dom x) \<Longrightarrow> distinct (map (\<lambda>x. pre @ enc x @ suf) xs)"
  by (auto simp: distinct_map inj_on_def intro: enc_inj)

end

interpretation nat_codec: codec show_nat "digits_val 0" "\<lambda>_. True"
  by unfold_locales (rule digits_val_show_nat)

interpretation i64_codec: codec show_int parse_i64 "\<lambda>i. - (2 ^ 63) \<le> i \<and> i < 2 ^ 63"
  by unfold_locales (auto intro: parse_show_int)

lemma show_nat_inject [simp]: "show_nat a = show_nat b \<longleftrightarrow> a = b"
  using nat_codec.enc_inj by blast

section \<open>Hexadecimal\<close>

definition hex_char :: "nat \<Rightarrow> char" where
  "hex_char d = (if d < 10 then char_of (48 + d) else char_of (55 + d))"

fun show_hex :: "nat \<Rightarrow> string" where
  "show_hex n = (if n < 16 then [hex_char n] else show_hex (n div 16) @ [hex_char (n mod 16)])"

declare show_hex.simps [simp del]

text \<open>\<open>format!("{:02X}", n)\<close>: at least two digits, zero padded.\<close>

definition show_hex02 :: "nat \<Rightarrow> string" where
  "show_hex02 n = (let h = show_hex n in if length h < 2 then CHR ''0'' # h else h)"

definition hex_digit_val :: "char \<Rightarrow> nat option" where
  "hex_digit_val c = (let n = of_char c :: nat in
     if 48 \<le> n \<and> n \<le> 57 then Some (n - 48)
     else if 65 \<le> n \<and> n \<le> 70 then Some (n - 55) else None)"

fun hex_val :: "nat \<Rightarrow> string \<Rightarrow> nat option" where
  "hex_val acc [] = Some acc"
| "hex_val acc (c # cs) =
     (case hex_digit_val c of None \<Rightarrow> None | Some d \<Rightarrow> hex_val (16 * acc + d) cs)"

lemma hex_digit_val_char [simp]: "d < 16 \<Longrightarrow> hex_digit_val (hex_char d) = Some d"
  by (simp add: hex_digit_val_def hex_char_def)

lemma hex_val_snoc:
  "hex_val acc (xs @ [c]) =
     (case hex_val acc xs of None \<Rightarrow> None | Some v \<Rightarrow> map_option (\<lambda>d. 16 * v + d) (hex_digit_val c))"
  by (induction xs arbitrary: acc) (auto split: option.splits)

lemma hex_val_show_hex: "hex_val 0 (show_hex n) = Some n"
proof (induction n rule: show_hex.induct)
  case (1 n)
  show ?case
  proof (cases "n < 16")
    case True
    then show ?thesis by (subst show_hex.simps) simp
  next
    case False
    with 1 have "hex_val 0 (show_hex (n div 16)) = Some (n div 16)" by simp
    with False show ?thesis by (subst show_hex.simps) (simp add: hex_val_snoc)
  qed
qed

lemma hex_val_show_hex02: "hex_val 0 (show_hex02 n) = Some n"
  using hex_val_show_hex [of n] by (simp add: show_hex02_def Let_def hex_digit_val_def)

interpretation hex_codec: codec show_hex02 "hex_val 0" "\<lambda>_. True"
  by unfold_locales (rule hex_val_show_hex02)

lemma show_hex02_inject [simp]: "show_hex02 a = show_hex02 b \<longleftrightarrow> a = b"
  using hex_codec.enc_inj by blast

section \<open>IPv4 addresses\<close>

text \<open>\<open>s.parse::<Ipv4Addr>()\<close>: four decimal octets, no leading zero, none above 255.\<close>

definition parse_octet :: "string \<Rightarrow> nat option" where
  "parse_octet p =
     (if p = [] \<or> 3 < length p \<or> (1 < length p \<and> hd p = CHR ''0'') then None
      else (case digits_val 0 p of None \<Rightarrow> None | Some n \<Rightarrow> if n \<le> 255 then Some n else None))"

definition parse_ipv4 :: "string \<Rightarrow> nat list option" where
  "parse_ipv4 s =
     (let os = map parse_octet (split_on (CHR ''.'') s) in
      if length os = 4 \<and> None \<notin> set os then Some (map the os) else None)"

lemma length_show_nat_le: "n < 1000 \<Longrightarrow> length (show_nat n) \<le> 3"
proof -
  assume "n < 1000"
  then have "n div 10 div 10 < 10" by simp
  then show ?thesis
    by (subst show_nat.simps, subst show_nat.simps, subst show_nat.simps) auto
qed

lemma hd_show_nat: "hd (show_nat n) = CHR ''0'' \<Longrightarrow> n = 0"
proof (induction n rule: show_nat.induct)
  case (1 n)
  show ?case
  proof (cases "n < 10")
    case True
    then have "hd (show_nat n) = digit_char n" by (subst show_nat.simps) simp
    with 1 have "digit_val (digit_char n) = digit_val (CHR ''0'')" by simp
    with True show ?thesis by (simp add: digit_val_def [of "CHR ''0''"])
  next
    case False
    then have "hd (show_nat n) = hd (show_nat (n div 10))" by (subst show_nat.simps) simp
    with 1 False show ?thesis by auto
  qed
qed

lemma parse_octet_show_nat: "parse_octet (show_nat n) = (if n \<le> 255 then Some n else None)"
proof (cases "n \<le> 255")
  case True
  have "\<not> (1 < length (show_nat n) \<and> hd (show_nat n) = CHR ''0'')"
    using hd_show_nat [of n] by (auto simp: show_nat.simps [of 0])
  with True show ?thesis
    using length_show_nat_le [of n] digits_val_show_nat [of n] by (auto simp: parse_octet_def)
next
  case False
  then show ?thesis using digits_val_show_nat [of n] by (simp add: parse_octet_def)
qed

lemma dot_not_digit [simp]: "CHR ''.'' \<notin> set (show_nat n)"
  by (rule show_nat_avoids) (simp add: digit_val_def)

end
