(* ===== verification/Json.thy ===== *)
theory Json
  imports Rust_Strings "HOL-Library.Char_ord" "HOL-Library.List_Lexorder"
begin

text \<open>
  JSON values as the program builds and reads them. An object is \<open>serde_json\<close>'s default map,
  a \<open>BTreeMap\<close>: an association list sorted by key. The contract \<open>kv_store\<close> says what a
  map promises after insertions; it is interpreted for the sorted list and for the function a
  \<open>HashMap\<close> stands for. The readers of fields follow what \<open>derive(Deserialize)\<close> does for
  the field types the program uses. The textual form of a value is the package's own business.
\<close>

section \<open>The contract of a map\<close>

locale kv_store =
  fixes empty :: "'m"
    and ins :: "'k \<Rightarrow> 'v \<Rightarrow> 'm \<Rightarrow> 'm"
    and get :: "'m \<Rightarrow> 'k \<Rightarrow> 'v option"
    and ok :: "'m \<Rightarrow> bool"
  assumes ok_empty: "ok empty"
    and get_empty: "get empty k = None"
    and ok_ins: "ok m \<Longrightarrow> ok (ins k v m)"
    and get_ins: "ok m \<Longrightarrow> get (ins k v m) k' = (if k = k' then Some v else get m k')"
begin

definition insert_all :: "('k \<times> 'v) list \<Rightarrow> 'm \<Rightarrow> 'm" where
  "insert_all kvs m = fold (\<lambda>(k, v). ins k v) kvs m"

lemma insert_all_simps [simp]:
  "insert_all [] m = m"
  "insert_all ((k, v) # kvs) m = insert_all kvs (ins k v m)"
  by (simp_all add: insert_all_def)

lemma ok_insert_all: "ok m \<Longrightarrow> ok (insert_all kvs m)"
  by (induction kvs arbitrary: m) (auto simp: ok_ins)

text \<open>The last insertion of a key wins.\<close>

lemma get_insert_all:
  "ok m \<Longrightarrow> get (insert_all kvs m) k = (case map_of (rev kvs) k of Some v \<Rightarrow> Some v | None \<Rightarrow> get m k)"
  by (induction kvs arbitrary: m) (auto simp: ok_ins get_ins map_add_def split: option.splits)

lemma get_insert_all_empty: "get (insert_all kvs empty) k = map_of (rev kvs) k"
  by (simp add: get_insert_all ok_empty get_empty split: option.splits)

end

section \<open>Sorted association lists\<close>

fun sm_insert :: "'k::linorder \<Rightarrow> 'v \<Rightarrow> ('k \<times> 'v) list \<Rightarrow> ('k \<times> 'v) list" where
  "sm_insert k v [] = [(k, v)]"
| "sm_insert k v ((k', v') # m) =
     (if k = k' then (k, v) # m
      else if k < k' then (k, v) # (k', v') # m
      else (k', v') # sm_insert k v m)"

definition sm_ok :: "('k::linorder \<times> 'v) list \<Rightarrow> bool" where
  "sm_ok m \<longleftrightarrow> sorted_wrt (<) (map fst m)"

lemma fst_sm_insert: "fst ` set (sm_insert k v m) = insert k (fst ` set m)"
  by (induction k v m rule: sm_insert.induct) auto

lemma sm_ok_insert: "sm_ok m \<Longrightarrow> sm_ok (sm_insert k v m)"
proof (induction k v m rule: sm_insert.induct)
  case (2 k v k' v' m)
  have "set (map fst (sm_insert k v m)) = insert k (set (map fst m))"
    using fst_sm_insert [of k v m] by simp
  with 2 show ?case by (auto simp: sm_ok_def)
qed (simp add: sm_ok_def)

lemma map_of_sm_insert: "map_of (sm_insert k v m) k' = (if k = k' then Some v else map_of m k')"
  by (induction k v m rule: sm_insert.induct) auto

interpretation sorted_map: kv_store "[]" sm_insert map_of sm_ok
  by unfold_locales (auto simp: sm_ok_insert map_of_sm_insert, simp add: sm_ok_def)

interpretation hash_map: kv_store "Map.empty" "\<lambda>k v m. m(k \<mapsto> v)" "\<lambda>m. m" "\<lambda>_. True"
  by unfold_locales auto

section \<open>Values\<close>

datatype json =
    JNull | JBool bool | JNum int | JStr string | JArr "json list" | JObj "(string \<times> json) list"

text \<open>\<open>serde_json::Map::insert\<close>, and \<open>json!({...})\<close> with its fields in source order.\<close>

definition obj_of :: "(string \<times> json) list \<Rightarrow> (string \<times> json) list" where
  "obj_of kvs = fold (\<lambda>(k, v). sm_insert k v) kvs []"

definition json_obj :: "(string \<times> json) list \<Rightarrow> json" where
  "json_obj kvs = JObj (obj_of kvs)"

text \<open>\<open>value[key] = x\<close> on an object.\<close>

fun json_set :: "string \<Rightarrow> json \<Rightarrow> json \<Rightarrow> json" where
  "json_set k x (JObj m) = JObj (sm_insert k x m)"
| "json_set k x j = j"

fun json_get :: "json \<Rightarrow> string \<Rightarrow> json option" where
  "json_get (JObj m) k = map_of m k"
| "json_get _ k = None"

lemma map_of_obj_of [simp]: "map_of (obj_of kvs) k = map_of (rev kvs) k"
  using sorted_map.get_insert_all_empty [of kvs k]
  by (simp add: obj_of_def sorted_map.insert_all_def)

lemma json_get_obj [simp]: "json_get (json_obj kvs) k = map_of (rev kvs) k"
  by (simp add: json_obj_def)

lemma json_get_set_obj:
  "json_get (json_set k x (JObj m)) k' = (if k = k' then Some x else json_get (JObj m) k')"
  by (simp add: map_of_sm_insert)

section \<open>Reading fields\<close>

fun as_str :: "json \<Rightarrow> string option" where
  "as_str (JStr s) = Some s"
| "as_str _ = None"

fun as_bool :: "json \<Rightarrow> bool option" where
  "as_bool (JBool b) = Some b"
| "as_bool _ = None"

fun as_arr :: "json \<Rightarrow> json list option" where
  "as_arr (JArr xs) = Some xs"
| "as_arr _ = None"

fun as_u64 :: "json \<Rightarrow> nat option" where
  "as_u64 (JNum i) = (if 0 \<le> i \<and> i \<le> int u64_max then Some (nat i) else None)"
| "as_u64 _ = None"

fun as_i32 :: "json \<Rightarrow> int option" where
  "as_i32 (JNum i) = (if - (2 ^ 31) \<le> i \<and> i < 2 ^ 31 then Some i else None)"
| "as_i32 _ = None"

text \<open>\<open>obind\<close> sequences readers; \<open>all_some\<close> reads every element of an array.\<close>

fun obind :: "'a option \<Rightarrow> ('a \<Rightarrow> 'b option) \<Rightarrow> 'b option" where
  "obind None f = None"
| "obind (Some x) f = f x"

fun all_some :: "('a \<Rightarrow> 'b option) \<Rightarrow> 'a list \<Rightarrow> 'b list option" where
  "all_some f [] = Some []"
| "all_some f (x # xs) = obind (f x) (\<lambda>y. map_option ((#) y) (all_some f xs))"

lemma obind_Some_iff [simp]: "obind m f = Some y \<longleftrightarrow> (\<exists>x. m = Some x \<and> f x = Some y)"
  by (cases m) auto

lemma all_some_map: "(\<And>x. x \<in> set xs \<Longrightarrow> f (g x) = Some (h x)) \<Longrightarrow> all_some f (map g xs) = Some (map h xs)"
  by (induction xs) auto

text \<open>A required field, an \<open>Option\<close> field (absent and null are \<open>None\<close>), a field with a default.\<close>

definition de_req :: "(json \<Rightarrow> 'a option) \<Rightarrow> string \<Rightarrow> json \<Rightarrow> 'a option" where
  "de_req rd k j = obind (json_get j k) rd"

definition de_opt :: "(json \<Rightarrow> 'a option) \<Rightarrow> string \<Rightarrow> json \<Rightarrow> 'a option option" where
  "de_opt rd k j =
     (case json_get j k of
        None \<Rightarrow> Some None
      | Some v \<Rightarrow> if v = JNull then Some None else map_option Some (rd v))"

definition de_default :: "(json \<Rightarrow> 'a option) \<Rightarrow> 'a \<Rightarrow> string \<Rightarrow> json \<Rightarrow> 'a option" where
  "de_default rd d k j = (case json_get j k of None \<Rightarrow> Some d | Some v \<Rightarrow> rd v)"

definition is_obj :: "json \<Rightarrow> bool" where
  "is_obj j \<longleftrightarrow> (case j of JObj _ \<Rightarrow> True | _ \<Rightarrow> False)"

lemma is_obj_json_obj [simp]: "is_obj (json_obj kvs)"
  by (simp add: is_obj_def json_obj_def)

end
