(* ===== verification/Github.thy ===== *)
theory Github
  imports Config Json
begin

text \<open>
  The GitHub client (\<open>src/src/github.rs\<close>): authentication with the installation-token cache,
  rate-limit bookkeeping, the queries, the registration requests and the two ways runners are
  deleted. The network, the clock, JWT signing and random suffixes belong to other packages: they
  are the record \<open>http_env\<close> over an abstract world. The client's own state is the token cache,
  the last rate limit seen, and, for the theorems, the list of requests sent.
\<close>

section \<open>Requests and answers\<close>

datatype http_method = GET | POST | PUT | DELETE

record http_request =
  rq_method :: http_method
  rq_url :: string
  rq_auth :: string
  rq_body :: "json option"

record http_response =
  rs_status :: nat
  rs_remaining :: "string option"
  rs_body :: "json option"

text \<open>\<open>is_success\<close> and the statuses \<open>error_for_status\<close> rejects.\<close>

definition is_success :: "http_response \<Rightarrow> bool" where
  "is_success r \<longleftrightarrow> 200 \<le> rs_status r \<and> rs_status r < 300"

definition is_error_status :: "http_response \<Rightarrow> bool" where
  "is_error_status r \<longleftrightarrow> 400 \<le> rs_status r \<and> rs_status r < 600"

text \<open>
  \<open>he_send\<close> answers a request or fails; \<open>he_now\<close> is the clock in seconds; \<open>he_sleep\<close> waits;
  \<open>he_jwt\<close> signs the claims (issued at, expiry, issuer) with the key; \<open>he_uuid8\<close> makes the
  eight-character suffix of a runner name.
\<close>

record 'w http_env =
  he_send :: "'w \<Rightarrow> http_request \<Rightarrow> http_response option \<times> 'w"
  he_now :: "'w \<Rightarrow> int"
  he_sleep :: "nat \<Rightarrow> 'w \<Rightarrow> 'w"
  he_jwt :: "string \<Rightarrow> int \<Rightarrow> int \<Rightarrow> nat \<Rightarrow> string option"
  he_uuid8 :: "'w \<Rightarrow> string \<times> 'w"

datatype auth_provider =
    Pat string
  | App (ap_id: nat) (ap_installation: nat) (ap_key: string)

record cached_token =
  ct_token :: string
  ct_expires :: int

record 'w gh_state =
  gs_world :: 'w
  gs_cache :: "cached_token option"
  gs_rate :: nat
  gs_log :: "http_request list"

record gh_client =
  gc_config :: github_config
  gc_auth :: auth_provider

datatype gh_error =
    NoAuth | KeyUnreadable string | SendFailed | BadStatus nat | BadJson | JwtFailed | NoOrganization

type_synonym ('w, 'a) gh = "('w gh_state, gh_error, 'a) op"

definition auth_from_config ::
    "(string \<Rightarrow> string option) \<Rightarrow> github_config \<Rightarrow> (gh_error, auth_provider) result" where
  "auth_from_config read_key g =
     (case gh_app g of
        Some app \<Rightarrow>
          (case read_key (private_key_path app) of
             None \<Rightarrow> Inl (KeyUnreadable (private_key_path app))
           | Some key \<Rightarrow> Inr (App (app_id app) (installation_id app) key))
      | None \<Rightarrow> (case gh_token g of Some t \<Rightarrow> Inr (Pat t) | None \<Rightarrow> Inl NoAuth))"

definition client_new ::
    "(string \<Rightarrow> string option) \<Rightarrow> 'w \<Rightarrow> github_config \<Rightarrow> (gh_error, gh_client \<times> 'w gh_state) result" where
  "client_new read_key w g =
     bindE (auth_from_config read_key g) (\<lambda>a.
       Inr (\<lparr>gc_config = g, gc_auth = a\<rparr>,
            \<lparr>gs_world = w, gs_cache = None, gs_rate = 5000, gs_log = []\<rparr>))"

section \<open>Sending\<close>

definition gh_send :: "'w http_env \<Rightarrow> http_request \<Rightarrow> ('w, http_response) gh" where
  "gh_send env rq s =
     (let (r, w) = he_send env (gs_world s) rq in
      (ok_or r SendFailed, s\<lparr>gs_world := w, gs_log := gs_log s @ [rq]\<rparr>))"

definition read_token :: "json option \<Rightarrow> (gh_error, string) result" where
  "read_token b = ok_or (obind b (de_req as_str ''token'')) BadJson"

definition exchange_installation_token ::
    "'w http_env \<Rightarrow> nat \<Rightarrow> nat \<Rightarrow> string \<Rightarrow> ('w, string) gh" where
  "exchange_installation_token env aid inst key s =
     (let now = he_now env (gs_world s) in
      case he_jwt env key (now - 60) (now + 600) aid of
        None \<Rightarrow> (Inl JwtFailed, s)
      | Some jwt \<Rightarrow>
          op_bind (gh_send env
              \<lparr>rq_method = POST,
               rq_url = ''https://api.github.com/app/installations/'' @ show_nat inst @ ''/access_tokens'',
               rq_auth = jwt, rq_body = None\<rparr>)
            (\<lambda>r. if is_success r then op_lift (read_token (rs_body r)) else op_fail (BadStatus (rs_status r))) s)"

text \<open>The cached installation token is used until five minutes before its expiry.\<close>

definition cache_valid :: "int \<Rightarrow> cached_token \<Rightarrow> bool" where
  "cache_valid now ct \<longleftrightarrow> now + 300 < ct_expires ct"

definition store_token :: "'w http_env \<Rightarrow> string \<Rightarrow> ('w, string) gh" where
  "store_token env t s =
     (Inr t, s\<lparr>gs_cache := Some \<lparr>ct_token = t, ct_expires = he_now env (gs_world s) + 3300\<rparr>\<rparr>)"

definition get_token :: "'w http_env \<Rightarrow> auth_provider \<Rightarrow> ('w, string) gh" where
  "get_token env a s =
     (case a of
        Pat t \<Rightarrow> (Inr t, s)
      | App aid inst key \<Rightarrow>
          (case gs_cache s of
             Some ct \<Rightarrow>
               if cache_valid (he_now env (gs_world s)) ct then (Inr (ct_token ct), s)
               else op_bind (exchange_installation_token env aid inst key) (store_token env) s
           | None \<Rightarrow> op_bind (exchange_installation_token env aid inst key) (store_token env) s))"

definition gh_request ::
    "'w http_env \<Rightarrow> gh_client \<Rightarrow> http_method \<Rightarrow> string \<Rightarrow> json option \<Rightarrow> ('w, http_response) gh" where
  "gh_request env c meth url body =
     op_bind (get_token env (gc_auth c)) (\<lambda>t.
       gh_send env \<lparr>rq_method = meth, rq_url = url, rq_auth = t, rq_body = body\<rparr>)"

definition check_rate_limit :: "'w http_env \<Rightarrow> http_response \<Rightarrow> 'w gh_state \<Rightarrow> 'w gh_state" where
  "check_rate_limit env r s =
     (case obind (rs_remaining r) (parse_unsigned u32_max) of
        None \<Rightarrow> s
      | Some n \<Rightarrow>
          (let s' = s\<lparr>gs_rate := n\<rparr> in
           if n < 10 then s'\<lparr>gs_world := he_sleep env 60 (gs_world s')\<rparr> else s'))"

text \<open>The three ways an answer is read: \<open>error_for_status\<close> and \<open>is_success\<close> differ on redirects.\<close>

definition gh_query ::
    "'w http_env \<Rightarrow> gh_client \<Rightarrow> string \<Rightarrow> (json \<Rightarrow> 'a option) \<Rightarrow> ('w, 'a) gh" where
  "gh_query env c url rd =
     op_bind (gh_request env c GET url None) (\<lambda>r.
     op_seq (op_modify (check_rate_limit env r))
       (if is_error_status r then op_fail (BadStatus (rs_status r))
        else op_lift (ok_or (obind (rs_body r) rd) BadJson)))"

definition gh_post ::
    "'w http_env \<Rightarrow> gh_client \<Rightarrow> string \<Rightarrow> json option \<Rightarrow> (json \<Rightarrow> 'a option) \<Rightarrow> ('w, 'a) gh" where
  "gh_post env c url body rd =
     op_bind (gh_request env c POST url body) (\<lambda>r.
     op_seq (op_modify (check_rate_limit env r))
       (if is_success r then op_lift (ok_or (obind (rs_body r) rd) BadJson)
        else op_fail (BadStatus (rs_status r))))"

section \<open>URLs\<close>

definition repo_url :: "gh_client \<Rightarrow> string \<Rightarrow> string" where
  "repo_url c r = ''https://api.github.com/repos/'' @ gh_owner (gc_config c) @ ''/'' @ r"

definition org_url :: "gh_client \<Rightarrow> string option" where
  "org_url c = map_option (\<lambda>o'. ''https://api.github.com/orgs/'' @ o') (organization (gc_config c))"

text \<open>The address of one runner of a repository or an organization.\<close>

definition runner_url :: "string \<Rightarrow> nat \<Rightarrow> string" where
  "runner_url base i = base @ ''/actions/runners/'' @ show_nat i"

definition is_org_mode :: "gh_client \<Rightarrow> bool" where
  "is_org_mode c \<longleftrightarrow> organization (gc_config c) \<noteq> None"

definition client_repos :: "gh_client \<Rightarrow> string list" where
  "client_repos c = all_repos (gc_config c)"

section \<open>Answers\<close>

record workflow_run =
  run_id :: nat

record gh_job =
  jb_id :: nat
  jb_run_id :: nat
  jb_labels :: "string list"

record gh_runner =
  rn_id :: nat
  rn_name :: string
  rn_status :: string
  rn_busy :: bool

definition de_vec :: "(json \<Rightarrow> 'a option) \<Rightarrow> string \<Rightarrow> json \<Rightarrow> 'a list option" where
  "de_vec rd k j = de_req (\<lambda>v. obind (as_arr v) (all_some rd)) k j"

definition de_run :: "json \<Rightarrow> workflow_run option" where
  "de_run j = obind (de_req as_u64 ''id'' j) (\<lambda>i. Some \<lparr>run_id = i\<rparr>)"

definition de_runs_response :: "json \<Rightarrow> workflow_run list option" where
  "de_runs_response j = de_vec de_run ''workflow_runs'' j"

definition de_job :: "json \<Rightarrow> gh_job option" where
  "de_job j =
     obind (de_req as_u64 ''id'' j) (\<lambda>i.
     obind (de_req as_u64 ''run_id'' j) (\<lambda>r.
     obind (de_vec as_str ''labels'' j) (\<lambda>ls.
     Some \<lparr>jb_id = i, jb_run_id = r, jb_labels = ls\<rparr>)))"

definition de_jobs_response :: "json \<Rightarrow> gh_job list option" where
  "de_jobs_response j = de_vec de_job ''jobs'' j"

definition de_jit_response :: "json \<Rightarrow> string option" where
  "de_jit_response j = de_req as_str ''encoded_jit_config'' j"

definition de_runner :: "json \<Rightarrow> gh_runner option" where
  "de_runner j =
     obind (de_req as_u64 ''id'' j) (\<lambda>i.
     obind (de_req as_str ''name'' j) (\<lambda>n.
     obind (de_req as_str ''status'' j) (\<lambda>st.
     obind (de_default as_bool False ''busy'' j) (\<lambda>b.
     Some \<lparr>rn_id = i, rn_name = n, rn_status = st, rn_busy = b\<rparr>))))"

definition de_runners_response :: "json \<Rightarrow> gh_runner list option" where
  "de_runners_response j = de_vec de_runner ''runners'' j"

section \<open>Operations\<close>

definition list_queued_runs :: "'w http_env \<Rightarrow> gh_client \<Rightarrow> string \<Rightarrow> ('w, workflow_run list) gh" where
  "list_queued_runs env c repo =
     gh_query env c (repo_url c repo @ ''/actions/runs?status=queued'') de_runs_response"

definition list_queued_jobs :: "'w http_env \<Rightarrow> gh_client \<Rightarrow> string \<Rightarrow> nat \<Rightarrow> ('w, gh_job list) gh" where
  "list_queued_jobs env c repo rid =
     gh_query env c (repo_url c repo @ ''/actions/runs/'' @ show_nat rid @ ''/jobs?filter=queued'')
       de_jobs_response"

definition generate_registration_token :: "'w http_env \<Rightarrow> gh_client \<Rightarrow> string \<Rightarrow> ('w, string) gh" where
  "generate_registration_token env c repo =
     gh_post env c (repo_url c repo @ ''/actions/runners/registration-token'') None (de_req as_str ''token'')"

definition list_runners :: "'w http_env \<Rightarrow> gh_client \<Rightarrow> string \<Rightarrow> ('w, gh_runner list) gh" where
  "list_runners env c repo =
     gh_query env c (repo_url c repo @ ''/actions/runners?per_page=100'') de_runners_response"

definition delete_runner :: "'w http_env \<Rightarrow> gh_client \<Rightarrow> string \<Rightarrow> nat \<Rightarrow> ('w, unit) gh" where
  "delete_runner env c repo i =
     op_bind (gh_request env c DELETE (runner_url (repo_url c repo) i) None) (\<lambda>r.
     op_seq (op_modify (check_rate_limit env r))
       (if is_success r then op_ret () else op_fail (BadStatus (rs_status r))))"

text \<open>The first runner of the listing with the name is deleted; failures are only logged.\<close>

definition delete_runner_by_name ::
    "'w http_env \<Rightarrow> gh_client \<Rightarrow> string \<Rightarrow> string \<Rightarrow> 'w gh_state \<Rightarrow> 'w gh_state" where
  "delete_runner_by_name env c repo name s =
     (case list_runners env c repo s of
        (Inl e, s') \<Rightarrow> s'
      | (Inr rs, s') \<Rightarrow>
          (case find (\<lambda>r. rn_name r = name) rs of
             None \<Rightarrow> s'
           | Some r \<Rightarrow> snd (delete_runner env c repo (rn_id r) s')))"

definition stale_runner :: "gh_runner \<Rightarrow> bool" where
  "stale_runner r \<longleftrightarrow> starts_with (rn_name r) ''fc-'' \<and> rn_status r = ''offline''"

fun delete_stale ::
    "(nat \<Rightarrow> 'w gh_state \<Rightarrow> 'w gh_state) \<Rightarrow> gh_runner list \<Rightarrow> 'w gh_state \<Rightarrow> 'w gh_state" where
  "delete_stale del [] s = s"
| "delete_stale del (r # rs) s =
     delete_stale del rs (if stale_runner r then del (rn_id r) s else s)"

definition remove_offline_runners :: "'w http_env \<Rightarrow> gh_client \<Rightarrow> string \<Rightarrow> 'w gh_state \<Rightarrow> 'w gh_state" where
  "remove_offline_runners env c repo s =
     (case list_runners env c repo s of
        (Inl e, s') \<Rightarrow> s'
      | (Inr rs, s') \<Rightarrow> delete_stale (\<lambda>i s. snd (delete_runner env c repo i s)) rs s')"

text \<open>The body both JIT requests carry: a runner named after the job.\<close>

definition jit_body :: "gh_client \<Rightarrow> nat \<Rightarrow> string \<Rightarrow> json" where
  "jit_body c job u =
     json_obj
       [(''name'', JStr (''fc-'' @ show_nat job @ ''-'' @ u)),
        (''runner_group_id'', JNum (int (runner_group_id (gc_config c)))),
        (''labels'', JArr (map JStr (gh_labels (gc_config c)))),
        (''work_folder'', JStr ''_work'')]"

definition fresh_uuid8 :: "'w http_env \<Rightarrow> ('w, string) gh" where
  "fresh_uuid8 env s = (let (u, w) = he_uuid8 env (gs_world s) in (Inr u, s\<lparr>gs_world := w\<rparr>))"

definition generate_repo_jit_config :: "'w http_env \<Rightarrow> gh_client \<Rightarrow> string \<Rightarrow> nat \<Rightarrow> ('w, string) gh" where
  "generate_repo_jit_config env c repo job =
     op_bind (fresh_uuid8 env) (\<lambda>u.
       gh_post env c (repo_url c repo @ ''/actions/runners/generate-jitconfig'')
         (Some (jit_body c job u)) de_jit_response)"

definition generate_org_jit_config :: "'w http_env \<Rightarrow> gh_client \<Rightarrow> string \<Rightarrow> nat \<Rightarrow> ('w, string) gh" where
  "generate_org_jit_config env c ourl job =
     op_bind (fresh_uuid8 env) (\<lambda>u.
       gh_post env c (ourl @ ''/actions/runners/generate-jitconfig'')
         (Some (jit_body c job u)) de_jit_response)"

text \<open>
  \<open>expect("org mode checked by caller")\<close> cannot fail here: the organization URL is the one of
  the branch taken.
\<close>

definition generate_jit_config :: "'w http_env \<Rightarrow> gh_client \<Rightarrow> string \<Rightarrow> nat \<Rightarrow> ('w, string) gh" where
  "generate_jit_config env c repo job =
     (case org_url c of
        Some ourl \<Rightarrow> generate_org_jit_config env c ourl job
      | None \<Rightarrow> generate_repo_jit_config env c repo job)"

definition generate_org_registration_token :: "'w http_env \<Rightarrow> gh_client \<Rightarrow> string \<Rightarrow> ('w, string) gh" where
  "generate_org_registration_token env c ourl =
     gh_post env c (ourl @ ''/actions/runners/registration-token'') None (de_req as_str ''token'')"

definition list_org_runners :: "'w http_env \<Rightarrow> gh_client \<Rightarrow> ('w, gh_runner list) gh" where
  "list_org_runners env c =
     (case org_url c of
        None \<Rightarrow> op_fail NoOrganization
      | Some ourl \<Rightarrow> gh_query env c (ourl @ ''/actions/runners?per_page=100'') de_runners_response)"

text \<open>An org-level deletion is sent without looking at the rate limit.\<close>

definition delete_org_runner :: "'w http_env \<Rightarrow> gh_client \<Rightarrow> string \<Rightarrow> nat \<Rightarrow> 'w gh_state \<Rightarrow> 'w gh_state" where
  "delete_org_runner env c ourl i s =
     snd (gh_request env c DELETE (runner_url ourl i) None s)"

definition delete_org_runner_by_name ::
    "'w http_env \<Rightarrow> gh_client \<Rightarrow> string \<Rightarrow> 'w gh_state \<Rightarrow> 'w gh_state" where
  "delete_org_runner_by_name env c name s =
     (case list_org_runners env c s of
        (Inl e, s') \<Rightarrow> s'
      | (Inr rs, s') \<Rightarrow>
          (case find (\<lambda>r. rn_name r = name) rs of
             None \<Rightarrow> s'
           | Some r \<Rightarrow>
               (case org_url c of
                  None \<Rightarrow> s'
                | Some ourl \<Rightarrow> delete_org_runner env c ourl (rn_id r) s')))"

text \<open>The listing of the org clean-up is used whatever its status, as long as it parses.\<close>

definition remove_org_offline_runners :: "'w http_env \<Rightarrow> gh_client \<Rightarrow> 'w gh_state \<Rightarrow> 'w gh_state" where
  "remove_org_offline_runners env c s =
     (case org_url c of
        None \<Rightarrow> s
      | Some ourl \<Rightarrow>
          (case gh_request env c GET (ourl @ ''/actions/runners?per_page=100'') None s of
             (Inl e, s') \<Rightarrow> s'
           | (Inr r, s') \<Rightarrow>
               (let s'' = check_rate_limit env r s' in
                case obind (rs_body r) de_runners_response of
                  None \<Rightarrow> s''
                | Some rs \<Rightarrow> delete_stale (delete_org_runner env c ourl) rs s'')))"

section \<open>What is sent\<close>

definition delete_request :: "gh_client \<Rightarrow> string \<Rightarrow> string \<Rightarrow> nat \<Rightarrow> http_request" where
  "delete_request c t base i =
     \<lparr>rq_method = DELETE, rq_url = runner_url base i, rq_auth = t, rq_body = None\<rparr>"

lemma check_rate_limit_log [simp]: "gs_log (check_rate_limit env r s) = gs_log s"
  by (simp add: check_rate_limit_def Let_def split: option.splits)

lemma check_rate_limit_cache [simp]: "gs_cache (check_rate_limit env r s) = gs_cache s"
  by (simp add: check_rate_limit_def Let_def split: option.splits)

lemma gh_send_log [simp]: "gs_log (snd (gh_send env rq s)) = gs_log s @ [rq]"
  by (simp add: gh_send_def split: prod.splits)

lemma gh_send_logD: "gh_send env rq s = (r, s') \<Longrightarrow> gs_log s' = gs_log s @ [rq]"
  using gh_send_log [of env rq s] by simp

lemma get_token_pat [simp]: "get_token env (Pat t) = op_ret t"
  by (rule ext) (simp add: get_token_def op_simps)

lemma gh_request_pat:
  "gc_auth c = Pat t \<Longrightarrow>
     gh_request env c m u b = gh_send env \<lparr>rq_method = m, rq_url = u, rq_auth = t, rq_body = b\<rparr>"
  by (simp add: gh_request_def)

lemma gh_query_pat_log:
  assumes "gc_auth c = Pat t"
  shows "gs_log (snd (gh_query env c u rd s)) =
    gs_log s @ [\<lparr>rq_method = GET, rq_url = u, rq_auth = t, rq_body = None\<rparr>]"
  by (auto simp: gh_query_def gh_request_pat [OF assms] op_simps dest!: gh_send_logD split: sum.splits prod.splits)

lemma delete_runner_pat_log:
  assumes "gc_auth c = Pat t"
  shows "gs_log (snd (delete_runner env c repo i s)) = gs_log s @ [delete_request c t (repo_url c repo) i]"
  by (auto simp: delete_runner_def gh_request_pat [OF assms] delete_request_def op_simps
      dest!: gh_send_logD split: sum.splits prod.splits)

lemma delete_org_runner_pat_log:
  assumes "gc_auth c = Pat t"
  shows "gs_log (delete_org_runner env c ourl i s) = gs_log s @ [delete_request c t ourl i]"
  by (simp add: delete_org_runner_def gh_request_pat [OF assms] delete_request_def)

lemma delete_stale_log:
  assumes "\<And>i s. gs_log (del i s) = gs_log s @ [rq i]"
  shows "gs_log (delete_stale del rs s) = gs_log s @ map (\<lambda>r. rq (rn_id r)) (filter stale_runner rs)"
  by (induction rs arbitrary: s) (simp_all add: assms)

section \<open>Properties\<close>

text \<open>the clean-up of a repository sends, after its listing, one deletion for each listed runner
  whose name starts with \<open>fc-\<close> and whose status is offline, in the listing's order, and nothing
  else; a deletion that fails does not stop the others.\<close>

theorem remove_offline_runners_log:
  assumes "gc_auth c = Pat t" and "list_runners env c repo s = (Inr rs, s1)"
  shows "gs_log (remove_offline_runners env c repo s) =
    gs_log s
    @ [\<lparr>rq_method = GET, rq_url = repo_url c repo @ ''/actions/runners?per_page=100'', rq_auth = t, rq_body = None\<rparr>]
    @ map (\<lambda>r. delete_request c t (repo_url c repo) (rn_id r)) (filter stale_runner rs)"
proof -
  have "gs_log s1 = gs_log s
      @ [\<lparr>rq_method = GET, rq_url = repo_url c repo @ ''/actions/runners?per_page=100'', rq_auth = t, rq_body = None\<rparr>]"
    using gh_query_pat_log [OF assms(1), of env "repo_url c repo @ ''/actions/runners?per_page=100''" de_runners_response s]
      assms(2) by (simp add: list_runners_def)
  then show ?thesis
    using assms(2) delete_stale_log [of "\<lambda>i s. snd (delete_runner env c repo i s)"
        "delete_request c t (repo_url c repo)", OF delete_runner_pat_log [OF assms(1)]]
    by (simp add: remove_offline_runners_def)
qed

text \<open>A server that lists two runners and refuses every other request, for the witnesses.\<close>

definition demo_env :: "unit http_env" where
  "demo_env =
     \<lparr>he_send = (\<lambda>w rq. (Some
         (if rq_method rq = GET then
            \<lparr>rs_status = 200, rs_remaining = Some ''4999'',
             rs_body = Some (json_obj [(''runners'', JArr
               [json_obj [(''id'', JNum 7), (''name'', JStr ''fc-5-abcd1234''), (''status'', JStr ''offline'')],
                json_obj [(''id'', JNum 8), (''name'', JStr ''other''), (''status'', JStr ''offline'')]])])\<rparr>
          else \<lparr>rs_status = 500, rs_remaining = None, rs_body = None\<rparr>), w)),
      he_now = (\<lambda>w. 0), he_sleep = (\<lambda>n w. w), he_jwt = (\<lambda>k a b n. Some ''jwt''), he_uuid8 = (\<lambda>w. (''abcd1234'', w))\<rparr>"

definition demo_github :: github_config where
  "demo_github =
     \<lparr>gh_token = Some ''tok'', gh_owner = ''org'', organization = None, gh_repo = Some ''app'',
      gh_repos = [], runner_group_id = 1, gh_labels = default_labels, gh_app = None\<rparr>"

definition demo_client :: gh_client where
  "demo_client = \<lparr>gc_config = demo_github, gc_auth = Pat ''tok''\<rparr>"

definition demo_state :: "unit gh_state" where
  "demo_state = \<lparr>gs_world = (), gs_cache = None, gs_rate = 5000, gs_log = []\<rparr>"

lemma demo_listing:
  "fst (list_runners demo_env demo_client ''app'' demo_state) =
     Inr [\<lparr>rn_id = 7, rn_name = ''fc-5-abcd1234'', rn_status = ''offline'', rn_busy = False\<rparr>,
          \<lparr>rn_id = 8, rn_name = ''other'', rn_status = ''offline'', rn_busy = False\<rparr>]"
  by (simp add: list_runners_def gh_query_def gh_request_def demo_client_def demo_env_def op_simps
      gh_send_def is_error_status_def de_runners_response_def de_vec_def de_runner_def de_req_def
      de_default_def Let_def)

theorem remove_offline_runners_log_witness:
  "length (gs_log (remove_offline_runners demo_env demo_client ''app'' demo_state)) = 2"
proof -
  obtain rs s1 where l: "list_runners demo_env demo_client ''app'' demo_state = (rs, s1)" by (metis surj_pair)
  then have "rs = Inr [\<lparr>rn_id = 7, rn_name = ''fc-5-abcd1234'', rn_status = ''offline'', rn_busy = False\<rparr>,
      \<lparr>rn_id = 8, rn_name = ''other'', rn_status = ''offline'', rn_busy = False\<rparr>]"
    using demo_listing by simp
  with l show ?thesis
    using remove_offline_runners_log [of demo_client "''tok''" demo_env "''app''" demo_state]
    by (simp add: demo_client_def stale_runner_def starts_with_def demo_state_def)
qed

text \<open>the clean-up takes no account of jobs in flight. A runner that \<open>generate_jit_config\<close> has
  just registered, under the name it puts in the request, is offline until its VM has booted; a
  clean-up in that window, which every finishing job runs, sends the deletion of that runner.\<close>

theorem cleanup_deletes_waiting_jit_runner:
  assumes "gc_auth c = Pat t" and "list_runners env c repo s = (Inr rs, s1)" and "r \<in> set rs"
    and "json_get (jit_body c job u) ''name'' = Some (JStr (rn_name r))" and "rn_status r = ''offline''"
  shows "delete_request c t (repo_url c repo) (rn_id r) \<in> set (gs_log (remove_offline_runners env c repo s))"
proof -
  have "rn_name r = ''fc-'' @ show_nat job @ ''-'' @ u"
    using assms(4) by (simp add: jit_body_def)
  then have "stale_runner r"
    using assms(5) by (simp add: stale_runner_def starts_with_def)
  then show ?thesis
    using assms(3) delete_stale_log [of "\<lambda>i s. snd (delete_runner env c repo i s)"
        "delete_request c t (repo_url c repo)" rs s1, OF delete_runner_pat_log [OF assms(1)]]
    by (simp add: remove_offline_runners_def assms(2))
qed

theorem cleanup_deletes_waiting_jit_runner_witness:
  "delete_request demo_client ''tok'' (repo_url demo_client ''app'') 7
     \<in> set (gs_log (remove_offline_runners demo_env demo_client ''app'' demo_state))"
proof -
  obtain rs s1 where l: "list_runners demo_env demo_client ''app'' demo_state = (rs, s1)" by (metis surj_pair)
  then have rs: "rs = Inr [\<lparr>rn_id = 7, rn_name = ''fc-5-abcd1234'', rn_status = ''offline'', rn_busy = False\<rparr>,
      \<lparr>rn_id = 8, rn_name = ''other'', rn_status = ''offline'', rn_busy = False\<rparr>]"
    using demo_listing by simp
  have "show_nat 5 = ''5''" by (simp add: show_nat.simps digit_char_def char_of_eq_iff)
  then show ?thesis
    using cleanup_deletes_waiting_jit_runner [OF _ l [unfolded rs], of "''tok''"
        "\<lparr>rn_id = 7, rn_name = ''fc-5-abcd1234'', rn_status = ''offline'', rn_busy = False\<rparr>" 5 "''abcd1234''"]
    by (simp add: demo_client_def jit_body_def)
qed

text \<open>an installation token that has been exchanged is used again, without any request, for 50
  minutes by the clock; after that the next call exchanges a new one.\<close>

theorem installation_token_reused:
  assumes "gs_cache s = None" and "get_token env (App a i k) s = (Inr t, s1)" and "gs_cache s2 = gs_cache s1"
  shows "get_token env (App a i k) s2 =
    (if he_now env (gs_world s2) < he_now env (gs_world s1) + 3000 then (Inr t, s2)
     else op_bind (exchange_installation_token env a i k) (store_token env) s2)"
proof -
  obtain s0 where "exchange_installation_token env a i k s = (Inr t, s0)"
    and "s1 = s0\<lparr>gs_cache := Some \<lparr>ct_token = t, ct_expires = he_now env (gs_world s0) + 3300\<rparr>\<rparr>"
    using assms(1,2) by (auto simp: get_token_def store_token_def op_simps split: prod.splits sum.splits)
  then show ?thesis
    using assms(3) by (auto simp: get_token_def cache_valid_def)
qed

definition demo_app_env :: "unit http_env" where
  "demo_app_env = demo_env\<lparr>he_send := (\<lambda>w rq.
     (Some \<lparr>rs_status = 201, rs_remaining = None, rs_body = Some (json_obj [(''token'', JStr ''t1'')])\<rparr>, w))\<rparr>"

theorem installation_token_reused_witness:
  "\<exists>s1. get_token demo_app_env (App 1 2 ''k'') demo_state = (Inr ''t1'', s1) \<and>
     get_token demo_app_env (App 1 2 ''k'') s1 = (Inr ''t1'', s1)"
proof -
  obtain s1 where s1: "get_token demo_app_env (App 1 2 ''k'') demo_state = (Inr ''t1'', s1)"
    by (simp add: get_token_def demo_state_def demo_app_env_def demo_env_def op_simps store_token_def
        exchange_installation_token_def gh_send_def is_success_def read_token_def de_req_def)
  then show ?thesis
    using installation_token_reused [OF _ s1 refl] by (simp add: demo_state_def)
qed

text \<open>the org-level clean-up deletes the same runners the repository clean-up would: those whose
  name starts with \<open>fc-\<close> and whose status is offline, through the organization's address.\<close>

theorem remove_org_offline_runners_log:
  assumes "gc_auth c = Pat t" and "org_url c = Some ourl"
    and "he_send env (gs_world s)
      \<lparr>rq_method = GET, rq_url = ourl @ ''/actions/runners?per_page=100'', rq_auth = t, rq_body = None\<rparr>
      = (Some r, w)" and "obind (rs_body r) de_runners_response = Some rs"
  shows "gs_log (remove_org_offline_runners env c s) =
    gs_log s
    @ [\<lparr>rq_method = GET, rq_url = ourl @ ''/actions/runners?per_page=100'', rq_auth = t, rq_body = None\<rparr>]
    @ map (\<lambda>r. delete_request c t ourl (rn_id r)) (filter stale_runner rs)"
proof -
  have "gs_log (delete_stale (delete_org_runner env c ourl) rs s') =
      gs_log s' @ map (\<lambda>r. delete_request c t ourl (rn_id r)) (filter stale_runner rs)" for s'
    by (rule delete_stale_log) (rule delete_org_runner_pat_log [OF assms(1)])
  then show ?thesis
    using assms(2,3) by (simp add: assms(4) remove_org_offline_runners_def gh_request_pat [OF assms(1)] gh_send_def Let_def)
qed

definition demo_org_client :: gh_client where
  "demo_org_client = \<lparr>gc_config = demo_github\<lparr>organization := Some ''acme''\<rparr>, gc_auth = Pat ''tok''\<rparr>"

theorem remove_org_offline_runners_log_witness:
  "length (gs_log (remove_org_offline_runners demo_env demo_org_client demo_state)) = 2"
proof -
  let ?rs = "[\<lparr>rn_id = 7, rn_name = ''fc-5-abcd1234'', rn_status = ''offline'', rn_busy = False\<rparr>,
      \<lparr>rn_id = 8, rn_name = ''other'', rn_status = ''offline'', rn_busy = False\<rparr>]"
  let ?u = "''https://api.github.com/orgs/acme''"
  let ?rq = "\<lparr>rq_method = GET, rq_url = ?u @ ''/actions/runners?per_page=100'', rq_auth = ''tok'', rq_body = None\<rparr>"
  have 1: "gc_auth demo_org_client = Pat ''tok''" and 2: "org_url demo_org_client = Some ?u"
    by (simp_all add: demo_org_client_def org_url_def)
  obtain r where 3: "he_send demo_env (gs_world demo_state) ?rq = (Some r, ())"
    and 4: "obind (rs_body r) de_runners_response = Some ?rs"
    by (simp add: demo_env_def de_runners_response_def de_vec_def de_runner_def de_req_def de_default_def)
  show ?thesis
    using remove_org_offline_runners_log [OF 1 2 3 4] by (simp add: stale_runner_def starts_with_def demo_state_def)
qed
end
