(* ===== verification/Jit.thy ===== *)
theory Jit
  imports Github
begin

text \<open>
  The reactive mode of the orchestrator (\<open>src/src/scheduler/orchestrator.rs\<close>): polling, the
  decision to dispatch a job, and the task that runs it. A task passes through stages separated
  by the await points of \<open>dispatch_jit_job\<close>: it waits for a semaphore permit, pops a slot,
  counts itself active, runs the VM, gives the slot back, cleans up, removes its job from the
  seen set, and ends by dropping the permit. Tasks and polls interleave freely.
\<close>

section \<open>State\<close>

datatype jit_stage =
    Queued | Permitted | Assigned nat | Running nat | Returned | Cleaning | Unlisted

datatype jit_task = JitTask (jt_job: nat) (jt_repo: string) (jt_stage: jit_stage)

record jit_state =
  js_free :: "nat list"
  js_permits :: nat
  js_active :: nat
  js_seen :: "nat set"
  js_tasks :: "jit_task multiset"
  js_no_slot :: nat

definition jit_new :: "nat \<Rightarrow> jit_state" where
  "jit_new max_jobs =
     \<lparr>js_free = [0..<max_jobs], js_permits = max_jobs, js_active = 0, js_seen = {},
      js_tasks = {#}, js_no_slot = 0\<rparr>"

section \<open>Polling\<close>

definition labels_match :: "string list \<Rightarrow> string list \<Rightarrow> bool" where
  "labels_match wanted job_labels \<longleftrightarrow> list_all (\<lambda>l. l \<in> set job_labels) wanted"

definition dispatch_jit_job :: "nat \<Rightarrow> string \<Rightarrow> jit_state \<Rightarrow> jit_state" where
  "dispatch_jit_job job repo s = s\<lparr>js_tasks := add_mset (JitTask job repo Queued) (js_tasks s)\<rparr>"

text \<open>One job of the poll: matching labels, then the insertion into the seen set decides.\<close>

definition jit_consider :: "string list \<Rightarrow> string \<Rightarrow> gh_job \<Rightarrow> jit_state \<Rightarrow> jit_state" where
  "jit_consider wanted repo j s =
     (if \<not> labels_match wanted (jb_labels j) then s
      else if jb_id j \<in> js_seen s then s
      else dispatch_jit_job (jb_id j) repo (s\<lparr>js_seen := insert (jb_id j) (js_seen s)\<rparr>))"

text \<open>
  A poll of one repository: the runs, then the jobs of each. A failing query ends the poll of the
  repository and keeps what was dispatched before it. The queries are parameters here.
\<close>

fun poll_runs ::
    "(nat \<Rightarrow> gh_job list option) \<Rightarrow> string list \<Rightarrow> string \<Rightarrow> nat list \<Rightarrow> jit_state \<Rightarrow> bool \<times> jit_state" where
  "poll_runs jobs_of wanted repo [] s = (True, s)"
| "poll_runs jobs_of wanted repo (r # rs) s =
     (case jobs_of r of
        None \<Rightarrow> (False, s)
      | Some js \<Rightarrow> poll_runs jobs_of wanted repo rs (fold (jit_consider wanted repo) js s))"

definition poll_repo ::
    "nat list option \<Rightarrow> (nat \<Rightarrow> gh_job list option) \<Rightarrow> string list \<Rightarrow> string \<Rightarrow> jit_state \<Rightarrow> bool \<times> jit_state" where
  "poll_repo runs jobs_of wanted repo s =
     (case runs of None \<Rightarrow> (False, s) | Some rs \<Rightarrow> poll_runs jobs_of wanted repo rs s)"

text \<open>A repository that fails is skipped; \<open>poll_once\<close> itself always succeeds.\<close>

fun poll_once ::
    "(string \<Rightarrow> nat list option) \<Rightarrow> (string \<Rightarrow> nat \<Rightarrow> gh_job list option) \<Rightarrow> string list \<Rightarrow> string list
      \<Rightarrow> jit_state \<Rightarrow> jit_state" where
  "poll_once runs_of jobs_of wanted [] s = s"
| "poll_once runs_of jobs_of wanted (repo # rest) s =
     poll_once runs_of jobs_of wanted rest (snd (poll_repo (runs_of repo) (jobs_of repo) wanted repo s))"

section \<open>The task\<close>

definition jit_acquire :: "nat \<Rightarrow> string \<Rightarrow> jit_task multiset \<Rightarrow> jit_state \<Rightarrow> jit_state" where
  "jit_acquire job repo M s =
     s\<lparr>js_permits := js_permits s - 1, js_tasks := add_mset (JitTask job repo Permitted) M\<rparr>"

text \<open>No slot: the task logs an error and returns, which drops the permit; the job stays seen.\<close>

definition jit_take_slot :: "nat \<Rightarrow> string \<Rightarrow> jit_task multiset \<Rightarrow> jit_state \<Rightarrow> jit_state" where
  "jit_take_slot job repo M s =
     (case vec_pop (js_free s) of
        Some (sl, rest) \<Rightarrow> s\<lparr>js_free := rest, js_tasks := add_mset (JitTask job repo (Assigned sl)) M\<rparr>
      | None \<Rightarrow> s\<lparr>js_no_slot := Suc (js_no_slot s), js_permits := Suc (js_permits s), js_tasks := M\<rparr>)"

definition jit_start :: "nat \<Rightarrow> string \<Rightarrow> nat \<Rightarrow> jit_task multiset \<Rightarrow> jit_state \<Rightarrow> jit_state" where
  "jit_start job repo sl M s =
     s\<lparr>js_active := Suc (js_active s), js_tasks := add_mset (JitTask job repo (Running sl)) M\<rparr>"

definition jit_return_slot :: "nat \<Rightarrow> string \<Rightarrow> nat \<Rightarrow> jit_task multiset \<Rightarrow> jit_state \<Rightarrow> jit_state" where
  "jit_return_slot job repo sl M s =
     s\<lparr>js_free := vec_push (js_free s) sl, js_tasks := add_mset (JitTask job repo Returned) M\<rparr>"

definition jit_count_down :: "nat \<Rightarrow> string \<Rightarrow> jit_task multiset \<Rightarrow> jit_state \<Rightarrow> jit_state" where
  "jit_count_down job repo M s =
     s\<lparr>js_active := js_active s - 1, js_tasks := add_mset (JitTask job repo Cleaning) M\<rparr>"

definition jit_forget :: "nat \<Rightarrow> string \<Rightarrow> jit_task multiset \<Rightarrow> jit_state \<Rightarrow> jit_state" where
  "jit_forget job repo M s =
     s\<lparr>js_seen := js_seen s - {job}, js_tasks := add_mset (JitTask job repo Unlisted) M\<rparr>"

definition jit_end :: "jit_task multiset \<Rightarrow> jit_state \<Rightarrow> jit_state" where
  "jit_end M s = s\<lparr>js_permits := Suc (js_permits s), js_tasks := M\<rparr>"

section \<open>Steps\<close>

inductive jit_task_step :: "jit_state \<Rightarrow> jit_state \<Rightarrow> bool" where
  acquire: "js_tasks s = add_mset (JitTask job repo Queued) M \<Longrightarrow> 0 < js_permits s \<Longrightarrow>
    jit_task_step s (jit_acquire job repo M s)"
| take_slot: "js_tasks s = add_mset (JitTask job repo Permitted) M \<Longrightarrow>
    jit_task_step s (jit_take_slot job repo M s)"
| start: "js_tasks s = add_mset (JitTask job repo (Assigned sl)) M \<Longrightarrow>
    jit_task_step s (jit_start job repo sl M s)"
| return_slot: "js_tasks s = add_mset (JitTask job repo (Running sl)) M \<Longrightarrow>
    jit_task_step s (jit_return_slot job repo sl M s)"
| count_down: "js_tasks s = add_mset (JitTask job repo Returned) M \<Longrightarrow>
    jit_task_step s (jit_count_down job repo M s)"
| forget: "js_tasks s = add_mset (JitTask job repo Cleaning) M \<Longrightarrow>
    jit_task_step s (jit_forget job repo M s)"
| finish: "js_tasks s = add_mset (JitTask job repo Unlisted) M \<Longrightarrow> jit_task_step s (jit_end M s)"

inductive jit_step :: "string list \<Rightarrow> jit_state \<Rightarrow> jit_state \<Rightarrow> bool" for wanted where
  task: "jit_task_step s t \<Longrightarrow> jit_step wanted s t"
| poll_job: "jit_step wanted s (jit_consider wanted repo j s)"

definition jit_init :: "nat \<Rightarrow> jit_state \<Rightarrow> bool" where
  "jit_init n s \<longleftrightarrow> s = jit_new n"

lemmas jit_ops =
  jit_acquire_def jit_take_slot_def jit_start_def jit_return_slot_def jit_count_down_def
  jit_forget_def jit_end_def

section \<open>What tasks hold\<close>

fun stage_slot :: "jit_stage \<Rightarrow> nat multiset" where
  "stage_slot (Assigned sl) = {#sl#}"
| "stage_slot (Running sl) = {#sl#}"
| "stage_slot _ = {#}"

definition holds_permit :: "jit_task \<Rightarrow> bool" where
  "holds_permit t \<longleftrightarrow> jt_stage t \<noteq> Queued"

fun stage_active :: "jit_stage \<Rightarrow> bool" where
  "stage_active (Running sl) = True"
| "stage_active Returned = True"
| "stage_active _ = False"

definition in_flight :: "jit_task \<Rightarrow> nat multiset" where
  "in_flight t = (if jt_stage t = Unlisted then {#} else {#jt_job t#})"

definition jit_free :: "jit_state \<Rightarrow> nat multiset" where
  "jit_free s = mset (js_free s)"

definition jit_lent :: "jit_state \<Rightarrow> nat multiset" where
  "jit_lent s = held (\<lambda>t. stage_slot (jt_stage t)) (js_tasks s)"

text \<open>The jobs dispatched and not yet removed from the seen set.\<close>

definition jit_jobs :: "jit_state \<Rightarrow> nat multiset" where
  "jit_jobs s = held in_flight (js_tasks s)"

definition permit_no_slot :: "jit_task \<Rightarrow> bool" where
  "permit_no_slot t \<longleftrightarrow> holds_permit t \<and> stage_slot (jt_stage t) = {#}"

text \<open>
  The invariant. Slots and permits are tied together: the free slots are the free permits plus the
  tasks that hold a permit and no slot.
\<close>

definition jit_inv :: "nat \<Rightarrow> jit_state \<Rightarrow> bool" where
  "jit_inv n s \<longleftrightarrow>
     js_no_slot s = 0 \<and>
     js_permits s + tally holds_permit (js_tasks s) = n \<and>
     length (js_free s) = js_permits s + tally permit_no_slot (js_tasks s) \<and>
     js_active s = tally (\<lambda>t. stage_active (jt_stage t)) (js_tasks s) \<and>
     mset_distinct (jit_jobs s) \<and> set_mset (jit_jobs s) = js_seen s"

lemma stage_simps [simp]:
  "in_flight (JitTask j r st) = (if st = Unlisted then {#} else {#j#})"
  "holds_permit (JitTask j r st) = (st \<noteq> Queued)"
  "permit_no_slot (JitTask j r st) = (st \<noteq> Queued \<and> stage_slot st = {#})"
  by (simp_all add: in_flight_def holds_permit_def permit_no_slot_def)

lemma mset_distinct_add_mset:
  "mset_distinct (add_mset x M) \<longleftrightarrow> mset_distinct M \<and> x \<notin># M"
proof
  assume D: "mset_distinct (add_mset x M)"
  have "count M y \<le> 1" for y
    using D by (cases "x = y") (auto simp: mset_distinct_def dest: spec [of _ y])
  moreover have "count M x = 0"
    using D by (auto simp: mset_distinct_def dest: spec [of _ x])
  ultimately show "mset_distinct M \<and> x \<notin># M"
    by (simp add: mset_distinct_def not_in_iff)
next
  assume "mset_distinct M \<and> x \<notin># M"
  then show "mset_distinct (add_mset x M)"
    by (auto simp: mset_distinct_def not_in_iff)
qed

lemma jit_inv_init: "jit_init n s \<Longrightarrow> jit_inv n s"
  by (simp add: jit_init_def jit_new_def jit_inv_def jit_jobs_def mset_distinct_def)

lemma jit_inv_task_step: "jit_task_step s t \<Longrightarrow> jit_inv n s \<Longrightarrow> jit_inv n t"
  by (induction rule: jit_task_step.induct)
     (auto simp: jit_inv_def jit_ops jit_jobs_def mset_distinct_add_mset vec_push_def vec_pop_Some
       split: option.splits)

lemma jit_inv_consider: "jit_inv n s \<Longrightarrow> jit_inv n (jit_consider wanted repo j s)"
  by (auto simp: jit_inv_def jit_consider_def dispatch_jit_job_def jit_jobs_def mset_distinct_add_mset)

lemma jit_inv_step: "jit_step wanted s t \<Longrightarrow> jit_inv n s \<Longrightarrow> jit_inv n t"
  by (induction rule: jit_step.induct) (auto intro: jit_inv_task_step jit_inv_consider)

lemma jit_slots_task_step: "jit_task_step s t \<Longrightarrow> jit_free t + jit_lent t = jit_free s + jit_lent s"
  by (induction rule: jit_task_step.induct)
     (auto simp: jit_ops jit_free_def jit_lent_def slot_simps vec_pop_Some split: option.splits)

lemma jit_slots_step: "jit_step wanted s t \<Longrightarrow> jit_free t + jit_lent t = jit_free s + jit_lent s"
  by (induction rule: jit_step.induct, erule jit_slots_task_step)
     (simp add: jit_consider_def dispatch_jit_job_def jit_free_def jit_lent_def)

lemma jit_slots_init: "jit_init n s \<Longrightarrow> jit_free s + jit_lent s = mset [0..<n]"
  by (simp add: jit_init_def jit_new_def jit_free_def jit_lent_def)

interpretation jit: slot_system "jit_init n" "jit_step wanted" "jit_inv n" jit_free jit_lent "[0..<n]"
  for n wanted
  by unfold_locales (blast intro: jit_inv_init jit_inv_step jit_slots_step jit_slots_init)+

lemma jit_task_steps_keep:
  "steps jit_task_step s t \<Longrightarrow> jit_inv n s \<Longrightarrow> jit_inv n t"
  "steps jit_task_step s t \<Longrightarrow> jit_free t + jit_lent t = jit_free s + jit_lent s"
  by (induction rule: steps.induct) (auto simp only: jit_slots_task_step intro: jit_inv_task_step)

lemma reach_first_job: "reach (jit_init n) (jit_step wanted) (jit_consider wanted repo j (jit_new n))"
  by (rule reach_step [OF reach_init]) (auto simp: jit_init_def intro: jit_step.poll_job)

section \<open>Progress\<close>

text \<open>The awaits a task still has before it. Every task step lowers the sum.\<close>

fun stage_rank :: "jit_stage \<Rightarrow> nat" where
  "stage_rank Queued = 7"
| "stage_rank Permitted = 6"
| "stage_rank (Assigned _) = 5"
| "stage_rank (Running _) = 4"
| "stage_rank Returned = 3"
| "stage_rank Cleaning = 2"
| "stage_rank Unlisted = 1"

definition jit_work :: "jit_state \<Rightarrow> nat" where
  "jit_work s = sum_mset (image_mset (\<lambda>t. stage_rank (jt_stage t)) (js_tasks s))"

lemma jit_task_step_work: "jit_task_step s t \<Longrightarrow> jit_work t < jit_work s"
  by (induction rule: jit_task_step.induct) (auto simp: jit_ops jit_work_def split: option.splits)

text \<open>Some task can always go on: only \<open>Queued\<close> waits, and only when other tasks hold all permits.\<close>

lemma jit_can_step:
  assumes "jit_inv n s" and "0 < n" and "js_tasks s \<noteq> {#}"
  shows "\<exists>t. jit_task_step s t"
proof (cases "\<exists>t \<in># js_tasks s. jt_stage t \<noteq> Queued")
  case True
  then obtain t M where t: "js_tasks s = add_mset t M" "jt_stage t \<noteq> Queued"
    by (metis mset_add)
  obtain j r st where "t = JitTask j r st" by (cases t)
  with t show ?thesis by (cases st) (auto intro: jit_task_step.intros)
next
  case False
  then have "tally holds_permit (js_tasks s) = 0"
    by (simp add: tally_def holds_permit_def filter_mset_eq_conv)
  then have "0 < js_permits s" using assms(1,2) by (simp add: jit_inv_def)
  obtain t M where t: "js_tasks s = add_mset t M" using assms(3) by (metis multiset_cases)
  then have "jt_stage t = Queued" using False by simp
  then obtain j r where "t = JitTask j r Queued" by (cases t) simp
  with t \<open>0 < js_permits s\<close> show ?thesis by (auto intro: jit_task_step.acquire)
qed

lemma jit_drains:
  assumes "jit_inv n s" and "0 < n"
  shows "\<exists>t. steps jit_task_step s t \<and> js_tasks t = {#}"
  using assms(1)
proof (induction "jit_work s" arbitrary: s rule: less_induct)
  case less
  show ?case
  proof (cases "js_tasks s = {#}")
    case True
    then show ?thesis by (auto intro: steps_refl)
  next
    case False
    then obtain u where u: "jit_task_step s u" using jit_can_step less.prems assms(2) by blast
    then obtain t where "steps jit_task_step u t" "js_tasks t = {#}"
      using less.hyps [of u] jit_task_step_work jit_inv_task_step less.prems by blast
    with u show ?thesis by (meson steps_step)
  qed
qed

section \<open>Properties\<close>

definition running_slots :: "jit_state \<Rightarrow> nat multiset" where
  "running_slots s = held (\<lambda>t. case jt_stage t of Running sl \<Rightarrow> {#sl#} | _ \<Rightarrow> {#}) (js_tasks s)"

lemma running_sub: "running_slots s \<subseteq># jit_lent s"
  unfolding running_slots_def jit_lent_def by (rule held_mono) (auto split: jit_stage.splits)

text \<open>C12: in the reactive mode, whatever the interleaving of polls and jobs, every slot below
  \<open>max_concurrent_jobs\<close> is at all times either free or held by exactly one task: two running VMs
  never share a slot, and there are never more of them than \<open>max_concurrent_jobs\<close>.\<close>

theorem jit_slots_exclusive:
  assumes "reach (jit_init n) (jit_step wanted) s"
  shows "jit_free s + jit_lent s = mset [0..<n] \<and> mset_distinct (running_slots s) \<and>
    size (running_slots s) \<le> n \<and> set_mset (running_slots s) \<subseteq> {..<n}"
proof (intro conjI)
  show "jit_free s + jit_lent s = mset [0..<n]" by (rule jit.conserved [OF assms])
  show "mset_distinct (running_slots s)"
    using mset_distinct_subset [OF running_sub] jit.lent_distinct [OF _ assms] by simp
  show "size (running_slots s) \<le> n"
    using jit.lent_bound [OF assms] size_mset_mono [OF running_sub, of s] by simp
  show "set_mset (running_slots s) \<subseteq> {..<n}"
  proof
    fix x assume "x \<in># running_slots s"
    then have "x \<in># jit_lent s" using running_sub by (rule mset_subset_eqD [rotated])
    then show "x \<in> {..<n}" using jit.lent_owned [OF assms] by simp
  qed
qed

theorem jit_slots_exclusive_witness:
  "jit_free (jit_consider [''l''] ''r'' \<lparr>jb_id = 5, jb_run_id = 1, jb_labels = [''l'']\<rparr> (jit_new 2)) = mset [0..<2]"
  using jit_slots_exclusive [OF reach_first_job [of 2 "[''l'']" "''r''" "\<lparr>jb_id = 5, jb_run_id = 1, jb_labels = [''l'']\<rparr>"]]
  by (simp add: jit_lent_def jit_consider_def jit_new_def dispatch_jit_job_def labels_match_def)

text \<open>a task that holds a permit always finds a slot: the branch that gives up with
  ``no slot available despite semaphore permit'' is never taken, and the free slots are exactly the
  free permits plus the permits whose holders have no slot yet or have given it back.\<close>

theorem jit_permit_has_slot:
  assumes "reach (jit_init n) (jit_step wanted) s"
  shows "js_no_slot s = 0 \<and> js_permits s + tally holds_permit (js_tasks s) = n \<and>
    length (js_free s) = js_permits s + tally permit_no_slot (js_tasks s) \<and>
    (JitTask job repo Permitted \<notin># js_tasks s \<or> js_free s \<noteq> [])"
proof -
  have I: "jit_inv n s" by (rule jit.reach_inv [OF assms])
  moreover have "js_free s \<noteq> []" if "JitTask job repo Permitted \<in># js_tasks s"
  proof -
    obtain M where "js_tasks s = add_mset (JitTask job repo Permitted) M" using \<open>_ \<in># _\<close> by (metis mset_add)
    then show ?thesis using I by (auto simp: jit_inv_def)
  qed
  ultimately show ?thesis by (auto simp: jit_inv_def)
qed

theorem jit_permit_has_slot_witness:
  "js_permits (jit_new 3) = 3 \<and> length (js_free (jit_new 3)) = 3"
  using jit_permit_has_slot [OF reach_init, of 3 "jit_new 3"]
  by (simp add: jit_init_def jit_new_def)

text \<open>C28: no job is in flight twice. The seen set is exactly the set of jobs whose tasks have not
  yet removed them, each of them once; a job that has been removed may be dispatched again.\<close>

theorem jit_jobs_once:
  assumes "reach (jit_init n) (jit_step wanted) s"
  shows "mset_distinct (jit_jobs s) \<and> set_mset (jit_jobs s) = js_seen s \<and>
    jit_jobs (jit_consider wanted repo j s) =
      (if labels_match wanted (jb_labels j) \<and> jb_id j \<notin># jit_jobs s
       then add_mset (jb_id j) (jit_jobs s) else jit_jobs s)"
proof -
  have "mset_distinct (jit_jobs s)" and S: "set_mset (jit_jobs s) = js_seen s"
    using jit.reach_inv [OF assms] by (auto simp: jit_inv_def)
  moreover have "jit_jobs (dispatch_jit_job i r (s\<lparr>js_seen := x\<rparr>)) = add_mset i (jit_jobs s)" for i r x
    by (simp add: jit_jobs_def dispatch_jit_job_def)
  ultimately show ?thesis by (simp add: jit_consider_def)
qed

theorem jit_jobs_once_witness:
  "jit_jobs (jit_consider [''x''] ''r'' \<lparr>jb_id = 5, jb_run_id = 1, jb_labels = [''x'', ''y'']\<rparr> (jit_new 1)) = {#5#}"
  using jit_jobs_once [OF reach_init, of 1 "jit_new 1" "[''x'']" "''r''" "\<lparr>jb_id = 5, jb_run_id = 1, jb_labels = [''x'', ''y'']\<rparr>"]
  by (simp add: jit_init_def jit_new_def labels_match_def jit_jobs_def)

text \<open>C29: the reactive mode drains. From every reachable state the tasks alone, in at most as many
  steps as they have awaits left, come to an end, and then nothing has leaked: all permits and all
  slots are back, nothing counts as active and no job is marked as seen.\<close>

theorem jit_drains_clean:
  assumes "reach (jit_init n) (jit_step wanted) s" and "0 < n"
  shows "\<exists>t. steps jit_task_step s t \<and> js_tasks t = {#} \<and> js_permits t = n \<and> js_active t = 0 \<and>
    js_seen t = {} \<and> mset (js_free t) = mset [0..<n]"
proof -
  have I: "jit_inv n s" by (rule jit.reach_inv [OF assms(1)])
  then obtain t where t: "steps jit_task_step s t" "js_tasks t = {#}"
    using jit_drains assms(2) by blast
  have "jit_inv n t" by (rule jit_task_steps_keep(1) [OF t(1) I])
  moreover have "jit_free t + jit_lent t = mset [0..<n]"
    using jit_task_steps_keep(2) [OF t(1)] jit.conserved [OF assms(1)] by (simp only:)
  ultimately show ?thesis
    using t by (auto simp: jit_inv_def jit_jobs_def jit_free_def jit_lent_def)
qed

theorem jit_drains_clean_witness:
  "\<exists>t. steps jit_task_step (jit_consider [] ''r'' \<lparr>jb_id = 5, jb_run_id = 1, jb_labels = []\<rparr> (jit_new 1)) t
     \<and> js_tasks t = {#} \<and> js_seen t = {}"
  using jit_drains_clean [OF reach_first_job [of 1 "[]" "''r''" "\<lparr>jb_id = 5, jb_run_id = 1, jb_labels = []\<rparr>"]]
  by auto

section \<open>What a poll dispatches\<close>

definition wanted_ids :: "string list \<Rightarrow> gh_job list \<Rightarrow> nat set" where
  "wanted_ids wanted js = jb_id ` set (filter (\<lambda>j. labels_match wanted (jb_labels j)) js)"

definition queued :: "string \<Rightarrow> nat set \<Rightarrow> jit_task multiset" where
  "queued repo A = image_mset (\<lambda>i. JitTask i repo Queued) (mset_set A)"

lemma queued_split:
  assumes "finite A" and "finite B"
  shows "queued repo (A - S) + queued repo (B - (S \<union> A)) = queued repo ((A \<union> B) - S)"
proof -
  have "(A \<union> B) - S = (A - S) \<union> (B - (S \<union> A))" by blast
  moreover have "(A - S) \<inter> (B - (S \<union> A)) = {}" by blast
  ultimately show ?thesis
    using assms by (simp add: queued_def mset_set_Union)
qed

definition dispatched :: "string \<Rightarrow> nat set \<Rightarrow> jit_state \<Rightarrow> jit_state" where
  "dispatched repo A s =
     s\<lparr>js_seen := js_seen s \<union> A, js_tasks := js_tasks s + queued repo (A - js_seen s)\<rparr>"

lemma consider_one: "jit_consider wanted repo j s = dispatched repo (wanted_ids wanted [j]) s"
  by (auto simp: jit_consider_def dispatch_jit_job_def wanted_ids_def queued_def dispatched_def insert_absorb insert_Diff_if)

lemma dispatched_dispatched:
  "finite A \<Longrightarrow> finite B \<Longrightarrow> dispatched repo B (dispatched repo A s) = dispatched repo (A \<union> B) s"
  using queued_split [of A B repo "js_seen s"] by (simp add: dispatched_def Un_assoc add.assoc)

lemma consider_all: "fold (jit_consider wanted repo) js s = dispatched repo (wanted_ids wanted js) s"
proof (induction js arbitrary: s)
  case Nil
  show ?case by (simp add: wanted_ids_def queued_def dispatched_def)
next
  case (Cons j js)
  have W: "wanted_ids wanted (j # js) = wanted_ids wanted [j] \<union> wanted_ids wanted js"
    by (auto simp: wanted_ids_def)
  have F: "finite (wanted_ids wanted xs)" for xs by (simp add: wanted_ids_def)
  show ?case
    by (simp only: fold_Cons o_apply Cons.IH) (simp only: consider_one dispatched_dispatched F W)
qed

lemma poll_runs_all:
  assumes "\<And>r. r \<in> set rs \<Longrightarrow> jobs_of r = Some (f r)"
  shows "poll_runs jobs_of wanted repo rs s = (True, fold (jit_consider wanted repo) (concat (map f rs)) s)"
  using assms by (induction rs arbitrary: s) (auto simp: fold_append)

text \<open>a poll of a repository whose queries succeed dispatches exactly the listed jobs that carry
  all configured labels and are not marked as seen, each of them once however often it is listed, and
  marks them; nothing else changes.\<close>

theorem poll_repo_dispatches:
  fixes wanted :: "string list" and f :: "nat \<Rightarrow> gh_job list"
  assumes "\<And>r. r \<in> set rs \<Longrightarrow> jobs_of r = Some (f r)"
  defines "ids \<equiv> wanted_ids wanted (concat (map f rs))"
  shows "poll_repo (Some rs) jobs_of wanted repo s =
    (True, s\<lparr>js_seen := js_seen s \<union> ids,
             js_tasks := js_tasks s + image_mset (\<lambda>i. JitTask i repo Queued) (mset_set (ids - js_seen s))\<rparr>)"
  using poll_runs_all [where f = f, OF assms(1)]
  by (simp add: poll_repo_def ids_def consider_all dispatched_def queued_def)

theorem poll_repo_dispatches_witness:
  "js_tasks (snd (poll_repo (Some [1, 2])
      (\<lambda>r. Some [\<lparr>jb_id = 7, jb_run_id = r, jb_labels = [''x'']\<rparr>]) [''x''] ''app'' (jit_new 4)))
   = {#JitTask 7 ''app'' Queued#}"
  using poll_repo_dispatches [where rs = "[1, 2]" and jobs_of = "\<lambda>r. Some [\<lparr>jb_id = 7, jb_run_id = r, jb_labels = [''x'']\<rparr>]"
      and f = "\<lambda>r. [\<lparr>jb_id = 7, jb_run_id = r, jb_labels = [''x'']\<rparr>]" and wanted = "[''x'']"
      and repo = "''app''" and s = "jit_new 4"]
  by (simp add: wanted_ids_def labels_match_def jit_new_def)
end
