(* ===== verification/Job_Table.thy ===== *)
theory Job_Table
  imports Jit
begin

text \<open>
  What the reactive mode promises, as a machine without tasks, permits or a slot pool: a table that
  gives each job its status, in which a job is taken once, runs on a slot no other job runs on, ends,
  and is forgotten. The scheduler's machine of \<open>Jit\<close> is shown to implement it by a forward simulation,
  whose contract is a locale of its own.
\<close>

section \<open>Forward simulations\<close>

text \<open>
  Each concrete step is matched by finitely many abstract ones, as long as the concrete state is one
  that can be reached.
\<close>

locale forward_sim =
  fixes init :: "'s \<Rightarrow> bool"
    and step :: "'s \<Rightarrow> 's \<Rightarrow> bool"
    and inv :: "'s \<Rightarrow> bool"
    and ainit :: "'a \<Rightarrow> bool"
    and astep :: "'a \<Rightarrow> 'a \<Rightarrow> bool"
    and R :: "'s \<Rightarrow> 'a \<Rightarrow> bool"
  assumes sim_inv: "reach init step s \<Longrightarrow> inv s"
    and sim_init: "init s \<Longrightarrow> \<exists>a. ainit a \<and> R s a"
    and sim_step: "inv s \<Longrightarrow> R s a \<Longrightarrow> step s t \<Longrightarrow> \<exists>b. steps astep a b \<and> R t b"
begin

lemma simulated: "reach init step s \<Longrightarrow> \<exists>a. reach ainit astep a \<and> R s a"
proof (induction rule: reach.induct)
  case (reach_init s)
  then show ?case using sim_init reach.reach_init by metis
next
  case (reach_step s t)
  then show ?case using sim_step sim_inv reach_steps by metis
qed

lemma steps_simulated:
  "steps step s t \<Longrightarrow> reach init step s \<Longrightarrow> R s a \<Longrightarrow> \<exists>b. steps astep a b \<and> R t b"
proof (induction arbitrary: a rule: steps.induct)
  case (steps_refl s)
  then show ?case using steps.steps_refl by metis
next
  case (steps_step s t u)
  obtain b where b: "steps astep a b" "R t b"
    using sim_step [OF sim_inv [OF steps_step.prems(1)] steps_step.prems(2) steps_step.hyps(1)] by blast
  have "reach init step t" using steps_step.prems(1) steps_step.hyps(1) by (rule reach.reach_step)
  from steps_step.IH [OF this b(2)] obtain c where "steps astep b c" "R u c" by blast
  then show ?case using b(1) steps_trans by metis
qed

end

section \<open>The table\<close>

datatype job_status = NotSeen | Waiting | InVm nat | Ending

type_synonym job_table = "nat \<Rightarrow> job_status"

definition table_init :: "job_table \<Rightarrow> bool" where
  "table_init t \<longleftrightarrow> t = (\<lambda>_. NotSeen)"

inductive table_step :: "nat \<Rightarrow> job_table \<Rightarrow> job_table \<Rightarrow> bool" for n where
  dispatch: "t j = NotSeen \<Longrightarrow> table_step n t (t(j := Waiting))"
| start: "t j = Waiting \<Longrightarrow> sl < n \<Longrightarrow> (\<forall>k. t k \<noteq> InVm sl) \<Longrightarrow> table_step n t (t(j := InVm sl))"
| stop: "t j = InVm sl \<Longrightarrow> table_step n t (t(j := Ending))"
| forget: "t j = Ending \<Longrightarrow> table_step n t (t(j := NotSeen))"

text \<open>The table's own promise.\<close>

definition table_ok :: "nat \<Rightarrow> job_table \<Rightarrow> bool" where
  "table_ok n t \<longleftrightarrow> (\<forall>j sl. t j = InVm sl \<longrightarrow> sl < n) \<and> (\<forall>j k sl. t j = InVm sl \<longrightarrow> t k = InVm sl \<longrightarrow> j = k)"

interpretation tbl: inv_system table_init "table_step n" "table_ok n" for n
proof unfold_locales
  show "table_ok n t" if "table_init t" for t using that by (simp add: table_init_def table_ok_def)
  show "table_ok n u" if "table_ok n t" "table_step n t u" for t u
    using that(2,1) by (induction rule: table_step.induct) (auto simp: table_ok_def)
qed

section \<open>The scheduler's view\<close>

fun stage_status :: "jit_stage \<Rightarrow> job_status" where
  "stage_status Queued = Waiting"
| "stage_status Permitted = Waiting"
| "stage_status (Assigned _) = Waiting"
| "stage_status (Running sl) = InVm sl"
| "stage_status Returned = Ending"
| "stage_status Cleaning = Ending"
| "stage_status Unlisted = NotSeen"

text \<open>The table agrees with the seen set and with every task whose job has not been forgotten.\<close>

definition in_table :: "jit_state \<Rightarrow> job_table \<Rightarrow> bool" where
  "in_table s t \<longleftrightarrow> (\<forall>j. t j = NotSeen \<longleftrightarrow> j \<notin> js_seen s) \<and>
     (\<forall>x \<in># js_tasks s. jt_stage x \<noteq> Unlisted \<longrightarrow> t (jt_job x) = stage_status (jt_stage x))"

definition jit_good :: "nat \<Rightarrow> jit_state \<Rightarrow> bool" where
  "jit_good n s \<longleftrightarrow> jit_inv n s \<and> jit_free s + jit_lent s = mset [0..<n]"

lemma task_of_seen: "jit_inv n s \<Longrightarrow> j \<in> js_seen s \<Longrightarrow> \<exists>x \<in># js_tasks s. jt_job x = j \<and> jt_stage x \<noteq> Unlisted"
proof -
  have "j \<in># held in_flight M \<Longrightarrow> \<exists>x \<in># M. jt_job x = j \<and> jt_stage x \<noteq> Unlisted" for M
    by (induction M) (auto simp: in_flight_def split: if_splits)
  then show "jit_inv n s \<Longrightarrow> j \<in> js_seen s \<Longrightarrow> ?thesis"
    by (auto simp: jit_inv_def jit_jobs_def)
qed

lemma other_jobs:
  assumes "jit_inv n s" and "js_tasks s = add_mset x M" and "jt_stage x \<noteq> Unlisted" and "y \<in># M" and "jt_stage y \<noteq> Unlisted"
  shows "jt_job y \<noteq> jt_job x"
proof -
  have "jt_job y \<in># held in_flight M" if "y \<in># M" for M
    using that assms(5) by (induction M) (auto simp: in_flight_def)
  then have "jt_job y \<in># held in_flight M" using assms(4) by blast
  moreover have "mset_distinct (add_mset (jt_job x) (held in_flight M))"
    using assms(1-3) by (simp add: jit_inv_def jit_jobs_def in_flight_def)
  ultimately show ?thesis by (auto simp: mset_distinct_add_mset)
qed

lemma lent_below: "jit_good n s \<Longrightarrow> sl \<in># jit_lent s \<Longrightarrow> sl < n"
proof -
  assume g: "jit_good n s" and "sl \<in># jit_lent s"
  then have "sl \<in># jit_free s + jit_lent s" by simp
  also have "jit_free s + jit_lent s = mset [0..<n]" using g by (simp add: jit_good_def)
  finally show ?thesis by simp
qed

text \<open>A slot a task holds is held by no other task.\<close>

lemma slot_held_once:
  assumes "jit_good n s" and "js_tasks s = add_mset x M" and "sl \<in># stage_slot (jt_stage x)" and "y \<in># M"
  shows "sl \<notin># stage_slot (jt_stage y)"
proof -
  have "mset_distinct (jit_lent s)"
    using assms(1) mset_distinct_add [of "jit_free s" "jit_lent s"] mset_distinct_mset [of "[0..<n]"]
    by (simp add: jit_good_def)
  then have d: "mset_distinct (stage_slot (jt_stage x) + held (\<lambda>t. stage_slot (jt_stage t)) M)"
    by (simp add: jit_lent_def assms(2))
  have "sl \<in># held (\<lambda>t. stage_slot (jt_stage t)) M" if "sl \<in># stage_slot (jt_stage y)"
    using assms(4) that by (induction M) auto
  then show "sl \<notin># stage_slot (jt_stage y)" using mset_distinct_add [OF d] assms(3) by blast
qed

text \<open>A task that moves on, with the table entry of its job.\<close>

lemma in_table_move:
  assumes "jit_inv n s" and "in_table s t" and "js_tasks s = add_mset x M" and "jt_stage x \<noteq> Unlisted"
    and "js_tasks s' = add_mset y M" and "jt_job y = jt_job x" and "jt_stage y \<noteq> Unlisted" and "js_seen s' = js_seen s"
  shows "in_table s' (t(jt_job x := stage_status (jt_stage y)))"
proof -
  have "stage_status (jt_stage y) \<noteq> NotSeen" using assms(7) by (cases "jt_stage y") auto
  moreover have "jt_job x \<in> js_seen s"
    using assms(1,3,4) by (auto simp: jit_inv_def jit_jobs_def in_flight_def)
  moreover have "jt_job z \<noteq> jt_job x" if "z \<in># M" "jt_stage z \<noteq> Unlisted" for z
    by (rule other_jobs [OF assms(1,3,4) that])
  ultimately show ?thesis using assms(2,3,5,6,8) by (auto simp: in_table_def)
qed

lemma in_table_same:
  assumes "jit_inv n s" and "in_table s t" and "js_tasks s = add_mset x M" and "jt_stage x \<noteq> Unlisted"
    and "js_tasks s' = add_mset y M" and "jt_job y = jt_job x" and "jt_stage y \<noteq> Unlisted" and "js_seen s' = js_seen s"
    and "stage_status (jt_stage y) = stage_status (jt_stage x)"
  shows "in_table s' t"
proof -
  have "t(jt_job x := stage_status (jt_stage y)) = t" using assms(2,3,4,9) by (auto simp: in_table_def)
  then show ?thesis using in_table_move [OF assms(1-8)] by simp
qed

lemma jit_good_reach: "reach (jit_init n) (jit_step wanted) s \<Longrightarrow> jit_good n s"
  using jit.reach_inv jit.conserved by (simp add: jit_good_def)

lemma table_stays: "in_table s' t \<Longrightarrow> \<exists>u. steps (table_step n) t u \<and> in_table s' u"
  by (intro exI [of _ t] conjI steps.steps_refl)

lemma in_table_task_step:
  assumes "jit_task_step s s'" and "jit_good n s" and "in_table s t"
  shows "\<exists>u. steps (table_step n) t u \<and> in_table s' u"
  using assms
proof (induction rule: jit_task_step.induct)
  case (acquire s job repo M)
  have i: "jit_inv n s" using acquire.prems(1) by (simp add: jit_good_def)
  have "in_table (jit_acquire job repo M s) t"
    by (rule in_table_same [where y = "JitTask job repo Permitted", OF i acquire.prems(2) acquire.hyps(1)]) (simp_all add: jit_acquire_def)
  then show ?case by (rule table_stays)
next
  case (take_slot s job repo M)
  have i: "jit_inv n s" using take_slot.prems(1) by (simp add: jit_good_def)
  have "length (js_free s) = js_permits s + tally permit_no_slot (js_tasks s)" using i by (simp add: jit_inv_def)
  moreover have "0 < tally permit_no_slot (js_tasks s)" by (simp add: take_slot.hyps)
  ultimately have "js_free s \<noteq> []" by (simp only: length_greater_0_conv [symmetric])
  then obtain sl rest where "vec_pop (js_free s) = Some (sl, rest)" by (auto simp: vec_pop_def)
  then have "in_table (jit_take_slot job repo M s) t"
    by (intro in_table_same [where y = "JitTask job repo (Assigned sl)", OF i take_slot.prems(2) take_slot.hyps]) (simp_all add: jit_take_slot_def)
  then show ?case by (rule table_stays)
next
  case (start s job repo sl M)
  have i: "jit_inv n s" using start.prems(1) by (simp add: jit_good_def)
  have "in_table (jit_start job repo sl M s) (t(job := InVm sl))"
    using in_table_move [OF i start.prems(2) start.hyps, of "jit_start job repo sl M s" "JitTask job repo (Running sl)"]
    by (simp add: jit_start_def)
  moreover have "t job = Waiting" using start by (auto simp: in_table_def)
  moreover have "t k \<noteq> InVm sl" for k
  proof
    assume k: "t k = InVm sl"
    then have "k \<in> js_seen s" using start.prems(2) by (metis in_table_def job_status.distinct(3))
    then obtain y where y: "y \<in># js_tasks s" "jt_job y = k" "jt_stage y \<noteq> Unlisted" using task_of_seen [OF i] by blast
    then have "stage_status (jt_stage y) = InVm sl" using start.prems(2) k by (auto simp: in_table_def)
    then have r: "jt_stage y = Running sl" by (cases "jt_stage y") auto
    then have "y \<in># M" using y(1) start.hyps by auto
    then show False using slot_held_once [OF start.prems(1) start.hyps, of sl y] r by simp
  qed
  moreover have "sl < n"
    using start.hyps by (intro lent_below [OF start.prems(1)]) (simp add: jit_lent_def)
  ultimately show ?case using table_step.start [of t job sl n] steps_one by metis
next
  case (return_slot s job repo sl M)
  have i: "jit_inv n s" using return_slot.prems(1) by (simp add: jit_good_def)
  have "in_table (jit_return_slot job repo sl M s) (t(job := Ending))"
    using in_table_move [OF i return_slot.prems(2) return_slot.hyps, of "jit_return_slot job repo sl M s" "JitTask job repo Returned"]
    by (simp add: jit_return_slot_def)
  moreover have "t job = InVm sl" using return_slot by (auto simp: in_table_def)
  ultimately show ?case using table_step.stop [of t job sl n] steps_one by metis
next
  case (count_down s job repo M)
  have i: "jit_inv n s" using count_down.prems(1) by (simp add: jit_good_def)
  have "in_table (jit_count_down job repo M s) t"
    by (rule in_table_same [where y = "JitTask job repo Cleaning", OF i count_down.prems(2) count_down.hyps]) (simp_all add: jit_count_down_def)
  then show ?case by (rule table_stays)
next
  case (forget s job repo M)
  have i: "jit_inv n s" using forget.prems(1) by (simp add: jit_good_def)
  have "jt_job y \<noteq> job" if "y \<in># M" "jt_stage y \<noteq> Unlisted" for y
    using other_jobs [OF i forget.hyps _ that] by simp
  then have "in_table (jit_forget job repo M s) (t(job := NotSeen))"
    using forget by (auto simp: in_table_def jit_forget_def)
  moreover have "t job = Ending" using forget by (auto simp: in_table_def)
  ultimately show ?case using table_step.forget [of t job n] steps_one by metis
next
  case (finish s job repo M)
  then have "in_table (jit_end M s) t" by (auto simp: in_table_def jit_end_def)
  then show ?case by (rule table_stays)
qed

lemma in_table_consider:
  assumes "jit_inv n s" and "in_table s t"
  shows "\<exists>u. steps (table_step n) t u \<and> in_table (jit_consider wanted repo j s) u"
proof (cases "labels_match wanted (jb_labels j) \<and> jb_id j \<notin> js_seen s")
  case True
  have "jt_job x \<in> js_seen s" if "x \<in># js_tasks s" "jt_stage x \<noteq> Unlisted" for x
  proof -
    have "jt_job x \<in># held in_flight M" if "x \<in># M" for M
      using that \<open>jt_stage x \<noteq> Unlisted\<close> by (induction M) (auto simp: in_flight_def)
    from this [OF that(1)] show ?thesis using assms(1) by (auto simp: jit_inv_def jit_jobs_def)
  qed
  then have "jt_job x \<noteq> jb_id j" if "x \<in># js_tasks s" "jt_stage x \<noteq> Unlisted" for x using that True by metis
  then have "in_table (jit_consider wanted repo j s) (t(jb_id j := Waiting))"
    using assms(2) True by (auto simp: in_table_def jit_consider_def dispatch_jit_job_def)
  moreover have "t (jb_id j) = NotSeen" using assms(2) True by (simp add: in_table_def)
  ultimately show ?thesis using table_step.dispatch [of t "jb_id j" n] steps_one by metis
next
  case False
  then have "jit_consider wanted repo j s = s" by (auto simp: jit_consider_def)
  then show ?thesis using table_stays [OF assms(2)] by simp
qed

interpretation jobs: forward_sim "jit_init n" "jit_step wanted" "jit_good n" table_init "table_step n" in_table
  for n wanted
proof unfold_locales
  show "jit_good n s" if "reach (jit_init n) (jit_step wanted) s" for s using that by (rule jit_good_reach)
  show "\<exists>a. table_init a \<and> in_table s a" if "jit_init n s" for s
    using that by (auto simp: table_init_def in_table_def jit_init_def jit_new_def)
  show "\<exists>b. steps (table_step n) a b \<and> in_table t b" if "jit_good n s" "in_table s a" "jit_step wanted s t" for s a t
    using that(3,1,2)
    by (induction rule: jit_step.induct) (auto simp: jit_good_def intro: in_table_task_step in_table_consider)
qed

section \<open>Properties\<close>

text \<open>C3: The reactive scheduler implements the job table: every run of it, whatever the interleaving of
  polls and tasks, is matched by a run of the table that starts in the matching entry and ends in it,
  and in every table reached each job is in at most one VM and each slot below the limit runs one job.\<close>

theorem jit_implements_job_table:
  assumes "reach (jit_init n) (jit_step wanted) s" and "in_table s t" and "steps (jit_step wanted) s s'"
  shows "\<exists>t'. steps (table_step n) t t' \<and> in_table s' t' \<and> (reach table_init (table_step n) t \<longrightarrow> table_ok n t')"
proof -
  obtain t' where t': "steps (table_step n) t t'" "in_table s' t'"
    using jobs.steps_simulated [OF assms(3,1,2)] by blast
  have "table_ok n t'" if "reach table_init (table_step n) t"
    using that t'(1) reach_steps tbl.reach_inv by metis
  with t' show ?thesis by blast
qed

theorem jit_implements_job_table_witness:
  "\<exists>t'. steps (table_step 2) (\<lambda>_. NotSeen) t' \<and>
     in_table (jit_consider [] ''r'' \<lparr>jb_id = 5, jb_run_id = 1, jb_labels = []\<rparr> (jit_new 2)) t'"
proof -
  have "reach (jit_init 2) (jit_step []) (jit_new 2)" by (rule reach_init) (simp add: jit_init_def)
  moreover have "in_table (jit_new 2) (\<lambda>_. NotSeen)" by (simp add: in_table_def jit_new_def)
  moreover have "steps (jit_step []) (jit_new 2) (jit_consider [] ''r'' \<lparr>jb_id = 5, jb_run_id = 1, jb_labels = []\<rparr> (jit_new 2))"
    by (rule steps_one) (rule jit_step.poll_job)
  ultimately show ?thesis using jit_implements_job_table [of 2 "[]"] by blast
qed

end
