(* ===== verification/Micro_Vm.thy ===== *)
theory Micro_Vm
  imports Config
begin

text \<open>
  One VM (\<open>src/src/vm/firecracker/mod.rs\<close>): the run context, the record a VM is built
  into, and every name that is derived from its identifier or its slot: files under the work
  directory, TAP device, addresses, VSOCK context identifier, cache image. Paths are strings;
  \<open>path_join\<close>, \<open>file_name\<close> and \<open>with_extension\<close> are the standard library's.
  The random part of a VM identifier is a parameter (the \<open>uuid\<close> package makes it).
\<close>

section \<open>Paths\<close>

text \<open>\<open>PathBuf::join\<close>: an absolute second path replaces the first.\<close>

definition path_join :: "string \<Rightarrow> string \<Rightarrow> string" where
  "path_join base name =
     (if starts_with name ''/'' then name
      else if base = [] \<or> last base = CHR ''/'' then base @ name
      else base @ CHR ''/'' # name)"

definition path_components :: "string \<Rightarrow> string list" where
  "path_components p = filter (\<lambda>c. c \<noteq> [] \<and> c \<noteq> ''.'') (split_on (CHR ''/'') p)"

definition file_name :: "string \<Rightarrow> string option" where
  "file_name p = (let cs = path_components p in
     if cs = [] \<or> last cs = ''..'' then None else Some (last cs))"

text \<open>What precedes the last dot of a file name; a name whose only dot comes first has no extension.\<close>

definition file_stem_of :: "string \<Rightarrow> string" where
  "file_stem_of name =
     (let parts = split_on (CHR ''.'') name in
      if length parts \<le> 1 \<or> (length parts = 2 \<and> hd parts = []) then name
      else join_with ''.'' (butlast parts))"

text \<open>\<open>with_extension\<close>, for a path whose file name is its last component.\<close>

definition with_extension :: "string \<Rightarrow> string \<Rightarrow> string" where
  "with_extension p ext =
     (let name = after_last (CHR ''/'') p in
      take (length p - length name) p @ file_stem_of name @ ''.'' @ ext)"

lemma path_join_rel:
  "\<not> starts_with name ''/'' \<Longrightarrow> \<exists>pre. (\<forall>s. \<not> starts_with s ''/'' \<longrightarrow> path_join base s = pre @ s)"
  by (cases "base = [] \<or> last base = CHR ''/''")
     (auto simp: path_join_def intro: exI [of _ base] exI [of _ "base @ ''/''"])

lemma path_join_inject:
  assumes "\<not> starts_with a ''/''" and "\<not> starts_with b ''/''" and "path_join base a = path_join base b"
  shows "a = b"
  using assms by (auto simp: path_join_def split: if_splits)

lemma last_eqD: "xs \<noteq> [] \<Longrightarrow> last xs = x \<Longrightarrow> \<exists>ps. xs = ps @ [x]"
  by (intro exI [of _ "butlast xs"]) auto

lemma split_on_last_part: "c \<notin> set t \<Longrightarrow> \<exists>ps. split_on c (s @ c # t) = ps @ [t]"
  by (rule last_eqD) (simp_all add: split_on_last)

lemma split_on_path_join:
  assumes "CHR ''/'' \<notin> set name"
  shows "\<exists>ps. split_on (CHR ''/'') (path_join base name) = ps @ [name]"
proof -
  have rel: "\<not> starts_with name ''/''"
    using assms by (auto simp: starts_with_iff)
  consider "base = []" | b where "base = b @ [CHR ''/'']" | "base \<noteq> []" "last base \<noteq> CHR ''/''"
    by (metis append_butlast_last_id)
  then show ?thesis
  proof cases
    case 1
    then show ?thesis using rel assms by (simp add: path_join_def split_on_no_sep)
  next
    case 2
    then show ?thesis using rel split_on_last_part [OF assms, of b] by (simp add: path_join_def)
  next
    case 3
    then show ?thesis using rel split_on_last_part [OF assms, of base] by (simp add: path_join_def)
  qed
qed

lemma file_name_join:
  assumes "CHR ''/'' \<notin> set name" and "name \<noteq> []" and "name \<noteq> ''.''" and "name \<noteq> ''..''"
  shows "file_name (path_join base name) = Some name"
proof -
  obtain ps where "split_on (CHR ''/'') (path_join base name) = ps @ [name]"
    using split_on_path_join [OF assms(1)] by blast
  then show ?thesis
    using assms(2-4) by (simp add: file_name_def path_components_def Let_def)
qed

text \<open>
  The file name as a string. The other way \<open>filename_str\<close> and \<open>path_str\<close> can fail, a path
  that is not UTF-8, does not arise: every path of the program is built from strings.
\<close>

datatype path_error = NoFileName string

definition filename_str :: "string \<Rightarrow> (path_error, string) result" where
  "filename_str p = ok_or (file_name p) (NoFileName p)"

section \<open>The run context\<close>

text \<open>
  The two optional channels are recorded as present or absent; the cancellation token and the
  client are shared by all VMs and appear as events and parameters where they are used.
\<close>

record run_ctx =
  ctx_config :: app_config
  ctx_slot :: nat
  ctx_log_tx :: bool
  ctx_vsock_notify :: bool
  vcpu_override :: "32 word option"
  mem_override :: "32 word option"

definition run_ctx_new :: "app_config \<Rightarrow> nat \<Rightarrow> run_ctx" where
  "run_ctx_new cfg s =
     \<lparr>ctx_config = cfg, ctx_slot = s, ctx_log_tx = False, ctx_vsock_notify = False,
      vcpu_override = None, mem_override = None\<rparr>"

definition with_log_tx :: "run_ctx \<Rightarrow> run_ctx" where
  "with_log_tx ctx = ctx\<lparr>ctx_log_tx := True\<rparr>"

definition with_vsock_notify :: "run_ctx \<Rightarrow> run_ctx" where
  "with_vsock_notify ctx = ctx\<lparr>ctx_vsock_notify := True\<rparr>"

definition with_vcpu_override :: "run_ctx \<Rightarrow> 32 word \<Rightarrow> run_ctx" where
  "with_vcpu_override ctx n = ctx\<lparr>vcpu_override := Some n\<rparr>"

definition with_mem_override :: "run_ctx \<Rightarrow> 32 word \<Rightarrow> run_ctx" where
  "with_mem_override ctx n = ctx\<lparr>mem_override := Some n\<rparr>"

section \<open>The VM\<close>

record s3_guest_config =
  g_endpoint :: string
  g_bucket :: string
  g_access_key :: string
  g_secret_key :: string
  g_region :: string

record micro_vm =
  vm_id :: string
  vm_job :: nat
  vm_slot :: nat
  rootfs_path :: string
  config_path :: string
  socket_path :: string
  log_path :: string
  mount_point :: string
  overlay_path :: string
  vsock_socket_path :: string
  cache_path :: "string option"
  cache_service_token :: "string option"
  cache_service_port :: "nat option"
  s3_config :: "s3_guest_config option"
  fc_config :: firecracker_config
  vm_timeout :: nat
  tap_name :: string
  vm_host_ip :: string
  vm_guest_ip :: string
  guest_mac :: string
  network_dns :: "string list"

definition make_vm_id :: "nat \<Rightarrow> string \<Rightarrow> string" where
  "make_vm_id job uuid = ''fc-'' @ show_nat job @ ''-'' @ uuid"

definition micro_vm_new ::
    "string \<Rightarrow> nat \<Rightarrow> firecracker_config \<Rightarrow> network_config \<Rightarrow> string \<Rightarrow> nat \<Rightarrow> nat \<Rightarrow> micro_vm" where
  "micro_vm_new uuid job fc nw wd timeout s =
     (let i = make_vm_id job uuid in
      \<lparr>vm_id = i, vm_job = job, vm_slot = s,
       rootfs_path = path_join wd (i @ ''.ext4''),
       config_path = path_join wd (i @ ''.json''),
       socket_path = path_join wd (i @ ''.sock''),
       log_path = path_join wd (i @ ''.log''),
       mount_point = path_join wd (i @ ''.mnt''),
       overlay_path = path_join wd (i @ ''.overlay.ext4''),
       vsock_socket_path = path_join wd (i @ ''.vsock''),
       cache_path =
         (if cache_enabled fc
          then Some (path_join (cache_dir fc) (''slot-'' @ show_nat s @ ''.ext4'')) else None),
       cache_service_token = None, cache_service_port = None, s3_config = None,
       fc_config = fc, vm_timeout = timeout,
       tap_name = ''tap-fc'' @ show_nat s,
       vm_host_ip = ''172.16.'' @ show_nat s @ ''.1'',
       vm_guest_ip = ''172.16.'' @ show_nat s @ ''.2'',
       guest_mac = ''06:00:AC:10:'' @ show_hex02 s @ '':02'',
       network_dns = nw_dns nw\<rparr>)"

definition use_mmds :: "micro_vm \<Rightarrow> bool" where
  "use_mmds vm \<longleftrightarrow> secret_injection (fc_config vm) = ''mmds''"

definition use_overlay :: "micro_vm \<Rightarrow> bool" where
  "use_overlay vm \<longleftrightarrow> overlay_rootfs (fc_config vm)"

definition squashfs_path :: "micro_vm \<Rightarrow> string" where
  "squashfs_path vm = replace_all ''.ext4'' ''.squashfs'' (rootfs_golden (fc_config vm))"

definition cache_device_name :: "micro_vm \<Rightarrow> string" where
  "cache_device_name vm = (if use_overlay vm then ''vdc'' else ''vdb'')"

text \<open>
  \<open>vsock_cid_base + slot as u32\<close>, which wraps in the optimised build the program ships
  (a debug build panics there instead).
\<close>

definition vsock_cid :: "micro_vm \<Rightarrow> 32 word" where
  "vsock_cid vm = vsock_cid_base (fc_config vm) + of_nat (vm_slot vm)"

definition use_jailer :: "micro_vm \<Rightarrow> bool" where
  "use_jailer vm \<longleftrightarrow> jailer_path (fc_config vm) \<noteq> None"

definition jailer_root_dir :: "micro_vm \<Rightarrow> string" where
  "jailer_root_dir vm =
     path_join (path_join (path_join (jailer_chroot_base (fc_config vm)) ''firecracker'') (vm_id vm)) ''root''"

definition api_socket_path :: "micro_vm \<Rightarrow> string" where
  "api_socket_path vm =
     (if use_jailer vm then path_join (jailer_root_dir vm) ''api.sock'' else socket_path vm)"

section \<open>Names derived from the slot\<close>

lemma micro_vm_new_sel [simp]:
  "vm_slot (micro_vm_new u j fc nw wd t s) = s"
  "vm_job (micro_vm_new u j fc nw wd t s) = j"
  "vm_id (micro_vm_new u j fc nw wd t s) = make_vm_id j u"
  "fc_config (micro_vm_new u j fc nw wd t s) = fc"
  "tap_name (micro_vm_new u j fc nw wd t s) = ''tap-fc'' @ show_nat s"
  "vm_host_ip (micro_vm_new u j fc nw wd t s) = ''172.16.'' @ show_nat s @ ''.1''"
  "vm_guest_ip (micro_vm_new u j fc nw wd t s) = ''172.16.'' @ show_nat s @ ''.2''"
  "guest_mac (micro_vm_new u j fc nw wd t s) = ''06:00:AC:10:'' @ show_hex02 s @ '':02''"
  "cache_path (micro_vm_new u j fc nw wd t s) =
     (if cache_enabled fc
      then Some (path_join (cache_dir fc) (''slot-'' @ show_nat s @ ''.ext4'')) else None)"
  by (simp_all add: micro_vm_new_def Let_def)

lemma parse_ipv4_subnet:
  assumes "parse_octet x = Some k" and "CHR ''.'' \<notin> set x"
  shows "parse_ipv4 (''172.16.'' @ show_nat s @ CHR ''.'' # x) =
     (if s \<le> 255 then Some [172, 16, s, k] else None)"
proof -
  have "split_on (CHR ''.'') (show_nat s @ CHR ''.'' # x) = [show_nat s, x]"
    using assms(2) by (simp add: split_on_append split_on_no_sep)
  then have "split_on (CHR ''.'') (''172.16.'' @ show_nat s @ CHR ''.'' # x) =
      [''172'', ''16'', show_nat s, x]" by simp
  moreover have "parse_octet ''172'' = Some 172" and "parse_octet ''16'' = Some 16"
    by (simp_all add: parse_octet_def digit_val_def)
  ultimately show ?thesis
    using assms(1) by (simp add: parse_ipv4_def parse_octet_show_nat)
qed

lemma vm_ip_octets:
  "parse_ipv4 (vm_host_ip (micro_vm_new u j fc nw wd t s)) = (if s \<le> 255 then Some [172, 16, s, 1] else None)"
  "parse_ipv4 (vm_guest_ip (micro_vm_new u j fc nw wd t s)) = (if s \<le> 255 then Some [172, 16, s, 2] else None)"
  using parse_ipv4_subnet [of "''1''" 1 s] parse_ipv4_subnet [of "''2''" 2 s]
  by (simp_all add: parse_octet_def digit_val_def)

lemma slot_cid_inject:
  assumes "s < 2 ^ 32" and "t < 2 ^ 32"
  shows "(b :: 32 word) + of_nat s = b + of_nat t \<longleftrightarrow> s = t"
  using assms by (simp only: add_left_cancel) (simp add: word_unat_eq_iff unat_of_nat take_bit_nat_eq_self)

lemma cache_file_rel: "\<not> starts_with (''slot-'' @ x) ''/''"
  by (simp add: starts_with_iff)

section \<open>Names derived from the identifier\<close>

text \<open>The files of one VM, the console file of \<open>cleanup\<close> included.\<close>

definition vm_files :: "micro_vm \<Rightarrow> string list" where
  "vm_files vm =
     [rootfs_path vm, config_path vm, socket_path vm, log_path vm,
      with_extension (rootfs_path vm) ''console'', overlay_path vm, vsock_socket_path vm]"

definition dir_prefix :: "string \<Rightarrow> string" where
  "dir_prefix d = (if d = [] \<or> last d = CHR ''/'' then d else d @ ''/'')"

lemma path_join_vm_file: "path_join wd (make_vm_id j u @ x) = dir_prefix wd @ make_vm_id j u @ x"
  by (simp add: path_join_def dir_prefix_def make_vm_id_def starts_with_iff)

definition uuid_ok :: "string \<Rightarrow> bool" where
  "uuid_ok u \<longleftrightarrow> CHR ''.'' \<notin> set u \<and> CHR ''/'' \<notin> set u"

lemma make_vm_id_chars:
  "uuid_ok u \<Longrightarrow> CHR ''.'' \<notin> set (make_vm_id j u)"
  "uuid_ok u \<Longrightarrow> CHR ''/'' \<notin> set (make_vm_id j u)"
  using show_nat_avoids [of "CHR ''/''" j] by (auto simp: make_vm_id_def uuid_ok_def digit_val_def)

lemma make_vm_id_inject: "make_vm_id j u = make_vm_id j' u' \<longleftrightarrow> j = j' \<and> u = u'"
proof
  assume E: "make_vm_id j u = make_vm_id j' u'"
  have no: "CHR ''-'' \<notin> set (show_nat n)" for n
    by (rule show_nat_avoids) (simp add: digit_val_def)
  from E have "split_once (CHR ''-'') (show_nat j @ CHR ''-'' # u)
      = split_once (CHR ''-'') (show_nat j' @ CHR ''-'' # u')"
    by (simp add: make_vm_id_def)
  then show "j = j' \<and> u = u'" by (simp add: split_once_app no)
qed simp

lemma file_stem_of_one_dot:
  "CHR ''.'' \<notin> set a \<Longrightarrow> CHR ''.'' \<notin> set b \<Longrightarrow> a \<noteq> [] \<Longrightarrow> file_stem_of (a @ CHR ''.'' # b) = a"
  by (simp add: file_stem_of_def split_on_append split_on_no_sep Let_def)

lemma after_last_dir_prefix:
  assumes "CHR ''/'' \<notin> set x"
  shows "after_last (CHR ''/'') (dir_prefix d @ x) = x"
proof -
  consider "d = []" | b where "d = b @ ''/''" | "d \<noteq> []" "last d \<noteq> CHR ''/''"
    by (metis append_butlast_last_id)
  then show ?thesis
    by cases (use assms in \<open>simp_all add: dir_prefix_def after_last_app after_last_no_sep\<close>)
qed

lemma console_path:
  assumes "uuid_ok u"
  shows "with_extension (dir_prefix wd @ make_vm_id j u @ ''.ext4'') ''console'' =
     dir_prefix wd @ make_vm_id j u @ ''.console''"
proof -
  have "make_vm_id j u \<noteq> []" by (simp add: make_vm_id_def)
  then show ?thesis
    using assms make_vm_id_chars [OF assms, of j]
    by (simp add: with_extension_def after_last_dir_prefix file_stem_of_one_dot Let_def)
qed

lemma vm_files_new:
  assumes "uuid_ok u"
  shows "vm_files (micro_vm_new u j fc nw wd t s) =
     map (\<lambda>x. dir_prefix wd @ make_vm_id j u @ CHR ''.'' # x)
       [''ext4'', ''json'', ''sock'', ''log'', ''console'', ''overlay.ext4'', ''vsock'']"
  using console_path [OF assms, of wd j]
  by (simp add: vm_files_def micro_vm_new_def path_join_vm_file Let_def)

lemma vm_file_inject:
  assumes "uuid_ok u" and "uuid_ok u'"
    and "dir_prefix wd @ make_vm_id j u @ CHR ''.'' # x = dir_prefix wd @ make_vm_id j' u' @ CHR ''.'' # y"
  shows "j = j' \<and> u = u' \<and> x = y"
proof -
  have "split_once (CHR ''.'') (make_vm_id j u @ CHR ''.'' # x) =
      split_once (CHR ''.'') (make_vm_id j' u' @ CHR ''.'' # y)"
    using assms(3) by simp
  then show ?thesis
    using assms(1,2) by (simp add: split_once_app make_vm_id_chars make_vm_id_inject)
qed

section \<open>Properties\<close>

text \<open>two VMs on different slots never share a TAP device, a host or guest address, a MAC
  address, a VSOCK context identifier (while slots fit in 32 bits) or a cache image; two VMs on
  the same slot share all of them, whatever their jobs and identifiers.\<close>

theorem slot_names_injective:
  fixes u u' wd :: string and j j' tm s t :: nat and nw :: network_config
  assumes "s < 2 ^ 32" and "t < 2 ^ 32" and "cache_enabled fc"
  defines "a \<equiv> micro_vm_new u j fc nw wd tm s" and "b \<equiv> micro_vm_new u' j' fc nw wd tm t"
  shows "(tap_name a = tap_name b) = (s = t) \<and> (vm_host_ip a = vm_host_ip b) = (s = t) \<and>
    (vm_guest_ip a = vm_guest_ip b) = (s = t) \<and> (guest_mac a = guest_mac b) = (s = t) \<and>
    (vsock_cid a = vsock_cid b) = (s = t) \<and> (cache_path a = cache_path b) = (s = t)"
proof (intro conjI)
  have "path_join d (''slot-'' @ show_nat s @ e) = path_join d (''slot-'' @ show_nat t @ e) \<longleftrightarrow> s = t" for d e
    using path_join_inject [OF cache_file_rel cache_file_rel, of d "show_nat s @ e" "show_nat t @ e"]
    by auto
  then show "(cache_path a = cache_path b) = (s = t)" using assms(3) by (simp add: a_def b_def)
  show "(vsock_cid a = vsock_cid b) = (s = t)"
    using slot_cid_inject [OF assms(1,2)] by (simp add: vsock_cid_def a_def b_def)
qed (simp_all add: a_def b_def)

theorem slot_names_injective_witness:
  "tap_name (micro_vm_new ''u'' 7 (default_firecracker_config ''k'' ''r''\<lparr>cache_enabled := True\<rparr>)
      default_network_config ''/w'' 60 3)
    \<noteq> tap_name (micro_vm_new ''v'' 7 (default_firecracker_config ''k'' ''r''\<lparr>cache_enabled := True\<rparr>)
      default_network_config ''/w'' 60 13)"
  using slot_names_injective [of 3 13 "default_firecracker_config ''k'' ''r''\<lparr>cache_enabled := True\<rparr>"
    "''u''" 7 default_network_config "''/w''" 60 "''v''" 7] by simp

text \<open>the addresses a VM is given are IPv4 addresses exactly for the slots up to 255, and then
  the host end and the guest end of the /24 network of that slot. A larger slot, which
  \<open>max_concurrent_jobs\<close> allows, makes a string \<open>create_tap\<close> cannot parse.\<close>

theorem slot_addresses_valid_iff:
  "parse_ipv4 (vm_host_ip (micro_vm_new u j fc nw wd tm s)) = (if s \<le> 255 then Some [172, 16, s, 1] else None)
   \<and> parse_ipv4 (vm_guest_ip (micro_vm_new u j fc nw wd tm s)) = (if s \<le> 255 then Some [172, 16, s, 2] else None)"
  by (simp only: vm_ip_octets simp_thms)

text \<open>the files of two different VMs are pairwise different: no VM reads, overwrites or
  cleans up a file of another one, and no two roles within a VM share a file.\<close>

theorem vm_files_disjoint:
  assumes "uuid_ok u" and "uuid_ok u'" and "(j, u) \<noteq> (j', u')"
  shows "distinct (vm_files (micro_vm_new u j fc nw wd tm s) @ vm_files (micro_vm_new u' j' fc' nw' wd tm' s'))"
proof -
  let ?f = "\<lambda>k v x. dir_prefix wd @ make_vm_id k v @ CHR ''.'' # x"
  let ?exts = "[''ext4'', ''json'', ''sock'', ''log'', ''console'', ''overlay.ext4'', ''vsock'']"
  have "distinct (map (?f k v) ?exts)" for k v by simp
  moreover have "p \<noteq> q" if "p \<in> set (map (?f j u) es)" and "q \<in> set (map (?f j' u') es)" for p q es
  proof -
    from that(1) obtain x where "p = ?f j u x" unfolding set_map by (rule imageE)
    moreover from that(2) obtain y where "q = ?f j' u' y" unfolding set_map by (rule imageE)
    ultimately show ?thesis using vm_file_inject [OF assms(1,2)] assms(3) by blast
  qed
  ultimately show ?thesis
    unfolding vm_files_new [OF assms(1)] vm_files_new [OF assms(2)] distinct_append by blast
qed

theorem vm_files_disjoint_witness:
  "distinct (vm_files (micro_vm_new ''ab'' 1 (default_firecracker_config [] []) default_network_config ''/w'' 9 0)
     @ vm_files (micro_vm_new ''cd'' 1 (default_firecracker_config [] []) default_network_config ''/w'' 9 0))"
  by (rule vm_files_disjoint) (simp_all add: uuid_ok_def)
end
