(* ===== verification/Layers.thy ===== *)
theory Layers
  imports Micro_Vm Json "HOL-Library.Sublist"
begin

text \<open>
  Laying the layers of a container image over each other (\<open>extract_layer\<close> in \<open>src/src/image.rs\<close>):
  a file tree with symbolic links, the way the kernel walks a path through it, and the entries of a
  layer's archive in their order. Decompressing and the \<open>unpack_in\<close> of the archive library are
  parameters; the theorem about the result is stated for one that does what it documents.
\<close>

section \<open>File trees\<close>

text \<open>
  A directory, a regular file with its permission bits when the program sets them, a symbolic link,
  the image of a disk with its length in bytes and whether it holds a file system. A tree maps absolute paths, as lists of names, to
  these; its root is always a directory.
\<close>

datatype inode = Dir | Reg string "nat option" | Lnk string | Disk nat bool

type_synonym fs = "string list \<rightharpoonup> inode"

definition look :: "fs \<Rightarrow> string list \<Rightarrow> inode option" where
  "look t q = (if q = [] then Some Dir else t q)"

text \<open>
  Walking a path from a directory: \<open>.\<close> and empty names stay, \<open>..\<close> goes up (not above the root), a
  symbolic link is replaced by its target, the last one only when \<open>follow\<close> is set. At most forty links
  are followed. The path that is reached need not exist, its directory does.
\<close>

function walk :: "fs \<Rightarrow> nat \<Rightarrow> bool \<Rightarrow> string list \<Rightarrow> string list \<Rightarrow> string list option" where
  "walk t n follow here [] = Some here"
| "walk t n follow here (c # cs) =
     (if c = '''' \<or> c = ''.'' then walk t n follow here cs
      else if c = ''..'' then walk t n follow (butlast here) cs
      else
        (case t (here @ [c]) of
           Some Dir \<Rightarrow> walk t n follow (here @ [c]) cs
         | Some (Lnk target) \<Rightarrow>
             if cs = [] \<and> \<not> follow then Some (here @ [c])
             else (case n of
                     0 \<Rightarrow> None
                   | Suc m \<Rightarrow>
                       walk t m follow (if starts_with target ''/'' then [] else here) (path_components target @ cs))
         | _ \<Rightarrow> if cs = [] then Some (here @ [c]) else None))"
  by pat_completeness auto
termination by (relation "measures [\<lambda>(t, n, _). n, \<lambda>(t, n, f, h, cs). length cs]") auto

definition max_links :: nat where "max_links = 40"

text \<open>\<open>Path::exists\<close> and \<open>Path::is_dir\<close>.\<close>

definition node_at :: "fs \<Rightarrow> bool \<Rightarrow> string list \<Rightarrow> inode option" where
  "node_at t follow p = obind (walk t max_links follow [] p) (look t)"

definition path_exists :: "fs \<Rightarrow> string list \<Rightarrow> bool" where
  "path_exists t p \<longleftrightarrow> node_at t True p \<noteq> None"

definition path_is_dir :: "fs \<Rightarrow> string list \<Rightarrow> bool" where
  "path_is_dir t p \<longleftrightarrow> node_at t True p = Some Dir"

text \<open>\<open>base.join(p)\<close>, in names.\<close>

definition join_parts :: "string list \<Rightarrow> string \<Rightarrow> string list" where
  "join_parts base p = (if starts_with p ''/'' then path_components p else base @ path_components p)"

section \<open>Extracting a layer\<close>

record tar_entry =
  te_path :: string
  te_node :: inode

text \<open>
  Which calls succeed (by their number), what a removal leaves behind when it does not remove
  everything, and the library's \<open>unpack_in\<close>: whether it succeeded, and the tree afterwards.
\<close>

record layer_env =
  le_ok :: "nat \<Rightarrow> bool"
  le_keep :: "nat \<Rightarrow> string list \<Rightarrow> bool"
  le_unpack :: "string list \<Rightarrow> tar_entry \<Rightarrow> fs \<Rightarrow> bool \<times> fs"

record layer_state =
  ls_fs :: fs
  ls_tick :: nat

datatype layer_error = BadArchive | BadEntry | CannotList | CannotUnpack string

type_synonym 'a layer_op = "(layer_state, layer_error, 'a) op"

definition layer_put :: "fs \<Rightarrow> layer_state \<Rightarrow> layer_state" where
  "layer_put t s = \<lparr>ls_fs = t, ls_tick = Suc (ls_tick s)\<rparr>"

text \<open>
  What is below a directory goes, and the directory itself when it is named by its own name; a mount
  point and the directories above it stay.
\<close>

definition drop_below :: "(string list \<Rightarrow> bool) \<Rightarrow> string list \<Rightarrow> string list \<Rightarrow> fs \<Rightarrow> fs" where
  "drop_below keep mnt q t = (\<lambda>p. if strict_prefix q p \<and> \<not> prefix p mnt \<and> \<not> keep p then None else t p)"

definition drop_one :: "(string list \<Rightarrow> bool) \<Rightarrow> string list \<Rightarrow> string list \<Rightarrow> fs \<Rightarrow> fs" where
  "drop_one keep mnt q t = (if prefix q mnt \<or> keep q then t else t(q := None))"

text \<open>\<open>fs::remove_dir_all\<close> of a link removes the link, \<open>fs::remove_file\<close> of a directory fails; both failures
  are ignored.\<close>

definition remove_dir_all :: "layer_env \<Rightarrow> string list \<Rightarrow> string list \<Rightarrow> unit layer_op" where
  "remove_dir_all env mnt p s =
     (let keep = le_keep env (ls_tick s); t = ls_fs s in
      (Inr (), layer_put
        (case walk t max_links False [] p of
           None \<Rightarrow> t
         | Some q \<Rightarrow>
             (case look t q of
                Some Dir \<Rightarrow>
                  (let u = drop_below keep mnt q t in
                   if p \<noteq> [] \<and> last p \<in> {''.'', ''..''} then u else drop_one keep mnt q u)
              | Some (Lnk _) \<Rightarrow> drop_one keep mnt q t
              | _ \<Rightarrow> t)) s))"

definition remove_file_at :: "layer_env \<Rightarrow> string list \<Rightarrow> string list \<Rightarrow> unit layer_op" where
  "remove_file_at env mnt p s =
     (let keep = le_keep env (ls_tick s); t = ls_fs s in
      (Inr (), layer_put
        (case walk t max_links False [] p of
           None \<Rightarrow> t
         | Some q \<Rightarrow> if look t q = Some Dir then t else drop_one keep mnt q t) s))"

text \<open>A whiteout removes the file or directory it names.\<close>

definition whiteout :: "layer_env \<Rightarrow> string list \<Rightarrow> string list \<Rightarrow> unit layer_op" where
  "whiteout env mnt target s =
     (if path_is_dir (ls_fs s) target then remove_dir_all env mnt target s else remove_file_at env mnt target s)"

text \<open>An opaque whiteout removes everything in its directory; the directory has to be one that can be listed.\<close>

definition opaque_whiteout :: "layer_env \<Rightarrow> string list \<Rightarrow> string list \<Rightarrow> unit layer_op" where
  "opaque_whiteout env mnt parent s =
     (let t = ls_fs s in
      if \<not> path_exists t parent then (Inr (), s)
      else if \<not> path_is_dir t parent then (Inl CannotList, s)
      else (case walk t max_links True [] parent of
              None \<Rightarrow> (Inl CannotList, s)
            | Some q \<Rightarrow>
                (if le_ok env (ls_tick s) then Inr () else Inl CannotList,
                 layer_put (drop_below (le_keep env (ls_tick s)) mnt q t) s)))"

definition unpack_entry :: "layer_env \<Rightarrow> string list \<Rightarrow> tar_entry \<Rightarrow> unit layer_op" where
  "unpack_entry env mnt e s =
     (case le_unpack env mnt e (ls_fs s) of
        (ok, t) \<Rightarrow> (if ok then Inr () else Inl (CannotUnpack (te_path e)), layer_put t s))"

text \<open>Names that are not UTF-8 are not whiteouts; here every name is.\<close>

definition extract_entry :: "layer_env \<Rightarrow> string list \<Rightarrow> tar_entry \<Rightarrow> unit layer_op" where
  "extract_entry env mnt e =
     (case file_name (te_path e) of
        None \<Rightarrow> unpack_entry env mnt e
      | Some name \<Rightarrow>
          if name = ''.wh..wh..opq'' then opaque_whiteout env mnt (butlast (join_parts mnt (te_path e)))
          else (case strip_prefix ''.wh.'' name of
                  Some target \<Rightarrow> whiteout env mnt (butlast (join_parts mnt (te_path e)) @ [target])
                | None \<Rightarrow> unpack_entry env mnt e))"

text \<open>The entries up to the first that cannot be read; no list when the archive cannot be opened.\<close>

fun extract_entries :: "layer_env \<Rightarrow> string list \<Rightarrow> tar_entry option list \<Rightarrow> unit layer_op" where
  "extract_entries env mnt [] = op_ret ()"
| "extract_entries env mnt (None # es) = op_fail BadEntry"
| "extract_entries env mnt (Some e # es) = op_seq (extract_entry env mnt e) (extract_entries env mnt es)"

definition extract_layer :: "layer_env \<Rightarrow> string list \<Rightarrow> tar_entry option list option \<Rightarrow> unit layer_op" where
  "extract_layer env mnt archive =
     (case archive of None \<Rightarrow> op_fail BadArchive | Some es \<Rightarrow> extract_entries env mnt es)"

section \<open>What a layer means\<close>

text \<open>
  An entry hides everything in a directory, hides one file or directory with everything below it, or
  puts a file or directory at a path; paths are lists of names below the mount point.
\<close>

datatype layer_item = Opaque "string list" | White "string list" | Node "string list" inode

definition item_of :: "tar_entry \<Rightarrow> layer_item" where
  "item_of e =
     (let cs = path_components (te_path e) in
      case file_name (te_path e) of
        None \<Rightarrow> Node cs (te_node e)
      | Some name \<Rightarrow>
          if name = ''.wh..wh..opq'' then Opaque (butlast cs)
          else (case strip_prefix ''.wh.'' name of Some target \<Rightarrow> White (butlast cs @ [target]) | None \<Rightarrow> Node cs (te_node e)))"

fun hides :: "layer_item \<Rightarrow> string list \<Rightarrow> bool" where
  "hides (Opaque d) p \<longleftrightarrow> strict_prefix d p"
| "hides (White q) p \<longleftrightarrow> prefix q p"
| "hides (Node _ _) p \<longleftrightarrow> False"

lemma hides_fun [simp]: "hides (Opaque d) = strict_prefix d" "hides (White q) = prefix q"
  by (simp_all add: fun_eq_iff)

definition hide :: "(string list \<Rightarrow> bool) \<Rightarrow> fs \<Rightarrow> fs" where
  "hide h t = (\<lambda>p. if h p then None else t p)"

definition put_node :: "string list \<Rightarrow> inode \<Rightarrow> fs \<Rightarrow> fs" where
  "put_node p n t = (\<lambda>q. if q = p then Some n else if strict_prefix q p then Some Dir else t q)"

text \<open>One entry after the other, as the program does it.\<close>

fun lay :: "fs \<Rightarrow> layer_item \<Rightarrow> fs" where
  "lay t (Node p n) = put_node p n t"
| "lay t i = hide (hides i) t"

text \<open>
  The image specification: the whiteouts of a layer hide what the layers below have, and then the
  files of the layer are put in.
\<close>

definition oci_layer :: "fs \<Rightarrow> layer_item list \<Rightarrow> fs" where
  "oci_layer t items =
     foldl lay (hide (\<lambda>p. \<exists>i \<in> set items. hides i p) t) (filter (\<lambda>i. case i of Node _ _ \<Rightarrow> True | _ \<Rightarrow> False) items)"

text \<open>No whiteout comes after a file of the same layer that it would hide.\<close>

fun own_files_kept :: "layer_item list \<Rightarrow> bool" where
  "own_files_kept [] \<longleftrightarrow> True"
| "own_files_kept (Node p n # is) \<longleftrightarrow> (\<forall>w \<in> set is. \<not> hides w p) \<and> own_files_kept is"
| "own_files_kept (_ # is) \<longleftrightarrow> own_files_kept is"

lemma hide_put_node:
  assumes "\<not> hides w p"
  shows "hide (hides w) (put_node p n t) = put_node p n (hide (hides w) t)"
proof
  fix q
  have "\<not> hides w q" if "strict_prefix q p"
    using assms that by (cases w) (auto simp: strict_prefix_def dest: prefix_order.trans)
  then show "hide (hides w) (put_node p n t) q = put_node p n (hide (hides w) t) q"
    using assms by (auto simp: hide_def put_node_def)
qed

lemma hide_hide: "hide f (hide g t) = hide (\<lambda>p. f p \<or> g p) t"
  by (auto simp: hide_def)

lemma hide_nodes:
  assumes "\<And>p n. Node p n \<in> set ns \<Longrightarrow> \<not> hides w p" and "\<And>i. i \<in> set ns \<Longrightarrow> \<exists>p n. i = Node p n"
  shows "hide (hides w) (foldl lay t ns) = foldl lay (hide (hides w) t) ns"
  using assms
proof (induction ns rule: rev_induct)
  case (snoc i ns)
  obtain p n where i: "i = Node p n" using snoc.prems(2) [of i] by auto
  have "\<not> hides w p" using snoc.prems(1) [of p n] i by simp
  then have "hide (hides w) (put_node p n (foldl lay t ns)) = put_node p n (hide (hides w) (foldl lay t ns))"
    by (rule hide_put_node)
  also have "hide (hides w) (foldl lay t ns) = foldl lay (hide (hides w) t) ns"
    using snoc.IH snoc.prems by fastforce
  finally show ?case by (simp add: i)
qed simp

lemma own_files_kept_append:
  "own_files_kept (is @ [w]) \<longleftrightarrow> own_files_kept is \<and> (\<forall>p n. Node p n \<in> set is \<longrightarrow> \<not> hides w p)"
  by (induction "is" rule: own_files_kept.induct) (cases w, auto)

text \<open>Then the order of the entries does not matter, and the program's way is the specification's.\<close>

lemma lay_is_oci_layer: "own_files_kept items \<Longrightarrow> foldl lay t items = oci_layer t items"
proof (induction items rule: rev_induct)
  case Nil
  then show ?case by (simp add: oci_layer_def hide_def)
next
  case (snoc w items)
  have IH: "foldl lay t items = oci_layer t items" using snoc by (simp add: own_files_kept_append)
  show ?case
  proof (cases "\<exists>p n. w = Node p n")
    case True
    then have "hides w = (\<lambda>_. False)" by auto
    then show ?thesis using True IH by (auto simp: oci_layer_def)
  next
    case False
    let ?ns = "filter (\<lambda>i. case i of Node _ _ \<Rightarrow> True | _ \<Rightarrow> False) items"
    have w: "lay u w = hide (hides w) u" for u using False by (cases w) auto
    have "hide (hides w) (foldl lay (hide (\<lambda>p. \<exists>i \<in> set items. hides i p) t) ?ns) =
        foldl lay (hide (hides w) (hide (\<lambda>p. \<exists>i \<in> set items. hides i p) t)) ?ns"
      using snoc.prems by (intro hide_nodes) (auto simp: own_files_kept_append split: layer_item.splits)
    moreover have "filter (\<lambda>i. case i of Node _ _ \<Rightarrow> True | _ \<Rightarrow> False) (items @ [w]) = ?ns"
      using False by (cases w) auto
    ultimately show ?thesis using IH by (simp add: w oci_layer_def hide_hide)
  qed
qed

section \<open>The program implements it\<close>

definition ordinary :: "string \<Rightarrow> bool" where
  "ordinary c \<longleftrightarrow> c \<noteq> '''' \<and> c \<noteq> ''.'' \<and> c \<noteq> ''..''"

lemma walk_ordinary:
  assumes "\<forall>c \<in> set cs. ordinary c"
    and "\<And>q. strict_prefix q cs \<Longrightarrow> q \<noteq> [] \<Longrightarrow> t (here @ q) = None \<or> t (here @ q) = Some Dir"
    and "follow \<Longrightarrow> cs \<noteq> [] \<Longrightarrow> \<forall>x. t (here @ cs) \<noteq> Some (Lnk x)"
  shows "walk t n follow here cs =
    (if \<forall>q. strict_prefix q cs \<and> q \<noteq> [] \<longrightarrow> t (here @ q) = Some Dir then Some (here @ cs) else None)"
  using assms
proof (induction cs arbitrary: here)
  case Nil
  then show ?case by simp
next
  case (Cons c cs)
  have c: "ordinary c" "\<forall>c \<in> set cs. ordinary c" using Cons.prems(1) by auto
  show ?case
  proof (cases "cs = []")
    case True
    have none: "\<not> strict_prefix q [c] \<or> q = []" for q by (cases q) auto
    show ?thesis
      using True c(1) Cons.prems(3) none by (auto simp: ordinary_def split: option.splits inode.splits)
  next
    case False
    have sp: "strict_prefix q (c # cs) \<longleftrightarrow> q = [] \<or> (\<exists>r. q = c # r \<and> strict_prefix r cs)" for q
      by (cases q) auto
    have one: "strict_prefix [c] (c # cs)" using False by (cases cs) auto
    have IH: "walk t n follow (here @ [c]) cs =
        (if \<forall>q. strict_prefix q cs \<and> q \<noteq> [] \<longrightarrow> t ((here @ [c]) @ q) = Some Dir then Some ((here @ [c]) @ cs) else None)"
    proof (rule Cons.IH [OF c(2)])
      show "t ((here @ [c]) @ q) = None \<or> t ((here @ [c]) @ q) = Some Dir" if "strict_prefix q cs" "q \<noteq> []" for q
        using Cons.prems(2) [of "c # q"] that by simp
    next
      show "\<forall>x. t ((here @ [c]) @ cs) \<noteq> Some (Lnk x)" if "follow" "cs \<noteq> []"
        using Cons.prems(3) that by simp
    qed
    have eq: "(\<forall>q. strict_prefix q (c # cs) \<and> q \<noteq> [] \<longrightarrow> t (here @ q) = Some Dir) \<longleftrightarrow>
        t (here @ [c]) = Some Dir \<and> (\<forall>q. strict_prefix q cs \<and> q \<noteq> [] \<longrightarrow> t ((here @ [c]) @ q) = Some Dir)"
      using one by (auto simp: sp)
    consider "t (here @ [c]) = None" | "t (here @ [c]) = Some Dir" using Cons.prems(2) [OF one] by auto
    then show ?thesis
    proof cases
      case 1
      then show ?thesis unfolding eq using c(1) False by (simp add: ordinary_def)
    next
      case 2
      have "walk t n follow here (c # cs) = walk t n follow (here @ [c]) cs" using 2 c(1) by (simp add: ordinary_def)
      also note IH
      finally show ?thesis unfolding eq using 2 by (simp only: append.assoc append_Cons append_Nil simp_thms)
    qed
  qed
qed

text \<open>The tree below the mount point, and the trees in which a mount point is reached by its own name.\<close>

definition below :: "string list \<Rightarrow> fs \<Rightarrow> fs" where
  "below mnt t = (\<lambda>p. t (mnt @ p))"

definition mount_dir :: "string list \<Rightarrow> fs \<Rightarrow> bool" where
  "mount_dir mnt t \<longleftrightarrow> mnt \<noteq> [] \<and> (\<forall>c \<in> set mnt. ordinary c) \<and> (\<forall>q. prefix q mnt \<and> q \<noteq> [] \<longrightarrow> t q = Some Dir)"

text \<open>
  A tree whose files are in directories, and whose paths are directories exactly when \<open>d\<close> says so.
\<close>

definition tree_ok :: "string list set \<Rightarrow> fs \<Rightarrow> bool" where
  "tree_ok d t \<longleftrightarrow> (\<forall>p n. t p = Some n \<longrightarrow> (n = Dir \<longleftrightarrow> p \<in> d) \<and> (\<forall>q. strict_prefix q p \<longrightarrow> t q = Some Dir))"

text \<open>
  An entry of a well-behaved layer: its path stays below the mount point, the directories on the way
  are directories wherever they occur, and what it puts is a directory exactly when \<open>d\<close> says so.
\<close>

definition entry_ok :: "string list set \<Rightarrow> tar_entry \<Rightarrow> bool" where
  "entry_ok d e \<longleftrightarrow> \<not> starts_with (te_path e) ''/'' \<and>
     (case item_of e of
        Opaque q \<Rightarrow> (\<forall>c \<in> set q. ordinary c) \<and> (\<forall>r. prefix r q \<longrightarrow> r \<in> d)
      | White q \<Rightarrow> q \<noteq> [] \<and> (\<forall>c \<in> set q. ordinary c) \<and> (\<forall>r. strict_prefix r q \<longrightarrow> r \<in> d)
      | Node q n \<Rightarrow> (\<forall>c \<in> set q. ordinary c) \<and> (\<forall>r. strict_prefix r q \<longrightarrow> r \<in> d) \<and> (n = Dir \<longleftrightarrow> q \<in> d))"

text \<open>
  What the archive library documents: it puts the file of an entry at its path below the mount point,
  makes the directories on the way, and changes nothing else.
\<close>

definition unpacks :: "layer_env \<Rightarrow> string list \<Rightarrow> string list set \<Rightarrow> bool" where
  "unpacks env mnt d \<longleftrightarrow> (\<forall>e t p n. entry_ok d e \<and> item_of e = Node p n \<and> mount_dir mnt t \<and> tree_ok d (below mnt t) \<longrightarrow>
     (\<exists>u. le_unpack env mnt e t = (True, u) \<and> below mnt u = put_node p n (below mnt t) \<and>
       (\<forall>q. \<not> prefix mnt q \<longrightarrow> u q = t q)))"

lemma tree_ok_lay:
  assumes "tree_ok d t" and "entry_ok d e"
  shows "tree_ok d (lay t (item_of e))"
proof -
  have hide: "tree_ok d (hide h t)" if "\<And>q r. h q \<Longrightarrow> strict_prefix q r \<Longrightarrow> h r" for h
    using assms(1) that unfolding tree_ok_def hide_def by auto
  show ?thesis
  proof (cases "item_of e")
    case (Opaque q)
    then show ?thesis by (auto intro!: hide simp: strict_prefix_def dest: prefix_order.trans prefix_order.antisym)
  next
    case (White q)
    then show ?thesis by (auto intro!: hide simp: strict_prefix_def dest: prefix_order.trans)
  next
    case (Node q n)
    then have k: "\<forall>r. strict_prefix r q \<longrightarrow> r \<in> d" "n = Dir \<longleftrightarrow> q \<in> d" using assms(2) by (auto simp: entry_ok_def)
    have "(m = Dir \<longleftrightarrow> p \<in> d) \<and> (\<forall>r. strict_prefix r p \<longrightarrow> put_node q n t r = Some Dir)" if m: "put_node q n t p = Some m" for p m
    proof -
      consider "p = q" "m = n" | "strict_prefix p q" "m = Dir" | "p \<noteq> q" "\<not> strict_prefix p q" "t p = Some m"
        using m by (auto simp: put_node_def split: if_splits)
      then show ?thesis
      proof cases
        case 1
        then show ?thesis using k by (auto simp: put_node_def)
      next
        case 2
        then show ?thesis using k(1) by (auto simp: put_node_def strict_prefix_def dest: prefix_order.trans)
      next
        case 3
        have t: "m = Dir \<longleftrightarrow> p \<in> d" "t r = Some Dir" if "strict_prefix r p" for r
          using assms(1) 3(3) that unfolding tree_ok_def by blast+
        have "m = Dir \<longleftrightarrow> p \<in> d" using assms(1) 3(3) unfolding tree_ok_def by blast
        moreover have "put_node q n t r = Some Dir" if "strict_prefix r p" for r
        proof (cases "r = q")
          case True
          then have "t q = Some Dir" using t(2) that by simp
          then have "q \<in> d" using assms(1) unfolding tree_ok_def by blast
          then show ?thesis using True k(2) by (simp add: put_node_def)
        next
          case False
          then show ?thesis using t(2) that by (simp add: put_node_def)
        qed
        ultimately show ?thesis by blast
      qed
    qed
    then show ?thesis using Node by (auto simp: tree_ok_def)
  qed
qed

text \<open>Walking to a path below the mount point.\<close>

lemma strict_prefix_append_cases:
  assumes "strict_prefix q (xs @ ys)"
  shows "prefix q xs \<or> (\<exists>r. q = xs @ r \<and> strict_prefix r ys)"
  using assms by (auto simp: strict_prefix_def prefix_append)

lemma walk_below:
  assumes "mount_dir mnt t" and "tree_ok d (below mnt t)" and "\<forall>c \<in> set cs. ordinary c" and "\<forall>r. strict_prefix r cs \<longrightarrow> r \<in> d"
    and "follow \<Longrightarrow> \<forall>x. t (mnt @ cs) \<noteq> Some (Lnk x)"
  shows "walk t n follow [] (mnt @ cs) =
    (if \<forall>r. strict_prefix r cs \<and> r \<noteq> [] \<longrightarrow> t (mnt @ r) = Some Dir then Some (mnt @ cs) else None)"
proof -
  have kinds: "t (mnt @ r) = None \<or> t (mnt @ r) = Some Dir" if "strict_prefix r cs" for r
    using assms(2,4) that unfolding tree_ok_def below_def by (metis option.exhaust)
  have dirs: "t q = Some Dir" if "prefix q mnt" "q \<noteq> []" for q using assms(1) that by (simp add: mount_dir_def)
  have "walk t n follow [] (mnt @ cs) =
    (if \<forall>q. strict_prefix q (mnt @ cs) \<and> q \<noteq> [] \<longrightarrow> t ([] @ q) = Some Dir then Some ([] @ mnt @ cs) else None)"
  proof (rule walk_ordinary)
    show "\<forall>c \<in> set (mnt @ cs). ordinary c" using assms(1,3) by (auto simp: mount_dir_def)
  next
    fix q assume "strict_prefix q (mnt @ cs)" "q \<noteq> []"
    then consider "prefix q mnt" | r where "q = mnt @ r" "strict_prefix r cs" by (auto dest!: strict_prefix_append_cases)
    then show "t ([] @ q) = None \<or> t ([] @ q) = Some Dir"
      using kinds dirs \<open>q \<noteq> []\<close> by cases simp_all
  next
    assume follow
    then show "\<forall>x. t ([] @ mnt @ cs) \<noteq> Some (Lnk x)" using assms(5) by simp
  qed
  moreover have "(\<forall>q. strict_prefix q (mnt @ cs) \<and> q \<noteq> [] \<longrightarrow> t q = Some Dir) \<longleftrightarrow>
      (\<forall>r. strict_prefix r cs \<and> r \<noteq> [] \<longrightarrow> t (mnt @ r) = Some Dir)"
  proof (intro iffI allI impI)
    fix r assume "\<forall>q. strict_prefix q (mnt @ cs) \<and> q \<noteq> [] \<longrightarrow> t q = Some Dir" "strict_prefix r cs \<and> r \<noteq> []"
    then show "t (mnt @ r) = Some Dir" by (auto simp: strict_prefix_def)
  next
    fix q assume r: "\<forall>r. strict_prefix r cs \<and> r \<noteq> [] \<longrightarrow> t (mnt @ r) = Some Dir" and q: "strict_prefix q (mnt @ cs) \<and> q \<noteq> []"
    then consider "prefix q mnt" | r' where "q = mnt @ r'" "strict_prefix r' cs" by (auto dest!: strict_prefix_append_cases)
    then show "t q = Some Dir"
    proof cases
      case 1
      then show ?thesis using dirs q by simp
    next
      case 2
      then show ?thesis using r dirs [of mnt] q by (cases "r' = []") auto
    qed
  qed
  ultimately show ?thesis by (simp only: append_Nil)
qed

lemma walk_below_present:
  assumes "mount_dir mnt t" and "tree_ok d (below mnt t)" and "\<forall>c \<in> set cs. ordinary c" and "\<forall>r. strict_prefix r cs \<longrightarrow> r \<in> d"
    and "t (mnt @ cs) = Some m" and "follow \<Longrightarrow> \<forall>x. m \<noteq> Lnk x"
  shows "walk t n follow [] (mnt @ cs) = Some (mnt @ cs)"
proof -
  have "\<forall>r. strict_prefix r cs \<longrightarrow> t (mnt @ r) = Some Dir" using assms(2,5) by (auto simp: tree_ok_def below_def)
  then show ?thesis using walk_below [OF assms(1-4), of follow n] assms(5,6) by simp
qed

lemma node_at_below:
  assumes "mount_dir mnt t" and "tree_ok d (below mnt t)" and "\<forall>c \<in> set cs. ordinary c" and "\<forall>r. strict_prefix r cs \<longrightarrow> r \<in> d"
    and "follow \<Longrightarrow> \<forall>x. t (mnt @ cs) \<noteq> Some (Lnk x)"
  shows "node_at t follow (mnt @ cs) = t (mnt @ cs)"
proof (cases "t (mnt @ cs)")
  case None
  have "mnt \<noteq> []" using assms(1) by (simp add: mount_dir_def)
  then show ?thesis using walk_below [OF assms] None by (auto simp: node_at_def look_def)
next
  case (Some m)
  have "mnt \<noteq> []" using assms(1) by (simp add: mount_dir_def)
  then show ?thesis using walk_below_present [OF assms(1-4) Some, of follow] assms(5) Some by (auto simp: node_at_def look_def)
qed

definition calm :: "layer_env \<Rightarrow> bool" where
  "calm env \<longleftrightarrow> (\<forall>k. le_ok env k) \<and> (\<forall>k p. \<not> le_keep env k p)"

text \<open>Outside the mount point nothing changes.\<close>

definition inside_only :: "string list \<Rightarrow> fs \<Rightarrow> fs \<Rightarrow> bool" where
  "inside_only mnt t u \<longleftrightarrow> (\<forall>q. \<not> prefix mnt q \<longrightarrow> u q = t q)"

lemma below_drop:
  "calm env \<Longrightarrow> below mnt (drop_below (le_keep env k) mnt (mnt @ q) t) = hide (strict_prefix q) (below mnt t)"
  "calm env \<Longrightarrow> q \<noteq> [] \<Longrightarrow> below mnt (drop_one (le_keep env k) mnt (mnt @ q) t) = hide (\<lambda>p. p = q) (below mnt t)"
  "inside_only mnt t u \<Longrightarrow> inside_only mnt t (drop_below (le_keep env k) mnt (mnt @ q) u)"
  "inside_only mnt t u \<Longrightarrow> inside_only mnt t (drop_one (le_keep env k) mnt (mnt @ q) u)"
  by (auto simp: below_def drop_below_def drop_one_def hide_def inside_only_def calm_def fun_eq_iff strict_prefix_def
      dest: append_prefixD)

lemma tree_ok_absent: "tree_ok d t \<Longrightarrow> strict_prefix q p \<Longrightarrow> t q \<noteq> Some Dir \<Longrightarrow> t p = None"
  unfolding tree_ok_def by (metis option.exhaust)

lemma whiteout_below:
  assumes "calm env" and "mount_dir mnt t" and "tree_ok d (below mnt t)" and "q \<noteq> []" and "\<forall>c \<in> set q. ordinary c"
    and "\<forall>r. strict_prefix r q \<longrightarrow> r \<in> d"
  shows "\<exists>u. whiteout env mnt (mnt @ q) \<lparr>ls_fs = t, ls_tick = k\<rparr> = (Inr (), \<lparr>ls_fs = u, ls_tick = Suc k\<rparr>) \<and>
    below mnt u = hide (prefix q) (below mnt t) \<and> inside_only mnt t u"
proof -
  have mnt: "mnt \<noteq> []" using assms(2) by (simp add: mount_dir_def)
  have plain: "last (mnt @ q) \<notin> {''.'', ''..''}" using assms(4,5) by (auto simp: ordinary_def)
  have leaf: "hide (\<lambda>p. p = q) (below mnt t) = hide (prefix q) (below mnt t)" if "t (mnt @ q) \<noteq> Some Dir"
  proof
    fix p
    have "below mnt t p = None" if "prefix q p" "p \<noteq> q"
      using tree_ok_absent [OF assms(3), of q p] that \<open>t (mnt @ q) \<noteq> Some Dir\<close> by (simp add: below_def strict_prefix_def)
    then show "hide (\<lambda>p. p = q) (below mnt t) p = hide (prefix q) (below mnt t) p" by (auto simp: hide_def)
  qed
  have both: "hide (\<lambda>p. p = q) (hide (strict_prefix q) (below mnt t)) = hide (prefix q) (below mnt t)"
    by (auto simp: hide_def strict_prefix_def)
  have self: "inside_only mnt t t" by (simp add: inside_only_def)
  have one: "below mnt (drop_one (le_keep env k) mnt (mnt @ q) t) = hide (prefix q) (below mnt t)" if "t (mnt @ q) \<noteq> Some Dir"
    using below_drop(2) [OF assms(1,4), of mnt k t] leaf [OF that] by simp
  note out = below_drop(3,4) [where mnt = mnt and t = t]
  show ?thesis
  proof (cases "t (mnt @ q)")
    case None
    have dir: "\<not> path_is_dir t (mnt @ q)"
      using node_at_below [OF assms(2,3,5,6), of True] None by (simp add: path_is_dir_def)
    have w: "walk t max_links False [] (mnt @ q) = None \<or> walk t max_links False [] (mnt @ q) = Some (mnt @ q)"
      using walk_below [OF assms(2,3,5,6), of False max_links] by auto
    have "hide (\<lambda>p. p = q) (below mnt t) = below mnt t" using None by (auto simp: hide_def below_def)
    then have same: "below mnt t = hide (prefix q) (below mnt t)" using leaf None by simp
    show ?thesis
      using w dir None one same out self mnt
      by (auto simp: whiteout_def remove_file_at_def Let_def layer_put_def look_def)
  next
    case (Some m)
    note w = walk_below_present [OF assms(2,3,5,6) Some, of False max_links]
    show ?thesis
    proof (cases m)
      case Dir
      have dir: "path_is_dir t (mnt @ q)"
        using node_at_below [OF assms(2,3,5,6), of True] Some Dir by (simp add: path_is_dir_def)
      let ?u = "drop_one (le_keep env k) mnt (mnt @ q) (drop_below (le_keep env k) mnt (mnt @ q) t)"
      have "below mnt ?u = hide (prefix q) (below mnt t)"
        using below_drop(1,2) [OF assms(1)] assms(4) both by simp
      moreover have "inside_only mnt t ?u" using out self by blast
      ultimately show ?thesis
        using w dir Some Dir plain mnt assms(4) by (auto simp: whiteout_def remove_dir_all_def Let_def layer_put_def look_def)
    next
      case (Reg x y)
      have dir: "\<not> path_is_dir t (mnt @ q)"
        using node_at_below [OF assms(2,3,5,6), of True] Some Reg by (simp add: path_is_dir_def)
      then show ?thesis
        using w Some Reg one out self mnt by (auto simp: whiteout_def remove_file_at_def Let_def layer_put_def look_def)
    next
      case (Lnk x)
      then show ?thesis
        using w Some one out self mnt
        by (auto simp: whiteout_def remove_dir_all_def remove_file_at_def Let_def layer_put_def look_def)
    next
      case (Disk x y)
      have dir: "\<not> path_is_dir t (mnt @ q)"
        using node_at_below [OF assms(2,3,5,6), of True] Some Disk by (simp add: path_is_dir_def)
      then show ?thesis
        using w Some Disk one out self mnt by (auto simp: whiteout_def remove_file_at_def Let_def layer_put_def look_def)
    qed
  qed
qed

lemma opaque_below:
  assumes "calm env" and "mount_dir mnt t" and "tree_ok d (below mnt t)" and "\<forall>c \<in> set q. ordinary c"
    and "\<forall>r. prefix r q \<longrightarrow> r \<in> d"
  shows "\<exists>u l. opaque_whiteout env mnt (mnt @ q) \<lparr>ls_fs = t, ls_tick = k\<rparr> = (Inr (), \<lparr>ls_fs = u, ls_tick = l\<rparr>) \<and>
    below mnt u = hide (strict_prefix q) (below mnt t) \<and> inside_only mnt t u"
proof -
  have pre: "\<forall>r. strict_prefix r q \<longrightarrow> r \<in> d" using assms(5) by (auto simp: strict_prefix_def)
  have kind: "t (mnt @ q) = None \<or> t (mnt @ q) = Some Dir"
    using assms(3) spec [OF assms(5), of q] unfolding tree_ok_def below_def by (metis option.exhaust prefix_order.refl)
  then have node: "node_at t True (mnt @ q) = t (mnt @ q)"
    using node_at_below [OF assms(2,3,4) pre, of True] by auto
  have self: "inside_only mnt t t" by (simp add: inside_only_def)
  show ?thesis
  proof (cases "t (mnt @ q)")
    case None
    have "below mnt t p = None" if "strict_prefix q p" for p
      using tree_ok_absent [OF assms(3) that] None by (simp add: below_def)
    then have "hide (strict_prefix q) (below mnt t) = below mnt t" by (auto simp: hide_def)
    then show ?thesis using None node self by (auto simp: opaque_whiteout_def Let_def path_exists_def)
  next
    case (Some m)
    then have m: "m = Dir" using kind by simp
    have "walk t max_links True [] (mnt @ q) = Some (mnt @ q)"
      using walk_below_present [OF assms(2,3,4) pre Some, of True max_links] m by simp
    then show ?thesis
      using Some m node assms(1) below_drop(1,3) [where mnt = mnt and t = t] self
      by (auto simp: opaque_whiteout_def Let_def path_exists_def path_is_dir_def layer_put_def calm_def)
  qed
qed

lemma mount_dir_keep:
  assumes "mount_dir mnt t" and "inside_only mnt t u" and "below mnt u [] = Some Dir"
  shows "mount_dir mnt u"
proof -
  have "u q = Some Dir" if "prefix q mnt" "q \<noteq> []" for q
  proof (cases "q = mnt")
    case True
    then show ?thesis using assms(3) by (simp add: below_def)
  next
    case False
    then have "\<not> prefix mnt q" using that(1) prefix_order.antisym by blast
    then show ?thesis using assms(1,2) that by (simp add: inside_only_def mount_dir_def)
  qed
  then show ?thesis using assms(1) by (simp add: mount_dir_def)
qed

lemma extract_entry_below:
  assumes "calm env" and "unpacks env mnt d" and "mount_dir mnt (ls_fs s)" and "tree_ok d (below mnt (ls_fs s))" and "entry_ok d e"
  shows "\<exists>s'. extract_entry env mnt e s = (Inr (), s') \<and> below mnt (ls_fs s') = lay (below mnt (ls_fs s)) (item_of e) \<and>
    inside_only mnt (ls_fs s) (ls_fs s') \<and> mount_dir mnt (ls_fs s') \<and> tree_ok d (below mnt (ls_fs s'))"
proof -
  let ?t = "ls_fs s" and ?cs = "path_components (te_path e)"
  have rel: "join_parts mnt (te_path e) = mnt @ ?cs" using assms(5) by (simp add: entry_ok_def join_parts_def)
  have sr: "\<lparr>ls_fs = ?t, ls_tick = ls_tick s\<rparr> = s" by simp
  have root: "below mnt ?t [] = Some Dir" using assms(3) by (simp add: mount_dir_def below_def)
  then have d: "[] \<in> d" using assms(4) unfolding tree_ok_def by blast
  have name: "?cs \<noteq> []" if "file_name (te_path e) = Some n" for n
    using that by (auto simp: file_name_def Let_def)
  have node: "\<exists>s'. unpack_entry env mnt e s = (Inr (), s') \<and> below mnt (ls_fs s') = lay (below mnt ?t) (item_of e) \<and>
      inside_only mnt ?t (ls_fs s')" if i: "item_of e = Node p n" for p n
  proof -
    obtain u where "le_unpack env mnt e ?t = (True, u)" "below mnt u = put_node p n (below mnt ?t)" "\<forall>q. \<not> prefix mnt q \<longrightarrow> u q = ?t q"
      using assms(2) [unfolded unpacks_def, rule_format, of e p n ?t] assms(3-5) i by blast
    then show ?thesis using i by (simp add: unpack_entry_def layer_put_def inside_only_def)
  qed
  have ok: "\<exists>s'. extract_entry env mnt e s = (Inr (), s') \<and> below mnt (ls_fs s') = lay (below mnt ?t) (item_of e) \<and>
      inside_only mnt ?t (ls_fs s')"
  proof (cases "file_name (te_path e)")
    case None
    then show ?thesis using node by (simp add: extract_entry_def item_of_def Let_def)
  next
    case (Some n)
    note cs = name [OF Some]
    have bl: "butlast (join_parts mnt (te_path e)) = mnt @ butlast ?cs" using rel cs by (simp add: butlast_append)
    consider "n = ''.wh..wh..opq''" | w where "n \<noteq> ''.wh..wh..opq''" "strip_prefix ''.wh.'' n = Some w" |
      "n \<noteq> ''.wh..wh..opq''" "strip_prefix ''.wh.'' n = None" by (cases "strip_prefix ''.wh.'' n") auto
    then show ?thesis
    proof cases
      case 1
      then have i: "item_of e = Opaque (butlast ?cs)" using Some by (simp add: item_of_def Let_def)
      then have "\<forall>c \<in> set (butlast ?cs). ordinary c" "\<forall>r. prefix r (butlast ?cs) \<longrightarrow> r \<in> d"
        using assms(5) by (simp_all add: entry_ok_def)
      then show ?thesis
        using opaque_below [OF assms(1,3,4), of "butlast ?cs" "ls_tick s", unfolded sr] 1 Some i bl by (auto simp: extract_entry_def)
    next
      case (2 w)
      then have i: "item_of e = White (butlast ?cs @ [w])" using Some by (simp add: item_of_def Let_def)
      then have "\<forall>c \<in> set (butlast ?cs @ [w]). ordinary c" "\<forall>r. strict_prefix r (butlast ?cs @ [w]) \<longrightarrow> r \<in> d"
        using assms(5) by (simp_all add: entry_ok_def)
      then show ?thesis
        using whiteout_below [OF assms(1,3,4), of "butlast ?cs @ [w]" "ls_tick s", unfolded sr] 2 Some i bl
        by (auto simp: extract_entry_def)
    next
      case 3
      then have "item_of e = Node ?cs (te_node e)" using Some by (simp add: item_of_def Let_def)
      then show ?thesis using node 3 Some by (simp add: extract_entry_def)
    qed
  qed
  then obtain s' where s': "extract_entry env mnt e s = (Inr (), s')" "below mnt (ls_fs s') = lay (below mnt ?t) (item_of e)"
    "inside_only mnt ?t (ls_fs s')" by blast
  have tree: "tree_ok d (below mnt (ls_fs s'))" unfolding s'(2) by (rule tree_ok_lay [OF assms(4,5)])
  have "lay (below mnt ?t) (item_of e) [] = Some Dir"
    using root assms(5) d by (cases "item_of e") (auto simp: hide_def put_node_def entry_ok_def strict_prefix_def)
  then show ?thesis using s' tree mount_dir_keep [OF assms(3) s'(3)] by auto
qed

lemma extract_entries_below:
  assumes "calm env" and "unpacks env mnt d" and "mount_dir mnt (ls_fs s)" and "tree_ok d (below mnt (ls_fs s))"
    and "\<forall>e \<in> set es. entry_ok d e"
  shows "\<exists>s'. extract_entries env mnt (map Some es) s = (Inr (), s') \<and>
    below mnt (ls_fs s') = foldl lay (below mnt (ls_fs s)) (map item_of es) \<and>
    inside_only mnt (ls_fs s) (ls_fs s') \<and> mount_dir mnt (ls_fs s') \<and> tree_ok d (below mnt (ls_fs s'))"
  using assms(3-5)
proof (induction es arbitrary: s)
  case Nil
  then show ?case by (simp add: op_ret_def inside_only_def)
next
  case (Cons e es)
  have e: "entry_ok d e" and es: "\<forall>e \<in> set es. entry_ok d e" using Cons.prems(3) by simp_all
  obtain m where m: "extract_entry env mnt e s = (Inr (), m)" "below mnt (ls_fs m) = lay (below mnt (ls_fs s)) (item_of e)"
    "inside_only mnt (ls_fs s) (ls_fs m)" "mount_dir mnt (ls_fs m)" "tree_ok d (below mnt (ls_fs m))"
    using extract_entry_below [OF assms(1,2) Cons.prems(1,2) e] by (elim exE conjE) (rule that)
  obtain s' where "extract_entries env mnt (map Some es) m = (Inr (), s')"
    "below mnt (ls_fs s') = foldl lay (below mnt (ls_fs m)) (map item_of es)"
    "inside_only mnt (ls_fs m) (ls_fs s')" "mount_dir mnt (ls_fs s')" "tree_ok d (below mnt (ls_fs s'))"
    using Cons.IH [OF m(4,5) es] by (elim exE conjE) (rule that)
  then show ?case using m by (simp add: op_seq_apply inside_only_def)
qed


text \<open>A library that does just what is documented, and a host with an image mounted at \<open>/mnt\<close>.\<close>

definition strip_list :: "'a list \<Rightarrow> 'a list \<Rightarrow> 'a list option" where
  "strip_list xs ys = (if prefix xs ys then Some (drop (length xs) ys) else None)"

definition plain_unpack :: "string list \<Rightarrow> tar_entry \<Rightarrow> fs \<Rightarrow> bool \<times> fs" where
  "plain_unpack mnt e t =
     (True, \<lambda>q. case strip_list mnt q of
        None \<Rightarrow> t q
      | Some p \<Rightarrow> put_node (path_components (te_path e)) (te_node e) (below mnt t) p)"

definition plain_env :: layer_env where
  "plain_env = \<lparr>le_ok = (\<lambda>_. True), le_keep = (\<lambda>_ _. False), le_unpack = plain_unpack\<rparr>"

lemma plain_unpacks: "unpacks plain_env mnt d"
proof -
  have n: "p = path_components (te_path e) \<and> n = te_node e" if "item_of e = Node p n" for e p n
    using that by (auto simp: item_of_def Let_def split: option.splits if_splits)
  show ?thesis
    unfolding unpacks_def
  proof (intro allI impI)
    fix e t p n
    assume "entry_ok d e \<and> item_of e = Node p n \<and> mount_dir mnt t \<and> tree_ok d (below mnt t)"
    then have pn: "p = path_components (te_path e)" "n = te_node e" using n by blast+
    show "\<exists>u. le_unpack plain_env mnt e t = (True, u) \<and> below mnt u = put_node p n (below mnt t) \<and> (\<forall>q. \<not> prefix mnt q \<longrightarrow> u q = t q)"
      by (intro exI [of _ "snd (plain_unpack mnt e t)"])
         (simp add: pn plain_env_def plain_unpack_def below_def [of mnt] strip_list_def)
  qed
qed

lemma plain_calm: "calm plain_env"
  by (simp add: calm_def plain_env_def)

definition demo_tree :: fs where
  "demo_tree = map_of
     [([''mnt''], Dir), ([''mnt'', ''etc''], Dir), ([''mnt'', ''etc'', ''old''], Reg ''1'' None), ([''mnt'', ''etc'', ''kept''], Reg ''2'' None),
      ([''etc''], Dir), ([''etc'', ''passwd''], Reg ''root'' None)]"

definition demo_layer :: "tar_entry list" where
  "demo_layer =
     [\<lparr>te_path = ''./etc/'', te_node = Dir\<rparr>, \<lparr>te_path = ''etc/.wh.old'', te_node = Reg '''' None\<rparr>,
      \<lparr>te_path = ''etc/new'', te_node = Reg ''3'' None\<rparr>]"

definition demo_dirs :: "string list set" where
  "demo_dirs = {[], [''etc'']}"

lemma demo_items:
  "map item_of demo_layer = [Node [''etc''] Dir, White [''etc'', ''old''], Node [''etc'', ''new''] (Reg ''3'' None)]"
  by code_simp


section \<open>Layers that are not well behaved\<close>

text \<open>A whiteout of a whole directory that comes after a file of the same layer in that directory deletes the
  file; by the specification it only hides what the layers below have.\<close>

definition late_layer :: "tar_entry list" where
  "late_layer =
     [\<lparr>te_path = ''etc/new'', te_node = Reg ''3'' None\<rparr>, \<lparr>te_path = ''etc/.wh..wh..opq'', te_node = Reg '''' None\<rparr>]"

lemma late_whiteout_deletes_own_file:
  "\<exists>s'. extract_layer plain_env [''mnt''] (Some (map Some late_layer)) \<lparr>ls_fs = demo_tree, ls_tick = 0\<rparr> = (Inr (), s') \<and>
     ls_fs s' [''mnt'', ''etc'', ''new''] = None \<and>
     oci_layer (below [''mnt''] demo_tree) (map item_of late_layer) [''etc'', ''new''] = Some (Reg ''3'' None)"
proof -
  let ?r = "extract_layer plain_env [''mnt''] (Some (map Some late_layer)) \<lparr>ls_fs = demo_tree, ls_tick = 0\<rparr>"
  have "fst ?r = Inr ()" "ls_fs (snd ?r) [''mnt'', ''etc'', ''new''] = None" by code_simp+
  moreover have "oci_layer (below [''mnt''] demo_tree) (map item_of late_layer) [''etc'', ''new''] = Some (Reg ''3'' None)" by code_simp
  ultimately show ?thesis by (intro exI [of _ "snd ?r"]) (simp add: prod_eq_iff)
qed

text \<open>
  The path of a whiteout is not held below the mount point: an absolute one, one with \<open>..\<close>, and one
  through a link of the image delete files of the host.
\<close>

definition escaping :: "tar_entry list \<Rightarrow> bool" where
  "escaping es \<longleftrightarrow>
     (case extract_layer plain_env [''mnt''] (Some (map Some es)) \<lparr>ls_fs = demo_tree, ls_tick = 0\<rparr> of
        (r, s) \<Rightarrow> is_ok r \<and> demo_tree [''etc'', ''passwd''] \<noteq> None \<and> ls_fs s [''etc'', ''passwd''] = None)"

lemma whiteout_deletes_host_file:
  "escaping [\<lparr>te_path = ''/etc/.wh.passwd'', te_node = Reg '''' None\<rparr>]"
  "escaping [\<lparr>te_path = ''../etc/.wh.passwd'', te_node = Reg '''' None\<rparr>]"
  "escaping [\<lparr>te_path = ''root'', te_node = Lnk ''/''\<rparr>, \<lparr>te_path = ''root/etc/.wh.passwd'', te_node = Reg '''' None\<rparr>]"
  by code_simp+

end
