(* ===== verification/Mmds.thy ===== *)
theory Mmds
  imports Micro_Vm Json
begin

text \<open>
  The metadata service: \<open>build_mmds_payload\<close> turns the \<open>KEY=VALUE\<close> lines of a run into the JSON
  object the guest reads, and the two raw requests on the API socket
  (\<open>src/src/vm/firecracker/mmds.rs\<close>).
\<close>

section \<open>The payload\<close>

definition mmds_value :: "string \<Rightarrow> json" where
  "mmds_value v = (if v = ''true'' \<or> v = ''false'' then JBool (v = ''true'') else JStr v)"

text \<open>A line without an equals sign is skipped.\<close>

definition mmds_entry :: "string \<Rightarrow> (string \<times> json) option" where
  "mmds_entry line =
     map_option (\<lambda>(k, v). (to_lower (trim k), mmds_value (trim v))) (split_once (CHR ''='') line)"

fun insert_lines :: "string list \<Rightarrow> (string \<times> json) list \<Rightarrow> (string \<times> json) list" where
  "insert_lines [] m = m"
| "insert_lines (l # ls) m =
     insert_lines ls (case mmds_entry l of None \<Rightarrow> m | Some (k, v) \<Rightarrow> sm_insert k v m)"

definition build_mmds_payload :: "string \<Rightarrow> json" where
  "build_mmds_payload env_content =
     JObj (sm_insert ''fc-runner'' (JObj (insert_lines (str_lines env_content) [])) [])"

text \<open>What the guest is served under \<open>/fc-runner\<close>.\<close>

definition guest_view :: "json \<Rightarrow> json option" where
  "guest_view j = json_get j ''fc-runner''"

section \<open>Raw requests\<close>

definition crlf :: string where
  "crlf = [CHR 0x0D, CHR 0x0A]"

definition raw_put :: "string \<Rightarrow> string \<Rightarrow> string" where
  "raw_put resource body =
     ''PUT '' @ resource @ '' HTTP/1.1'' @ crlf @ ''Content-Type: application/json'' @ crlf
       @ ''Content-Length: '' @ show_nat (length body) @ crlf @ crlf @ body"

text \<open>Success is judged by the text of the first 1024 bytes of the answer.\<close>

definition raw_put_accepted :: "string \<Rightarrow> bool" where
  "raw_put_accepted answer \<longleftrightarrow>
     contains_str (take 1024 answer) ''204'' \<or> contains_str (take 1024 answer) ''200''"

datatype raw_error = ConnectFailed | WriteFailed | ReadFailed | PutRefused string

text \<open>
  One exchange on the API socket, which is a parameter: it connects, takes the request and
  answers, or fails or times out at one of the three points. Both requests have this form.
\<close>

definition put_raw :: "string \<Rightarrow> (string \<Rightarrow> (raw_error, string) result) \<Rightarrow> string \<Rightarrow> (raw_error, unit) result" where
  "put_raw resource sock body =
     bindE (sock (raw_put resource body)) (\<lambda>answer.
       ensure (raw_put_accepted answer) (PutRefused (take 1024 answer)))"

definition put_mmds_raw :: "(string \<Rightarrow> (raw_error, string) result) \<Rightarrow> string \<Rightarrow> (raw_error, unit) result" where
  "put_mmds_raw sock body = put_raw ''/mmds'' sock body"

definition put_vsock_raw :: "(string \<Rightarrow> (raw_error, string) result) \<Rightarrow> string \<Rightarrow> (raw_error, unit) result" where
  "put_vsock_raw sock body = put_raw ''/vsock'' sock body"

section \<open>Lines that are read back\<close>

text \<open>A value the text form keeps: one line, no blanks at its ends, not spelt like a boolean.\<close>

definition clean_value :: "string \<Rightarrow> bool" where
  "clean_value v \<longleftrightarrow> plain_line v \<and> trim v = v \<and> v \<noteq> ''true'' \<and> v \<noteq> ''false''"

definition clean_key :: "string \<Rightarrow> bool" where
  "clean_key k \<longleftrightarrow> CHR ''='' \<notin> set k \<and> plain_line k \<and> trim k = k"

definition env_line :: "string \<times> string \<Rightarrow> string" where
  "env_line kv = fst kv @ ''='' @ snd kv"

definition env_text :: "(string \<times> string) list \<Rightarrow> string" where
  "env_text kvs = unlines (map env_line kvs)"

definition env_entries :: "(string \<times> string) list \<Rightarrow> (string \<times> json) list" where
  "env_entries kvs = map (\<lambda>(k, v). (to_lower k, mmds_value v)) kvs"

lemma mmds_entry_line:
  "clean_key k \<Longrightarrow> trim v = v \<Longrightarrow> mmds_entry (env_line (k, v)) = Some (to_lower k, mmds_value v)"
  by (simp add: mmds_entry_def env_line_def split_once_app clean_key_def)

lemma insert_lines_env:
  "(\<And>k v. (k, v) \<in> set kvs \<Longrightarrow> clean_key k \<and> trim v = v) \<Longrightarrow>
     insert_lines (map env_line kvs) m = sorted_map.insert_all (env_entries kvs) m"
proof (induction kvs arbitrary: m)
  case (Cons kv kvs)
  obtain k v where kv: "kv = (k, v)" by (cases kv)
  then have "mmds_entry (env_line (k, v)) = Some (to_lower k, mmds_value v)"
    using Cons.prems [of k v] by (simp add: mmds_entry_line)
  moreover have "insert_lines (map env_line kvs) m' = sorted_map.insert_all (env_entries kvs) m'" for m'
    by (intro Cons.IH, rule Cons.prems) simp
  ultimately show ?case by (simp add: kv env_entries_def)
qed (simp add: env_entries_def)

lemma payload_lookup:
  assumes "\<And>k v. (k, v) \<in> set kvs \<Longrightarrow> clean_key k \<and> trim v = v \<and> plain_line v"
  shows "guest_view (build_mmds_payload (env_text kvs)) = Some (JObj (sorted_map.insert_all (env_entries kvs) []))"
    and "json_get (JObj (sorted_map.insert_all (env_entries kvs) [])) k = map_of (rev (env_entries kvs)) k"
proof -
  have "str_lines (env_text kvs) = map env_line kvs"
    unfolding env_text_def
    by (rule str_lines_unlines) (use assms in \<open>auto simp: env_line_def plain_line_def clean_key_def\<close>)
  moreover have "insert_lines (map env_line kvs) [] = sorted_map.insert_all (env_entries kvs) []"
    using assms by (intro insert_lines_env) auto
  ultimately show "guest_view (build_mmds_payload (env_text kvs)) = Some (JObj (sorted_map.insert_all (env_entries kvs) []))"
    by (simp add: guest_view_def build_mmds_payload_def)
  show "json_get (JObj (sorted_map.insert_all (env_entries kvs) [])) k = map_of (rev (env_entries kvs)) k"
    by (simp add: sorted_map.get_insert_all_empty)
qed

section \<open>Properties\<close>

text \<open>the payload of a list of \<open>KEY=VALUE\<close> lines is the object that holds, under each lower-cased
  key, the value of its last line, with \<open>true\<close> and \<open>false\<close> as booleans.\<close>

theorem mmds_payload_lookup:
  assumes "\<And>k v. (k, v) \<in> set kvs \<Longrightarrow> clean_key k \<and> trim v = v \<and> plain_line v"
  shows "obind (guest_view (build_mmds_payload (env_text kvs))) (\<lambda>j. json_get j key) =
    map_of (rev (map (\<lambda>(k, v). (to_lower k, mmds_value v)) kvs)) key"
  using payload_lookup [of kvs] assms by (simp add: env_entries_def)

theorem mmds_payload_lookup_witness:
  "obind (guest_view (build_mmds_payload (env_text [(''A'', ''1''), (''B'', ''true''), (''A'', ''x y'')]))) (\<lambda>j. json_get j ''a'')
     = Some (JStr ''x y'')"
proof -
  let ?kvs = "[(''A'', ''1''), (''B'', ''true''), (''A'', ''x y'')]"
  have "clean_key k \<and> trim v = v \<and> plain_line v" if "(k, v) \<in> set ?kvs" for k v
    using that by (auto simp: clean_key_def plain_line_def trim_def is_ws_def)
  from mmds_payload_lookup [OF this]
  have "obind (guest_view (build_mmds_payload (env_text ?kvs))) (\<lambda>j. json_get j ''a'') =
      map_of (rev (map (\<lambda>(k, v). (to_lower k, mmds_value v)) ?kvs)) ''a''" .
  also have "\<dots> = Some (JStr ''x y'')" by code_simp
  finally show ?thesis .
qed

text \<open>the success test of the raw requests looks for a status anywhere in the answer: a refusal
  whose body happens to be 200 or 204 bytes long is taken for a success.\<close>

theorem raw_put_accepts_refusal:
  "put_mmds_raw (\<lambda>rq. Inr (''HTTP/1.1 400 Bad Request'' @ crlf @ ''Content-Length: 200'' @ crlf @ crlf @ b)) body = Inr ()"
proof -
  have "contains_str (take 1024 (''HTTP/1.1 400 Bad Request'' @ crlf @ ''Content-Length: 200'' @ crlf @ crlf @ b)) ''200''"
    unfolding contains_str_iff
    by (intro exI [of _ "''HTTP/1.1 400 Bad Request'' @ crlf @ ''Content-Length: ''"]
        exI [of _ "crlf @ crlf @ take 975 b"]) (simp add: crlf_def)
  then show ?thesis by (simp add: put_mmds_raw_def put_raw_def raw_put_accepted_def)
qed
end
