(* ===== verification/Vm_Config.thy ===== *)
theory Vm_Config
  imports Mmds
begin

text \<open>
  The two ways a VM is configured (\<open>src/src/vm/firecracker/config_builder.rs\<close>): the JSON file of
  the no-API mode and the sequence of API calls. Both are compared through one abstract view, the
  machine the guest will see. \<open>src/src/vm/firecracker/jailer.rs\<close>'s preparation of the chroot is
  here too, as the list of file operations it performs.
\<close>

section \<open>Boot arguments and drives\<close>

definition boot_args_of :: "micro_vm \<Rightarrow> string" where
  "boot_args_of vm =
     (let args = (if use_overlay vm then boot_args (fc_config vm) @ '' init=/sbin/overlay-init overlay_root=vdb''
                  else boot_args (fc_config vm))
      in if cache_path vm \<noteq> None then args @ '' cache_dev='' @ cache_device_name vm else args)"

definition drive_json :: "string \<Rightarrow> string \<Rightarrow> bool \<Rightarrow> bool \<Rightarrow> json" where
  "drive_json i path root ro =
     json_obj [(''drive_id'', JStr i), (''path_on_host'', JStr path), (''is_root_device'', JBool root),
               (''is_read_only'', JBool ro)]"

text \<open>The names files have inside the jailer's chroot are derived from the rootfs file's name.\<close>

definition jail_kernel :: "micro_vm \<Rightarrow> (path_error, string) result" where
  "jail_kernel vm = bindE (filename_str (rootfs_path vm)) (\<lambda>n. Inr (replace_all ''.ext4'' ''-kernel'' n))"

definition jail_squashfs :: "micro_vm \<Rightarrow> (path_error, string) result" where
  "jail_squashfs vm = bindE (filename_str (rootfs_path vm)) (\<lambda>n. Inr (replace_all ''.ext4'' ''-rootfs.squashfs'' n))"

definition jail_cache :: "micro_vm \<Rightarrow> string" where
  "jail_cache vm = ''slot-'' @ show_nat (vm_slot vm) @ ''-cache.ext4''"

definition root_drives :: "bool \<Rightarrow> micro_vm \<Rightarrow> string \<Rightarrow> (path_error, json list) result" where
  "root_drives jailed vm rootfs =
     (if use_overlay vm then
        bindE (if jailed then jail_squashfs vm else Inr (squashfs_path vm)) (\<lambda>sq.
        bindE (if jailed then filename_str (overlay_path vm) else Inr (overlay_path vm)) (\<lambda>ov.
        Inr [drive_json ''rootfs'' sq True True, drive_json ''overlay'' ov False False]))
      else Inr [drive_json ''rootfs'' rootfs True False])"

definition cache_drives :: "bool \<Rightarrow> micro_vm \<Rightarrow> json list" where
  "cache_drives jailed vm =
     (case cache_path vm of
        None \<Rightarrow> []
      | Some p \<Rightarrow> [drive_json ''cache'' (if jailed then jail_cache vm else p) False False])"

definition vsock_json :: "micro_vm \<Rightarrow> string \<Rightarrow> json" where
  "vsock_json vm uds = json_obj [(''guest_cid'', JNum (uint (vsock_cid vm))), (''uds_path'', JStr uds)]"

definition config_paths :: "bool \<Rightarrow> micro_vm \<Rightarrow> (path_error, string \<times> string \<times> string) result" where
  "config_paths jailed vm =
     (if jailed then
        bindE (jail_kernel vm) (\<lambda>k. bindE (filename_str (rootfs_path vm)) (\<lambda>r.
        bindE (filename_str (log_path vm)) (\<lambda>l. Inr (k, r, l))))
      else Inr (kernel_path (fc_config vm), rootfs_path vm, log_path vm))"

definition build_vm_config :: "bool \<Rightarrow> micro_vm \<Rightarrow> (path_error, json) result" where
  "build_vm_config jailed vm =
     bindE (config_paths jailed vm) (\<lambda>(k, r, l).
     bindE (root_drives jailed vm r) (\<lambda>ds.
       (let base = json_obj
          [(''boot-source'', json_obj [(''kernel_image_path'', JStr k), (''boot_args'', JStr (boot_args_of vm))]),
           (''drives'', JArr (ds @ cache_drives jailed vm)),
           (''machine-config'', json_obj [(''vcpu_count'', JNum (uint (vcpu_count (fc_config vm)))),
              (''mem_size_mib'', JNum (uint (mem_size_mib (fc_config vm))))]),
           (''network-interfaces'', JArr [json_obj [(''iface_id'', JStr ''eth0''),
              (''guest_mac'', JStr (guest_mac vm)), (''host_dev_name'', JStr (tap_name vm))]]),
           (''logger'', json_obj [(''log_path'', JStr l), (''level'', JStr (log_level (fc_config vm)))])];
          with_mmds = (if use_mmds vm then json_set ''mmds-config''
             (json_obj [(''version'', JStr ''V2''), (''network_interfaces'', JArr [JStr ''eth0''])]) base else base)
        in Inr (if vsock_enabled (fc_config vm)
                then json_set ''vsock'' (vsock_json vm (if jailed then ''vsock.sock'' else vsock_socket_path vm)) with_mmds
                else with_mmds))))"

section \<open>The API calls\<close>

datatype fc_log_level = LError | LWarning | LInfo | LDebug

definition log_level_from_str :: "string \<Rightarrow> fc_log_level" where
  "log_level_from_str s =
     (let l = to_lower s in
      if l = ''error'' then LError
      else if l = ''warning'' \<or> l = ''warn'' then LWarning
      else if l = ''info'' then LInfo
      else if l = ''debug'' then LDebug
      else LWarning)"

datatype api_call =
    PutMachine int int
  | PutBootSource string string
  | PutDrive string string bool bool
  | PutInterface string string string
  | PutLogger string fc_log_level
  | PutMmdsConfig string "string list"
  | PutMmds string json
  | PutVsock string json

definition drive_calls :: "micro_vm \<Rightarrow> api_call list" where
  "drive_calls vm =
     (if use_overlay vm then
        [PutDrive ''rootfs'' (squashfs_path vm) True True, PutDrive ''overlay'' (overlay_path vm) False False]
      else [PutDrive ''rootfs'' (rootfs_path vm) True False])
     @ (case cache_path vm of None \<Rightarrow> [] | Some p \<Rightarrow> [PutDrive ''cache'' p False False])"

definition api_calls :: "micro_vm \<Rightarrow> string \<Rightarrow> api_call list" where
  "api_calls vm env_content =
     [PutMachine (uint (vcpu_count (fc_config vm))) (uint (mem_size_mib (fc_config vm))),
      PutBootSource (kernel_path (fc_config vm)) (boot_args_of vm)]
     @ drive_calls vm
     @ [PutInterface ''eth0'' (guest_mac vm) (tap_name vm),
        PutLogger (log_path vm) (log_level_from_str (log_level (fc_config vm)))]
     @ (if use_mmds vm then
          [PutMmdsConfig ''V2'' [''eth0''], PutMmds (api_socket_path vm) (build_mmds_payload env_content)]
        else [])
     @ (if vsock_enabled (fc_config vm) then
          [PutVsock (api_socket_path vm) (vsock_json vm (vsock_socket_path vm))] else [])"

text \<open>The calls are made in order; the first refused one ends the configuration.\<close>

fun run_calls :: "(api_call \<Rightarrow> bool) \<Rightarrow> api_call list \<Rightarrow> api_call list \<times> (api_call, unit) result" where
  "run_calls accepts [] = ([], Inr ())"
| "run_calls accepts (c # cs) =
     (if accepts c then (let (issued, r) = run_calls accepts cs in (c # issued, r)) else ([c], Inl c))"

definition configure_instance ::
    "(api_call \<Rightarrow> bool) \<Rightarrow> micro_vm \<Rightarrow> string \<Rightarrow> api_call list \<times> (api_call, unit) result" where
  "configure_instance accepts vm env_content = run_calls accepts (api_calls vm env_content)"

section \<open>The chroot\<close>

datatype fs_op =
    MakeDirs string | LinkOrCopy string string | WriteText string string | WriteJson string json
  | ChownAll string "32 word" "32 word"

text \<open>
  The file operations in order, when none of them fails; a hard link that fails is replaced by a
  copy. The configuration written is the one with chroot-relative paths.
\<close>

definition setup_jailer_chroot :: "micro_vm \<Rightarrow> (path_error, fs_op list) result" where
  "setup_jailer_chroot vm =
     (let root = jailer_root_dir vm in
      bindE (jail_kernel vm) (\<lambda>k.
      bindE (if use_overlay vm then
               bindE (jail_squashfs vm) (\<lambda>sq. bindE (filename_str (overlay_path vm)) (\<lambda>ov.
                 Inr [LinkOrCopy (squashfs_path vm) (path_join root sq),
                      LinkOrCopy (overlay_path vm) (path_join root ov)]))
             else bindE (filename_str (rootfs_path vm)) (\<lambda>r.
                 Inr [LinkOrCopy (rootfs_path vm) (path_join root r)])) (\<lambda>drives.
      bindE (filename_str (log_path vm)) (\<lambda>l.
      bindE (build_vm_config True vm) (\<lambda>cfg.
      bindE (filename_str (config_path vm)) (\<lambda>c.
      Inr ([MakeDirs root, LinkOrCopy (kernel_path (fc_config vm)) (path_join root k)]
           @ drives
           @ (case cache_path vm of None \<Rightarrow> [] | Some p \<Rightarrow> [LinkOrCopy p (path_join root (jail_cache vm))])
           @ [WriteText (path_join root l) [], WriteJson (path_join root c) cfg]
           @ (case (jailer_uid (fc_config vm), jailer_gid (fc_config vm)) of
                (Some u, Some g) \<Rightarrow> [ChownAll root u g] | _ \<Rightarrow> []))))))))"

text \<open>The configuration file of the no-API mode outside the jailer.\<close>

definition write_vm_config :: "micro_vm \<Rightarrow> (path_error, fs_op list) result" where
  "write_vm_config vm =
     bindE (build_vm_config (use_jailer vm) vm) (\<lambda>cfg. Inr [WriteJson (config_path vm) cfg])"

section \<open>The machine a configuration describes\<close>

text \<open>What the two forms have in common, read from each of them.\<close>

record guest_machine =
  gm_vcpu :: int
  gm_mem :: int
  gm_kernel :: string
  gm_args :: string
  gm_drives :: "(string \<times> string \<times> bool \<times> bool) list"
  gm_nics :: "(string \<times> string \<times> string) list"
  gm_log :: string
  gm_mmds :: "string list"
  gm_vsock :: "json option"

definition as_int :: "json \<Rightarrow> int option" where
  "as_int j = (case j of JNum i \<Rightarrow> Some i | _ \<Rightarrow> None)"

definition read_drive :: "json \<Rightarrow> (string \<times> string \<times> bool \<times> bool) option" where
  "read_drive j =
     obind (de_req as_str ''drive_id'' j) (\<lambda>i. obind (de_req as_str ''path_on_host'' j) (\<lambda>p.
     obind (de_req as_bool ''is_root_device'' j) (\<lambda>r. obind (de_req as_bool ''is_read_only'' j) (\<lambda>o'.
     Some (i, p, r, o')))))"

definition read_nic :: "json \<Rightarrow> (string \<times> string \<times> string) option" where
  "read_nic j =
     obind (de_req as_str ''iface_id'' j) (\<lambda>i. obind (de_req as_str ''guest_mac'' j) (\<lambda>m.
     obind (de_req as_str ''host_dev_name'' j) (\<lambda>d. Some (i, m, d))))"

definition read_list :: "(json \<Rightarrow> 'a option) \<Rightarrow> json \<Rightarrow> 'a list option" where
  "read_list rd v = obind (as_arr v) (all_some rd)"

definition machine_of_json :: "json \<Rightarrow> guest_machine option" where
  "machine_of_json j =
     obind (json_get j ''machine-config'') (\<lambda>mc. obind (de_req as_int ''vcpu_count'' mc) (\<lambda>v.
     obind (de_req as_int ''mem_size_mib'' mc) (\<lambda>m.
     obind (json_get j ''boot-source'') (\<lambda>bs. obind (de_req as_str ''kernel_image_path'' bs) (\<lambda>k.
     obind (de_req as_str ''boot_args'' bs) (\<lambda>a.
     obind (de_req (read_list read_drive) ''drives'' j) (\<lambda>ds.
     obind (de_req (read_list read_nic) ''network-interfaces'' j) (\<lambda>ns.
     obind (json_get j ''logger'') (\<lambda>lg. obind (de_req as_str ''log_path'' lg) (\<lambda>l.
     obind (case json_get j ''mmds-config'' of None \<Rightarrow> Some []
            | Some mm \<Rightarrow> de_req (read_list as_str) ''network_interfaces'' mm) (\<lambda>mm.
     Some \<lparr>gm_vcpu = v, gm_mem = m, gm_kernel = k, gm_args = a, gm_drives = ds, gm_nics = ns, gm_log = l,
           gm_mmds = mm, gm_vsock = json_get j ''vsock''\<rparr>)))))))))))"

fun apply_call :: "api_call \<Rightarrow> guest_machine \<Rightarrow> guest_machine" where
  "apply_call (PutMachine v m) g = g\<lparr>gm_vcpu := v, gm_mem := m\<rparr>"
| "apply_call (PutBootSource k a) g = g\<lparr>gm_kernel := k, gm_args := a\<rparr>"
| "apply_call (PutDrive i p r o') g = g\<lparr>gm_drives := gm_drives g @ [(i, p, r, o')]\<rparr>"
| "apply_call (PutInterface i m d) g = g\<lparr>gm_nics := gm_nics g @ [(i, m, d)]\<rparr>"
| "apply_call (PutLogger l lv) g = g\<lparr>gm_log := l\<rparr>"
| "apply_call (PutMmdsConfig v ns) g = g\<lparr>gm_mmds := ns\<rparr>"
| "apply_call (PutMmds s j) g = g"
| "apply_call (PutVsock s j) g = g\<lparr>gm_vsock := Some j\<rparr>"

definition blank_machine :: guest_machine where
  "blank_machine = \<lparr>gm_vcpu = 0, gm_mem = 0, gm_kernel = [], gm_args = [], gm_drives = [], gm_nics = [],
     gm_log = [], gm_mmds = [], gm_vsock = None\<rparr>"

definition machine_of_calls :: "api_call list \<Rightarrow> guest_machine" where
  "machine_of_calls cs = fold apply_call cs blank_machine"

definition vm_drives :: "micro_vm \<Rightarrow> (string \<times> string \<times> bool \<times> bool) list" where
  "vm_drives vm =
     (if use_overlay vm then [(''rootfs'', squashfs_path vm, True, True), (''overlay'', overlay_path vm, False, False)]
      else [(''rootfs'', rootfs_path vm, True, False)])
     @ (case cache_path vm of None \<Rightarrow> [] | Some p \<Rightarrow> [(''cache'', p, False, False)])"

lemma read_drive_json [simp]: "read_drive (drive_json i p r o') = Some (i, p, r, o')"
  by (simp add: read_drive_def drive_json_def de_req_def)

lemma drives_json:
  "\<exists>ds. root_drives False vm (rootfs_path vm) = Inr ds \<and>
     all_some read_drive (ds @ cache_drives False vm) = Some (vm_drives vm)"
  by (auto simp: root_drives_def cache_drives_def vm_drives_def split: option.splits)

definition vm_machine :: "micro_vm \<Rightarrow> guest_machine" where
  "vm_machine vm =
     \<lparr>gm_vcpu = uint (vcpu_count (fc_config vm)), gm_mem = uint (mem_size_mib (fc_config vm)),
      gm_kernel = kernel_path (fc_config vm), gm_args = boot_args_of vm, gm_drives = vm_drives vm,
      gm_nics = [(''eth0'', guest_mac vm, tap_name vm)], gm_log = log_path vm,
      gm_mmds = (if use_mmds vm then [''eth0''] else []),
      gm_vsock = (if vsock_enabled (fc_config vm) then Some (vsock_json vm (vsock_socket_path vm)) else None)\<rparr>"

lemma machine_of_calls_vm: "machine_of_calls (api_calls vm env) = vm_machine vm"
  by (auto simp: machine_of_calls_def api_calls_def drive_calls_def blank_machine_def vm_machine_def vm_drives_def
      split: option.splits)

lemma json_get_obj_set:
  "json_get (json_set k x (json_obj kvs)) k' = (if k = k' then Some x else json_get (json_obj kvs) k')"
  by (simp add: json_obj_def map_of_sm_insert)

lemma json_set_obj: "\<exists>m. json_set k x (json_obj kvs) = JObj m"
  by (simp add: json_obj_def)

lemma json_get_set_set:
  "json_get (json_set k x (json_set k' x' (json_obj kvs))) i =
     (if k = i then Some x else if k' = i then Some x' else json_get (json_obj kvs) i)"
  by (simp add: json_obj_def map_of_sm_insert)

lemmas json_reads = json_get_obj_set json_get_set_set

lemma machine_of_config:
  "\<exists>j. build_vm_config False vm = Inr j \<and> machine_of_json j = Some (vm_machine vm)"
proof -
  obtain ds where ds: "root_drives False vm (rootfs_path vm) = Inr ds"
    "all_some read_drive (ds @ cache_drives False vm) = Some (vm_drives vm)"
    using drives_json by blast
  show ?thesis
    by (cases "use_mmds vm"; cases "vsock_enabled (fc_config vm)")
       (simp_all add: build_vm_config_def config_paths_def ds machine_of_json_def vm_machine_def json_reads
         de_req_def read_list_def as_int_def read_nic_def Let_def)
qed

section \<open>Properties\<close>

text \<open>C25: outside the jailer the JSON file of the no-API mode and the sequence of API calls describe the
  same machine: processors, memory, kernel and boot arguments, drives in the same order, network
  interface, log file, metadata service and VSOCK device.\<close>

theorem config_forms_agree:
  "obind (case build_vm_config False vm of Inl e \<Rightarrow> None | Inr j \<Rightarrow> Some j) machine_of_json
     = Some (machine_of_calls (api_calls vm env_content))"
  using machine_of_config [of vm] machine_of_calls_vm [of vm env_content] by auto

definition drive_letter :: "nat \<Rightarrow> string" where
  "drive_letter i = ''vd'' @ [char_of (97 + i)]"

definition drive_index :: "string \<Rightarrow> (string \<times> string \<times> bool \<times> bool) list \<Rightarrow> nat" where
  "drive_index i ds = length (takeWhile (\<lambda>d. fst d \<noteq> i) ds)"

lemma drive_letters: "drive_letter 1 = ''vdb''" "drive_letter 2 = ''vdc''"
  by (simp_all add: drive_letter_def char_of_eq_iff)

lemma vm_drives_index:
  "cache_path vm \<noteq> None \<Longrightarrow> drive_letter (drive_index ''cache'' (vm_drives vm)) = cache_device_name vm"
  "use_overlay vm \<Longrightarrow> drive_letter (drive_index ''overlay'' (vm_drives vm)) = ''vdb''"
  by (auto simp: vm_drives_def drive_index_def cache_device_name_def drive_letters [simplified numeral_2_eq_2 One_nat_def])


text \<open>The paths a configuration refers to: kernel, drives and log.\<close>

definition json_path :: "string \<Rightarrow> json \<Rightarrow> string list" where
  "json_path k j = (case de_req as_str k j of Some p \<Rightarrow> [p] | None \<Rightarrow> [])"

definition config_files :: "json \<Rightarrow> string list" where
  "config_files j =
     (case json_get j ''boot-source'' of Some b \<Rightarrow> json_path ''kernel_image_path'' b | None \<Rightarrow> [])
     @ (case json_get j ''drives'' of Some (JArr ds) \<Rightarrow> concat (map (json_path ''path_on_host'') ds) | _ \<Rightarrow> [])
     @ (case json_get j ''logger'' of Some l \<Rightarrow> json_path ''log_path'' l | None \<Rightarrow> [])"

fun op_target :: "fs_op \<Rightarrow> string list" where
  "op_target (LinkOrCopy s d) = [d]"
| "op_target (WriteText p t) = [p]"
| "op_target (WriteJson p j) = [p]"
| "op_target _ = []"

lemma json_path_drive [simp]: "json_path ''path_on_host'' (drive_json i p r o') = [p]"
  by (simp add: json_path_def drive_json_def de_req_def)

lemma config_files_build:
  assumes "build_vm_config jailed vm = Inr j" and "config_paths jailed vm = Inr (k, r, l)"
    and "root_drives jailed vm r = Inr ds"
  shows "config_files j = k # concat (map (json_path ''path_on_host'') (ds @ cache_drives jailed vm)) @ [l]"
  using assms
  by (cases "use_mmds vm"; cases "vsock_enabled (fc_config vm)")
     (auto simp: build_vm_config_def config_files_def json_reads json_path_def de_req_def Let_def)

text \<open>C36: every file the jailed configuration names (kernel, drives, cache image, log) is put into the
  chroot under exactly that name before the start, and the configuration written there is that one.\<close>

theorem jail_files_provided:
  assumes "setup_jailer_chroot vm = Inr ops" and "build_vm_config True vm = Inr j"
  shows "path_join (jailer_root_dir vm) ` set (config_files j) \<subseteq> set (concat (map op_target ops)) \<and>
    (\<exists>c. file_name (config_path vm) = Some c \<and> WriteJson (path_join (jailer_root_dir vm) c) j \<in> set ops)"
proof -
  obtain n l c where n: "file_name (rootfs_path vm) = Some n" and l: "file_name (log_path vm) = Some l"
    and c: "file_name (config_path vm) = Some c"
    using assms(1) by (auto simp: setup_jailer_chroot_def jail_kernel_def filename_str_def Let_def)
  let ?k = "replace_all ''.ext4'' ''-kernel'' n" and ?sq = "replace_all ''.ext4'' ''-rootfs.squashfs'' n"
  have paths: "config_paths True vm = Inr (?k, n, l)"
    by (simp add: config_paths_def jail_kernel_def filename_str_def n l)
  have cache: "map (json_path ''path_on_host'') (cache_drives True vm) =
      (case cache_path vm of None \<Rightarrow> [] | Some p \<Rightarrow> [[jail_cache vm]])"
    by (simp add: cache_drives_def split: option.splits)
  show ?thesis
  proof (cases "use_overlay vm")
    case True
    obtain ov where ov: "file_name (overlay_path vm) = Some ov"
      using assms(1) True by (auto simp: setup_jailer_chroot_def filename_str_def Let_def)
    have "root_drives True vm n = Inr [drive_json ''rootfs'' ?sq True True, drive_json ''overlay'' ov False False]"
      by (simp add: root_drives_def True jail_squashfs_def filename_str_def n ov)
    from config_files_build [OF assms(2) paths this] show ?thesis
      using assms c ov n l
      by (auto simp: cache setup_jailer_chroot_def True jail_kernel_def jail_squashfs_def filename_str_def Let_def
          split: option.splits)
  next
    case False
    have "root_drives True vm n = Inr [drive_json ''rootfs'' n True False]"
      by (simp add: root_drives_def False)
    from config_files_build [OF assms(2) paths this] show ?thesis
      using assms c n l
      by (auto simp: cache setup_jailer_chroot_def False jail_kernel_def filename_str_def Let_def
          split: option.splits)
  qed
qed

text \<open>A VM as \<open>MicroVm::new\<close> makes it always has the file names its configuration needs.\<close>

lemma new_vm_file_names:
  fixes u wd :: string and j t s :: nat and fc :: firecracker_config and nw :: network_config
  assumes "uuid_ok u"
  defines "vm \<equiv> micro_vm_new u j fc nw wd t s"
  shows "file_name (rootfs_path vm) = Some (make_vm_id j u @ ''.ext4'')"
    and "file_name (log_path vm) = Some (make_vm_id j u @ ''.log'')"
    and "file_name (config_path vm) = Some (make_vm_id j u @ ''.json'')"
    and "file_name (overlay_path vm) = Some (make_vm_id j u @ ''.overlay.ext4'')"
proof -
  have no: "CHR ''/'' \<notin> set (make_vm_id j u)" using make_vm_id_chars(2) assms(1) by blast
  have fc: "make_vm_id j u = CHR ''f'' # CHR ''c'' # CHR ''-'' # show_nat j @ CHR ''-'' # u"
    by (simp add: make_vm_id_def)
  have "file_name (path_join wd (make_vm_id j u @ x)) = Some (make_vm_id j u @ x)" if "CHR ''/'' \<notin> set x" for x
    using no that by (intro file_name_join) (auto simp: fc)
  then show "file_name (rootfs_path vm) = Some (make_vm_id j u @ ''.ext4'')"
    and "file_name (log_path vm) = Some (make_vm_id j u @ ''.log'')"
    and "file_name (config_path vm) = Some (make_vm_id j u @ ''.json'')"
    and "file_name (overlay_path vm) = Some (make_vm_id j u @ ''.overlay.ext4'')"
    by (simp_all add: vm_def micro_vm_new_def Let_def)
qed

lemma build_jailed_ok:
  "uuid_ok u \<Longrightarrow> \<exists>jc. build_vm_config True (micro_vm_new u j fc nw wd t s) = Inr jc"
  by (simp add: build_vm_config_def config_paths_def root_drives_def jail_kernel_def jail_squashfs_def
      filename_str_def new_vm_file_names Let_def)

lemma setup_jail_ok:
  "uuid_ok u \<Longrightarrow> \<exists>ops. setup_jailer_chroot (micro_vm_new u j fc nw wd t s) = Inr ops"
  using build_jailed_ok [of u j fc nw wd t s]
  by (auto simp: setup_jailer_chroot_def jail_kernel_def jail_squashfs_def filename_str_def
      new_vm_file_names Let_def)

theorem jail_files_provided_witness:
  "\<exists>ops jc. setup_jailer_chroot (micro_vm_new ''ab'' 1 (default_firecracker_config ''/k'' ''/r.ext4'') default_network_config ''/w'' 9 0) = Inr ops
     \<and> path_join (jailer_root_dir (micro_vm_new ''ab'' 1 (default_firecracker_config ''/k'' ''/r.ext4'') default_network_config ''/w'' 9 0))
        ` set (config_files jc) \<subseteq> set (concat (map op_target ops))"
proof -
  let ?vm = "micro_vm_new ''ab'' 1 (default_firecracker_config ''/k'' ''/r.ext4'') default_network_config ''/w'' 9 0"
  have "uuid_ok ''ab''" by (simp add: uuid_ok_def)
  then obtain ops jc where "setup_jailer_chroot ?vm = Inr ops" "build_vm_config True ?vm = Inr jc"
    using setup_jail_ok build_jailed_ok by meson
  then show ?thesis using jail_files_provided by blast
qed
end
