(* ===== verification/Host.thy ===== *)
theory Host
  imports Vm_Config
begin

text \<open>
  The host a VM runs on, as far as the program touches it: files, directories, mounts, the contents
  of disk images, network links and Firecracker processes. Every system call is one operation;
  whether it succeeds is decided by an oracle (\<open>e_ok\<close>, asked at each call with the number of calls
  made so far) and by the state of the host, so a theorem about all oracles is a theorem about all
  patterns of failures. On these operations rest the TAP devices (\<open>src/src/vm/netlink.rs\<close>), the
  mounts (\<open>src/src/vm/firecracker/mount.rs\<close>), the disk images and the files put into the guest
  (\<open>src/src/vm/firecracker/injection.rs\<close>).
\<close>

section \<open>State\<close>

text \<open>
  A regular file with its permission bits when the program sets them, a disk image with its size
  in bytes and whether it holds a file system, a symbolic link, a socket.
\<close>

datatype node =
    TextFile string "nat option" | JsonFile json | DiskImage nat bool | SymLink string | Socket

record link =
  lk_addrs :: "nat list list"
  lk_up :: bool

type_synonym tree = "string \<rightharpoonup> node"

record host =
  h_files :: "string \<rightharpoonup> node"
  h_dirs :: "string set"
  h_mounts :: "(string \<times> string) list"
  h_trees :: "string \<Rightarrow> tree"
  h_links :: "string \<rightharpoonup> link"
  h_alive :: "string set"
  h_log :: "string list"
  h_tick :: nat

datatype vm_error =
    Failed string | BadPath path_error | BadHostIp | TimedOut | ExitStatus int | NoPid | Rejected | Panicked

text \<open>How the wait for the Firecracker process ends; after a shutdown signal it is killed and waited for.\<close>

datatype exit_how = Exits int | BySignal | WaitFails

datatype run_end = Ends exit_how | TimesOut | Cancelled exit_how

record host_env =
  e_ok :: "nat \<Rightarrow> bool"
  e_accepts :: "api_call \<Rightarrow> bool"
  e_end :: run_end
  e_guest_log :: "string option"

type_synonym 'a host_op = "(host, vm_error, 'a) op"

definition tick :: "host \<Rightarrow> host" where
  "tick s = s\<lparr>h_tick := Suc (h_tick s)\<rparr>"

text \<open>One call that ends the function when it fails, and one whose failure is ignored or tested.\<close>

definition sys_op :: "host_env \<Rightarrow> vm_error \<Rightarrow> (host \<Rightarrow> bool) \<Rightarrow> (host \<Rightarrow> host) \<Rightarrow> unit host_op" where
  "sys_op env e guard f s =
     (if e_ok env (h_tick s) \<and> guard s then (Inr (), tick (f s)) else (Inl e, tick s))"

definition sys_try :: "host_env \<Rightarrow> (host \<Rightarrow> bool) \<Rightarrow> (host \<Rightarrow> host) \<Rightarrow> bool host_op" where
  "sys_try env guard f s =
     (if e_ok env (h_tick s) \<and> guard s then (Inr True, tick (f s)) else (Inr False, tick s))"

definition always :: "host \<Rightarrow> bool" where
  "always s = True"

fun op_all :: "unit host_op list \<Rightarrow> unit host_op" where
  "op_all [] = op_ret ()"
| "op_all (m # ms) = op_seq m (op_all ms)"

text \<open>\<open>let _ = \<dots>\<close>.\<close>

definition op_ignore :: "'a host_op \<Rightarrow> unit host_op" where
  "op_ignore m = op_bind m (\<lambda>_. op_ret ())"

section \<open>Files, directories, mounts\<close>

definition put_file :: "string \<Rightarrow> node \<Rightarrow> host \<Rightarrow> host" where
  "put_file p n s = s\<lparr>h_files := (h_files s)(p \<mapsto> n)\<rparr>"

definition del_file :: "string \<Rightarrow> host \<Rightarrow> host" where
  "del_file p s = s\<lparr>h_files := (h_files s)(p := None)\<rparr>"

definition has_file :: "string \<Rightarrow> host \<Rightarrow> bool" where
  "has_file p s \<longleftrightarrow> h_files s p \<noteq> None"

definition put_dir :: "string \<Rightarrow> host \<Rightarrow> host" where
  "put_dir d s = s\<lparr>h_dirs := insert d (h_dirs s)\<rparr>"

definition del_dir :: "string \<Rightarrow> host \<Rightarrow> host" where
  "del_dir d s = s\<lparr>h_dirs := h_dirs s - {d}\<rparr>"

text \<open>Creating a file empties it; a directory can be removed when it is there and nothing is mounted on it.\<close>

definition write_file :: "host_env \<Rightarrow> string \<Rightarrow> node \<Rightarrow> unit host_op" where
  "write_file env p n = sys_op env (Failed p) always (put_file p n)"

definition remove_file :: "host_env \<Rightarrow> string \<Rightarrow> bool host_op" where
  "remove_file env p = sys_try env (has_file p) (del_file p)"

definition make_dirs :: "host_env \<Rightarrow> string \<Rightarrow> unit host_op" where
  "make_dirs env d = sys_op env (Failed d) always (put_dir d)"

definition can_remove_dir :: "string \<Rightarrow> host \<Rightarrow> bool" where
  "can_remove_dir d s \<longleftrightarrow> d \<in> h_dirs s \<and> d \<notin> fst ` set (h_mounts s)"

definition remove_dir :: "host_env \<Rightarrow> string \<Rightarrow> bool host_op" where
  "remove_dir env d = sys_try env (can_remove_dir d) (del_dir d)"

text \<open>A loop mount needs an image with a file system and a directory; the latest mount is the visible one.\<close>

definition can_mount :: "string \<Rightarrow> string \<Rightarrow> host \<Rightarrow> bool" where
  "can_mount img target s \<longleftrightarrow> (\<exists>n. h_files s img = Some (DiskImage n True)) \<and> target \<in> h_dirs s"

definition add_mount :: "string \<Rightarrow> string \<Rightarrow> host \<Rightarrow> host" where
  "add_mount img target s = s\<lparr>h_mounts := (target, img) # h_mounts s\<rparr>"

fun drop_mount :: "string \<Rightarrow> (string \<times> string) list \<Rightarrow> (string \<times> string) list" where
  "drop_mount t [] = []"
| "drop_mount t (m # ms) = (if fst m = t then ms else m # drop_mount t ms)"

definition is_mounted :: "string \<Rightarrow> host \<Rightarrow> bool" where
  "is_mounted target s \<longleftrightarrow> map_of (h_mounts s) target \<noteq> None"

definition del_mount :: "string \<Rightarrow> host \<Rightarrow> host" where
  "del_mount target s = s\<lparr>h_mounts := drop_mount target (h_mounts s)\<rparr>"

definition mount_loop_ext4 :: "host_env \<Rightarrow> string \<Rightarrow> string \<Rightarrow> unit host_op" where
  "mount_loop_ext4 env img target = sys_op env (Failed ''mount'') (can_mount img target) (add_mount img target)"

definition mount_loop_ext4_ro :: "host_env \<Rightarrow> string \<Rightarrow> string \<Rightarrow> bool host_op" where
  "mount_loop_ext4_ro env img target = sys_try env (can_mount img target) (add_mount img target)"

definition try_umount :: "host_env \<Rightarrow> string \<Rightarrow> bool host_op" where
  "try_umount env target = sys_try env (is_mounted target) (del_mount target)"

definition lazy_umount_sync :: "host_env \<Rightarrow> string \<Rightarrow> unit host_op" where
  "lazy_umount_sync env target = sys_op env (Failed ''lazy umount failed'') (is_mounted target) (del_mount target)"

text \<open>Up to three tries, then the lazy one.\<close>

fun umount_tries :: "host_env \<Rightarrow> string \<Rightarrow> nat \<Rightarrow> unit host_op" where
  "umount_tries env mnt 0 = lazy_umount_sync env mnt"
| "umount_tries env mnt (Suc n) =
     op_bind (try_umount env mnt) (\<lambda>done'. if done' then op_ret () else umount_tries env mnt n)"

definition umount_with_retry :: "host_env \<Rightarrow> micro_vm \<Rightarrow> unit host_op" where
  "umount_with_retry env vm = umount_tries env (mount_point vm) 3"

section \<open>Inside a mounted image\<close>

definition put_guest :: "string \<Rightarrow> string \<Rightarrow> node \<Rightarrow> host \<Rightarrow> host" where
  "put_guest mnt rel n s =
     (case map_of (h_mounts s) mnt of
        None \<Rightarrow> s
      | Some img \<Rightarrow> s\<lparr>h_trees := (h_trees s)(img := (h_trees s img)(rel \<mapsto> n))\<rparr>)"

definition del_guest :: "string \<Rightarrow> string \<Rightarrow> host \<Rightarrow> host" where
  "del_guest mnt rel s =
     (case map_of (h_mounts s) mnt of
        None \<Rightarrow> s
      | Some img \<Rightarrow> s\<lparr>h_trees := (h_trees s)(img := (h_trees s img)(rel := None))\<rparr>)"

definition guest_has :: "string \<Rightarrow> string \<Rightarrow> host \<Rightarrow> bool" where
  "guest_has mnt rel s \<longleftrightarrow> (case map_of (h_mounts s) mnt of None \<Rightarrow> False | Some img \<Rightarrow> h_trees s img rel \<noteq> None)"

text \<open>In overlay mode the guest's files live under \<open>root/\<close> of the overlay.\<close>

definition guest_path :: "micro_vm \<Rightarrow> string \<Rightarrow> string" where
  "guest_path vm rel = (if use_overlay vm then path_join ''root'' rel else rel)"

definition guest_dir :: "host_env \<Rightarrow> micro_vm \<Rightarrow> string \<Rightarrow> unit host_op" where
  "guest_dir env vm rel = sys_op env (Failed rel) (is_mounted (mount_point vm)) id"

definition guest_write :: "host_env \<Rightarrow> micro_vm \<Rightarrow> string \<Rightarrow> node \<Rightarrow> unit host_op" where
  "guest_write env vm rel n =
     sys_op env (Failed rel) (is_mounted (mount_point vm)) (put_guest (mount_point vm) (guest_path vm rel) n)"

text \<open>A link that is there already is left alone, by the test before or by the failing call.\<close>

definition guest_link_once :: "host_env \<Rightarrow> micro_vm \<Rightarrow> string \<Rightarrow> string \<Rightarrow> unit host_op" where
  "guest_link_once env vm rel target =
     op_ignore (sys_try env (\<lambda>s. \<not> guest_has (mount_point vm) (guest_path vm rel) s)
       (put_guest (mount_point vm) (guest_path vm rel) (SymLink target)))"

definition guest_remove :: "host_env \<Rightarrow> micro_vm \<Rightarrow> string \<Rightarrow> unit host_op" where
  "guest_remove env vm rel =
     op_ignore (sys_try env (guest_has (mount_point vm) (guest_path vm rel)) (del_guest (mount_point vm) (guest_path vm rel)))"

definition guest_symlink :: "host_env \<Rightarrow> micro_vm \<Rightarrow> string \<Rightarrow> string \<Rightarrow> unit host_op" where
  "guest_symlink env vm rel target =
     sys_op env (Failed rel)
       (\<lambda>s. is_mounted (mount_point vm) s \<and> \<not> guest_has (mount_point vm) (guest_path vm rel) s)
       (put_guest (mount_point vm) (guest_path vm rel) (SymLink target))"

section \<open>Disk images\<close>

definition mib :: "32 word \<Rightarrow> nat" where
  "mib n = unat n * 1024 * 1024"

text \<open>\<open>mkfs.ext4 -F\<close>: a new, empty file system on the image.\<close>

definition format_image :: "string \<Rightarrow> nat \<Rightarrow> host \<Rightarrow> host" where
  "format_image p n s = (put_file p (DiskImage n True) s)\<lparr>h_trees := (h_trees s)(p := Map.empty)\<rparr>"

text \<open>Create, set the length, format.\<close>

definition new_image :: "host_env \<Rightarrow> string \<Rightarrow> nat \<Rightarrow> unit host_op" where
  "new_image env p n =
     op_seq (write_file env p (DiskImage 0 False))
    (op_seq (write_file env p (DiskImage n False))
            (sys_op env (Failed ''mkfs.ext4'') (has_file p) (format_image p n)))"

definition create_overlay :: "host_env \<Rightarrow> micro_vm \<Rightarrow> unit host_op" where
  "create_overlay env vm = new_image env (overlay_path vm) (mib (overlay_size_mib (fc_config vm)))"

fun node_size :: "node \<Rightarrow> nat" where
  "node_size (DiskImage n _) = n"
| "node_size (TextFile t _) = length t"
| "node_size _ = 0"

text \<open>
  An existing image of the configured size is kept as it is, whether it was ever formatted or
  not; one of another size is removed and made anew.
\<close>

definition ensure_cache_image :: "host_env \<Rightarrow> micro_vm \<Rightarrow> unit host_op" where
  "ensure_cache_image env vm =
     (case cache_path vm of
        None \<Rightarrow> op_ret ()
      | Some p \<Rightarrow>
          (let n = mib (cache_size_mib (fc_config vm));
               fresh = op_seq (make_dirs env (cache_dir (fc_config vm))) (new_image env p n)
           in (\<lambda>s. case h_files s p of
                 None \<Rightarrow> fresh s
               | Some f \<Rightarrow>
                   op_seq (sys_op env (Failed ''metadata'') always id)
                     (if node_size f = n then op_ret ()
                      else op_seq (sys_op env (Failed p) (has_file p) (del_file p)) fresh) s)))"

text \<open>\<open>cp\<close> of the golden image, contents included.\<close>

definition copy_file :: "string \<Rightarrow> string \<Rightarrow> host \<Rightarrow> host" where
  "copy_file src dst s =
     (case h_files s src of
        None \<Rightarrow> s
      | Some n \<Rightarrow> (put_file dst n s)\<lparr>h_trees := (h_trees s)(dst := h_trees s src)\<rparr>)"

definition copy_rootfs :: "host_env \<Rightarrow> micro_vm \<Rightarrow> unit host_op" where
  "copy_rootfs env vm =
     sys_op env (Failed ''cp'') (has_file (rootfs_golden (fc_config vm)))
       (copy_file (rootfs_golden (fc_config vm)) (rootfs_path vm))"

section \<open>What is put into the guest\<close>

definition lines_of :: "string \<Rightarrow> string list \<Rightarrow> string" where
  "lines_of pre xs = join_with [CHR 0x0A] (map (\<lambda>x. pre @ x) xs)"

definition network_file :: "micro_vm \<Rightarrow> string" where
  "network_file vm = unlines
     [''[Match]'', ''Name=eth0'', '''', ''[Network]'', ''Address='' @ vm_guest_ip vm @ ''/24'',
      ''Gateway='' @ vm_host_ip vm, lines_of ''DNS='' (network_dns vm)]"

definition resolv_file :: "micro_vm \<Rightarrow> string" where
  "resolv_file vm = lines_of ''nameserver '' (network_dns vm) @ [CHR 0x0A]"

definition resolved_path :: string where
  "resolved_path = ''etc/systemd/system/multi-user.target.wants/systemd-resolved.service''"

definition write_network_config :: "host_env \<Rightarrow> micro_vm \<Rightarrow> unit host_op" where
  "write_network_config env vm = op_all
     [guest_dir env vm ''etc/systemd/network'',
      guest_write env vm ''etc/systemd/network/20-eth.network'' (TextFile (network_file vm) None),
      guest_remove env vm ''etc/resolv.conf'',
      guest_write env vm ''etc/resolv.conf'' (TextFile (resolv_file vm) None),
      guest_dir env vm ''etc/systemd/system/multi-user.target.wants'',
      guest_link_once env vm resolved_path
        ''/usr/lib/systemd/system/systemd-resolved.service'']"

definition cache_service_file :: "micro_vm \<Rightarrow> string option" where
  "cache_service_file vm =
     (case (cache_service_token vm, cache_service_port vm) of
        (Some token, Some port) \<Rightarrow> Some (unlines
          ([''FC_CACHE_URL=http://'' @ vm_host_ip vm @ '':'' @ show_nat port @ ''/'', ''FC_CACHE_TOKEN='' @ token]
           @ (case s3_config vm of
                None \<Rightarrow> []
              | Some s3 \<Rightarrow>
                  [''FC_S3_ENDPOINT='' @ g_endpoint s3, ''FC_S3_BUCKET='' @ g_bucket s3,
                   ''FC_S3_ACCESS_KEY='' @ g_access_key s3, ''FC_S3_SECRET_KEY='' @ g_secret_key s3,
                   ''FC_S3_REGION='' @ g_region s3])))
      | _ \<Rightarrow> None)"

definition write_cache_service_config :: "host_env \<Rightarrow> micro_vm \<Rightarrow> unit host_op" where
  "write_cache_service_config env vm =
     (case cache_service_file vm of
        None \<Rightarrow> op_ret ()
      | Some text \<Rightarrow> op_all [guest_dir env vm ''etc'', guest_write env vm ''etc/fc-runner-cache'' (TextFile text None)])"

text \<open>The three comment lines; the long dash of the source is its three bytes.\<close>

definition overlay_fstab :: string where
  "overlay_fstab = unlines
     [''# OverlayFS mode '' @ [CHR 0xE2, CHR 0x80, CHR 0x94] @ '' root is overlay, not a block device'',
      ''# /dev/vda is the read-only squashfs base layer'',
      ''# /dev/vdb is the writable ext4 overlay (mounted by overlay-init)'']"

definition write_overlay_fstab :: "host_env \<Rightarrow> micro_vm \<Rightarrow> unit host_op" where
  "write_overlay_fstab env vm = op_all
     [guest_dir env vm ''etc'', guest_write env vm ''etc/fstab'' (TextFile overlay_fstab None)]"

definition masked_services :: "string list" where
  "masked_services =
     [''systemd-networkd-wait-online.service'', ''systemd-networkd.service'', ''systemd-networkd.socket'']"

definition service_path :: "string \<Rightarrow> string" where
  "service_path svc = ''etc/systemd/system/'' @ svc"

definition mask_overlay_services :: "host_env \<Rightarrow> micro_vm \<Rightarrow> unit host_op" where
  "mask_overlay_services env vm = op_all
     (guest_dir env vm ''etc/systemd/system'' #
      concat (map (\<lambda>svc. [guest_remove env vm (service_path svc),
                           guest_symlink env vm (service_path svc) ''/dev/null'']) masked_services))"

text \<open>The script the guest runs in mount mode, as the source has it.\<close>

definition entrypoint_script :: string where
  \<open>entrypoint_script = unlines
    [''#!/bin/bash'',
     ''set -euo pipefail'',
     ''exec > /var/log/runner.log 2>&1'',
     '''',
     ''echo "=== fc-runner entrypoint $(date) ==="'',
     ''echo "Network state:"'',
     ''ip addr show eth0 2>&1 || true'',
     ''ip route show 2>&1 || true'',
     ''echo "DNS:"'',
     ''cat /etc/resolv.conf 2>&1 || true'',
     '''',
     ''# In mount mode (--no-api), MMDS is not available.'',
     ''# Read config from /etc/fc-runner-env instead.'',
     ''if [ -f /etc/fc-runner-env ]; then'',
     ''    echo "Loading /etc/fc-runner-env"'',
     ''    source /etc/fc-runner-env'',
     ''    echo "VM_ID=${VM_ID:-unset} MODE=${RUNNER_MODE:-jit}"'',
     '''',
     ''    # Wait for network connectivity'',
     ''    for i in $(seq 1 30); do'',
     ''        if curl -sf --connect-timeout 3 --max-time 5 https://github.com > /dev/null 2>&1; then'',
     ''            echo "Network ready (attempt $i)"'',
     ''            break'',
     ''        fi'',
     ''        echo "Waiting for network ($i/30)..."'',
     ''        sleep 1'',
     ''    done'',
     '''',
     ''    cd /home/runner'',
     '''',
     ''    if [ "${RUNNER_MODE:-jit}" = "jit" ]; then'',
     ''        echo "Starting runner (JIT mode)..."'',
     ''        sudo -E -u runner ./run.sh --jitconfig "${RUNNER_TOKEN}"'',
     ''    else'',
     ''        EPHEMERAL_FLAG=""'',
     ''        if [ "${EPHEMERAL:-true}" = "true" ]; then'',
     ''            EPHEMERAL_FLAG="--ephemeral"'',
     ''        fi'',
     ''        echo "Registering runner (ephemeral=${EPHEMERAL:-true})..."'',
     ''        sudo -E -u runner ./config.sh '' @ [CHR 0x5C] @ '''',
     ''            --url "${REPO_URL}" '' @ [CHR 0x5C] @ '''',
     ''            --token "${RUNNER_TOKEN}" '' @ [CHR 0x5C] @ '''',
     ''            --name "${RUNNER_NAME:-fc-$(hostname)}" '' @ [CHR 0x5C] @ '''',
     ''            --labels "firecracker,linux,x64" '' @ [CHR 0x5C] @ '''',
     ''            $EPHEMERAL_FLAG '' @ [CHR 0x5C] @ '''',
     ''            --unattended '' @ [CHR 0x5C] @ '''',
     ''            --disableupdate '' @ [CHR 0x5C] @ '''',
     ''            --work /home/runner/_work'',
     ''        echo "Starting runner (registered mode)..."'',
     ''        sudo -E -u runner ./run.sh'',
     ''    fi'',
     '''',
     ''    echo "Runner finished, shutting down"'',
     ''    reboot -f'',
     ''else'',
     ''    echo "ERROR: /etc/fc-runner-env not found and MMDS not available"'',
     ''    sleep 5'',
     ''    reboot -f'',
     ''fi'']\<close>

definition write_mount_mode_entrypoint :: "host_env \<Rightarrow> micro_vm \<Rightarrow> unit host_op" where
  "write_mount_mode_entrypoint env vm = op_all
     [guest_write env vm ''entrypoint.sh'' (TextFile entrypoint_script None),
      guest_write env vm ''entrypoint.sh'' (TextFile entrypoint_script (Some 493))]"

definition image_to_mount :: "micro_vm \<Rightarrow> string" where
  "image_to_mount vm = (if use_overlay vm then overlay_path vm else rootfs_path vm)"

definition inject_env_mount :: "host_env \<Rightarrow> micro_vm \<Rightarrow> string \<Rightarrow> unit host_op" where
  "inject_env_mount env vm env_content = op_all
     ([make_dirs env (mount_point vm),
       mount_loop_ext4 env (image_to_mount vm) (mount_point vm),
       guest_dir env vm ''etc'',
       guest_write env vm ''etc/fc-runner-env'' (TextFile env_content None),
       guest_write env vm ''etc/fc-runner-env'' (TextFile env_content (Some 384)),
       write_network_config env vm,
       write_cache_service_config env vm]
      @ (if use_overlay vm then
           [write_overlay_fstab env vm, write_mount_mode_entrypoint env vm, mask_overlay_services env vm]
         else [])
      @ [umount_with_retry env vm, op_ignore (remove_dir env (mount_point vm))])"

definition inject_network_config :: "host_env \<Rightarrow> micro_vm \<Rightarrow> unit host_op" where
  "inject_network_config env vm = op_all
     ([make_dirs env (mount_point vm),
       mount_loop_ext4 env (image_to_mount vm) (mount_point vm),
       write_network_config env vm,
       write_cache_service_config env vm]
      @ (if use_overlay vm then [write_overlay_fstab env vm, mask_overlay_services env vm] else [])
      @ [umount_with_retry env vm, op_ignore (remove_dir env (mount_point vm))])"

section \<open>TAP devices\<close>

text \<open>
  Creating a TAP that is there already attaches to it. Deleting one that is not there succeeds;
  an address can be added once.
\<close>

definition add_tap :: "string \<Rightarrow> host \<Rightarrow> host" where
  "add_tap n s =
     (case h_links s n of
        None \<Rightarrow> s\<lparr>h_links := (h_links s)(n \<mapsto> \<lparr>lk_addrs = [], lk_up = False\<rparr>)\<rparr>
      | Some _ \<Rightarrow> s)"

definition del_link :: "string \<Rightarrow> host \<Rightarrow> host" where
  "del_link n s = s\<lparr>h_links := (h_links s)(n := None)\<rparr>"

definition tap_name_ok :: "string \<Rightarrow> host \<Rightarrow> bool" where
  "tap_name_ok n s \<longleftrightarrow> length n < 16"

definition nl_create_tap :: "host_env \<Rightarrow> string \<Rightarrow> bool host_op" where
  "nl_create_tap env n = sys_try env (tap_name_ok n) (add_tap n)"

definition delete_link :: "host_env \<Rightarrow> string \<Rightarrow> unit host_op" where
  "delete_link env n = op_ignore (sys_try env always (del_link n))"

definition can_add_address :: "string \<Rightarrow> nat list \<Rightarrow> host \<Rightarrow> bool" where
  "can_add_address n ip s \<longleftrightarrow> (case h_links s n of None \<Rightarrow> False | Some l \<Rightarrow> ip \<notin> set (lk_addrs l))"

definition change_link :: "string \<Rightarrow> (link \<Rightarrow> link) \<Rightarrow> host \<Rightarrow> host" where
  "change_link n f s = s\<lparr>h_links := (h_links s)(n := map_option f (h_links s n))\<rparr>"

definition add_address_v4 :: "host_env \<Rightarrow> string \<Rightarrow> nat list \<Rightarrow> unit host_op" where
  "add_address_v4 env n ip =
     sys_op env (Failed ''assigning IP to TAP'') (can_add_address n ip)
       (change_link n (\<lambda>l. l\<lparr>lk_addrs := lk_addrs l @ [ip]\<rparr>))"

definition set_link_up :: "host_env \<Rightarrow> string \<Rightarrow> unit host_op" where
  "set_link_up env n =
     sys_op env (Failed ''bringing TAP up'') (\<lambda>s. h_links s n \<noteq> None) (change_link n (\<lambda>l. l\<lparr>lk_up := True\<rparr>))"

text \<open>A second attempt to create the device after a failed first one.\<close>

definition create_tap :: "host_env \<Rightarrow> micro_vm \<Rightarrow> unit host_op" where
  "create_tap env vm =
     (let n = tap_name vm in
      op_seq (delete_link env n)
     (op_seq (op_bind (nl_create_tap env n) (\<lambda>made.
        if made then op_ret ()
        else op_seq (delete_link env n)
               (op_bind (nl_create_tap env n) (\<lambda>made2.
                  if made2 then op_ret () else op_fail (Failed ''creating TAP device (retry)'')))))
     (op_bind (op_lift (ok_or (parse_ipv4 (vm_host_ip vm)) BadHostIp)) (\<lambda>ip.
      op_seq (add_address_v4 env n ip) (set_link_up env n)))))"

definition destroy_tap :: "host_env \<Rightarrow> micro_vm \<Rightarrow> unit host_op" where
  "destroy_tap env vm = delete_link env (tap_name vm)"


section \<open>What an operation may change\<close>

text \<open>
  A bound on the effect of operations: a reflexive and transitive relation between the states
  before and after. An operation keeps it when every run does, however it ends; sequences of such
  operations do.
\<close>

locale effect_bound =
  fixes R :: "'s \<Rightarrow> 's \<Rightarrow> bool"
  assumes R_refl: "R s s"
    and R_trans: "R s t \<Longrightarrow> R t u \<Longrightarrow> R s u"
begin

definition keeps :: "('s, 'e, 'a) op \<Rightarrow> bool" where
  "keeps m \<longleftrightarrow> (\<forall>s. R s (snd (m s)))"

lemma keepsD: "keeps m \<Longrightarrow> R s (snd (m s))"
  by (simp add: keeps_def)

lemma keeps_pure [intro]: "keeps (op_ret x)" "keeps (op_fail e)" "keeps (op_lift r)"
  by (simp_all add: keeps_def op_simps R_refl)

lemma keeps_bind [intro]:
  assumes "keeps m" and "\<And>x. keeps (f x)"
  shows "keeps (op_bind m f)"
  unfolding keeps_def
proof
  fix s
  obtain r t where m: "m s = (r, t)" by (cases "m s")
  have "R s t" using assms(1) m by (metis keepsD snd_conv)
  moreover have "R t (snd (f x t))" for x using assms(2) by (rule keepsD)
  ultimately show "R s (snd (op_bind m f s))"
    by (auto simp: op_simps m intro: R_trans split: sum.splits)
qed

lemma keeps_seq [intro]: "keeps m \<Longrightarrow> keeps n \<Longrightarrow> keeps (op_seq m n)"
  unfolding op_seq_def by (rule keeps_bind)

lemma keeps_if [intro]: "(c \<Longrightarrow> keeps m) \<Longrightarrow> (\<not> c \<Longrightarrow> keeps n) \<Longrightarrow> keeps (if c then m else n)"
  by simp

end

locale host_bound = effect_bound R for R :: "host \<Rightarrow> host \<Rightarrow> bool" +
  assumes R_tick: "R s t \<Longrightarrow> R s (tick t)"
begin

lemma keeps_sys_op [intro]: "(\<And>s. guard s \<Longrightarrow> R s (f s)) \<Longrightarrow> keeps (sys_op env e guard f)"
  by (auto simp: keeps_def sys_op_def intro: R_tick R_refl)

lemma keeps_sys_try [intro]: "(\<And>s. guard s \<Longrightarrow> R s (f s)) \<Longrightarrow> keeps (sys_try env guard f)"
  by (auto simp: keeps_def sys_try_def intro: R_tick R_refl)

lemma keeps_ignore [intro]: "keeps m \<Longrightarrow> keeps (op_ignore m)"
  unfolding op_ignore_def by (intro keeps_bind keeps_pure)

lemma keeps_all [intro]: "(\<And>m. m \<in> set ms \<Longrightarrow> keeps m) \<Longrightarrow> keeps (op_all ms)"
  by (induction ms) (auto intro: keeps_seq)

lemma keeps_cases [intro]: "(\<And>s. keeps (m s)) \<Longrightarrow> keeps (\<lambda>s. m s s)"
  by (auto simp: keeps_def)

lemmas keeps_rules = keeps_bind keeps_seq keeps_pure keeps_if keeps_sys_op keeps_sys_try keeps_ignore keeps_all

end

text \<open>An operation that succeeds leaves a sequence of successes behind it.\<close>

lemma op_seq_Inr: "op_seq m n s = (Inr y, u) \<longleftrightarrow> (\<exists>x t. m s = (Inr x, t) \<and> n t = (Inr y, u))"
  by (auto simp: op_simps split: prod.splits sum.splits)

lemma op_bind_Inr: "op_bind m f s = (Inr y, u) \<longleftrightarrow> (\<exists>x t. m s = (Inr x, t) \<and> f x t = (Inr y, u))"
  by (auto simp: op_simps split: prod.splits sum.splits)

lemma op_ignore_Inr: "op_ignore m s = (Inr y, u) \<longleftrightarrow> (\<exists>x. m s = (Inr x, u))"
  by (auto simp: op_ignore_def op_simps split: prod.splits sum.splits)

lemma sys_op_Inr:
  "sys_op env e guard f s = (Inr y, t) \<longleftrightarrow> e_ok env (h_tick s) \<and> guard s \<and> t = tick (f s)"
  by (auto simp: sys_op_def)

lemma sys_try_Inr:
  "sys_try env guard f s = (Inr b, t) \<longleftrightarrow>
     b = (e_ok env (h_tick s) \<and> guard s) \<and> t = tick (if b then f s else s)"
  by (auto simp: sys_try_def)

lemmas op_Inr = op_seq_Inr op_bind_Inr op_ignore_Inr sys_op_Inr sys_try_Inr

lemma tick_fields [simp]:
  "h_files (tick s) = h_files s" "h_dirs (tick s) = h_dirs s" "h_mounts (tick s) = h_mounts s"
  "h_trees (tick s) = h_trees s" "h_links (tick s) = h_links s" "h_alive (tick s) = h_alive s"
  "h_log (tick s) = h_log s" "h_tick (tick s) = Suc (h_tick s)"
  by (simp_all add: tick_def)

section \<open>What guest writes leave alone\<close>

text \<open>One file of every image, and the mounts.\<close>

definition same_guest_file :: "string \<Rightarrow> host \<Rightarrow> host \<Rightarrow> bool" where
  "same_guest_file rel s t \<longleftrightarrow> h_mounts t = h_mounts s \<and> (\<forall>img. h_trees t img rel = h_trees s img rel)"

definition same_mounts :: "host \<Rightarrow> host \<Rightarrow> bool" where
  "same_mounts s t \<longleftrightarrow> h_mounts t = h_mounts s"

interpretation gf: host_bound "same_guest_file rel" for rel
  by unfold_locales (auto simp: same_guest_file_def)

interpretation mt: host_bound same_mounts
  by unfold_locales (auto simp: same_mounts_def)

lemma put_guest_mounts [simp]: "h_mounts (put_guest mnt rel n s) = h_mounts s"
  by (simp add: put_guest_def split: option.splits)

lemma del_guest_mounts [simp]: "h_mounts (del_guest mnt rel s) = h_mounts s"
  by (simp add: del_guest_def split: option.splits)

lemma put_guest_same: "rel \<noteq> rel' \<Longrightarrow> same_guest_file rel s (put_guest mnt rel' n s)"
  by (auto simp: same_guest_file_def put_guest_def split: option.splits)

lemma del_guest_same: "rel \<noteq> rel' \<Longrightarrow> same_guest_file rel s (del_guest mnt rel' s)"
  by (auto simp: same_guest_file_def del_guest_def split: option.splits)

lemma guest_ops_mounts:
  "mt.keeps (guest_dir env vm r)" "mt.keeps (guest_write env vm r n)" "mt.keeps (guest_link_once env vm r l)"
  "mt.keeps (guest_remove env vm r)" "mt.keeps (guest_symlink env vm r l)"
  unfolding guest_dir_def guest_write_def guest_link_once_def guest_remove_def guest_symlink_def
  by (auto simp: same_mounts_def intro!: mt.keeps_rules)

lemma guest_path_inj: "guest_path vm a = guest_path vm b \<longleftrightarrow> a = b"
  if "\<not> starts_with a ''/''" "\<not> starts_with b ''/''"
  using that by (simp add: guest_path_def path_join_def)

lemma guest_ops_file:
  "gf.keeps rel (guest_dir env vm r)"
  "guest_path vm r \<noteq> rel \<Longrightarrow> gf.keeps rel (guest_write env vm r n)"
  "guest_path vm r \<noteq> rel \<Longrightarrow> gf.keeps rel (guest_link_once env vm r l)"
  "guest_path vm r \<noteq> rel \<Longrightarrow> gf.keeps rel (guest_remove env vm r)"
  "guest_path vm r \<noteq> rel \<Longrightarrow> gf.keeps rel (guest_symlink env vm r l)"
  unfolding guest_dir_def guest_write_def guest_link_once_def guest_remove_def guest_symlink_def
  by (auto intro!: gf.keeps_rules put_guest_same del_guest_same simp: gf.R_refl)

lemma write_config_mounts:
  "mt.keeps (write_network_config env vm)" "mt.keeps (write_cache_service_config env vm)"
  "mt.keeps (write_overlay_fstab env vm)" "mt.keeps (mask_overlay_services env vm)"
  "mt.keeps (write_mount_mode_entrypoint env vm)"
  unfolding write_network_config_def write_cache_service_config_def write_overlay_fstab_def
    mask_overlay_services_def write_mount_mode_entrypoint_def masked_services_def
  by (auto intro!: mt.keeps_rules guest_ops_mounts split: option.splits)

lemma guest_write_Inr:
  assumes "guest_write env vm rel n s = (Inr y, t)" and "map_of (h_mounts s) (mount_point vm) = Some img"
  shows "h_mounts t = h_mounts s \<and> h_trees t img (guest_path vm rel) = Some n"
  using assms by (auto simp: guest_write_def op_Inr put_guest_def)

lemma keptD:
  "mt.keeps m \<Longrightarrow> m s = (r, t) \<Longrightarrow> h_mounts t = h_mounts s"
  "gf.keeps rel m \<Longrightarrow> m s = (r, t) \<Longrightarrow> h_mounts t = h_mounts s \<and> (\<forall>img. h_trees t img rel = h_trees s img rel)"
  using mt.keepsD [of m s] gf.keepsD [of rel m s] by (auto simp: same_mounts_def same_guest_file_def)

text \<open>The paths the program writes in a guest.\<close>

definition net_path :: string where "net_path = ''etc/systemd/network/20-eth.network''"
definition resolv_path :: string where "resolv_path = ''etc/resolv.conf''"
definition env_path :: string where "env_path = ''etc/fc-runner-env''"

lemmas guest_paths = net_path_def resolv_path_def env_path_def

definition rel_path :: "string \<Rightarrow> bool" where
  "rel_path r \<longleftrightarrow> \<not> starts_with r ''/''"

lemma gpath_neq: "rel_path a \<Longrightarrow> rel_path b \<Longrightarrow> a \<noteq> b \<Longrightarrow> guest_path vm a \<noteq> guest_path vm b"
  by (simp add: guest_path_inj rel_path_def)

lemma rel_guest_paths: "rel_path net_path" "rel_path resolv_path" "rel_path env_path"
  "rel_path ''etc/fc-runner-cache''" "rel_path ''etc/fstab''" "rel_path ''entrypoint.sh''"
  "rel_path resolved_path"
  "rel_path (service_path svc)"
  by (simp_all add: rel_path_def guest_paths service_path_def resolved_path_def starts_with_def)

lemma keeps_guest_ops:
  assumes "rel_path r" and "rel_path a" and "a \<noteq> r"
  shows "gf.keeps (guest_path vm r) (guest_write env vm a n)" "gf.keeps (guest_path vm r) (guest_link_once env vm a l)"
    "gf.keeps (guest_path vm r) (guest_remove env vm a)" "gf.keeps (guest_path vm r) (guest_symlink env vm a l)"
  using gpath_neq [OF assms(2,1,3)] by (auto intro!: guest_ops_file)

lemma keeps_network_config:
  assumes "rel_path r"
    and "r \<notin> {net_path, resolv_path, resolved_path}"
  shows "gf.keeps (guest_path vm r) (write_network_config env vm)"
proof -
  note K = keeps_guest_ops [OF assms(1)] guest_ops_file(1)
  show ?thesis
    unfolding write_network_config_def net_path_def [symmetric] resolv_path_def [symmetric]
    using assms(2) rel_guest_paths by (intro gf.keeps_all) (auto intro!: K)
qed

lemma keeps_other_configs:
  assumes "rel_path r"
  shows "r \<noteq> ''etc/fc-runner-cache'' \<Longrightarrow> gf.keeps (guest_path vm r) (write_cache_service_config env vm)"
    and "r \<noteq> ''etc/fstab'' \<Longrightarrow> gf.keeps (guest_path vm r) (write_overlay_fstab env vm)"
    and "r \<noteq> ''entrypoint.sh'' \<Longrightarrow> gf.keeps (guest_path vm r) (write_mount_mode_entrypoint env vm)"
    and "(\<And>svc. r \<noteq> service_path svc) \<Longrightarrow> gf.keeps (guest_path vm r) (mask_overlay_services env vm)"
proof -
  note K = keeps_guest_ops [OF assms(1)] guest_ops_file(1) gf.keeps_pure
  show "gf.keeps (guest_path vm r) (write_cache_service_config env vm)" if "r \<noteq> ''etc/fc-runner-cache''"
    unfolding write_cache_service_config_def
    using that rel_guest_paths by (auto intro!: gf.keeps_all K simp del: op_all.simps split: option.splits)
  show "gf.keeps (guest_path vm r) (write_overlay_fstab env vm)" if "r \<noteq> ''etc/fstab''"
    unfolding write_overlay_fstab_def
    using that rel_guest_paths by (intro gf.keeps_all) (auto intro!: K)
  show "gf.keeps (guest_path vm r) (write_mount_mode_entrypoint env vm)" if "r \<noteq> ''entrypoint.sh''"
    unfolding write_mount_mode_entrypoint_def
    using that rel_guest_paths by (intro gf.keeps_all) (auto intro!: K)
  show "gf.keeps (guest_path vm r) (mask_overlay_services env vm)" if "\<And>svc. r \<noteq> service_path svc"
    unfolding mask_overlay_services_def
    using that [symmetric] rel_guest_paths by (intro gf.keeps_all) (auto intro!: K)
qed

lemma guest_paths_neq:
  "net_path \<noteq> resolv_path" "env_path \<noteq> net_path" "env_path \<noteq> resolv_path"
  "r \<in> {net_path, resolv_path, env_path} \<Longrightarrow> r \<noteq> ''etc/fc-runner-cache'' \<and> r \<noteq> ''etc/fstab'' \<and> r \<noteq> ''entrypoint.sh'' \<and>
     r \<noteq> service_path svc \<and> r \<noteq> resolved_path"
  by (auto simp: guest_paths service_path_def resolved_path_def)

text \<open>After its success the two network files are in the image, whatever was there before.\<close>

lemma write_network_config_Inr:
  assumes "write_network_config env vm s = (Inr y, t)" and "map_of (h_mounts s) (mount_point vm) = Some img"
  shows "h_mounts t = h_mounts s \<and>
    h_trees t img (guest_path vm net_path) = Some (TextFile (network_file vm) None) \<and>
    h_trees t img (guest_path vm resolv_path) = Some (TextFile (resolv_file vm) None)"
proof -
  obtain s1 s2 s3 s4 s5 where
    1: "guest_dir env vm ''etc/systemd/network'' s = (Inr (), s1)" and
    2: "guest_write env vm net_path (TextFile (network_file vm) None) s1 = (Inr (), s2)" and
    3: "guest_remove env vm resolv_path s2 = (Inr (), s3)" and
    4: "guest_write env vm resolv_path (TextFile (resolv_file vm) None) s3 = (Inr (), s4)" and
    5: "guest_dir env vm ''etc/systemd/system/multi-user.target.wants'' s4 = (Inr (), s5)" and
    6: "guest_link_once env vm resolved_path
          ''/usr/lib/systemd/system/systemd-resolved.service'' s5 = (Inr (), t)"
    using assms(1) unfolding write_network_config_def net_path_def resolv_path_def
    by (auto simp: op_seq_Inr op_ret_def)
  note N = rel_guest_paths guest_paths_neq
  have "h_mounts s1 = h_mounts s" by (rule keptD(1) [OF guest_ops_mounts(1) 1])
  then have w2: "h_mounts s2 = h_mounts s" "h_trees s2 img (guest_path vm net_path) = Some (TextFile (network_file vm) None)"
    using guest_write_Inr [OF 2, of img] assms(2) by auto
  have k3: "h_mounts s3 = h_mounts s2" "h_trees s3 img (guest_path vm net_path) = h_trees s2 img (guest_path vm net_path)"
    using keptD(2) [OF keeps_guest_ops(3) 3, of net_path] N by auto
  have k4: "h_trees s4 img (guest_path vm net_path) = h_trees s3 img (guest_path vm net_path)"
    using keptD(2) [OF keeps_guest_ops(1) 4, of net_path] N by auto
  have w4: "h_mounts s4 = h_mounts s" "h_trees s4 img (guest_path vm resolv_path) = Some (TextFile (resolv_file vm) None)"
    using guest_write_Inr [OF 4, of img] assms(2) k3 w2 by auto
  have k: "h_mounts t = h_mounts s4 \<and> h_trees t img (guest_path vm r) = h_trees s4 img (guest_path vm r)"
    if "r \<in> {net_path, resolv_path}" for r
  proof -
    have r: "rel_path r" "rel_path resolved_path" "resolved_path \<noteq> r"
      using that N(1,2,7) N(12) [of r] by auto
    show ?thesis
      using keptD(2) [OF guest_ops_file(1) 5] keptD(2) [OF keeps_guest_ops(2) [OF r] 6] by simp
  qed
  show ?thesis using k [of net_path] k [of resolv_path] w2 w4 k3 k4 by simp
qed

section \<open>Injection\<close>

text \<open>The choice \<open>prepare_and_run\<close> makes.\<close>

definition inject :: "host_env \<Rightarrow> micro_vm \<Rightarrow> string \<Rightarrow> unit host_op" where
  "inject env vm env_content =
     (if use_mmds vm then inject_network_config env vm else inject_env_mount env vm env_content)"

lemma umount_tries_ends:
  "umount_tries env mnt n s = (r, t) \<Longrightarrow>
     h_trees t = h_trees s \<and> h_files t = h_files s \<and> h_tick t \<le> h_tick s + Suc n \<and>
     h_mounts t = (if is_ok r then drop_mount mnt (h_mounts s) else h_mounts s)"
proof (induction n arbitrary: s)
  case 0
  then show ?case by (auto simp: lazy_umount_sync_def sys_op_def del_mount_def split: if_splits)
next
  case (Suc n)
  show ?case
  proof (cases "e_ok env (h_tick s) \<and> is_mounted mnt s")
    case True
    with Suc.prems show ?thesis
      by (auto simp: try_umount_def op_simps sys_try_def del_mount_def)
  next
    case False
    with Suc.prems have "umount_tries env mnt n (tick s) = (r, t)"
      by (auto simp: try_umount_def op_simps sys_try_def)
    from Suc.IH [OF this] show ?thesis by auto
  qed
qed

lemma op_all_append: "op_all (ms @ ns) = op_seq (op_all ms) (op_all ns)"
  by (induction ms) (auto simp: fun_eq_iff op_simps split: prod.splits sum.splits)

lemma op_all_append_Inr:
  "op_all (ms @ ns) s = (Inr y, t) \<longleftrightarrow> (\<exists>u. op_all ms s = (Inr (), u) \<and> op_all ns u = (Inr y, t))"
  by (simp add: op_all_append op_seq_Inr)

lemma op_all_Nil_Inr [simp]: "op_all [] s = (Inr y, t) \<longleftrightarrow> t = s"
  by (auto simp: op_ret_def)

lemma op_all_Cons_Inr: "op_all (m # ms) s = (Inr y, t) \<longleftrightarrow> (\<exists>u. m s = (Inr (), u) \<and> op_all ms u = (Inr y, t))"
  by (simp add: op_seq_Inr)

text \<open>The end of both injections.\<close>

lemma inject_end:
  assumes "op_all [umount_with_retry env vm, op_ignore (remove_dir env (mount_point vm))] s = (Inr y, t)"
  shows "h_trees t = h_trees s \<and> h_mounts t = drop_mount (mount_point vm) (h_mounts s)"
proof -
  obtain u b where u: "umount_with_retry env vm s = (Inr (), u)" and d: "remove_dir env (mount_point vm) u = (Inr b, t)"
    using assms by (auto simp: op_all_Cons_Inr op_ignore_Inr simp del: op_all.simps)
  have "h_trees t = h_trees u \<and> h_mounts t = h_mounts u"
    using d by (auto simp: remove_dir_def sys_try_Inr del_dir_def)
  then show ?thesis
    using umount_tries_ends [OF u [unfolded umount_with_retry_def]] by simp
qed

text \<open>The start: directory and mount.\<close>

lemma inject_start:
  assumes "op_all (make_dirs env (mount_point vm) # mount_loop_ext4 env img (mount_point vm) # ms) s = (Inr y, t)"
  shows "\<exists>u. op_all ms u = (Inr y, t) \<and> h_mounts u = (mount_point vm, img) # h_mounts s"
  using assms
  by (auto simp: op_all_Cons_Inr make_dirs_def mount_loop_ext4_def sys_op_Inr add_mount_def put_dir_def
      simp del: op_all.simps)

text \<open>The optional overlay files touch neither the mounts nor the three files.\<close>

lemma overlay_extras_keep:
  assumes "op_all ms s = (Inr y, t)"
    and "set ms \<subseteq> {write_overlay_fstab env vm, write_mount_mode_entrypoint env vm, mask_overlay_services env vm,
      write_cache_service_config env vm}"
    and "r \<in> {net_path, resolv_path, env_path}"
  shows "h_mounts t = h_mounts s \<and> h_trees t img (guest_path vm r) = h_trees s img (guest_path vm r)"
proof -
  have r: "rel_path r" using assms(3) rel_guest_paths by auto
  have "gf.keeps (guest_path vm r) m" if "m \<in> set ms" for m
  proof -
    have "m \<in> {write_overlay_fstab env vm, write_mount_mode_entrypoint env vm, mask_overlay_services env vm,
      write_cache_service_config env vm}" using that assms(2) by blast
    then show ?thesis
      using keeps_other_configs [OF r] guest_paths_neq(4) [OF assms(3)] by auto
  qed
  from keptD(2) [OF gf.keeps_all [OF this] assms(1)] show ?thesis by simp
qed

lemma inject_network_config_Inr:
  assumes "inject_network_config env vm s = (Inr y, t)"
  shows "h_mounts t = h_mounts s \<and>
    h_trees t (image_to_mount vm) (guest_path vm net_path) = Some (TextFile (network_file vm) None) \<and>
    h_trees t (image_to_mount vm) (guest_path vm resolv_path) = Some (TextFile (resolv_file vm) None)"
proof -
  let ?img = "image_to_mount vm" and ?x = "if use_overlay vm then [write_overlay_fstab env vm, mask_overlay_services env vm] else []"
  obtain s1 where m: "h_mounts s1 = (mount_point vm, ?img) # h_mounts s"
    and r1: "op_all (write_network_config env vm # (write_cache_service_config env vm # ?x)
      @ [umount_with_retry env vm, op_ignore (remove_dir env (mount_point vm))]) s1 = (Inr y, t)"
    using inject_start [of env vm ?img _ s y t] assms unfolding inject_network_config_def append_Cons append_Nil by blast
  then obtain s2 s3 where 1: "write_network_config env vm s1 = (Inr (), s2)"
    and 2: "op_all (write_cache_service_config env vm # ?x) s2 = (Inr (), s3)"
    and 3: "op_all [umount_with_retry env vm, op_ignore (remove_dir env (mount_point vm))] s3 = (Inr y, t)"
    unfolding op_all_Cons_Inr [of "write_network_config env vm"] op_all_append_Inr by blast
  have w: "h_mounts s2 = h_mounts s1"
    "h_trees s2 ?img (guest_path vm net_path) = Some (TextFile (network_file vm) None)"
    "h_trees s2 ?img (guest_path vm resolv_path) = Some (TextFile (resolv_file vm) None)"
    using write_network_config_Inr [OF 1, of ?img] m by auto
  have k: "h_mounts s3 = h_mounts s2 \<and> h_trees s3 ?img (guest_path vm r) = h_trees s2 ?img (guest_path vm r)"
    if "r \<in> {net_path, resolv_path, env_path}" for r
    by (rule overlay_extras_keep [OF 2 _ that]) auto
  show ?thesis using inject_end [OF 3] k [of net_path] k [of resolv_path] w m by simp
qed

lemma inject_env_mount_Inr:
  assumes "inject_env_mount env vm content s = (Inr y, t)"
  shows "h_mounts t = h_mounts s \<and>
    h_trees t (image_to_mount vm) (guest_path vm net_path) = Some (TextFile (network_file vm) None) \<and>
    h_trees t (image_to_mount vm) (guest_path vm resolv_path) = Some (TextFile (resolv_file vm) None) \<and>
    h_trees t (image_to_mount vm) (guest_path vm env_path) = Some (TextFile content (Some 384))"
proof -
  let ?img = "image_to_mount vm" and ?x = "if use_overlay vm
    then [write_overlay_fstab env vm, write_mount_mode_entrypoint env vm, mask_overlay_services env vm] else []"
  obtain s1 where m: "h_mounts s1 = (mount_point vm, ?img) # h_mounts s"
    and r1: "op_all ([guest_dir env vm ''etc'', guest_write env vm env_path (TextFile content None),
      guest_write env vm env_path (TextFile content (Some 384)), write_network_config env vm] @
      (write_cache_service_config env vm # ?x)
      @ [umount_with_retry env vm, op_ignore (remove_dir env (mount_point vm))]) s1 = (Inr y, t)"
    using inject_start [of env vm ?img _ s y t] assms
    unfolding inject_env_mount_def env_path_def [symmetric] append_Cons append_Nil by blast
  then obtain a b c s2 s3 where 0: "guest_dir env vm ''etc'' s1 = (Inr (), a)"
      "guest_write env vm env_path (TextFile content None) a = (Inr (), b)"
      "guest_write env vm env_path (TextFile content (Some 384)) b = (Inr (), c)"
    and 1: "write_network_config env vm c = (Inr (), s2)"
    and 2: "op_all (write_cache_service_config env vm # ?x) s2 = (Inr (), s3)"
    and 3: "op_all [umount_with_retry env vm, op_ignore (remove_dir env (mount_point vm))] s3 = (Inr y, t)"
    unfolding op_all_append_Inr [of "[_, _, _, _]"] op_all_append_Inr [of "_ # _"] op_all_Cons_Inr [of "guest_dir _ _ _"]
      op_all_Cons_Inr [of "guest_write _ _ _ _"] op_all_Cons_Inr [of "write_network_config _ _"] op_all_Nil_Inr by blast
  have "h_mounts a = h_mounts s1" by (rule keptD(1) [OF guest_ops_mounts(1) 0(1)])
  moreover have "h_mounts b = h_mounts a" by (rule keptD(1) [OF guest_ops_mounts(2) 0(2)])
  ultimately have c: "h_mounts c = h_mounts s1" "h_trees c ?img (guest_path vm env_path) = Some (TextFile content (Some 384))"
    using guest_write_Inr [OF 0(3), of ?img] m by auto
  have w: "h_mounts s2 = h_mounts s1"
    "h_trees s2 ?img (guest_path vm net_path) = Some (TextFile (network_file vm) None)"
    "h_trees s2 ?img (guest_path vm resolv_path) = Some (TextFile (resolv_file vm) None)"
    using write_network_config_Inr [OF 1, of ?img] m c by auto
  have e: "h_trees s2 ?img (guest_path vm env_path) = h_trees c ?img (guest_path vm env_path)"
    using keptD(2) [OF keeps_network_config 1, of env_path] rel_guest_paths(3) guest_paths_neq(2,3)
      guest_paths_neq(4) [of env_path] by auto
  have k: "h_mounts s3 = h_mounts s2 \<and> h_trees s3 ?img (guest_path vm r) = h_trees s2 ?img (guest_path vm r)"
    if "r \<in> {net_path, resolv_path, env_path}" for r
    by (rule overlay_extras_keep [OF 2 _ that]) auto
  show ?thesis
    using inject_end [OF 3] k [of net_path] k [of resolv_path] k [of env_path] w m c e by simp
qed

section \<open>When no call fails\<close>

definition no_failures :: "host_env \<Rightarrow> bool" where
  "no_failures env \<longleftrightarrow> (\<forall>n. e_ok env n)"

text \<open>From a state with the mount the operation succeeds and keeps the mounts.\<close>

definition runs_mounted :: "micro_vm \<Rightarrow> unit host_op \<Rightarrow> bool" where
  "runs_mounted vm m \<longleftrightarrow>
     (\<forall>s. is_mounted (mount_point vm) s \<longrightarrow> (\<exists>t. m s = (Inr (), t) \<and> h_mounts t = h_mounts s))"

lemma runs_mountedD:
  "runs_mounted vm m \<Longrightarrow> is_mounted (mount_point vm) s \<Longrightarrow> \<exists>t. m s = (Inr (), t) \<and> h_mounts t = h_mounts s"
  by (simp add: runs_mounted_def)

lemma is_mounted_cong: "h_mounts t = h_mounts s \<Longrightarrow> is_mounted m t = is_mounted m s"
  by (simp add: is_mounted_def)

lemma runs_mounted_all: "(\<And>m. m \<in> set ms \<Longrightarrow> runs_mounted vm m) \<Longrightarrow> runs_mounted vm (op_all ms)"
proof (induction ms)
  case Nil
  then show ?case by (simp add: runs_mounted_def op_ret_def)
next
  case (Cons m ms)
  show ?case
    unfolding runs_mounted_def
  proof (intro allI impI)
    fix s
    assume s: "is_mounted (mount_point vm) s"
    obtain t where t: "m s = (Inr (), t)" "h_mounts t = h_mounts s"
      using runs_mountedD [OF Cons.prems s] by auto
    obtain u where "op_all ms t = (Inr (), u)" "h_mounts u = h_mounts t"
      using runs_mountedD [OF Cons.IH, of t] Cons.prems s is_mounted_cong [OF t(2)] by auto
    with t show "\<exists>t. op_all (m # ms) s = (Inr (), t) \<and> h_mounts t = h_mounts s"
      by (simp add: op_seq_Inr)
  qed
qed

lemma runs_mounted_ops:
  assumes "no_failures env"
  shows "runs_mounted vm (guest_dir env vm r)" "runs_mounted vm (guest_write env vm r n)"
    "runs_mounted vm (guest_link_once env vm r l)" "runs_mounted vm (guest_remove env vm r)"
  using assms
  by (simp_all add: runs_mounted_def no_failures_def guest_dir_def guest_write_def guest_link_once_def guest_remove_def
      sys_op_def sys_try_def op_ignore_def op_simps)

text \<open>Removing first makes room for the link.\<close>

lemma runs_mounted_replace:
  assumes "no_failures env"
  shows "runs_mounted vm (op_all [guest_remove env vm r, guest_symlink env vm r l])"
  unfolding runs_mounted_def
proof (intro allI impI)
  fix s
  assume "is_mounted (mount_point vm) s"
  then obtain img where i: "map_of (h_mounts s) (mount_point vm) = Some img" by (auto simp: is_mounted_def)
  define t where "t = tick (if guest_has (mount_point vm) (guest_path vm r) s
     then del_guest (mount_point vm) (guest_path vm r) s else s)"
  have "guest_remove env vm r s = (Inr (), t)"
    using assms by (simp add: t_def no_failures_def guest_remove_def op_ignore_Inr sys_try_Inr)
  moreover have "h_mounts t = h_mounts s" "\<not> guest_has (mount_point vm) (guest_path vm r) t"
    using i by (auto simp: t_def guest_has_def del_guest_def)
  moreover from this have "guest_symlink env vm r l t =
      (Inr (), tick (put_guest (mount_point vm) (guest_path vm r) (SymLink l) t))"
    using i assms by (simp add: guest_symlink_def sys_op_Inr no_failures_def is_mounted_def)
  ultimately show "\<exists>t. op_all [guest_remove env vm r, guest_symlink env vm r l] s = (Inr (), t) \<and> h_mounts t = h_mounts s"
    by (simp add: op_seq_Inr op_ret_def)
qed

lemma op_all_concat: "op_all (concat mss) = op_all (map op_all mss)"
proof (induction mss)
  case (Cons ms mss)
  then show ?case by (simp add: op_all_append)
qed simp

lemma runs_mounted_configs:
  assumes "no_failures env"
  shows "runs_mounted vm (write_network_config env vm)" "runs_mounted vm (write_cache_service_config env vm)"
    "runs_mounted vm (write_overlay_fstab env vm)" "runs_mounted vm (write_mount_mode_entrypoint env vm)"
    "runs_mounted vm (mask_overlay_services env vm)"
proof -
  note R = runs_mounted_ops [OF assms]
  show "runs_mounted vm (write_network_config env vm)" "runs_mounted vm (write_overlay_fstab env vm)"
    "runs_mounted vm (write_mount_mode_entrypoint env vm)"
    unfolding write_network_config_def write_overlay_fstab_def write_mount_mode_entrypoint_def
    by (rule runs_mounted_all, auto intro: R simp del: op_all.simps)+
  show "runs_mounted vm (write_cache_service_config env vm)"
  proof (cases "cache_service_file vm")
    case None
    then show ?thesis by (simp add: write_cache_service_config_def runs_mounted_def op_ret_def)
  next
    case (Some x)
    show ?thesis
      unfolding write_cache_service_config_def Some option.case
      by (rule runs_mounted_all) (auto intro: R simp del: op_all.simps)
  qed
  have eq: "op_all (guest_dir env vm d # concat (map (\<lambda>x. [guest_remove env vm (f x), guest_symlink env vm (f x) l]) xs)) =
      op_all (guest_dir env vm d # map (\<lambda>x. op_all [guest_remove env vm (f x), guest_symlink env vm (f x) l]) xs)"
    for d f l xs
    by (simp add: op_all_concat comp_def)
  show "runs_mounted vm (mask_overlay_services env vm)"
    unfolding mask_overlay_services_def eq
    by (rule runs_mounted_all) (auto intro: R runs_mounted_replace [OF assms] simp del: op_all.simps)
qed

text \<open>With an image that can be mounted and no failing call the injection succeeds.\<close>

lemma inject_succeeds:
  assumes "no_failures env" and "h_files s (image_to_mount vm) = Some (DiskImage n True)"
  shows "\<exists>t. inject env vm content s = (Inr (), t)"
proof -
  note R = runs_mounted_ops [OF assms(1)] runs_mounted_configs [OF assms(1)]
  have fin: "\<exists>t. op_all [umount_with_retry env vm, op_ignore (remove_dir env (mount_point vm))] u = (Inr (), t)"
    if "is_mounted (mount_point vm) u" for u
  proof -
    have "umount_with_retry env vm u = (Inr (), tick (del_mount (mount_point vm) u))"
      using that assms(1)
      by (simp add: umount_with_retry_def numeral_3_eq_3 try_umount_def op_simps sys_try_def no_failures_def)
    then show ?thesis
      by (simp add: op_seq_apply op_ret_def op_ignore_def op_bind_apply remove_dir_def sys_try_def)
  qed
  define body where "body = (if use_mmds vm then
      [write_network_config env vm, write_cache_service_config env vm]
      @ (if use_overlay vm then [write_overlay_fstab env vm, mask_overlay_services env vm] else [])
    else [guest_dir env vm ''etc'', guest_write env vm env_path (TextFile content None),
      guest_write env vm env_path (TextFile content (Some 384)), write_network_config env vm, write_cache_service_config env vm]
      @ (if use_overlay vm then
           [write_overlay_fstab env vm, write_mount_mode_entrypoint env vm, mask_overlay_services env vm] else []))"
  have body: "runs_mounted vm (op_all body)"
    by (rule runs_mounted_all) (auto simp: body_def intro: R split: if_splits)
  define s2 where "s2 = tick (add_mount (image_to_mount vm) (mount_point vm) (tick (put_dir (mount_point vm) s)))"
  have "is_mounted (mount_point vm) s2" by (simp add: s2_def is_mounted_def add_mount_def)
  from runs_mountedD [OF body this] obtain s3 where s3: "op_all body s2 = (Inr (), s3)" "is_mounted (mount_point vm) s3"
    using \<open>is_mounted (mount_point vm) s2\<close> by (auto simp: is_mounted_def)
  obtain t where t: "op_all [umount_with_retry env vm, op_ignore (remove_dir env (mount_point vm))] s3 = (Inr (), t)"
    using fin [OF s3(2)] by auto
  have eq: "inject env vm content = op_all ([make_dirs env (mount_point vm),
      mount_loop_ext4 env (image_to_mount vm) (mount_point vm)] @ body
      @ [umount_with_retry env vm, op_ignore (remove_dir env (mount_point vm))])"
    by (simp add: inject_def inject_network_config_def inject_env_mount_def body_def env_path_def del: op_all.simps)
  have "op_all [make_dirs env (mount_point vm), mount_loop_ext4 env (image_to_mount vm) (mount_point vm)] s
      = (Inr (), s2)"
    using assms
    by (simp add: op_seq_apply op_ret_def make_dirs_def mount_loop_ext4_def sys_op_def no_failures_def can_mount_def
        put_dir_def always_def s2_def)
  then show ?thesis
    unfolding eq op_all_append_Inr using s3(1) t by blast
qed


definition demo_vm :: "string \<Rightarrow> micro_vm" where
  "demo_vm mode = micro_vm_new ''u'' 7 ((default_firecracker_config ''k'' ''g.ext4'')\<lparr>secret_injection := mode\<rparr>)
     default_network_config ''/w'' 60 3"

definition calm_env :: host_env where
  "calm_env = \<lparr>e_ok = (\<lambda>_. True), e_accepts = (\<lambda>_. True), e_end = Ends (Exits 0), e_guest_log = None\<rparr>"

definition demo_host :: host where
  "demo_host = \<lparr>h_files = (\<lambda>_. Some (DiskImage 8 True)), h_dirs = {}, h_mounts = [], h_trees = (\<lambda>_. Map.empty),
     h_links = Map.empty, h_alive = {}, h_log = [], h_tick = 0\<rparr>"


section \<open>TAP devices\<close>

lemma tap_name_short: "slot < 1000 \<Longrightarrow> tap_name_ok (''tap-fc'' @ show_nat slot) s"
  using length_show_nat_le [of slot] by (simp add: tap_name_ok_def)

text \<open>What every run of \<open>create_tap\<close> leaves alone.\<close>

definition other_links :: "string \<Rightarrow> host \<Rightarrow> host \<Rightarrow> bool" where
  "other_links n s t \<longleftrightarrow> (\<forall>m. m \<noteq> n \<longrightarrow> h_links t m = h_links s m) \<and> h_files t = h_files s \<and> h_mounts t = h_mounts s"

interpretation ol: host_bound "other_links n" for n
  by unfold_locales (auto simp: other_links_def)

lemma create_tap_others: "ol.keeps (tap_name vm) (create_tap env vm)"
  unfolding create_tap_def Let_def delete_link_def nl_create_tap_def add_address_v4_def set_link_up_def
  by (intro ol.keeps_rules)
     (auto simp: other_links_def del_link_def add_tap_def change_link_def split: option.splits)

lemma create_tap_frame: "create_tap env vm s = (r, t) \<Longrightarrow> other_links (tap_name vm) s t"
  using ol.keepsD [OF create_tap_others] by (metis snd_conv)

text \<open>The end of \<open>create_tap\<close>: the address and the state of the device.\<close>

lemma tap_finish:
  assumes "op_bind (op_lift (ok_or (parse_ipv4 a) BadHostIp))
     (\<lambda>ip. op_seq (add_address_v4 env n ip) (set_link_up env n)) s = (Inr y, t)"
  shows "\<exists>ip l. parse_ipv4 a = Some ip \<and> h_links s n = Some l \<and>
     h_links t n = Some (l\<lparr>lk_addrs := lk_addrs l @ [ip], lk_up := True\<rparr>)"
  using assms
  by (cases "parse_ipv4 a")
     (auto simp: op_bind_apply op_lift_apply op_seq_Inr add_address_v4_def set_link_up_def sys_op_Inr can_add_address_def change_link_def
       split: option.splits)

text \<open>When a VM's TAP device has been made it is up and carries the address of the host side of the
  VM's subnet, and no other device has been touched; one failure of the creation itself, in
  whatever state the old device was left, is survived.\<close>

theorem create_tap_up:
  assumes "vm = micro_vm_new u j fc nw wd tm slot" and "slot \<le> 255"
  shows "(create_tap env vm s = (Inr (), t) \<longrightarrow>
      (\<exists>l. h_links t (tap_name vm) = Some l \<and> lk_up l \<and> [172, 16, slot, 1] \<in> set (lk_addrs l)) \<and>
      (\<forall>n. n \<noteq> tap_name vm \<longrightarrow> h_links t n = h_links s n)) \<and>
    ((\<forall>k. k \<noteq> h_tick s + 1 \<longrightarrow> e_ok env k) \<longrightarrow>
      (\<exists>u. create_tap env vm s = (Inr (), u) \<and>
           h_links u (tap_name vm) = Some \<lparr>lk_addrs = [[172, 16, slot, 1]], lk_up = True\<rparr>))"
proof (intro conjI impI)
  have ip: "parse_ipv4 (vm_host_ip vm) = Some [172, 16, slot, 1]"
    using assms by (simp only: vm_ip_octets if_True)
  have name: "tap_name_ok (tap_name vm) s'" for s'
    using assms tap_name_short [of slot] by simp
  {
    assume T: "create_tap env vm s = (Inr (), t)"
    then obtain s' where "op_bind (op_lift (ok_or (parse_ipv4 (vm_host_ip vm)) BadHostIp))
       (\<lambda>ip. op_seq (add_address_v4 env (tap_name vm) ip) (set_link_up env (tap_name vm))) s' = (Inr (), t)"
      unfolding create_tap_def Let_def op_seq_Inr by blast
    from tap_finish [OF this] show "\<exists>l. h_links t (tap_name vm) = Some l \<and> lk_up l \<and> [172, 16, slot, 1] \<in> set (lk_addrs l)"
      using ip by auto
    show "\<forall>n. n \<noteq> tap_name vm \<longrightarrow> h_links t n = h_links s n"
      using create_tap_frame [OF T] by (simp add: other_links_def)
  }
  assume "\<forall>k. k \<noteq> h_tick s + 1 \<longrightarrow> e_ok env k"
  then show "\<exists>u. create_tap env vm s = (Inr (), u) \<and>
      h_links u (tap_name vm) = Some \<lparr>lk_addrs = [[172, 16, slot, 1]], lk_up = True\<rparr>"
    using ip name
    by (cases "e_ok env (Suc (h_tick s))")
       (simp_all add: create_tap_def Let_def op_simps delete_link_def op_ignore_def sys_try_def nl_create_tap_def always_def
         del_link_def add_tap_def add_address_v4_def set_link_up_def sys_op_def can_add_address_def change_link_def)
qed

theorem create_tap_up_witness:
  "\<exists>t. create_tap (calm_env\<lparr>e_ok := (\<lambda>k. k \<noteq> 1)\<rparr>) (demo_vm ''mmds'') demo_host = (Inr (), t) \<and>
     h_links t (tap_name (demo_vm ''mmds'')) = Some \<lparr>lk_addrs = [[172, 16, 3, 1]], lk_up = True\<rparr>"
  using create_tap_up [OF demo_vm_def [of "''mmds''"], of "calm_env\<lparr>e_ok := (\<lambda>k. k \<noteq> 1)\<rparr>" demo_host]
  by (simp add: demo_host_def)

section \<open>The cache image\<close>

text \<open>A formatting of the cache image that fails leaves an image of the right size without a file system,
  and every later start on the slot takes it as it is: it is never formatted.\<close>

theorem cache_image_stays_unformatted:
  assumes "cache_path vm = Some p" and "h_files s p = None"
    and "\<And>k. e_ok env k \<longleftrightarrow> k \<noteq> h_tick s + 3"
  shows "\<exists>t. ensure_cache_image env vm s = (Inl (Failed ''mkfs.ext4''), t) \<and>
    (\<forall>env'. no_failures env' \<longrightarrow>
       (\<exists>u. ensure_cache_image env' vm t = (Inr (), u) \<and>
            h_files u p = Some (DiskImage (mib (cache_size_mib (fc_config vm))) False)))"
proof -
  let ?n = "mib (cache_size_mib (fc_config vm))"
  define t where "t = snd (ensure_cache_image env vm s)"
  have "ensure_cache_image env vm s = (Inl (Failed ''mkfs.ext4''), t) \<and> h_files t p = Some (DiskImage ?n False)"
    using assms by (simp add: t_def ensure_cache_image_def Let_def new_image_def write_file_def make_dirs_def op_simps sys_op_def
        always_def put_dir_def put_file_def numeral_3_eq_3)
  then show ?thesis
    using assms(1)
    by (intro exI [of _ t])
       (auto simp: ensure_cache_image_def Let_def op_simps sys_op_def always_def no_failures_def op_ret_def)
qed

theorem cache_image_stays_unformatted_witness:
  "\<exists>t. ensure_cache_image (calm_env\<lparr>e_ok := (\<lambda>k. k \<noteq> 3)\<rparr>)
      ((demo_vm ''mmds'')\<lparr>cache_path := Some ''/c''\<rparr>) (demo_host\<lparr>h_files := Map.empty\<rparr>) = (Inl (Failed ''mkfs.ext4''), t)"
  using cache_image_stays_unformatted [of "(demo_vm ''mmds'')\<lparr>cache_path := Some ''/c''\<rparr>" "''/c''"
      "demo_host\<lparr>h_files := Map.empty\<rparr>" "calm_env\<lparr>e_ok := (\<lambda>k. k \<noteq> 3)\<rparr>"]
  by (fastforce simp: demo_host_def)

text \<open>A success leaves an image of the configured size.\<close>

lemma ensure_cache_image_size:
  assumes "ensure_cache_image env vm s = (Inr (), t)" and "cache_path vm = Some p"
  shows "\<exists>f. h_files t p = Some f \<and> node_size f = mib (cache_size_mib (fc_config vm))"
  using assms
  by (auto simp: ensure_cache_image_def Let_def new_image_def op_Inr write_file_def make_dirs_def format_image_def
      put_file_def put_dir_def del_file_def op_ret_def split: option.splits if_splits)
end
