(* ===== verification/Firewall.thy ===== *)
theory Firewall
  imports Host
begin

text \<open>
  The host's network for the VMs (the second half of \<open>src/src/vm/setup.rs\<close>): the allowed networks,
  the clean-up of old TAP devices, IP forwarding, and the rules of the firewall. \<open>iptables\<close> and
  \<open>ipset\<close> are other programs: a call can fail to start, end with an error, or do what is documented
  for the commands the program gives (check, append, insert at a position; create, flush, add).
  What a rule says about a packet is a parameter.
\<close>

section \<open>The allowed networks\<close>

text \<open>The four lists of GitHub's answer; only the first has to be there.\<close>

record github_meta =
  gm_actions :: "string list"
  gm_git :: "string list"
  gm_api :: "string list"
  gm_web :: "string list"

definition de_strings :: "json \<Rightarrow> string list option" where
  "de_strings j = obind (as_arr j) (all_some as_str)"

definition de_github_meta :: "json \<Rightarrow> github_meta option" where
  "de_github_meta j =
     obind (de_req de_strings ''actions'' j) (\<lambda>a. obind (de_default de_strings [] ''git'' j) (\<lambda>g.
     obind (de_default de_strings [] ''api'' j) (\<lambda>p. obind (de_default de_strings [] ''web'' j) (\<lambda>w.
     Some \<lparr>gm_actions = a, gm_git = g, gm_api = p, gm_web = w\<rparr>))))"

text \<open>The answer of the request: a status and, when it is JSON, the body; none when it was not sent.\<close>

definition fetch_github_cidrs :: "(nat \<times> json option) option \<Rightarrow> string list option" where
  "fetch_github_cidrs resp =
     obind resp (\<lambda>(status, body).
       if 400 \<le> status \<and> status < 600 then None
       else obind (obind body de_github_meta) (\<lambda>m.
         Some (remdups_adj (sort (gm_actions m @ gm_git m @ gm_api m @ gm_web m)))))"

text \<open>
  The entries in order; \<open>None\<close> when GitHub's ranges are asked for and cannot be had. The keyword may
  occur more than once, and each time a request is made.
\<close>

fun resolve_entries :: "(nat \<Rightarrow> string list option) \<Rightarrow> nat \<Rightarrow> string list \<Rightarrow> string list option" where
  "resolve_entries cidrs k [] = Some []"
| "resolve_entries cidrs k (e # es) =
     (if eq_ignore_ascii_case e ''github''
      then obind (cidrs k) (\<lambda>cs. map_option (\<lambda>r. cs @ r) (resolve_entries cidrs (Suc k) es))
      else map_option (\<lambda>r. e # r) (resolve_entries cidrs k es))"

definition add_dns :: "string list \<Rightarrow> string list \<Rightarrow> string list" where
  "add_dns dns resolved =
     fold (\<lambda>d r. let c = d @ ''/32'' in if c \<in> set r then r else r @ [c]) dns resolved"

definition resolve_allowed_networks :: "(nat \<Rightarrow> string list option) \<Rightarrow> network_config \<Rightarrow> network_config" where
  "resolve_allowed_networks cidrs nw =
     (if allowed_networks nw = [] then nw
      else (case resolve_entries cidrs 0 (allowed_networks nw) of
              None \<Rightarrow> nw\<lparr>resolved_networks := []\<rparr>
            | Some r \<Rightarrow> nw\<lparr>resolved_networks := add_dns (nw_dns nw) r\<rparr>))"

section \<open>State and commands\<close>

datatype cmd_outcome = Runs | ExitsNonzero | NotSpawned

record fw_env =
  fe_out :: "nat \<Rightarrow> cmd_outcome"
  fe_route :: string
  fe_valid :: "string \<Rightarrow> bool"

record fw_host =
  fw_chains :: "string \<times> string \<Rightarrow> string list list"
  fw_sets :: "string \<rightharpoonup> string set"
  fw_forward :: string
  fw_links :: "string set"
  fw_tick :: nat

datatype fw_error = NoProgram string | RuleFailed "string list" | FileFailed string | NoDefaultRoute

type_synonym 'a fw_op = "(fw_host, fw_error, 'a) op"

definition fw_step :: "fw_host \<Rightarrow> fw_host" where
  "fw_step s = s\<lparr>fw_tick := Suc (fw_tick s)\<rparr>"

definition run_cmd :: "fw_env \<Rightarrow> string \<Rightarrow> (fw_host \<Rightarrow> bool \<times> fw_host) \<Rightarrow> bool fw_op" where
  "run_cmd env prog f s =
     (case fe_out env (fw_tick s) of
        NotSpawned \<Rightarrow> (Inl (NoProgram prog), fw_step s)
      | ExitsNonzero \<Rightarrow> (Inr False, fw_step s)
      | Runs \<Rightarrow> (case f s of (b, t) \<Rightarrow> (Inr b, fw_step t)))"

definition file_op :: "fw_env \<Rightarrow> string \<Rightarrow> (fw_host \<Rightarrow> fw_host) \<Rightarrow> unit fw_op" where
  "file_op env p f s =
     (if fe_out env (fw_tick s) = Runs then (Inr (), fw_step (f s)) else (Inl (FileFailed p), fw_step s))"

text \<open>The commands of \<open>iptables\<close>: table, chain, position and the specification of the rule.\<close>

datatype ipt_cmd =
    IptAppend string string "string list" | IptInsert string string nat "string list"
  | IptCheck string string "string list"

fun ipt_parse :: "string \<Rightarrow> string list \<Rightarrow> ipt_cmd option" where
  "ipt_parse tbl (a # b # rest) =
     (if a = ''-t'' then ipt_parse b rest
      else if a = ''-A'' then Some (IptAppend tbl b rest)
      else if a = ''-C'' then Some (IptCheck tbl b rest)
      else if a = ''-I'' then
        (case rest of [] \<Rightarrow> None | n # spec \<Rightarrow> map_option (\<lambda>k. IptInsert tbl b k spec) (parse_unsigned u32_max n))
      else None)"
| "ipt_parse tbl _ = None"

definition set_chain :: "string \<times> string \<Rightarrow> string list list \<Rightarrow> fw_host \<Rightarrow> fw_host" where
  "set_chain c rs s = s\<lparr>fw_chains := (fw_chains s)(c := rs)\<rparr>"

text \<open>A rule that names a set can only be made when the set is there; options come before their values.\<close>

fun rule_set :: "string list \<Rightarrow> string option" where
  "rule_set (a # b # rest) = (if a = ''--match-set'' then Some b else rule_set rest)"
| "rule_set _ = None"

definition set_known :: "string list \<Rightarrow> fw_host \<Rightarrow> bool" where
  "set_known spec s \<longleftrightarrow> (case rule_set spec of None \<Rightarrow> True | Some n \<Rightarrow> fw_sets s n \<noteq> None)"

fun ipt_exec :: "ipt_cmd \<Rightarrow> fw_host \<Rightarrow> bool \<times> fw_host" where
  "ipt_exec (IptCheck tbl ch spec) s = (spec \<in> set (fw_chains s (tbl, ch)), s)"
| "ipt_exec (IptAppend tbl ch spec) s =
     (if set_known spec s then (True, set_chain (tbl, ch) (fw_chains s (tbl, ch) @ [spec]) s) else (False, s))"
| "ipt_exec (IptInsert tbl ch k spec) s =
     (let rs = fw_chains s (tbl, ch) in
      if set_known spec s \<and> 1 \<le> k \<and> k \<le> Suc (length rs)
      then (True, set_chain (tbl, ch) (take (k - 1) rs @ spec # drop (k - 1) rs) s) else (False, s))"

definition run_iptables :: "fw_env \<Rightarrow> string list \<Rightarrow> bool fw_op" where
  "run_iptables env args =
     run_cmd env ''iptables'' (\<lambda>s. case ipt_parse ''filter'' args of None \<Rightarrow> (False, s) | Some c \<Rightarrow> ipt_exec c s)"

definition add_iptables_rule_if_missing :: "fw_env \<Rightarrow> string list \<Rightarrow> string list \<Rightarrow> unit fw_op" where
  "add_iptables_rule_if_missing env add_args check_args =
     op_bind (run_iptables env check_args) (\<lambda>there.
       if there then op_ret ()
       else op_bind (run_iptables env add_args) (\<lambda>added.
              if added then op_ret () else op_fail (RuleFailed add_args)))"

text \<open>\<open>ipset\<close>, with the option that makes creating and adding twice harmless.\<close>

definition set_put :: "string \<Rightarrow> string set option \<Rightarrow> fw_host \<Rightarrow> fw_host" where
  "set_put n x s = s\<lparr>fw_sets := (fw_sets s)(n := x)\<rparr>"

definition ipset_create :: "fw_env \<Rightarrow> string \<Rightarrow> bool fw_op" where
  "ipset_create env n =
     run_cmd env ''ipset'' (\<lambda>s. (True, set_put n (Some (case fw_sets s n of None \<Rightarrow> {} | Some x \<Rightarrow> x)) s))"

definition ipset_flush :: "fw_env \<Rightarrow> string \<Rightarrow> bool fw_op" where
  "ipset_flush env n =
     run_cmd env ''ipset'' (\<lambda>s. case fw_sets s n of None \<Rightarrow> (False, s) | Some _ \<Rightarrow> (True, set_put n (Some {}) s))"

definition ipset_add :: "fw_env \<Rightarrow> string \<Rightarrow> string \<Rightarrow> bool fw_op" where
  "ipset_add env n c =
     run_cmd env ''ipset'' (\<lambda>s. case fw_sets s n of
        None \<Rightarrow> (False, s)
      | Some x \<Rightarrow> if fe_valid env c then (True, set_put n (Some (insert c x)) s) else (False, s))"

section \<open>The rules\<close>

definition vm_subnet :: string where "vm_subnet = ''172.16.0.0/16''"

definition allow_set :: string where "allow_set = ''fc-allowed''"

definition masquerade_rule :: "string \<Rightarrow> string list" where
  "masquerade_rule iface = [''-s'', vm_subnet, ''-o'', iface, ''-j'', ''MASQUERADE'']"

definition mss_rule :: "string list" where
  "mss_rule = [''-p'', ''tcp'', ''--tcp-flags'', ''SYN,RST'', ''SYN'', ''-s'', vm_subnet, ''-j'', ''TCPMSS'',
     ''--clamp-mss-to-pmtu'']"

definition established_rule :: "string list" where
  "established_rule = [''-d'', vm_subnet, ''-m'', ''state'', ''--state'', ''RELATED,ESTABLISHED'', ''-j'', ''ACCEPT'']"

definition open_rule :: "string \<Rightarrow> string list" where
  "open_rule iface = [''-s'', vm_subnet, ''-o'', iface, ''-j'', ''ACCEPT'']"

definition allow_rule :: "string \<Rightarrow> string list" where
  "allow_rule iface = [''-s'', vm_subnet, ''-o'', iface, ''-m'', ''set'', ''--match-set'', allow_set, ''dst'',
     ''-j'', ''ACCEPT'']"

definition drop_rule :: "string \<Rightarrow> string list" where
  "drop_rule iface = [''-s'', vm_subnet, ''-o'', iface, ''-j'', ''DROP'']"

text \<open>The first column of the first line, after the header, whose second column is the default destination.\<close>

fun split_ws :: "string \<Rightarrow> string list" where
  "split_ws [] = []"
| "split_ws (c # cs) =
     (if is_ws c then split_ws cs
      else (case cs of
              [] \<Rightarrow> [[c]]
            | d # _ \<Rightarrow> if is_ws d then [c] # split_ws cs
                     else (case split_ws cs of [] \<Rightarrow> [[c]] | w # ws \<Rightarrow> (c # w) # ws)))"

definition default_iface :: "string \<Rightarrow> string option" where
  "default_iface route =
     obind (find (\<lambda>l. case split_ws l of _ # d # _ \<Rightarrow> d = ''00000000'' | _ \<Rightarrow> False) (drop 1 (str_lines route)))
       (\<lambda>l. case split_ws l of [] \<Rightarrow> None | w # _ \<Rightarrow> Some w)"

definition ensure_rule :: "fw_env \<Rightarrow> string list \<Rightarrow> string list \<Rightarrow> string list \<Rightarrow> unit fw_op" where
  "ensure_rule env add check spec = add_iptables_rule_if_missing env (add @ spec) (check @ spec)"

definition open_outbound :: "fw_env \<Rightarrow> string \<Rightarrow> unit fw_op" where
  "open_outbound env iface = ensure_rule env [''-I'', ''FORWARD'', ''2''] [''-C'', ''FORWARD''] (open_rule iface)"

text \<open>Only IPv4 ranges are added, and one that cannot be added is skipped.\<close>

fun add_cidrs :: "fw_env \<Rightarrow> string list \<Rightarrow> unit fw_op" where
  "add_cidrs env [] = op_ret ()"
| "add_cidrs env (c # cs) =
     (if CHR '':'' \<in> set c then add_cidrs env cs
      else op_bind (ipset_add env allow_set c) (\<lambda>_. add_cidrs env cs))"

definition restrict_outbound :: "fw_env \<Rightarrow> string \<Rightarrow> string list \<Rightarrow> unit fw_op" where
  "restrict_outbound env iface cidrs =
     op_bind (ipset_create env allow_set) (\<lambda>_.
     op_bind (ipset_flush env allow_set) (\<lambda>_.
     op_seq (add_cidrs env cidrs)
    (op_seq (ensure_rule env [''-I'', ''FORWARD'', ''2''] [''-C'', ''FORWARD''] (allow_rule iface))
            (ensure_rule env [''-I'', ''FORWARD'', ''3''] [''-C'', ''FORWARD''] (drop_rule iface)))))"

definition ensure_nat_rules :: "fw_env \<Rightarrow> network_config \<Rightarrow> unit fw_op" where
  "ensure_nat_rules env nw =
     op_seq (file_op env ''/proc/net/route'' id)
    (op_bind (op_lift (ok_or (default_iface (fe_route env)) NoDefaultRoute)) (\<lambda>iface.
     op_seq (ensure_rule env [''-t'', ''nat'', ''-A'', ''POSTROUTING''] [''-t'', ''nat'', ''-C'', ''POSTROUTING'']
               (masquerade_rule iface))
    (op_seq (ensure_rule env [''-t'', ''mangle'', ''-A'', ''FORWARD''] [''-t'', ''mangle'', ''-C'', ''FORWARD''] mss_rule)
    (op_seq (ensure_rule env [''-I'', ''FORWARD'', ''1''] [''-C'', ''FORWARD''] established_rule)
       (if resolved_networks nw = [] then open_outbound env iface
        else restrict_outbound env iface (resolved_networks nw))))))"

section \<open>The whole network set-up\<close>

text \<open>Only the first sixteen names are looked at.\<close>

fun cleanup_taps :: "fw_env \<Rightarrow> string list \<Rightarrow> unit fw_op" where
  "cleanup_taps env [] = op_ret ()"
| "cleanup_taps env (n # ns) =
     op_bind (run_cmd env ''netlink'' (\<lambda>s. (n \<in> fw_links s, s))) (\<lambda>there.
       if there then op_bind (run_cmd env ''netlink'' (\<lambda>s. (True, s\<lparr>fw_links := fw_links s - {n}\<rparr>))) (\<lambda>_. cleanup_taps env ns)
       else cleanup_taps env ns)"

text \<open>A netlink call that cannot be made counts as one that found nothing.\<close>

definition quiet_env :: "fw_env \<Rightarrow> fw_env" where
  "quiet_env env = env\<lparr>fe_out := (\<lambda>k. if fe_out env k = NotSpawned then ExitsNonzero else fe_out env k)\<rparr>"

definition cleanup_stale_taps :: "fw_env \<Rightarrow> unit fw_op" where
  "cleanup_stale_taps env = cleanup_taps (quiet_env env) (map (\<lambda>i. ''tap-fc'' @ show_nat i) [0..<16])"

definition ensure_ip_forwarding :: "fw_env \<Rightarrow> unit fw_op" where
  "ensure_ip_forwarding env =
     op_seq (file_op env ''/proc/sys/net/ipv4/ip_forward'' id)
       (\<lambda>s. if trim (fw_forward s) = ''1'' then (Inr (), s)
            else file_op env ''/proc/sys/net/ipv4/ip_forward'' (\<lambda>s. s\<lparr>fw_forward := ''1''\<rparr>) s)"

definition ensure_network :: "fw_env \<Rightarrow> network_config \<Rightarrow> unit fw_op" where
  "ensure_network env nw =
     op_seq (cleanup_stale_taps env) (op_seq (ensure_ip_forwarding env) (ensure_nat_rules env nw))"

section \<open>What the commands change\<close>

definition forward_chain :: "string \<times> string" where "forward_chain = (''filter'', ''FORWARD'')"

definition all_run :: "fw_env \<Rightarrow> bool" where
  "all_run env \<longleftrightarrow> (\<forall>k. fe_out env k = Runs)"

lemma fw_step_sel [simp]:
  "fw_chains (fw_step s) = fw_chains s" "fw_sets (fw_step s) = fw_sets s" "fw_forward (fw_step s) = fw_forward s"
  "fw_links (fw_step s) = fw_links s"
  by (simp_all add: fw_step_def)

lemma set_known_step [simp]: "set_known spec (fw_step s) = set_known spec s"
  by (simp add: set_known_def split: option.split)

lemma run_cmd_Inr:
  "run_cmd env prog f s = (Inr b, t) \<longleftrightarrow>
     (fe_out env (fw_tick s) = ExitsNonzero \<and> \<not> b \<and> t = fw_step s) \<or>
     (fe_out env (fw_tick s) = Runs \<and> (\<exists>u. f s = (b, u) \<and> t = fw_step u))"
  by (auto simp: run_cmd_def split: cmd_outcome.splits prod.splits)

lemma ipt_parse_simps [simp]:
  "ipt_parse tbl (''-t'' # x # rest) = ipt_parse x rest"
  "ipt_parse tbl (''-A'' # ch # spec) = Some (IptAppend tbl ch spec)"
  "ipt_parse tbl (''-C'' # ch # spec) = Some (IptCheck tbl ch spec)"
  "ipt_parse tbl (''-I'' # ch # n # spec) = map_option (\<lambda>k. IptInsert tbl ch k spec) (parse_unsigned u32_max n)"
  by simp_all

declare ipt_parse.simps [simp del]

lemma positions [simp]:
  "parse_unsigned u32_max ''1'' = Some 1" "parse_unsigned u32_max ''2'' = Some 2" "parse_unsigned u32_max ''3'' = Some 3"
  by (simp_all add: parse_unsigned_def digit_val_def)

text \<open>A rule that is not there yet, when the call succeeds, has been put at its place.\<close>

lemma ensure_insert_new:
  assumes "ensure_rule env [''-I'', ''FORWARD'', n] [''-C'', ''FORWARD''] spec s = (Inr (), t)"
    and "parse_unsigned u32_max n = Some k" and "spec \<notin> set (fw_chains s forward_chain)"
  shows "fw_chains t = (fw_chains s)(forward_chain :=
      take (k - 1) (fw_chains s forward_chain) @ spec # drop (k - 1) (fw_chains s forward_chain)) \<and>
    fw_sets t = fw_sets s \<and> set_known spec s \<and> fw_links t = fw_links s"
  using assms
  by (auto simp: ensure_rule_def add_iptables_rule_if_missing_def op_bind_apply run_iptables_def run_cmd_def forward_chain_def
      set_chain_def op_simps Let_def split: prod.splits sum.splits if_splits cmd_outcome.splits)

text \<open>A rule that is there is left alone, and one in another chain changes no rule of this one.\<close>

lemma ensure_rule_other:
  assumes "ensure_rule env (''-t'' # tbl # ''-A'' # ch # []) (''-t'' # tbl # ''-C'' # ch # []) spec s = (Inr (), t)"
  shows "(\<forall>c. c \<noteq> (tbl, ch) \<longrightarrow> fw_chains t c = fw_chains s c) \<and> fw_sets t = fw_sets s \<and> fw_links t = fw_links s \<and>
    (\<forall>c. set (fw_chains s c) \<subseteq> set (fw_chains t c)) \<and> spec \<in> set (fw_chains t (tbl, ch))"
  using assms
  by (auto simp: ensure_rule_def add_iptables_rule_if_missing_def op_bind_apply run_iptables_def run_cmd_def
      set_chain_def op_simps split: prod.splits sum.splits if_splits cmd_outcome.splits)

lemma ensure_rule_mono:
  assumes "ensure_rule env (''-t'' # tbl # ''-A'' # ch # []) (''-t'' # tbl # ''-C'' # ch # []) spec s = (Inr (), t)"
  shows "set (fw_chains s c) \<subseteq> set (fw_chains t c)"
  using ensure_rule_other [OF assms] by blast

text \<open>What filling the set does.\<close>

definition v4_cidrs :: "string list \<Rightarrow> string set" where
  "v4_cidrs cs = {c \<in> set cs. CHR '':'' \<notin> set c}"

definition same_rules :: "fw_host \<Rightarrow> fw_host \<Rightarrow> bool" where
  "same_rules s t \<longleftrightarrow> fw_chains t = fw_chains s"

lemma ipset_run:
  "ipset_create env n s = (Inr b, t) \<Longrightarrow> same_rules s t \<and>
     (fw_sets t = fw_sets s \<and> \<not> all_run env \<or> fw_sets t = (fw_sets s)(n := Some (case fw_sets s n of None \<Rightarrow> {} | Some x \<Rightarrow> x)))"
  "ipset_flush env n s = (Inr b, t) \<Longrightarrow> same_rules s t \<and>
     (fw_sets t = fw_sets s \<and> (all_run env \<longrightarrow> fw_sets s n = None) \<or> fw_sets s n \<noteq> None \<and> fw_sets t = (fw_sets s)(n := Some {}))"
  "ipset_add env n c s = (Inr b, t) \<Longrightarrow> same_rules s t \<and>
     (fw_sets t = fw_sets s \<and> (all_run env \<and> fe_valid env c \<longrightarrow> fw_sets s n = None) \<or>
      (\<exists>x. fw_sets s n = Some x \<and> fe_valid env c \<and> fw_sets t = (fw_sets s)(n \<mapsto> insert c x)))"
  by (auto simp: ipset_create_def ipset_flush_def ipset_add_def run_cmd_Inr same_rules_def all_run_def set_put_def
      split: option.splits if_splits)

lemma add_cidrs_run:
  "add_cidrs env cs s = (Inr u, t) \<Longrightarrow> same_rules s t \<and>
     (case fw_sets s allow_set of
        None \<Rightarrow> fw_sets t = fw_sets s
      | Some x \<Rightarrow> \<exists>y. fw_sets t = (fw_sets s)(allow_set \<mapsto> x \<union> y) \<and> y \<subseteq> {c \<in> v4_cidrs cs. fe_valid env c} \<and>
          (all_run env \<longrightarrow> y = {c \<in> v4_cidrs cs. fe_valid env c}))"
proof (induction cs arbitrary: s)
  case Nil
  then show ?case by (auto simp: op_ret_def same_rules_def v4_cidrs_def fun_upd_idem split: option.splits)
next
  case (Cons c cs)
  show ?case
  proof (cases "CHR '':'' \<in> set c")
    case True
    then have v: "v4_cidrs (c # cs) = v4_cidrs cs" by (auto simp: v4_cidrs_def)
    show ?thesis unfolding v by (rule Cons.IH) (use Cons.prems True in simp)
  next
    case False
    then have v: "v4_cidrs (c # cs) = insert c (v4_cidrs cs)" by (auto simp: v4_cidrs_def)
    obtain b m where m: "ipset_add env allow_set c s = (Inr b, m)" "add_cidrs env cs m = (Inr u, t)"
      using Cons.prems False by (auto simp: op_bind_apply split: prod.splits sum.splits)
    show ?thesis
    proof (cases "fw_sets s allow_set")
      case None
      then show ?thesis using ipset_run(3) [OF m(1)] Cons.IH [OF m(2)] by (auto simp: same_rules_def)
    next
      case (Some x)
      define d where "d = (if fw_sets m = fw_sets s then {} else {c})"
      have d: "fw_sets m = (fw_sets s)(allow_set \<mapsto> x \<union> d)" "d \<subseteq> {e. e = c \<and> fe_valid env e}"
        using ipset_run(3) [OF m(1)] Some by (auto simp: d_def fun_upd_idem)
      have c_in: "c \<in> x \<union> d" if "all_run env" "fe_valid env c"
      proof -
        have "c \<in> the (fw_sets m allow_set)" using ipset_run(3) [OF m(1)] Some that by auto
        then show ?thesis by (simp add: d(1))
      qed
      obtain y where y: "same_rules m t" "fw_sets t = (fw_sets m)(allow_set \<mapsto> x \<union> d \<union> y)"
        "y \<subseteq> {c \<in> v4_cidrs cs. fe_valid env c}" "all_run env \<longrightarrow> y = {c \<in> v4_cidrs cs. fe_valid env c}"
        using Cons.IH [OF m(2)] d(1) by auto
      define z where "z = (if all_run env then {e \<in> v4_cidrs (c # cs). fe_valid env e} else d \<union> y)"
      have "x \<union> d \<union> y = x \<union> z" "z \<subseteq> {e \<in> v4_cidrs (c # cs). fe_valid env e}"
        using c_in d(2) y(3,4) by (auto simp: z_def v)
      moreover have "all_run env \<longrightarrow> z = {e \<in> v4_cidrs (c # cs). fe_valid env e}" by (simp add: z_def)
      moreover have "fw_sets t = (fw_sets s)(allow_set \<mapsto> x \<union> d \<union> y)" by (simp add: y(2) d(1))
      ultimately show ?thesis
        using ipset_run(3) [OF m(1)] y(1) Some by (auto simp: same_rules_def)
    qed
  qed
qed

section \<open>What the rules say about a packet\<close>

text \<open>
  A packet with its addresses, the interface it leaves by and whether it belongs to a connection the
  other side has seen.
\<close>

record packet =
  pk_src :: "nat list"
  pk_dst :: "nat list"
  pk_out :: string
  pk_reply :: bool

datatype verdict = Accept | Drop

definition in_subnet :: "nat list \<Rightarrow> bool" where
  "in_subnet a \<longleftrightarrow> take 2 a = [172, 16]"

definition from_vm :: "string \<Rightarrow> packet \<Rightarrow> bool" where
  "from_vm iface p \<longleftrightarrow> in_subnet (pk_src p) \<and> pk_out p = iface"

fun first_verdict :: "(string list \<Rightarrow> packet \<Rightarrow> verdict option) \<Rightarrow> string list list \<Rightarrow> packet \<Rightarrow> verdict option" where
  "first_verdict dec [] p = None"
| "first_verdict dec (r # rs) p = (case dec r p of Some v \<Rightarrow> Some v | None \<Rightarrow> first_verdict dec rs p)"

text \<open>
  The documented meaning of the four rules, for a reading \<open>dec\<close> of rules over the sets of the host and
  a reading \<open>has\<close> of network ranges.
\<close>

definition reads_rules ::
    "((string \<rightharpoonup> string set) \<Rightarrow> string list \<Rightarrow> packet \<Rightarrow> verdict option) \<Rightarrow> (string \<Rightarrow> nat list \<Rightarrow> bool) \<Rightarrow> string \<Rightarrow> bool" where
  "reads_rules dec has iface \<longleftrightarrow> (\<forall>sets p.
     dec sets established_rule p = (if in_subnet (pk_dst p) \<and> pk_reply p then Some Accept else None) \<and>
     dec sets (open_rule iface) p = (if from_vm iface p then Some Accept else None) \<and>
     dec sets (drop_rule iface) p = (if from_vm iface p then Some Drop else None) \<and>
     (\<forall>x. sets allow_set = Some x \<longrightarrow>
        dec sets (allow_rule iface) p = (if from_vm iface p \<and> (\<exists>c \<in> x. has c (pk_dst p)) then Some Accept else None)))"

definition forward_verdict ::
    "((string \<rightharpoonup> string set) \<Rightarrow> string list \<Rightarrow> packet \<Rightarrow> verdict option) \<Rightarrow> fw_host \<Rightarrow> packet \<Rightarrow> verdict option" where
  "forward_verdict dec s p = first_verdict (dec (fw_sets s)) (fw_chains s forward_chain) p"

text \<open>The rules are four different ones, and not in the way of each other.\<close>

lemma rules_distinct [simp]:
  "open_rule i \<noteq> established_rule" "allow_rule i \<noteq> established_rule" "drop_rule i \<noteq> established_rule"
  "established_rule \<noteq> open_rule i" "established_rule \<noteq> allow_rule i" "established_rule \<noteq> drop_rule i"
  "open_rule i \<noteq> allow_rule j" "open_rule i \<noteq> drop_rule j" "allow_rule i \<noteq> drop_rule j"
  "allow_rule j \<noteq> open_rule i" "drop_rule j \<noteq> open_rule i" "drop_rule j \<noteq> allow_rule i"
  by (simp_all add: open_rule_def allow_rule_def drop_rule_def established_rule_def)

lemma rule_sets:
  "rule_set established_rule = None" "rule_set (open_rule i) = None" "rule_set (drop_rule i) = None"
  by (simp_all add: open_rule_def drop_rule_def established_rule_def vm_subnet_def)

lemma allow_rule_needs_set: "set_known (allow_rule i) s \<longleftrightarrow> fw_sets s allow_set \<noteq> None"
  by (simp add: set_known_def allow_rule_def vm_subnet_def)

section \<open>One start\<close>

lemma op_seq_ok: "op_seq m n s = (Inr y, u) \<longleftrightarrow> (\<exists>x t. m s = (Inr x, t) \<and> n t = (Inr y, u))"
  by (rule op_seq_Inr)

text \<open>What comes before the choice between the open and the restricted network.\<close>

lemma nat_rules_common:
  assumes "ensure_nat_rules env nw s = (Inr (), t)" and "default_iface (fe_route env) = Some iface"
    and "established_rule \<notin> set (fw_chains s forward_chain)"
  shows "\<exists>m. fw_chains m forward_chain = established_rule # fw_chains s forward_chain \<and> fw_sets m = fw_sets s \<and>
    (if resolved_networks nw = [] then open_outbound env iface else restrict_outbound env iface (resolved_networks nw)) m
      = (Inr (), t)"
proof -
  obtain a b c d where steps:
    "file_op env ''/proc/net/route'' id s = (Inr (), a)"
    "ensure_rule env [''-t'', ''nat'', ''-A'', ''POSTROUTING''] [''-t'', ''nat'', ''-C'', ''POSTROUTING''] (masquerade_rule iface) a = (Inr (), b)"
    "ensure_rule env [''-t'', ''mangle'', ''-A'', ''FORWARD''] [''-t'', ''mangle'', ''-C'', ''FORWARD''] mss_rule b = (Inr (), c)"
    "ensure_rule env [''-I'', ''FORWARD'', ''1''] [''-C'', ''FORWARD''] established_rule c = (Inr (), d)"
    "(if resolved_networks nw = [] then open_outbound env iface else restrict_outbound env iface (resolved_networks nw)) d
      = (Inr (), t)"
    using assms(1,2) by (auto simp: ensure_nat_rules_def op_seq_ok op_bind_Inr op_lift_apply)
  have a: "fw_chains a = fw_chains s" "fw_sets a = fw_sets s"
    using steps(1) by (auto simp: file_op_def split: if_splits)
  have b: "fw_chains b forward_chain = fw_chains s forward_chain" "fw_sets b = fw_sets s"
    using ensure_rule_other [OF steps(2)] a by (auto simp: forward_chain_def)
  have c: "fw_chains c forward_chain = fw_chains s forward_chain" "fw_sets c = fw_sets s"
    using ensure_rule_other [OF steps(3)] b by (auto simp: forward_chain_def)
  have "fw_chains d forward_chain = established_rule # fw_chains s forward_chain" "fw_sets d = fw_sets s"
    using ensure_insert_new [OF steps(4) positions(1)] assms(3) c by simp_all
  then show ?thesis using steps(5) by blast
qed

text \<open>The restricted network, on a host that had none of its rules.\<close>

lemma restrict_fresh:
  assumes "restrict_outbound env iface cs m = (Inr (), t)" and "fw_chains m forward_chain = established_rule # rs"
    and "allow_rule iface \<notin> set rs" and "drop_rule iface \<notin> set rs" and "fw_sets m allow_set = None"
  shows "fw_chains t forward_chain = established_rule # allow_rule iface # drop_rule iface # rs \<and>
    (\<exists>x. fw_sets t allow_set = Some x \<and> x \<subseteq> {c \<in> v4_cidrs cs. fe_valid env c} \<and>
       (all_run env \<longrightarrow> x = {c \<in> v4_cidrs cs. fe_valid env c}))"
proof -
  obtain b1 b2 a b c d where steps: "ipset_create env allow_set m = (Inr b1, a)" "ipset_flush env allow_set a = (Inr b2, b)"
    "add_cidrs env cs b = (Inr (), c)"
    "ensure_rule env [''-I'', ''FORWARD'', ''2''] [''-C'', ''FORWARD''] (allow_rule iface) c = (Inr (), d)"
    "ensure_rule env [''-I'', ''FORWARD'', ''3''] [''-C'', ''FORWARD''] (drop_rule iface) d = (Inr (), t)"
    using assms(1) by (auto simp: restrict_outbound_def op_seq_ok op_bind_Inr)
  have chains: "fw_chains c forward_chain = established_rule # rs"
    using ipset_run(1) [OF steps(1)] ipset_run(2) [OF steps(2)] add_cidrs_run [OF steps(3)] assms(2)
    by (simp add: same_rules_def)
  have d: "fw_chains d forward_chain = established_rule # allow_rule iface # rs" "fw_sets d = fw_sets c"
    "fw_sets c allow_set \<noteq> None"
    using ensure_insert_new [OF steps(4) positions(2)] chains assms(3) by (simp_all add: allow_rule_needs_set)
  have t: "fw_chains t forward_chain = established_rule # allow_rule iface # drop_rule iface # rs" "fw_sets t = fw_sets d"
    using ensure_insert_new [OF steps(5) positions(3)] d(1) assms(4) by (simp_all add: numeral_2_eq_2)
  have "fw_sets b allow_set = None \<or> fw_sets b allow_set = Some {}"
    using ipset_run(1) [OF steps(1)] ipset_run(2) [OF steps(2)] assms(5) by auto
  moreover have "fw_sets b allow_set \<noteq> None" using add_cidrs_run [OF steps(3)] d(3) by (auto split: option.splits)
  ultimately have "\<exists>x. fw_sets c allow_set = Some x \<and> x \<subseteq> {c \<in> v4_cidrs cs. fe_valid env c} \<and>
      (all_run env \<longrightarrow> x = {c \<in> v4_cidrs cs. fe_valid env c})"
    using add_cidrs_run [OF steps(3)] by auto
  then show ?thesis using t d(2) by simp
qed

section \<open>Later starts\<close>

lemma run_cmd_all_run: "all_run env \<Longrightarrow> run_cmd env prog f s = (Inr (fst (f s)), fw_step (snd (f s)))"
  by (simp add: run_cmd_def all_run_def case_prod_unfold)

text \<open>A rule that is there is found and left alone; one in a table of its own can always be appended.\<close>

lemma ensure_rule_there:
  assumes "all_run env" and "ipt_parse ''filter'' (check @ spec) = Some (IptCheck tbl ch spec)"
    and "spec \<in> set (fw_chains s (tbl, ch))"
  shows "ensure_rule env add check spec s = (Inr (), fw_step s)"
  using assms
  by (simp add: ensure_rule_def add_iptables_rule_if_missing_def op_bind_apply run_iptables_def run_cmd_all_run op_ret_def)

lemma ensure_append_ok:
  assumes "all_run env" and "rule_set spec = None"
  shows "\<exists>t. ensure_rule env [''-t'', tbl, ''-A'', ch] [''-t'', tbl, ''-C'', ch] spec s = (Inr (), t)"
  using assms
  by (auto simp: ensure_rule_def add_iptables_rule_if_missing_def op_bind_apply run_iptables_def run_cmd_all_run op_ret_def
      set_known_def split: option.splits)

lemma nat_rules_again:
  assumes "all_run env" and "default_iface (fe_route env) = Some iface" and "established_rule \<in> set (fw_chains s forward_chain)"
  shows "\<exists>m. fw_chains m forward_chain = fw_chains s forward_chain \<and> fw_sets m = fw_sets s \<and>
    (\<forall>c. c \<noteq> forward_chain \<longrightarrow> set (fw_chains s c) \<subseteq> set (fw_chains m c)) \<and>
    (masquerade_rule iface \<in> set (fw_chains s (''nat'', ''POSTROUTING'')) \<and> mss_rule \<in> set (fw_chains s (''mangle'', ''FORWARD'')) \<longrightarrow>
       fw_chains m = fw_chains s) \<and>
    ensure_nat_rules env nw s =
      (if resolved_networks nw = [] then open_outbound env iface else restrict_outbound env iface (resolved_networks nw)) m"
proof -
  let ?a = "fw_step s"
  have a: "file_op env ''/proc/net/route'' id s = (Inr (), ?a)" using assms(1) by (simp add: file_op_def all_run_def)
  have sets: "rule_set (masquerade_rule iface) = None" "rule_set mss_rule = None"
    by (simp_all add: masquerade_rule_def mss_rule_def vm_subnet_def)
  obtain b where b: "ensure_rule env [''-t'', ''nat'', ''-A'', ''POSTROUTING''] [''-t'', ''nat'', ''-C'', ''POSTROUTING''] (masquerade_rule iface) ?a = (Inr (), b)"
    using ensure_append_ok [OF assms(1) sets(1)] by blast
  obtain c where c: "ensure_rule env [''-t'', ''mangle'', ''-A'', ''FORWARD''] [''-t'', ''mangle'', ''-C'', ''FORWARD''] mss_rule b = (Inr (), c)"
    using ensure_append_ok [OF assms(1) sets(2)] by blast
  note eb = ensure_rule_other [OF b] and ec = ensure_rule_other [OF c]
  have fw: "fw_chains c forward_chain = fw_chains s forward_chain" using eb ec by (simp add: forward_chain_def)
  have d: "ensure_rule env [''-I'', ''FORWARD'', ''1''] [''-C'', ''FORWARD''] established_rule c = (Inr (), fw_step c)"
    using assms(3) fw by (intro ensure_rule_there [OF assms(1), of _ _ "''filter''" "''FORWARD''"]) (simp_all add: forward_chain_def)
  have same: "fw_chains c = fw_chains s"
    if "masquerade_rule iface \<in> set (fw_chains s (''nat'', ''POSTROUTING''))" "mss_rule \<in> set (fw_chains s (''mangle'', ''FORWARD''))"
  proof -
    have "b = fw_step ?a"
      using b ensure_rule_there [OF assms(1), of "[''-t'', ''nat'', ''-C'', ''POSTROUTING'']" "masquerade_rule iface" "''nat''"
          "''POSTROUTING''" ?a] that(1) by simp
    moreover from this have "c = fw_step b"
      using c ensure_rule_there [OF assms(1), of "[''-t'', ''mangle'', ''-C'', ''FORWARD'']" mss_rule "''mangle''" "''FORWARD''" b]
        that(2) by simp
    ultimately show ?thesis by simp
  qed
  have mono: "set (fw_chains s x) \<subseteq> set (fw_chains c x)" for x
    using ensure_rule_mono [OF b, of x] ensure_rule_mono [OF c, of x] by simp
  show ?thesis
    by (intro exI [of _ "fw_step c"] conjI)
       (use fw eb ec same mono in \<open>auto simp: ensure_nat_rules_def op_seq_apply a assms(2) op_bind_apply op_lift_apply b c d\<close>)
qed

lemma add_cidrs_all_run: "all_run env \<Longrightarrow> \<exists>t. add_cidrs env cs s = (Inr (), t)"
  by (induction cs arbitrary: s) (auto simp: op_ret_def op_bind_apply ipset_add_def run_cmd_all_run)

text \<open>When every command works the set is filled anew.\<close>

lemma fill_set:
  assumes "all_run env"
  shows "\<exists>a b c. ipset_create env allow_set s = (Inr True, a) \<and> ipset_flush env allow_set a = (Inr True, b) \<and>
    add_cidrs env cs b = (Inr (), c) \<and> fw_chains c = fw_chains s \<and>
    fw_sets c = (fw_sets s)(allow_set \<mapsto> {c \<in> v4_cidrs cs. fe_valid env c})"
proof -
  obtain a where a: "ipset_create env allow_set s = (Inr True, a)" "fw_sets a allow_set \<noteq> None" "fw_chains a = fw_chains s"
    "fw_sets a = (fw_sets s)(allow_set := fw_sets a allow_set)"
    using assms by (simp add: ipset_create_def run_cmd_all_run set_put_def)
  obtain b where b: "ipset_flush env allow_set a = (Inr True, b)" "fw_sets b = (fw_sets a)(allow_set \<mapsto> {})" "fw_chains b = fw_chains a"
    using assms a(2) by (auto simp: ipset_flush_def run_cmd_all_run set_put_def split: option.splits)
  obtain c where c: "add_cidrs env cs b = (Inr (), c)" using add_cidrs_all_run [OF assms] by blast
  have "fw_sets c = (fw_sets s)(allow_set \<mapsto> {c \<in> v4_cidrs cs. fe_valid env c})"
  proof -
    have "fw_sets c = (fw_sets b)(allow_set \<mapsto> {c \<in> v4_cidrs cs. fe_valid env c})"
      using add_cidrs_run [OF c] b(2) assms by auto
    then show ?thesis by (subst (asm) b(2), subst (asm) a(4)) simp
  qed
  then show ?thesis using a b c add_cidrs_run [OF c] by (auto simp: same_rules_def)
qed

text \<open>A later restricted start finds its rules, wherever they are.\<close>

lemma restrict_again:
  assumes "all_run env" and "{allow_rule iface, drop_rule iface} \<subseteq> set (fw_chains m forward_chain)"
  shows "\<exists>t. restrict_outbound env iface cs m = (Inr (), t) \<and> fw_chains t = fw_chains m \<and>
    fw_sets t = (fw_sets m)(allow_set \<mapsto> {c \<in> v4_cidrs cs. fe_valid env c})"
proof -
  obtain a b c where f: "ipset_create env allow_set m = (Inr True, a)" "ipset_flush env allow_set a = (Inr True, b)"
    "add_cidrs env cs b = (Inr (), c)" "fw_chains c = fw_chains m"
    "fw_sets c = (fw_sets m)(allow_set \<mapsto> {c \<in> v4_cidrs cs. fe_valid env c})"
    using fill_set [OF assms(1)] by blast
  have d: "ensure_rule env [''-I'', ''FORWARD'', ''2''] [''-C'', ''FORWARD''] (allow_rule iface) c = (Inr (), fw_step c)"
    using assms(2) f(4) by (intro ensure_rule_there [OF assms(1), of _ _ "''filter''" "''FORWARD''"]) (simp_all add: forward_chain_def)
  have e: "ensure_rule env [''-I'', ''FORWARD'', ''3''] [''-C'', ''FORWARD''] (drop_rule iface) (fw_step c) = (Inr (), fw_step (fw_step c))"
    using assms(2) f(4) by (intro ensure_rule_there [OF assms(1), of _ _ "''filter''" "''FORWARD''"]) (simp_all add: forward_chain_def)
  show ?thesis
    by (intro exI [of _ "fw_step (fw_step c)"]) (simp add: restrict_outbound_def op_bind_apply op_seq_apply f d e)
qed

section \<open>Properties\<close>

lemma allowlist_closed:
  assumes "reads_rules dec has iface" and "default_iface (fe_route env) = Some iface" and "resolved_networks nw \<noteq> []"
    and "{established_rule, allow_rule iface, drop_rule iface} \<inter> set (fw_chains s forward_chain) = {}"
    and "fw_sets s allow_set = None" and "ensure_nat_rules env nw s = (Inr (), t)"
  shows "\<exists>x. x \<subseteq> {c \<in> v4_cidrs (resolved_networks nw). fe_valid env c} \<and>
    (all_run env \<longrightarrow> x = {c \<in> v4_cidrs (resolved_networks nw). fe_valid env c}) \<and>
    (\<forall>p. from_vm iface p \<longrightarrow> forward_verdict dec t p =
       Some (if in_subnet (pk_dst p) \<and> pk_reply p \<or> (\<exists>c \<in> x. has c (pk_dst p)) then Accept else Drop))"
proof -
  let ?rs = "fw_chains s forward_chain"
  obtain m where m: "fw_chains m forward_chain = established_rule # ?rs" "fw_sets m = fw_sets s"
    "restrict_outbound env iface (resolved_networks nw) m = (Inr (), t)"
    using nat_rules_common [OF assms(6,2)] assms(3,4) by auto
  obtain x where t: "fw_chains t forward_chain = established_rule # allow_rule iface # drop_rule iface # ?rs"
    "fw_sets t allow_set = Some x" "x \<subseteq> {c \<in> v4_cidrs (resolved_networks nw). fe_valid env c}"
    "all_run env \<longrightarrow> x = {c \<in> v4_cidrs (resolved_networks nw). fe_valid env c}"
    using restrict_fresh [OF m(3,1)] assms(4,5) m(2) by auto
  have "forward_verdict dec t p =
      Some (if in_subnet (pk_dst p) \<and> pk_reply p \<or> (\<exists>c \<in> x. has c (pk_dst p)) then Accept else Drop)"
    if "from_vm iface p" for p
    using assms(1) that t(2) by (simp add: forward_verdict_def t(1) reads_rules_def)
  then show ?thesis using t(3,4) by blast
qed

text \<open>With allowed networks, a start that succeeds on a host without the program's rules closes the
  VMs' network, whatever other rules the host has: a packet from a VM out of the default interface is
  passed when it answers a connection to a VM or goes to one of the configured IPv4 ranges, and dropped
  otherwise. No other range is let through, and all are when every command works.\<close>

theorem allowlist_enforced:
  assumes "reads_rules dec has iface" and "default_iface (fe_route env) = Some iface" and "resolved_networks nw \<noteq> []"
    and "{established_rule, allow_rule iface, drop_rule iface} \<inter> set (fw_chains s forward_chain) = {}"
    and "fw_sets s allow_set = None" and "ensure_nat_rules env nw s = (Inr (), t)"
  shows "\<exists>x. x \<subseteq> {c \<in> v4_cidrs (resolved_networks nw). fe_valid env c} \<and>
    (all_run env \<longrightarrow> x = {c \<in> v4_cidrs (resolved_networks nw). fe_valid env c}) \<and>
    (\<forall>p. from_vm iface p \<longrightarrow> forward_verdict dec t p =
       Some (if in_subnet (pk_dst p) \<and> pk_reply p \<or> (\<exists>c \<in> x. has c (pk_dst p)) then Accept else Drop))"
  using allowlist_closed [OF assms] .

text \<open>A reading of the rules, for the witnesses.\<close>

definition demo_reading :: "(string \<rightharpoonup> string set) \<Rightarrow> string list \<Rightarrow> packet \<Rightarrow> verdict option" where
  "demo_reading sets r p =
     (if r = established_rule then if in_subnet (pk_dst p) \<and> pk_reply p then Some Accept else None
      else if from_vm ''eth0'' p then
        (if r = open_rule ''eth0'' then Some Accept
         else if r = drop_rule ''eth0'' then Some Drop
         else if r = allow_rule ''eth0'' \<and> sets allow_set \<noteq> None \<and> ''10.0.0.0/8'' \<in> the (sets allow_set) \<and> take 1 (pk_dst p) = [10]
           then Some Accept else None)
      else None)"

definition demo_range :: "string \<Rightarrow> nat list \<Rightarrow> bool" where
  "demo_range c a \<longleftrightarrow> c = ''10.0.0.0/8'' \<and> take 1 a = [10]"

lemma demo_reads_rules: "reads_rules demo_reading demo_range ''eth0''"
  by (simp add: reads_rules_def demo_reading_def demo_range_def from_vm_def) auto

definition demo_fw :: fw_env where
  "demo_fw = \<lparr>fe_out = (\<lambda>_. Runs), fe_route = unlines [''Iface Destination'', ''eth0 00000000''], fe_valid = (\<lambda>_. True)\<rparr>"

definition fresh_fw :: fw_host where
  "fresh_fw = \<lparr>fw_chains = (\<lambda>_. []), fw_sets = Map.empty, fw_forward = ''0'', fw_links = {}, fw_tick = 0\<rparr>"

definition demo_nw :: "string list \<Rightarrow> network_config" where
  "demo_nw allowed = default_network_config\<lparr>allowed_networks := allowed, nw_dns := []\<rparr>"

lemma demo_iface: "default_iface (fe_route demo_fw) = Some ''eth0''"
  by code_simp

definition web_packet :: packet where
  "web_packet = \<lparr>pk_src = [172, 16, 3, 2], pk_dst = [8, 8, 4, 4], pk_out = ''eth0'', pk_reply = False\<rparr>"

lemma demo_all_run: "all_run demo_fw"
  by (simp add: all_run_def demo_fw_def)

text \<open>When every command works a start on a fresh host succeeds.\<close>

lemma first_start_ok:
  assumes "all_run env" and "default_iface (fe_route env) = Some iface"
  shows "\<exists>t. ensure_nat_rules env nw s = (Inr (), t)"
proof -
  obtain a where a: "file_op env ''/proc/net/route'' id s = (Inr (), a)" using assms(1) by (simp add: file_op_def all_run_def)
  have sets: "rule_set (masquerade_rule iface) = None" "rule_set mss_rule = None"
    by (simp_all add: masquerade_rule_def mss_rule_def vm_subnet_def)
  obtain b c where bc:
    "ensure_rule env [''-t'', ''nat'', ''-A'', ''POSTROUTING''] [''-t'', ''nat'', ''-C'', ''POSTROUTING''] (masquerade_rule iface) a = (Inr (), b)"
    "ensure_rule env [''-t'', ''mangle'', ''-A'', ''FORWARD''] [''-t'', ''mangle'', ''-C'', ''FORWARD''] mss_rule b = (Inr (), c)"
    using ensure_append_ok [OF assms(1)] sets by metis
  have ins: "\<exists>v. ensure_rule env [''-I'', ''FORWARD'', n] [''-C'', ''FORWARD''] spec u = (Inr (), v) \<and>
      spec \<in> set (fw_chains v forward_chain) \<and> length (fw_chains u forward_chain) \<le> length (fw_chains v forward_chain) \<and>
      set (fw_chains u forward_chain) \<subseteq> set (fw_chains v forward_chain) \<and> fw_sets v = fw_sets u"
    if "parse_unsigned u32_max n = Some k" "1 \<le> k" "k \<le> Suc (length (fw_chains u forward_chain))" "set_known spec u" for n k spec u
  proof -
    have "set (take (k - 1) l @ spec # drop (k - 1) l) = insert spec (set l)" for l
      by (metis append_take_drop_id list.simps(15) set_append Un_insert_right)
    then show ?thesis
      using that assms(1)
      by (auto simp: ensure_rule_def add_iptables_rule_if_missing_def op_bind_apply run_iptables_def run_cmd_all_run op_ret_def
          forward_chain_def set_chain_def Let_def)
  qed
  have k: "set_known established_rule u" "set_known (open_rule iface) u" "set_known (drop_rule iface) u" for u
    by (simp_all add: set_known_def rule_sets)
  obtain d where d: "ensure_rule env [''-I'', ''FORWARD'', ''1''] [''-C'', ''FORWARD''] established_rule c = (Inr (), d)"
    "established_rule \<in> set (fw_chains d forward_chain)"
    using ins [OF positions(1), of c established_rule] k by auto
  have one: "1 \<le> length (fw_chains d forward_chain)" using d(2) by (cases "fw_chains d forward_chain") auto
  have "\<exists>t. (if resolved_networks nw = [] then open_outbound env iface else restrict_outbound env iface (resolved_networks nw)) d
      = (Inr (), t)"
  proof (cases "resolved_networks nw = []")
    case True
    then show ?thesis using ins [OF positions(2), of d "open_rule iface"] one k by (auto simp: open_outbound_def)
  next
    case False
    obtain x y z where f: "ipset_create env allow_set d = (Inr True, x)" "ipset_flush env allow_set x = (Inr True, y)"
      "add_cidrs env (resolved_networks nw) y = (Inr (), z)" "fw_chains z = fw_chains d"
      "fw_sets z = (fw_sets d)(allow_set \<mapsto> {c \<in> v4_cidrs (resolved_networks nw). fe_valid env c})"
      using fill_set [OF assms(1)] by blast
    obtain v where v: "ensure_rule env [''-I'', ''FORWARD'', ''2''] [''-C'', ''FORWARD''] (allow_rule iface) z = (Inr (), v)"
      "allow_rule iface \<in> set (fw_chains v forward_chain)" "set (fw_chains z forward_chain) \<subseteq> set (fw_chains v forward_chain)"
      using ins [OF positions(2), of z "allow_rule iface"] one f(4,5) by (auto simp: allow_rule_needs_set)
    have "2 \<le> length (fw_chains v forward_chain)"
    proof -
      have "card {established_rule, allow_rule iface} \<le> card (set (fw_chains v forward_chain))"
        using v(2,3) d(2) f(4) by (intro card_mono) auto
      then show ?thesis using card_length [of "fw_chains v forward_chain"] by (simp add: card_insert_if)
    qed
    then show ?thesis
      using ins [OF positions(3), of v "drop_rule iface"] k f v False
      by (auto simp: restrict_outbound_def op_bind_apply op_seq_apply)
  qed
  then show ?thesis
    by (simp add: ensure_nat_rules_def op_seq_apply a assms(2) op_bind_apply op_lift_apply bc d)
qed

lemma allowlist_enforced_witness:
  "\<exists>t. ensure_nat_rules demo_fw ((demo_nw [])\<lparr>resolved_networks := [''10.0.0.0/8'']\<rparr>) fresh_fw = (Inr (), t) \<and>
     forward_verdict demo_reading t web_packet = Some Drop \<and>
     forward_verdict demo_reading t (web_packet\<lparr>pk_dst := [10, 1, 1, 1]\<rparr>) = Some Accept"
proof -
  let ?nw = "(demo_nw [])\<lparr>resolved_networks := [''10.0.0.0/8'']\<rparr>"
  obtain t where t: "ensure_nat_rules demo_fw ?nw fresh_fw = (Inr (), t)"
    using first_start_ok [OF demo_all_run demo_iface] by blast
  obtain x where "x = {c \<in> v4_cidrs (resolved_networks ?nw). fe_valid demo_fw c}" and
    v: "\<forall>p. from_vm ''eth0'' p \<longrightarrow> forward_verdict demo_reading t p =
       Some (if in_subnet (pk_dst p) \<and> pk_reply p \<or> (\<exists>c \<in> x. demo_range c (pk_dst p)) then Accept else Drop)"
    using allowlist_enforced [OF demo_reads_rules demo_iface, of ?nw fresh_fw t] t demo_all_run
    by (auto simp: fresh_fw_def)
  then have "x = {''10.0.0.0/8''}" by (auto simp: v4_cidrs_def demo_fw_def)
  then show ?thesis
    using t v by (intro exI [of _ t]) (simp add: web_packet_def from_vm_def in_subnet_def demo_range_def)
qed

text \<open>A successful start leaves each of its rules in the chains, and takes none away.\<close>

lemma ensure_insert_in:
  assumes "ensure_rule env [''-I'', ''FORWARD'', n] [''-C'', ''FORWARD''] spec s = (Inr (), t)" and "parse_unsigned u32_max n = Some k"
  shows "spec \<in> set (fw_chains t forward_chain)" and "set (fw_chains s c) \<subseteq> set (fw_chains t c)" and "fw_sets t = fw_sets s"
proof -
  have split: "set (take (k - 1) l @ spec # drop (k - 1) l) = insert spec (set l)" for l
    by (metis append_take_drop_id list.simps(15) set_append Un_insert_right)
  show "spec \<in> set (fw_chains t forward_chain)" "set (fw_chains s c) \<subseteq> set (fw_chains t c)" "fw_sets t = fw_sets s"
    using assms split
    by (auto simp: ensure_rule_def add_iptables_rule_if_missing_def op_bind_apply run_iptables_def run_cmd_def forward_chain_def
        set_chain_def op_simps Let_def split: prod.splits sum.splits if_splits cmd_outcome.splits)
qed

lemma ensure_nat_rules_in:
  assumes "all_run env" and "default_iface (fe_route env) = Some iface" and "ensure_nat_rules env nw s = (Inr (), t)"
  shows "masquerade_rule iface \<in> set (fw_chains t (''nat'', ''POSTROUTING''))" and "mss_rule \<in> set (fw_chains t (''mangle'', ''FORWARD''))"
    and "established_rule \<in> set (fw_chains t forward_chain)"
    and "if resolved_networks nw = [] then open_rule iface \<in> set (fw_chains t forward_chain)
      else {allow_rule iface, drop_rule iface} \<subseteq> set (fw_chains t forward_chain) \<and>
        fw_sets t allow_set = Some {c \<in> v4_cidrs (resolved_networks nw). fe_valid env c}"
proof -
  obtain a b c d where steps:
    "ensure_rule env [''-t'', ''nat'', ''-A'', ''POSTROUTING''] [''-t'', ''nat'', ''-C'', ''POSTROUTING''] (masquerade_rule iface) a = (Inr (), b)"
    "ensure_rule env [''-t'', ''mangle'', ''-A'', ''FORWARD''] [''-t'', ''mangle'', ''-C'', ''FORWARD''] mss_rule b = (Inr (), c)"
    "ensure_rule env [''-I'', ''FORWARD'', ''1''] [''-C'', ''FORWARD''] established_rule c = (Inr (), d)"
    "(if resolved_networks nw = [] then open_outbound env iface else restrict_outbound env iface (resolved_networks nw)) d
      = (Inr (), t)"
    using assms(2,3) by (auto simp: ensure_nat_rules_def op_seq_ok op_bind_Inr op_lift_apply)
  have last: "(\<forall>x. set (fw_chains d x) \<subseteq> set (fw_chains t x)) \<and>
      (if resolved_networks nw = [] then open_rule iface \<in> set (fw_chains t forward_chain)
       else {allow_rule iface, drop_rule iface} \<subseteq> set (fw_chains t forward_chain) \<and>
         fw_sets t allow_set = Some {c \<in> v4_cidrs (resolved_networks nw). fe_valid env c})"
  proof (cases "resolved_networks nw = []")
    case True
    then show ?thesis
      using ensure_insert_in [OF _ positions(2), of env "open_rule iface" d t] steps(4) by (simp add: open_outbound_def)
  next
    case False
    obtain x y z where f: "ipset_create env allow_set d = (Inr True, x)" "ipset_flush env allow_set x = (Inr True, y)"
      "add_cidrs env (resolved_networks nw) y = (Inr (), z)" "fw_chains z = fw_chains d"
      "fw_sets z = (fw_sets d)(allow_set \<mapsto> {c \<in> v4_cidrs (resolved_networks nw). fe_valid env c})"
      using fill_set [OF assms(1)] by blast
    obtain v where v: "ensure_rule env [''-I'', ''FORWARD'', ''2''] [''-C'', ''FORWARD''] (allow_rule iface) z = (Inr (), v)"
      "ensure_rule env [''-I'', ''FORWARD'', ''3''] [''-C'', ''FORWARD''] (drop_rule iface) v = (Inr (), t)"
      using steps(4) False f(1-3) by (auto simp: restrict_outbound_def op_bind_apply op_seq_apply split: prod.splits sum.splits)
    have mono: "set (fw_chains d x) \<subseteq> set (fw_chains t x)" for x
      using ensure_insert_in(2) [OF v(1) positions(2), of x] ensure_insert_in(2) [OF v(2) positions(3), of x] f(4) by simp
    have "allow_rule iface \<in> set (fw_chains t forward_chain)" "drop_rule iface \<in> set (fw_chains t forward_chain)"
      using ensure_insert_in(1) [OF v(1) positions(2)] ensure_insert_in(1) [OF v(2) positions(3)]
        ensure_insert_in(2) [OF v(2) positions(3), of forward_chain] by blast+
    moreover have "fw_sets t = fw_sets z"
      using ensure_insert_in(3) [OF v(1) positions(2)] ensure_insert_in(3) [OF v(2) positions(3)] by simp
    ultimately show ?thesis using False mono f(5) by (simp del: split_paired_All)
  qed
  have dt: "set (fw_chains d x) \<subseteq> set (fw_chains t x)" for x
    using conjunct1 [OF last] by (rule spec)
  have ct: "set (fw_chains c x) \<subseteq> set (fw_chains t x)" for x
    using ensure_insert_in(2) [OF steps(3) positions(1), of x] dt [of x] by (rule subset_trans)
  have bt: "set (fw_chains b x) \<subseteq> set (fw_chains t x)" for x
    using ensure_rule_mono [OF steps(2), of x] ct [of x] by (rule subset_trans)
  have "masquerade_rule iface \<in> set (fw_chains b (''nat'', ''POSTROUTING''))" using ensure_rule_other [OF steps(1)] by blast
  then show "masquerade_rule iface \<in> set (fw_chains t (''nat'', ''POSTROUTING''))" by (rule subsetD [OF bt])
  have "mss_rule \<in> set (fw_chains c (''mangle'', ''FORWARD''))" using ensure_rule_other [OF steps(2)] by blast
  then show "mss_rule \<in> set (fw_chains t (''mangle'', ''FORWARD''))" by (rule subsetD [OF ct])
  show "established_rule \<in> set (fw_chains t forward_chain)"
    by (rule subsetD [OF dt ensure_insert_in(1) [OF steps(3) positions(1)]])
  show "if resolved_networks nw = [] then open_rule iface \<in> set (fw_chains t forward_chain)
      else {allow_rule iface, drop_rule iface} \<subseteq> set (fw_chains t forward_chain) \<and>
        fw_sets t allow_set = Some {c \<in> v4_cidrs (resolved_networks nw). fe_valid env c}"
    by (rule conjunct2 [OF last])
qed

text \<open>C21: When every command works, a start after a start with the same networks succeeds, adds no rule a
  second time, and leaves every chain and every set as it is, whatever rules the host had before the first.\<close>

theorem second_start_changes_nothing:
  assumes "all_run env" and "default_iface (fe_route env) = Some iface" and "ensure_nat_rules env nw s = (Inr (), t)"
  shows "\<exists>u. ensure_nat_rules env nw t = (Inr (), u) \<and> fw_chains u = fw_chains t \<and> fw_sets u = fw_sets t"
proof -
  note there = ensure_nat_rules_in [OF assms]
  obtain m where m: "fw_sets m = fw_sets t" "fw_chains m = fw_chains t" "ensure_nat_rules env nw t =
      (if resolved_networks nw = [] then open_outbound env iface else restrict_outbound env iface (resolved_networks nw)) m"
    using nat_rules_again [OF assms(1,2) there(3), of nw] there(1,2) by blast
  show ?thesis
  proof (cases "resolved_networks nw = []")
    case True
    then have "open_outbound env iface m = (Inr (), fw_step m)"
      unfolding open_outbound_def
      using there(4) m(2) by (intro ensure_rule_there [OF assms(1), of _ _ "''filter''" "''FORWARD''"]) (simp_all add: forward_chain_def)
    then show ?thesis using m True by simp
  next
    case False
    then obtain u where "restrict_outbound env iface (resolved_networks nw) m = (Inr (), u)" "fw_chains u = fw_chains m"
      "fw_sets u = (fw_sets m)(allow_set \<mapsto> {c \<in> v4_cidrs (resolved_networks nw). fe_valid env c})"
      using restrict_again [OF assms(1), of iface m "resolved_networks nw"] there(4) m(2) by auto
    then show ?thesis using m False there(4) by (intro exI [of _ u]) (simp add: fun_upd_idem)
  qed
qed

lemma second_start_changes_nothing_witness:
  "\<exists>t u. ensure_nat_rules demo_fw (demo_nw []) fresh_fw = (Inr (), t) \<and>
     ensure_nat_rules demo_fw (demo_nw []) t = (Inr (), u) \<and> fw_chains u = fw_chains t"
proof -
  obtain t where "ensure_nat_rules demo_fw (demo_nw []) fresh_fw = (Inr (), t)"
    using first_start_ok [OF demo_all_run demo_iface] by blast
  then show ?thesis using second_start_changes_nothing [OF demo_all_run demo_iface] by blast
qed

text \<open>What a restricted start leaves on a host without the program's rules, and an open start after it.\<close>

lemma restricted_start_chain:
  assumes "default_iface (fe_route env) = Some iface" and "resolved_networks nw \<noteq> []"
    and "{established_rule, allow_rule iface, drop_rule iface} \<inter> set (fw_chains s forward_chain) = {}"
    and "fw_sets s allow_set = None" and "ensure_nat_rules env nw s = (Inr (), t)"
  shows "fw_chains t forward_chain = established_rule # allow_rule iface # drop_rule iface # fw_chains s forward_chain"
proof -
  obtain m where "fw_chains m forward_chain = established_rule # fw_chains s forward_chain" "fw_sets m = fw_sets s"
    "restrict_outbound env iface (resolved_networks nw) m = (Inr (), t)"
    using nat_rules_common [OF assms(5,1)] assms(2,3) by auto
  then show ?thesis using restrict_fresh [of env iface "resolved_networks nw" m t] assms(3,4) by auto
qed

lemma open_start_chain:
  assumes "all_run env" and "default_iface (fe_route env) = Some iface" and "resolved_networks nw = []"
    and "fw_chains s forward_chain = established_rule # rs" and "open_rule iface \<notin> set rs" and "ensure_nat_rules env nw s = (Inr (), t)"
  shows "fw_chains t forward_chain = established_rule # open_rule iface # rs"
proof -
  have "established_rule \<in> set (fw_chains s forward_chain)" by (simp add: assms(4))
  then obtain m where m: "fw_chains m forward_chain = fw_chains s forward_chain" "ensure_nat_rules env nw s =
      (if resolved_networks nw = [] then open_outbound env iface else restrict_outbound env iface (resolved_networks nw)) m"
    using nat_rules_again [OF assms(1,2), of s nw] by blast
  then have "open_outbound env iface m = (Inr (), t)" using assms(3,6) by simp
  then show ?thesis
    using ensure_insert_new [OF _ positions(2), of env "open_rule iface" m t] m(1) assms(4,5) by (simp add: open_outbound_def)
qed

lemma restricted_start_again:
  assumes "all_run env" and "default_iface (fe_route env) = Some iface" and "resolved_networks nw \<noteq> []"
    and "{established_rule, allow_rule iface, drop_rule iface} \<subseteq> set (fw_chains s forward_chain)" and "ensure_nat_rules env nw s = (Inr (), t)"
  shows "fw_chains t forward_chain = fw_chains s forward_chain"
proof -
  obtain m where m: "fw_chains m forward_chain = fw_chains s forward_chain" "ensure_nat_rules env nw s =
      (if resolved_networks nw = [] then open_outbound env iface else restrict_outbound env iface (resolved_networks nw)) m"
    using nat_rules_again [OF assms(1,2), of s nw] assms(4) by blast
  then have "restrict_outbound env iface (resolved_networks nw) m = (Inr (), t)" using assms(3,5) by simp
  moreover obtain u where "restrict_outbound env iface (resolved_networks nw) m = (Inr (), u)" "fw_chains u = fw_chains m"
    using restrict_again [OF assms(1), of iface m] assms(4) m(1) by (metis insert_subset)
  ultimately show ?thesis using m(1) by simp
qed

text \<open>A network opened once stays open: after a start with allowed networks, one for which the ranges could
  not be had, and a third with the ranges again, the rule that passes everything is still in front of the
  rule that drops, and a packet from a VM goes anywhere.\<close>

theorem outage_leaves_network_open:
  assumes "reads_rules dec has iface" and "all_run env" and "default_iface (fe_route env) = Some iface"
    and "resolved_networks closed \<noteq> []" and "resolved_networks opened = []"
    and "{established_rule, open_rule iface, allow_rule iface, drop_rule iface} \<inter> set (fw_chains s forward_chain) = {}"
    and "fw_sets s allow_set = None"
    and "ensure_nat_rules env closed s = (Inr (), t)" and "ensure_nat_rules env opened t = (Inr (), u)"
    and "ensure_nat_rules env closed u = (Inr (), v)" and "from_vm iface p"
  shows "forward_verdict dec v p = Some Accept"
proof -
  let ?rs = "allow_rule iface # drop_rule iface # fw_chains s forward_chain"
  have t: "fw_chains t forward_chain = established_rule # ?rs"
    using restricted_start_chain [OF assms(3,4) _ assms(7,8)] assms(6) by simp
  have u: "fw_chains u forward_chain = established_rule # open_rule iface # ?rs"
    using open_start_chain [OF assms(2,3,5) t _ assms(9)] assms(6) by simp
  have "fw_chains v forward_chain = fw_chains u forward_chain"
    using restricted_start_again [OF assms(2,3,4) _ assms(10)] u by simp
  then show ?thesis using assms(1,11) u by (simp add: forward_verdict_def reads_rules_def)
qed

section \<open>What the list of networks becomes\<close>

definition github_entries :: "string list \<Rightarrow> nat" where
  "github_entries es = length (filter (\<lambda>e. eq_ignore_ascii_case e ''github'') es)"

lemma github_entries_simps [simp]:
  "github_entries [] = 0"
  "github_entries (e # es) = (if eq_ignore_ascii_case e ''github'' then Suc (github_entries es) else github_entries es)"
  by (simp_all add: github_entries_def)

lemma resolve_entries_None: "resolve_entries cidrs k es = None \<longleftrightarrow> (\<exists>i < github_entries es. cidrs (k + i) = None)"
proof (induction es arbitrary: k)
  case (Cons e es)
  then show ?case by (cases "cidrs k") (auto simp: Ex_less_Suc2)
qed simp

lemma resolve_entries_set:
  "resolve_entries cidrs k es = Some r \<Longrightarrow>
     set r = {e \<in> set es. \<not> eq_ignore_ascii_case e ''github''} \<union> (\<Union>i < github_entries es. set (the (cidrs (k + i))))"
proof (induction es arbitrary: k r)
  case (Cons e es)
  have step: "(\<Union>i < Suc n. f i) = f 0 \<union> (\<Union>i < n. f (Suc i))" for n and f :: "nat \<Rightarrow> string set"
    by (auto simp: less_Suc_eq_0_disj)
  show ?case
  proof (cases "eq_ignore_ascii_case e ''github''")
    case True
    obtain cs q where c: "cidrs k = Some cs" "resolve_entries cidrs (Suc k) es = Some q" "r = cs @ q"
      using Cons.prems True by (auto split: option.splits)
    have "{x \<in> set (e # es). \<not> eq_ignore_ascii_case x ''github''} = {x \<in> set es. \<not> eq_ignore_ascii_case x ''github''}"
      using True by auto
    then show ?thesis using True Cons.IH [OF c(2)] c(1,3) by (simp only: github_entries_simps if_True step) auto
  next
    case False
    obtain q where "resolve_entries cidrs k es = Some q" "r = e # q" using Cons.prems False by auto
    then show ?thesis using False Cons.IH [of k q] by auto
  qed
qed simp

lemma add_dns_set: "set (add_dns dns r) = set r \<union> (\<lambda>d. d @ ''/32'') ` set dns"
  by (induction dns arbitrary: r) (auto simp: add_dns_def Let_def)

lemma resolved_ranges:
  "set (resolved_networks (resolve_allowed_networks cidrs nw)) =
     (if allowed_networks nw = [] then set (resolved_networks nw)
      else if \<exists>i < github_entries (allowed_networks nw). cidrs i = None then {}
      else {e \<in> set (allowed_networks nw). \<not> eq_ignore_ascii_case e ''github''} \<union>
        (\<Union>i < github_entries (allowed_networks nw). set (the (cidrs i))) \<union> (\<lambda>d. d @ ''/32'') ` set (nw_dns nw))"
  using resolve_entries_None [of cidrs 0 "allowed_networks nw"] resolve_entries_set [of cidrs 0 "allowed_networks nw"]
  by (auto simp: resolve_allowed_networks_def add_dns_set split: option.splits)

text \<open>The networks VMs may reach. A list that is empty is left alone; otherwise, when every request for
  GitHub's ranges that the list asks for is answered, they are the configured ranges, GitHub's and the name
  servers, and when one is not they are none, not even the configured ones.\<close>

theorem resolved_networks_spec:
  "resolve_allowed_networks cidrs nw = nw\<lparr>resolved_networks := resolved_networks (resolve_allowed_networks cidrs nw)\<rparr> \<and>
   set (resolved_networks (resolve_allowed_networks cidrs nw)) =
     (if allowed_networks nw = [] then set (resolved_networks nw)
      else if \<exists>i < github_entries (allowed_networks nw). cidrs i = None then {}
      else {e \<in> set (allowed_networks nw). \<not> eq_ignore_ascii_case e ''github''} \<union>
        (\<Union>i < github_entries (allowed_networks nw). set (the (cidrs i))) \<union> (\<lambda>d. d @ ''/32'') ` set (nw_dns nw))"
  using resolved_ranges [of cidrs nw] by (auto simp: resolve_allowed_networks_def split: option.splits)

text \<open>An outage of GitHub's service opens the network: when the ranges cannot be had, a start on a host
  without the program's rules passes every packet of a VM, also to addresses outside the configured ranges.\<close>

theorem github_outage_opens_network:
  assumes "reads_rules dec has iface" and "default_iface (fe_route env) = Some iface"
    and "allowed_networks nw \<noteq> []" and "i < github_entries (allowed_networks nw)" and "cidrs i = None"
    and "established_rule \<notin> set (fw_chains s forward_chain)" and "open_rule iface \<notin> set (fw_chains s forward_chain)"
    and "ensure_nat_rules env (resolve_allowed_networks cidrs nw) s = (Inr (), t)" and "from_vm iface p"
  shows "forward_verdict dec t p = Some Accept"
proof -
  have "resolve_entries cidrs 0 (allowed_networks nw) = None"
    using resolve_entries_None [of cidrs 0 "allowed_networks nw"] assms(4,5) by auto
  then have none: "resolved_networks (resolve_allowed_networks cidrs nw) = []"
    using assms(3) by (simp add: resolve_allowed_networks_def)
  then obtain m where m: "fw_chains m forward_chain = established_rule # fw_chains s forward_chain" "open_outbound env iface m = (Inr (), t)"
    using nat_rules_common [OF assms(8,2,6)] by auto
  have "fw_chains t forward_chain = established_rule # open_rule iface # fw_chains s forward_chain"
    using ensure_insert_new [OF _ positions(2), of env "open_rule iface" m t] m assms(7) by (simp add: open_outbound_def)
  then show ?thesis using assms(1,9) by (simp add: forward_verdict_def reads_rules_def)
qed

lemma github_outage_opens_network_witness:
  "\<exists>t. ensure_nat_rules demo_fw (resolve_allowed_networks (\<lambda>_. None) (demo_nw [''GitHub'', ''10.0.0.0/8''])) fresh_fw = (Inr (), t) \<and>
     forward_verdict demo_reading t web_packet = Some Accept"
proof -
  let ?nw = "demo_nw [''GitHub'', ''10.0.0.0/8'']"
  obtain t where t: "ensure_nat_rules demo_fw (resolve_allowed_networks (\<lambda>_. None) ?nw) fresh_fw = (Inr (), t)"
    using first_start_ok [OF demo_all_run demo_iface] by blast
  have g: "0 < github_entries (allowed_networks ?nw)" by (simp add: demo_nw_def) code_simp
  have "forward_verdict demo_reading t web_packet = Some Accept"
    by (rule github_outage_opens_network [OF demo_reads_rules demo_iface _ g _ _ _ t])
       (simp_all add: demo_nw_def fresh_fw_def web_packet_def from_vm_def in_subnet_def)
  then show ?thesis using t by blast
qed

lemma outage_leaves_network_open_witness:
  "\<exists>t u v. ensure_nat_rules demo_fw ((demo_nw [])\<lparr>resolved_networks := [''10.0.0.0/8'']\<rparr>) fresh_fw = (Inr (), t) \<and>
     ensure_nat_rules demo_fw (demo_nw []) t = (Inr (), u) \<and>
     ensure_nat_rules demo_fw ((demo_nw [])\<lparr>resolved_networks := [''10.0.0.0/8'']\<rparr>) u = (Inr (), v) \<and>
     forward_verdict demo_reading v web_packet = Some Accept"
proof -
  let ?nw = "(demo_nw [])\<lparr>resolved_networks := [''10.0.0.0/8'']\<rparr>"
  obtain t u v where r: "ensure_nat_rules demo_fw ?nw fresh_fw = (Inr (), t)" "ensure_nat_rules demo_fw (demo_nw []) t = (Inr (), u)"
    "ensure_nat_rules demo_fw ?nw u = (Inr (), v)"
    using first_start_ok [OF demo_all_run demo_iface] by metis
  have "forward_verdict demo_reading v web_packet = Some Accept"
    by (rule outage_leaves_network_open [OF demo_reads_rules demo_all_run demo_iface _ _ _ _ r])
       (simp_all add: demo_nw_def default_network_config_def fresh_fw_def web_packet_def from_vm_def in_subnet_def)
  then show ?thesis using r by blast
qed

section \<open>Links and forwarding\<close>

lemma cleanup_taps_run:
  assumes "all_run env"
  shows "\<exists>t. cleanup_taps (quiet_env env) ns s = (Inr (), t) \<and> fw_links t = fw_links s - set ns \<and> fw_forward t = fw_forward s"
proof (induction ns arbitrary: s)
  case Nil
  then show ?case by (simp add: op_ret_def)
next
  case (Cons n ns)
  have q: "all_run (quiet_env env)" using assms by (simp add: all_run_def quiet_env_def)
  show ?case
  proof (cases "n \<in> fw_links s")
    case True
    then show ?thesis
      using Cons.IH [of "fw_step (fw_step s\<lparr>fw_links := fw_links (fw_step s) - {n}\<rparr>)"]
      by (auto simp: op_bind_apply run_cmd_all_run [OF q])
  next
    case False
    then show ?thesis using Cons.IH [of "fw_step s"] by (auto simp: op_bind_apply run_cmd_all_run [OF q])
  qed
qed

text \<open>The rules and sets are apart from links and forwarding.\<close>

definition keeps_links :: "'a fw_op \<Rightarrow> bool" where
  "keeps_links m \<longleftrightarrow> (\<forall>s r t. m s = (r, t) \<longrightarrow> fw_links t = fw_links s \<and> fw_forward t = fw_forward s)"

lemma keeps_links_bind: "keeps_links m \<Longrightarrow> (\<And>x. keeps_links (f x)) \<Longrightarrow> keeps_links (op_bind m f)"
  by (fastforce simp: keeps_links_def op_bind_apply split: prod.splits sum.splits)

lemma keeps_links_basic [intro]: "keeps_links (op_ret x)" "keeps_links (op_fail e)" "keeps_links (op_lift r)"
  "keeps_links (file_op env p id)"
  by (auto simp: keeps_links_def op_ret_def op_fail_def op_lift_def file_op_def)

lemma keeps_links_cmd: "(\<And>s. fw_links (snd (f s)) = fw_links s \<and> fw_forward (snd (f s)) = fw_forward s) \<Longrightarrow> keeps_links (run_cmd env prog f)"
  by (simp add: keeps_links_def run_cmd_def case_prod_unfold split: cmd_outcome.splits)

lemma keeps_links_iptables [intro]: "keeps_links (run_iptables env args)"
proof -
  have "fw_links (snd (ipt_exec c u)) = fw_links u \<and> fw_forward (snd (ipt_exec c u)) = fw_forward u" for c u
    by (cases c) (auto simp: set_chain_def Let_def)
  then show ?thesis unfolding run_iptables_def by (intro keeps_links_cmd) (simp split: option.split)
qed

lemma keeps_links_ipset [intro]:
  "keeps_links (ipset_create env n)" "keeps_links (ipset_flush env n)" "keeps_links (ipset_add env n c)"
  unfolding ipset_create_def ipset_flush_def ipset_add_def
  by (intro keeps_links_cmd; simp add: set_put_def split: option.split)+

lemma keeps_links_if: "(b \<Longrightarrow> keeps_links m) \<Longrightarrow> (\<not> b \<Longrightarrow> keeps_links n) \<Longrightarrow> keeps_links (if b then m else n)"
  by simp

lemma keeps_links_seq: "keeps_links m \<Longrightarrow> keeps_links n \<Longrightarrow> keeps_links (op_seq m n)"
  by (fastforce simp: keeps_links_def op_seq_apply split: prod.splits sum.splits)

lemmas keeps_links_intros = keeps_links_bind keeps_links_seq keeps_links_if keeps_links_basic keeps_links_iptables keeps_links_ipset

lemma keeps_links_ensure_rule: "keeps_links (ensure_rule env add check spec)"
  unfolding ensure_rule_def add_iptables_rule_if_missing_def by (intro keeps_links_intros)

lemma keeps_links_add_cidrs: "keeps_links (add_cidrs env cs)"
proof (induction cs)
  case Nil
  show ?case by (simp add: keeps_links_basic)
next
  case (Cons c cs)
  then show ?case unfolding add_cidrs.simps by (intro keeps_links_intros)
qed

lemma keeps_links_nat_rules: "keeps_links (ensure_nat_rules env nw)"
  unfolding ensure_nat_rules_def open_outbound_def restrict_outbound_def
  by (intro keeps_links_intros keeps_links_ensure_rule keeps_links_add_cidrs)

text \<open>The network of the host after a start whose commands all work: it succeeds, packets are forwarded,
  the links of the first sixteen slots are gone and every other link is still there.\<close>

theorem network_ready:
  assumes "all_run env" and "default_iface (fe_route env) = Some iface"
  shows "\<exists>t. ensure_network env nw s = (Inr (), t) \<and> trim (fw_forward t) = ''1'' \<and>
    fw_links t = fw_links s - {''tap-fc'' @ show_nat i | i. i < 16}"
proof -
  obtain a where a: "cleanup_stale_taps env s = (Inr (), a)" "fw_links a = fw_links s - {''tap-fc'' @ show_nat i | i. i < 16}"
    using cleanup_taps_run [OF assms(1), of "map (\<lambda>i. ''tap-fc'' @ show_nat i) [0..<16]" s]
    unfolding cleanup_stale_taps_def by (fastforce simp: image_Collect atLeast0LessThan lessThan_def)
  obtain b where b: "ensure_ip_forwarding env a = (Inr (), b)" "fw_links b = fw_links a" "trim (fw_forward b) = ''1''"
  proof -
    have "trim ''1'' = ''1''" by (simp add: trim_id is_ws_def)
    then show ?thesis
      using assms(1) that by (cases "trim (fw_forward a) = ''1''") (simp_all add: ensure_ip_forwarding_def op_seq_apply file_op_def all_run_def)
  qed
  obtain t where t: "ensure_nat_rules env nw b = (Inr (), t)" using first_start_ok [OF assms] by blast
  have "fw_links t = fw_links b \<and> fw_forward t = fw_forward b"
    using keeps_links_nat_rules t by (auto simp: keeps_links_def)
  then show ?thesis using a b t by (intro exI [of _ t]) (simp add: ensure_network_def op_seq_apply)
qed

lemma network_ready_witness: "\<exists>t. ensure_network demo_fw (demo_nw []) (fresh_fw\<lparr>fw_links := {''tap-fc3'', ''tap-fc20''}\<rparr>) = (Inr (), t) \<and>
    ''tap-fc20'' \<in> fw_links t \<and> ''tap-fc3'' \<notin> fw_links t"
proof -
  obtain t where t: "ensure_network demo_fw (demo_nw []) (fresh_fw\<lparr>fw_links := {''tap-fc3'', ''tap-fc20''}\<rparr>) = (Inr (), t)"
    "fw_links t = {''tap-fc3'', ''tap-fc20''} - {''tap-fc'' @ show_nat i | i. i < 16}"
    using network_ready [OF demo_all_run demo_iface, of "demo_nw []" "fresh_fw\<lparr>fw_links := {''tap-fc3'', ''tap-fc20''}\<rparr>"] by auto
  have n: "''3'' = show_nat 3" "''20'' = show_nat 20" by code_simp+
  have "''tap-fc20'' \<in> fw_links t" unfolding t(2) using n(2) by auto
  moreover have "''tap-fc3'' \<notin> fw_links t" unfolding t(2) using n(1) by auto
  ultimately show ?thesis using t(1) by blast
qed

end
