(* ===== verification/Build_Host.thy ===== *)
theory Build_Host
  imports Layers Firewall
begin

text \<open>
  The host while images are built (\<open>src/src/image.rs\<close> and \<open>src/src/vm/setup.rs\<close>): its own tree of
  files with symbolic links, the images mounted into it with their trees, and the time each file was
  last written. A system call or a command may fail at every call; one that needs something of the
  host (a directory, an image with a file system) fails without it. Paths are walked as the kernel
  walks them, so a link in a mounted image leads where it says, also out of the image.
\<close>

section \<open>State\<close>

text \<open>What is mounted at a directory: the file system of an image, a directory of the host once more, or
  something whose files are not looked at.\<close>

datatype source = Image "string list" | Bind "string list" | Other string

record mount =
  mt_dir :: "string list"
  mt_src :: source
  mt_ro :: bool

record bhost =
  bh_fs :: fs
  bh_trees :: "string list \<Rightarrow> fs"
  bh_mounts :: "mount list"
  bh_mtime :: "string list \<Rightarrow> nat"
  bh_tick :: nat

text \<open>Which system calls succeed and how the commands end, by the number of the call.\<close>

record build_env =
  be_ok :: "nat \<Rightarrow> bool"
  be_out :: "nat \<Rightarrow> cmd_outcome"
  be_cwd :: "string list"

datatype build_error =
    CallFailed string | CmdFailed string | NoCmd string | LayerFailed layer_error | BadReference | NoManifest
  | BlobFailed | NotExt4 | NoPartition | NoVirt | NoKvm | KernelLacks bool bool | NoMksquashfs | FetchFailed | NoParent

type_synonym 'a build_op = "(bhost, build_error, 'a) op"

definition bh_step :: "bhost \<Rightarrow> bhost" where
  "bh_step s = s\<lparr>bh_tick := Suc (bh_tick s)\<rparr>"

text \<open>A call with its precondition as an option: the state afterwards, or none.\<close>

definition b_sys :: "build_env \<Rightarrow> build_error \<Rightarrow> (bhost \<Rightarrow> bhost option) \<Rightarrow> unit build_op" where
  "b_sys env e f s =
     (case (if be_ok env (bh_tick s) then f s else None) of
        None \<Rightarrow> (Inl e, bh_step s)
      | Some t \<Rightarrow> (Inr (), bh_step t))"

definition b_try :: "build_env \<Rightarrow> (bhost \<Rightarrow> bhost option) \<Rightarrow> unit build_op" where
  "b_try env f s =
     (case (if be_ok env (bh_tick s) then f s else None) of
        None \<Rightarrow> (Inr (), bh_step s)
      | Some t \<Rightarrow> (Inr (), bh_step t))"

text \<open>A command: an error when it cannot be started, else whether it succeeded.\<close>

definition b_cmd :: "build_env \<Rightarrow> string \<Rightarrow> (bhost \<Rightarrow> bhost option) \<Rightarrow> bool build_op" where
  "b_cmd env prog f s =
     (case be_out env (bh_tick s) of
        NotSpawned \<Rightarrow> (Inl (NoCmd prog), bh_step s)
      | ExitsNonzero \<Rightarrow> (Inr False, bh_step s)
      | Runs \<Rightarrow> (case f s of None \<Rightarrow> (Inr False, bh_step s) | Some t \<Rightarrow> (Inr True, bh_step t)))"

definition b_must :: "bool build_op \<Rightarrow> build_error \<Rightarrow> unit build_op" where
  "b_must m e = op_bind m (\<lambda>ok. if ok then op_ret () else op_fail e)"

text \<open>\<open>let _ = \<dots>\<close>: the result is dropped, the state is not.\<close>

definition b_ignore :: "'a build_op \<Rightarrow> unit build_op" where
  "b_ignore m s = (Inr (), snd (m s))"

text \<open>A question to the host, a list of calls, and one made only under a condition.\<close>

definition b_ask :: "(bhost \<Rightarrow> 'a) \<Rightarrow> 'a build_op" where
  "b_ask f s = (Inr (f s), s)"

fun b_all :: "unit build_op list \<Rightarrow> unit build_op" where
  "b_all [] = op_ret ()"
| "b_all (m # ms) = op_seq m (b_all ms)"

definition b_when :: "bool \<Rightarrow> unit build_op list \<Rightarrow> unit build_op" where
  "b_when b ms = (if b then b_all ms else op_ret ())"

section \<open>The visible tree\<close>

text \<open>The latest mount over a path decides what is seen there.\<close>

definition mount_over :: "bhost \<Rightarrow> string list \<Rightarrow> mount option" where
  "mount_over s q = find (\<lambda>m. prefix (mt_dir m) q) (bh_mounts s)"

definition visible :: "bhost \<Rightarrow> fs" where
  "visible s = (\<lambda>q. case mount_over s q of
       None \<Rightarrow> bh_fs s q
     | Some m \<Rightarrow>
         if q = mt_dir m then Some Dir
         else (case mt_src m of Image i \<Rightarrow> bh_trees s i (drop (length (mt_dir m)) q)
               | Bind b \<Rightarrow> bh_fs s (b @ drop (length (mt_dir m)) q) | Other _ \<Rightarrow> None))"

definition set_node :: "string list \<Rightarrow> inode option \<Rightarrow> bhost \<Rightarrow> bhost option" where
  "set_node q x s =
     (case mount_over s q of
        None \<Rightarrow> Some (s\<lparr>bh_fs := (bh_fs s)(q := x), bh_mtime := (bh_mtime s)(q := bh_tick s)\<rparr>)
      | Some m \<Rightarrow>
          (case mt_src m of
             Image i \<Rightarrow>
               if mt_ro m then None
               else Some (s\<lparr>bh_trees := (bh_trees s)(i := (bh_trees s i)(drop (length (mt_dir m)) q := x)),
                            bh_mtime := (bh_mtime s)(i := bh_tick s)\<rparr>)
           | Bind b \<Rightarrow>
               (let r = b @ drop (length (mt_dir m)) q in
                Some (s\<lparr>bh_fs := (bh_fs s)(r := x), bh_mtime := (bh_mtime s)(r := bh_tick s)\<rparr>))
           | Other _ \<Rightarrow> None))"

text \<open>The program's path as names: a relative one starts in the working directory.\<close>

definition parts_of :: "build_env \<Rightarrow> string \<Rightarrow> string list" where
  "parts_of env p = join_parts (be_cwd env) p"

definition reach_path :: "build_env \<Rightarrow> bool \<Rightarrow> string \<Rightarrow> bhost \<Rightarrow> string list option" where
  "reach_path env follow p s = walk (visible s) max_links follow [] (parts_of env p)"

definition file_exists :: "build_env \<Rightarrow> string \<Rightarrow> bhost \<Rightarrow> bool" where
  "file_exists env p s \<longleftrightarrow> path_exists (visible s) (parts_of env p)"

section \<open>Calls\<close>

text \<open>\<open>fs::write\<close>: through links, never onto a directory, keeping the permission bits of a file that is there.\<close>

definition do_write :: "build_env \<Rightarrow> string \<Rightarrow> string \<Rightarrow> bhost \<Rightarrow> bhost option" where
  "do_write env p c s =
     obind (reach_path env True p s) (\<lambda>q.
       case look (visible s) q of
         Some Dir \<Rightarrow> None
       | Some (Reg _ m) \<Rightarrow> set_node q (Some (Reg c m)) s
       | _ \<Rightarrow> set_node q (Some (Reg c None)) s)"

definition do_chmod :: "build_env \<Rightarrow> string \<Rightarrow> nat \<Rightarrow> bhost \<Rightarrow> bhost option" where
  "do_chmod env p mode s =
     obind (reach_path env True p s) (\<lambda>q.
       case look (visible s) q of
         None \<Rightarrow> None
       | Some (Reg c _) \<Rightarrow> set_node q (Some (Reg c (Some mode))) s
       | _ \<Rightarrow> Some s)"

text \<open>\<open>create_dir_all\<close>: every directory on the way that is missing.\<close>

fun do_mkdirs :: "string list \<Rightarrow> string list \<Rightarrow> bhost \<Rightarrow> bhost option" where
  "do_mkdirs before [] s = Some s"
| "do_mkdirs before (c # cs) s =
     obind (walk (visible s) max_links True [] (before @ [c])) (\<lambda>q.
       case look (visible s) q of
         Some Dir \<Rightarrow> do_mkdirs (before @ [c]) cs s
       | None \<Rightarrow> obind (set_node q (Some Dir) s) (do_mkdirs (before @ [c]) cs)
       | _ \<Rightarrow> None)"

definition do_unlink :: "build_env \<Rightarrow> string \<Rightarrow> bhost \<Rightarrow> bhost option" where
  "do_unlink env p s =
     obind (reach_path env False p s) (\<lambda>q.
       if look (visible s) q \<in> {None, Some Dir} then None else set_node q None s)"

text \<open>A directory can be removed when it is empty and nothing is mounted on it or below it.\<close>

definition do_rmdir :: "build_env \<Rightarrow> string \<Rightarrow> bhost \<Rightarrow> bhost option" where
  "do_rmdir env p s =
     obind (reach_path env False p s) (\<lambda>q.
       if look (visible s) q = Some Dir \<and> q \<noteq> [] \<and> (\<forall>m \<in> set (bh_mounts s). \<not> prefix q (mt_dir m)) \<and>
         \<not> (\<exists>c. visible s (q @ [c]) \<noteq> None)
       then set_node q None s else None)"

definition do_symlink :: "build_env \<Rightarrow> string \<Rightarrow> string \<Rightarrow> bhost \<Rightarrow> bhost option" where
  "do_symlink env target p s =
     obind (reach_path env False p s) (\<lambda>q. if look (visible s) q = None then set_node q (Some (Lnk target)) s else None)"

definition do_copy :: "build_env \<Rightarrow> string \<Rightarrow> string \<Rightarrow> bhost \<Rightarrow> bhost option" where
  "do_copy env src dst s =
     obind (reach_path env True src s) (\<lambda>r.
       case look (visible s) r of
         Some (Reg c m) \<Rightarrow>
           obind (reach_path env True dst s) (\<lambda>q.
             if look (visible s) q = Some Dir then None else set_node q (Some (Reg c m)) s)
       | _ \<Rightarrow> None)"

definition read_at :: "build_env \<Rightarrow> string \<Rightarrow> bhost \<Rightarrow> string option" where
  "read_at env p s =
     obind (reach_path env True p s) (\<lambda>q. case look (visible s) q of Some (Reg c _) \<Rightarrow> Some c | _ \<Rightarrow> None)"

definition write_path :: "build_env \<Rightarrow> string \<Rightarrow> string \<Rightarrow> unit build_op" where
  "write_path env p c = b_sys env (CallFailed p) (do_write env p c)"

definition chmod_path :: "build_env \<Rightarrow> string \<Rightarrow> nat \<Rightarrow> unit build_op" where
  "chmod_path env p mode = b_sys env (CallFailed p) (do_chmod env p mode)"

definition mkdirs_path :: "build_env \<Rightarrow> string \<Rightarrow> unit build_op" where
  "mkdirs_path env p = b_sys env (CallFailed p) (do_mkdirs [] (parts_of env p))"

definition unlink_path :: "build_env \<Rightarrow> string \<Rightarrow> unit build_op" where
  "unlink_path env p = b_try env (do_unlink env p)"

definition rmdir_path :: "build_env \<Rightarrow> string \<Rightarrow> unit build_op" where
  "rmdir_path env p = b_try env (do_rmdir env p)"

definition symlink_path :: "build_env \<Rightarrow> string \<Rightarrow> string \<Rightarrow> unit build_op" where
  "symlink_path env target p = b_sys env (CallFailed p) (do_symlink env target p)"

definition copy_path :: "build_env \<Rightarrow> string \<Rightarrow> string \<Rightarrow> unit build_op" where
  "copy_path env src dst = b_sys env (CallFailed dst) (do_copy env src dst)"

section \<open>Images and mounts\<close>

definition is_image :: "inode option \<Rightarrow> bool" where
  "is_image x \<longleftrightarrow> (case x of Some (Disk _ formatted) \<Rightarrow> formatted | _ \<Rightarrow> False)"

text \<open>A loop mount of an image with a file system on a directory.\<close>

definition do_mount :: "build_env \<Rightarrow> string \<Rightarrow> string \<Rightarrow> bool \<Rightarrow> bhost \<Rightarrow> bhost option" where
  "do_mount env img target ro s =
     obind (reach_path env True img s) (\<lambda>i. obind (reach_path env True target s) (\<lambda>d.
       if is_image (look (visible s) i) \<and> look (visible s) d = Some Dir
       then Some (s\<lparr>bh_mounts := \<lparr>mt_dir = d, mt_src = Image i, mt_ro = ro\<rparr> # bh_mounts s\<rparr>) else None))"

text \<open>Detaching the latest mount on a directory, with everything mounted below it.\<close>

fun drop_mounts :: "string list \<Rightarrow> mount list \<Rightarrow> mount list option" where
  "drop_mounts d [] = None"
| "drop_mounts d (m # ms) =
     (if mt_dir m = d then Some ms
      else if strict_prefix d (mt_dir m) \<and> d \<in> mt_dir ` set ms then drop_mounts d ms
      else map_option (Cons m) (drop_mounts d ms))"

definition do_umount :: "build_env \<Rightarrow> string \<Rightarrow> bhost \<Rightarrow> bhost option" where
  "do_umount env target s =
     obind (reach_path env True target s) (\<lambda>d. map_option (\<lambda>ms. s\<lparr>bh_mounts := ms\<rparr>) (drop_mounts d (bh_mounts s)))"

text \<open>The whole visible tree at once, as an archive library or a command changes it; what they do to
  directories mounted a second time is not looked at.\<close>

definition put_visible :: "fs \<Rightarrow> bhost \<Rightarrow> bhost" where
  "put_visible u s =
     s\<lparr>bh_fs := (\<lambda>q. if mount_over s q = None then u q else bh_fs s q),
       bh_trees := (\<lambda>i p. case find (\<lambda>m. mt_src m = Image i) (bh_mounts s) of
          None \<Rightarrow> bh_trees s i p
        | Some m \<Rightarrow> if p \<noteq> [] \<and> mount_over s (mt_dir m @ p) = Some m then u (mt_dir m @ p) else bh_trees s i p),
       bh_mtime := (\<lambda>q. if \<exists>m \<in> set (bh_mounts s). mt_src m = Image q then bh_tick s else bh_mtime s q)\<rparr>"

end
