(* ===== verification/Mounted.thy ===== *)
theory Mounted
  imports Build_Host
begin

text \<open>
  What the calls do to the files of one mounted image, when every call works and the paths lead
  through directories: a call is described by the tree of the image before and after it, and such
  descriptions are put together along the program's lists of calls. Trees here have their root as an
  entry of its own.
\<close>

definition quiet :: "build_env \<Rightarrow> bool" where
  "quiet env \<longleftrightarrow> (\<forall>k. be_ok env k) \<and> (\<forall>k. be_out env k = Runs)"

definition in_image ::
    "string list \<Rightarrow> string list \<Rightarrow> string list set \<Rightarrow> fs \<Rightarrow> (string list \<Rightarrow> fs) \<Rightarrow> fs \<Rightarrow> bhost \<Rightarrow> bool" where
  "in_image d i dirs f tr t s \<longleftrightarrow>
     bh_mounts s = [\<lparr>mt_dir = d, mt_src = Image i, mt_ro = False\<rparr>] \<and> bh_fs s = f \<and>
     (\<forall>j. j \<noteq> i \<longrightarrow> bh_trees s j = tr j) \<and> look (bh_trees s i) = t \<and> mount_dir d f \<and> tree_ok dirs t"

text \<open>A call or a list of calls that succeeds and turns one tree of the image into another.\<close>

definition turns ::
    "string list \<Rightarrow> string list \<Rightarrow> string list set \<Rightarrow> fs \<Rightarrow> (string list \<Rightarrow> fs) \<Rightarrow> fs \<Rightarrow> unit build_op \<Rightarrow> fs \<Rightarrow> bool" where
  "turns d i dirs f tr t m u \<longleftrightarrow>
     (\<forall>s. in_image d i dirs f tr t s \<longrightarrow> (\<exists>s'. m s = (Inr (), s') \<and> in_image d i dirs f tr u s'))"

lemma turns_Nil: "turns d i dirs f tr t (b_all []) t"
  by (simp add: turns_def op_ret_def)

lemma turns_Cons:
  assumes "turns d i dirs f tr t m u" and "turns d i dirs f tr u (b_all ms) v"
  shows "turns d i dirs f tr t (b_all (m # ms)) v"
  using assms by (fastforce simp: turns_def op_seq_apply)

lemma turns_append:
  assumes "turns d i dirs f tr t (b_all ms) u" and "turns d i dirs f tr u (b_all ns) v"
  shows "turns d i dirs f tr t (b_all (ms @ ns)) v"
proof -
  have "b_all (ms @ ns) s = op_seq (b_all ms) (b_all ns) s" for s
  proof (induction ms arbitrary: s)
    case Nil
    show ?case by (simp add: op_seq_apply op_ret_def)
  next
    case (Cons m ms)
    show ?case by (simp add: op_seq_apply Cons split: sum.split prod.split)
  qed
  then show ?thesis using assms by (fastforce simp: turns_def op_seq_apply)
qed

lemma turns_ask:
  assumes "\<And>s. in_image d i dirs f tr t s \<Longrightarrow> q s = x" and "turns d i dirs f tr t (g x) u"
  shows "turns d i dirs f tr t (op_bind (b_ask q) g) u"
  using assms by (auto simp: turns_def op_bind_apply b_ask_def)

lemma turns_when:
  assumes "b \<Longrightarrow> turns d i dirs f tr t (b_all ms) u" and "\<not> b \<Longrightarrow> u = t"
  shows "turns d i dirs f tr t (b_when b ms) u"
  using assms by (auto simp: b_when_def turns_def op_ret_def)

section \<open>What is seen\<close>

lemma in_image_sees:
  assumes "in_image d i dirs f tr t s"
  shows "visible s (d @ p) = t p" and "\<not> prefix d q \<Longrightarrow> visible s q = f q" and "mount_dir d (visible s)"
    and "tree_ok dirs (below d (visible s))" and "t [] = Some Dir"
proof -
  note a = assms [unfolded in_image_def]
  have t: "t p = (if p = [] then Some Dir else bh_trees s i p)" for p using a by (auto simp: look_def)
  show 1: "visible s (d @ p) = t p" for p
    using a t [of p] by (simp add: visible_def mount_over_def)
  show 2: "visible s q = f q" if "\<not> prefix d q" for q
    using a that by (simp add: visible_def mount_over_def)
  show "t [] = Some Dir" using t by simp
  have "visible s q = Some Dir" if "prefix q d" "q \<noteq> []" for q
  proof (cases "prefix d q")
    case True
    then have "q = d" using that(1) prefix_order.antisym by blast
    then show ?thesis using 1 [of "[]"] t by simp
  next
    case False
    then show ?thesis using 2 a that by (simp add: mount_dir_def)
  qed
  then show "mount_dir d (visible s)" using a by (simp add: mount_dir_def)
  have "below d (visible s) = t" using 1 by (auto simp: below_def)
  then show "tree_ok dirs (below d (visible s))" using a by simp
qed

lemma in_image_walk:
  assumes "in_image d i dirs f tr t s" and "\<forall>c \<in> set q. ordinary c" and "\<forall>r. strict_prefix r q \<longrightarrow> r \<in> dirs"
    and "follow \<Longrightarrow> \<forall>x. t q \<noteq> Some (Lnk x)"
  shows "walk (visible s) n follow [] (d @ q) =
      (if \<forall>r. strict_prefix r q \<and> r \<noteq> [] \<longrightarrow> t r = Some Dir then Some (d @ q) else None)"
    and "look (visible s) (d @ q) = t q"
proof -
  note v = in_image_sees [OF assms(1)]
  show "walk (visible s) n follow [] (d @ q) =
      (if \<forall>r. strict_prefix r q \<and> r \<noteq> [] \<longrightarrow> t r = Some Dir then Some (d @ q) else None)"
    using walk_below [OF v(3,4) assms(2,3), of follow n] assms(4) by (simp add: v(1))
  have "d \<noteq> []" using v(3) by (simp add: mount_dir_def)
  then show "look (visible s) (d @ q) = t q" by (simp add: look_def v(1))
qed

lemma in_image_set:
  assumes "in_image d i dirs f tr t s" and "q \<noteq> []" and "tree_ok dirs (t(q := x))"
  shows "\<exists>u. set_node (d @ q) x s = Some u \<and> in_image d i dirs f tr (t(q := x)) u \<and> bh_tick u = bh_tick s"
proof -
  have "look ((bh_trees s i)(q := x)) = (look (bh_trees s i))(q := x)" using assms(2) by (auto simp: look_def)
  then show ?thesis using assms by (simp add: set_node_def in_image_def mount_over_def)
qed

lemma in_image_step: "in_image d i dirs f tr t s \<Longrightarrow> in_image d i dirs f tr t (bh_step s)"
  by (simp add: in_image_def bh_step_def)

text \<open>A file may be put where the directories are there and none is in its place.\<close>

lemma tree_ok_put:
  assumes "tree_ok dirs t" and "q \<notin> dirs" and "\<forall>r. strict_prefix r q \<longrightarrow> t r = Some Dir" and "x \<noteq> Some Dir"
  shows "tree_ok dirs (t(q := x))"
proof -
  have no: "t p = None" if "strict_prefix q p" for p
    using assms(1,2) that unfolding tree_ok_def by (metis option.exhaust)
  show ?thesis
    using assms no unfolding tree_ok_def by (auto simp: strict_prefix_def)
qed

lemma tree_ok_del:
  assumes "tree_ok dirs t" and "q \<notin> dirs"
  shows "tree_ok dirs (t(q := None))"
  using assms unfolding tree_ok_def by (metis fun_upd_other fun_upd_same option.distinct(1) option.inject)

lemma parents_dirs:
  assumes "tree_ok dirs t" and "t (butlast q) = Some Dir" and "strict_prefix r q"
  shows "t r = Some Dir"
proof -
  have "prefix r (butlast q)"
    using assms(3) by (metis append_butlast_last_id prefix_order.less_le prefix_snoc strict_prefix_simps(1) prefix_bot.bot_least strict_prefixE' butlast_append list.simps(3) butlast.simps(2) prefixI)
  then show ?thesis using assms(1,2) unfolding tree_ok_def by (cases "r = butlast q") (auto simp: strict_prefix_def)
qed

section \<open>The calls\<close>

definition file_path :: "string list set \<Rightarrow> string list \<Rightarrow> bool" where
  "file_path dirs q \<longleftrightarrow> q \<noteq> [] \<and> (\<forall>c \<in> set q. ordinary c) \<and> q \<notin> dirs \<and> (\<forall>r. strict_prefix r q \<longrightarrow> r \<in> dirs)"

definition dir_path :: "string list set \<Rightarrow> string list \<Rightarrow> bool" where
  "dir_path dirs q \<longleftrightarrow> (\<forall>c \<in> set q. ordinary c) \<and> (\<forall>r. prefix r q \<longrightarrow> r \<in> dirs)"

lemma file_path_reach:
  assumes "in_image d i dirs f tr t s" and "file_path dirs q" and "parts_of env p = d @ q" and "t (butlast q) = Some Dir"
    and "follow \<Longrightarrow> \<forall>x. t q \<noteq> Some (Lnk x)"
  shows "reach_path env follow p s = Some (d @ q)" and "look (visible s) (d @ q) = t q"
proof -
  have "tree_ok dirs t" using assms(1) by (simp add: in_image_def)
  then have dirs: "\<forall>r. strict_prefix r q \<longrightarrow> t r = Some Dir" using parents_dirs assms(4) by blast
  have q: "\<forall>c \<in> set q. ordinary c" "\<forall>r. strict_prefix r q \<longrightarrow> r \<in> dirs" using assms(2) by (simp_all add: file_path_def)
  show "reach_path env follow p s = Some (d @ q)" "look (visible s) (d @ q) = t q"
    using in_image_walk(1) [OF assms(1) q, of follow max_links] in_image_walk(2) [OF assms(1) q, of False] assms(3,5) dirs
    by (simp_all add: reach_path_def)
qed

lemma file_exists_in:
  assumes "in_image d i dirs f tr t s" and "file_path dirs q" and "parts_of env p = d @ q" and "\<forall>x. t q \<noteq> Some (Lnk x)"
  shows "file_exists env p s \<longleftrightarrow> t q \<noteq> None"
proof -
  have q: "\<forall>c \<in> set q. ordinary c" "\<forall>r. strict_prefix r q \<longrightarrow> r \<in> dirs" using assms(2) by (simp_all add: file_path_def)
  note v = in_image_sees [OF assms(1)]
  show ?thesis
    using node_at_below [OF v(3,4) q, of True] assms(3,4) by (simp add: file_exists_def path_exists_def v(1))
qed

lemma run_sys:
  assumes "quiet env" and "g s = Some u" and "in_image d i dirs f tr t u"
  shows "\<exists>s'. b_sys env e g s = (Inr (), s') \<and> in_image d i dirs f tr t s'"
  using assms by (auto simp: b_sys_def quiet_def intro: in_image_step)

lemma file_ok_put:
  assumes "in_image d i dirs f tr t s" and "file_path dirs q" and "t (butlast q) = Some Dir" and "x \<noteq> Some Dir"
  shows "\<exists>u. set_node (d @ q) x s = Some u \<and> in_image d i dirs f tr (t(q := x)) u"
proof -
  have "tree_ok dirs t" using assms(1) by (simp add: in_image_def)
  then have "tree_ok dirs (t(q := x))"
    using assms(2-4) by (intro tree_ok_put) (auto simp: file_path_def intro: parents_dirs)
  then show ?thesis using in_image_set [OF assms(1), of q x] assms(2) by (auto simp: file_path_def)
qed

text \<open>The permission bits a file keeps when it is written.\<close>

definition bits_of :: "inode option \<Rightarrow> nat option" where
  "bits_of x = (case x of Some (Reg _ m) \<Rightarrow> m | _ \<Rightarrow> None)"

lemma turns_write_at:
  assumes "quiet env" and "file_path dirs q" and "t (butlast q) = Some Dir"
    and at: "\<And>s. in_image d i dirs f tr t s \<Longrightarrow> reach_path env True p s = Some (d @ q) \<and> look (visible s) (d @ q) = t q"
    and "\<forall>x. t q \<noteq> Some (Lnk x)"
  shows "turns d i dirs f tr t (write_path env p c) (t(q \<mapsto> Reg c (bits_of (t q))))"
  unfolding turns_def
proof (intro allI impI)
  fix s assume s: "in_image d i dirs f tr t s"
  note r = at [OF s]
  have nd: "t q \<noteq> Some Dir" using s assms(2) by (auto simp: in_image_def tree_ok_def file_path_def)
  obtain u where u: "set_node (d @ q) (Some (Reg c (bits_of (t q)))) s = Some u"
    "in_image d i dirs f tr (t(q \<mapsto> Reg c (bits_of (t q)))) u"
    using file_ok_put [OF s assms(2,3), of "Some (Reg c (bits_of (t q)))"] by auto
  have "do_write env p c s = Some u"
    using r assms(5) nd u(1) by (auto simp: do_write_def bits_of_def split: option.splits inode.splits)
  then show "\<exists>s'. write_path env p c s = (Inr (), s') \<and> in_image d i dirs f tr (t(q \<mapsto> Reg c (bits_of (t q)))) s'"
    using run_sys [OF assms(1) _ u(2)] by (simp add: write_path_def)
qed

lemma turns_write:
  assumes "quiet env" and "file_path dirs q" and "parts_of env p = d @ q" and "t (butlast q) = Some Dir"
    and "\<forall>x. t q \<noteq> Some (Lnk x)"
  shows "turns d i dirs f tr t (write_path env p c) (t(q \<mapsto> Reg c (bits_of (t q))))"
proof (rule turns_write_at [OF assms(1,2,4) _ assms(5)])
  fix s assume s: "in_image d i dirs f tr t s"
  show "reach_path env True p s = Some (d @ q) \<and> look (visible s) (d @ q) = t q"
    using file_path_reach [OF s assms(2-4), of True] assms(5) by blast
qed

lemma turns_chmod:
  assumes "quiet env" and "file_path dirs q" and "parts_of env p = d @ q" and "t (butlast q) = Some Dir" and "t q = Some (Reg c m)"
  shows "turns d i dirs f tr t (chmod_path env p mode) (t(q \<mapsto> Reg c (Some mode)))"
  unfolding turns_def
proof (intro allI impI)
  fix s assume s: "in_image d i dirs f tr t s"
  note r = file_path_reach [OF s assms(2-4), of True]
  obtain u where u: "set_node (d @ q) (Some (Reg c (Some mode))) s = Some u" "in_image d i dirs f tr (t(q \<mapsto> Reg c (Some mode))) u"
    using file_ok_put [OF s assms(2,4), of "Some (Reg c (Some mode))"] by auto
  have "do_chmod env p mode s = Some u" using r assms(5) u(1) by (simp add: do_chmod_def)
  then show "\<exists>s'. chmod_path env p mode s = (Inr (), s') \<and> in_image d i dirs f tr (t(q \<mapsto> Reg c (Some mode))) s'"
    using run_sys [OF assms(1) _ u(2)] by (simp add: chmod_path_def)
qed

lemma turns_unlink:
  assumes "quiet env" and "file_path dirs q" and "parts_of env p = d @ q"
  shows "turns d i dirs f tr t (unlink_path env p) (t(q := None))"
  unfolding turns_def
proof (intro allI impI)
  fix s assume s: "in_image d i dirs f tr t s"
  have ok: "tree_ok dirs t" using s by (simp add: in_image_def)
  have q: "\<forall>c \<in> set q. ordinary c" "\<forall>r. strict_prefix r q \<longrightarrow> r \<in> dirs" "q \<noteq> []" "q \<notin> dirs" using assms(2) by (simp_all add: file_path_def)
  have nd: "t q \<noteq> Some Dir" using ok q(4) by (auto simp: tree_ok_def)
  show "\<exists>s'. unlink_path env p s = (Inr (), s') \<and> in_image d i dirs f tr (t(q := None)) s'"
  proof (cases "t q")
    case None
    then have "t(q := None) = t" by auto
    moreover have "do_unlink env p s = None"
      using in_image_walk(1) [OF s q(1,2), of False max_links] in_image_walk(2) [OF s q(1,2), of False] None assms(3) by (simp add: do_unlink_def reach_path_def)
    ultimately show ?thesis using s by (simp add: unlink_path_def b_try_def in_image_step)
  next
    case (Some x)
    then have "\<forall>r. strict_prefix r q \<longrightarrow> t r = Some Dir" using ok unfolding tree_ok_def by blast
    then have r: "reach_path env False p s = Some (d @ q)" "look (visible s) (d @ q) = t q"
      using in_image_walk(1) [OF s q(1,2), of False max_links] in_image_walk(2) [OF s q(1,2), of False] assms(3) by (simp_all add: reach_path_def)
    obtain u where u: "set_node (d @ q) None s = Some u" "in_image d i dirs f tr (t(q := None)) u"
      using in_image_set [OF s q(3) tree_ok_del [OF ok q(4)]] by auto
    have "do_unlink env p s = Some u" using r Some nd u(1) by (simp add: do_unlink_def)
    then show ?thesis using u(2) assms(1) by (simp add: unlink_path_def b_try_def quiet_def in_image_step)
  qed
qed

lemma turns_symlink:
  assumes "quiet env" and "file_path dirs q" and "parts_of env p = d @ q" and "t (butlast q) = Some Dir" and "t q = None"
  shows "turns d i dirs f tr t (symlink_path env target p) (t(q \<mapsto> Lnk target))"
  unfolding turns_def
proof (intro allI impI)
  fix s assume s: "in_image d i dirs f tr t s"
  note r = file_path_reach [OF s assms(2-4), of False]
  obtain u where u: "set_node (d @ q) (Some (Lnk target)) s = Some u" "in_image d i dirs f tr (t(q \<mapsto> Lnk target)) u"
    using file_ok_put [OF s assms(2,4), of "Some (Lnk target)"] by auto
  have "do_symlink env target p s = Some u" using r assms(5) u(1) by (simp add: do_symlink_def)
  then show "\<exists>s'. symlink_path env target p s = (Inr (), s') \<and> in_image d i dirs f tr (t(q \<mapsto> Lnk target)) s'"
    using run_sys [OF assms(1) _ u(2)] by (simp add: symlink_path_def)
qed

lemma tree_ok_mkdir:
  assumes "tree_ok dirs t" and "q \<in> dirs" and "\<forall>r. strict_prefix r q \<longrightarrow> t r = Some Dir" and "t q = None"
  shows "tree_ok dirs (t(q \<mapsto> Dir))"
proof -
  have no: "t p = None" if "strict_prefix q p" for p using tree_ok_absent [OF assms(1) that] assms(4) by simp
  show ?thesis
    using assms no unfolding tree_ok_def by (auto simp: strict_prefix_def)
qed

lemma put_node_there:
  assumes "tree_ok dirs t" and "t q = Some Dir"
  shows "put_node q Dir t = t"
  using assms by (auto simp: put_node_def tree_ok_def)

lemma do_mkdirs_skip:
  assumes "\<forall>c \<in> set (before @ xs). ordinary c" and "\<And>r. prefix r (before @ xs) \<Longrightarrow> r \<noteq> [] \<Longrightarrow> visible s r = Some Dir"
  shows "do_mkdirs before (xs @ ys) s = do_mkdirs (before @ xs) ys s"
  using assms
proof (induction xs arbitrary: before)
  case Nil
  then show ?case by simp
next
  case (Cons c xs)
  have "walk (visible s) max_links True [] (before @ [c]) =
      (if \<forall>q. strict_prefix q (before @ [c]) \<and> q \<noteq> [] \<longrightarrow> visible s ([] @ q) = Some Dir then Some ([] @ before @ [c]) else None)"
    using Cons.prems by (intro walk_ordinary) (auto simp: strict_prefix_def)
  moreover have "visible s q = Some Dir" if "strict_prefix q (before @ [c])" "q \<noteq> []" for q
    using Cons.prems(2) [of q] that by (auto simp: strict_prefix_def)
  moreover have "look (visible s) (before @ [c]) = Some Dir"
    using Cons.prems(2) [of "before @ [c]"] by (auto simp: look_def)
  ultimately show ?case using Cons.IH [of "before @ [c]"] Cons.prems by simp
qed

lemma do_mkdirs_in:
  assumes "in_image d i dirs f tr t s" and "dir_path dirs (q @ cs)" and "t q = Some Dir"
  shows "\<exists>u. do_mkdirs (d @ q) cs s = Some u \<and> in_image d i dirs f tr (put_node (q @ cs) Dir t) u"
  using assms
proof (induction cs arbitrary: q t s)
  case Nil
  then have "put_node q Dir t = t" by (auto simp: in_image_def intro: put_node_there)
  then show ?case using Nil by simp
next
  case (Cons c cs)
  let ?q = "q @ [c]"
  have ok: "tree_ok dirs t" using Cons.prems(1) by (simp add: in_image_def)
  have q: "\<forall>c \<in> set ?q. ordinary c" "\<forall>r. prefix r ?q \<longrightarrow> r \<in> dirs"
    using Cons.prems(2) by (auto simp: dir_path_def prefix_append prefix_Cons)
  then have sq: "\<forall>r. strict_prefix r ?q \<longrightarrow> r \<in> dirs" by (auto simp: strict_prefix_def)
  have up: "\<forall>r. strict_prefix r ?q \<longrightarrow> t r = Some Dir" using parents_dirs [OF ok] Cons.prems(3) by (metis butlast_snoc)
  have kind: "t ?q = None \<or> t ?q = Some Dir"
    using ok q(2) unfolding tree_ok_def by (metis option.exhaust prefix_order.refl)
  then have w: "walk (visible s) max_links True [] (d @ ?q) = Some (d @ ?q)" "look (visible s) (d @ ?q) = t ?q"
    using in_image_walk(1) [OF Cons.prems(1) q(1) sq, of True max_links] in_image_walk(2) [OF Cons.prems(1) q(1) sq, of True] up by auto
  show ?case
  proof (cases "t ?q = Some Dir")
    case True
    then show ?thesis using Cons.IH [of t s ?q] Cons.prems w by simp
  next
    case False
    then have none: "t ?q = None" using kind by simp
    have ok': "tree_ok dirs (t(?q \<mapsto> Dir))" using tree_ok_mkdir [OF ok _ up none] q(2) by simp
    obtain v where v: "set_node (d @ ?q) (Some Dir) s = Some v" "in_image d i dirs f tr (t(?q \<mapsto> Dir)) v"
      using in_image_set [OF Cons.prems(1) _ ok'] by auto
    have eq: "put_node (?q @ cs) Dir (t(?q \<mapsto> Dir)) = put_node (?q @ cs) Dir t"
      by (auto simp: put_node_def strict_prefix_def)
    have "\<exists>u. do_mkdirs (d @ ?q) cs v = Some u \<and> in_image d i dirs f tr (put_node (?q @ cs) Dir t) u"
      unfolding eq [symmetric] by (rule Cons.IH [OF v(2)]) (use Cons.prems(2) in simp_all)
    then show ?thesis using v(1) w none by simp
  qed
qed

lemma turns_mkdirs:
  assumes "quiet env" and "dir_path dirs q" and "parts_of env p = d @ q"
  shows "turns d i dirs f tr t (mkdirs_path env p) (put_node q Dir t)"
  unfolding turns_def
proof (intro allI impI)
  fix s assume s: "in_image d i dirs f tr t s"
  note v = in_image_sees [OF s]
  obtain u where u: "do_mkdirs (d @ []) q s = Some u" "in_image d i dirs f tr (put_node ([] @ q) Dir t) u"
    using do_mkdirs_in [OF s, of "[]" q] assms(2) v(5) by auto
  have "do_mkdirs [] (d @ q) s = do_mkdirs ([] @ d) q s"
    using v(3) by (intro do_mkdirs_skip) (auto simp: mount_dir_def)
  then show "\<exists>s'. mkdirs_path env p s = (Inr (), s') \<and> in_image d i dirs f tr (put_node q Dir t) s'"
    using run_sys [OF assms(1), of "do_mkdirs [] (parts_of env p)" s u] u assms(3) by (simp add: mkdirs_path_def)
qed

text \<open>A file of the host, reached through directories, copied into the image with its permission bits.\<close>

definition host_file :: "string list \<Rightarrow> fs \<Rightarrow> string list \<Rightarrow> string \<Rightarrow> nat option \<Rightarrow> bool" where
  "host_file d f e c m \<longleftrightarrow> e \<noteq> [] \<and> (\<forall>x \<in> set e. ordinary x) \<and> f e = Some (Reg c m) \<and> \<not> prefix d e \<and>
     (\<forall>r. strict_prefix r e \<and> r \<noteq> [] \<longrightarrow> f r = Some Dir)"

lemma host_file_reach:
  assumes "in_image d i dirs f tr t s" and "host_file d f e c m" and "parts_of env p = e"
  shows "reach_path env True p s = Some e" and "look (visible s) e = Some (Reg c m)"
proof -
  note v = in_image_sees(2) [OF assms(1)]
  have out: "\<not> prefix d r" if "prefix r e" for r using assms(2) that by (auto simp: host_file_def dest: prefix_order.trans)
  have "walk (visible s) max_links True [] e =
      (if \<forall>q. strict_prefix q e \<and> q \<noteq> [] \<longrightarrow> visible s ([] @ q) = Some Dir then Some ([] @ e) else None)"
    using assms(2) out v by (intro walk_ordinary) (auto simp: host_file_def strict_prefix_def)
  then show "reach_path env True p s = Some e"
    using assms(2,3) out v by (auto simp: reach_path_def host_file_def strict_prefix_def)
  show "look (visible s) e = Some (Reg c m)" using assms(2) out [of e] v by (simp add: host_file_def look_def)
qed

lemma turns_copy:
  assumes "quiet env" and "file_path dirs q" and "parts_of env p = d @ q" and "t (butlast q) = Some Dir"
    and "\<forall>x. t q \<noteq> Some (Lnk x)" and "host_file d f e c m" and "parts_of env src = e"
  shows "turns d i dirs f tr t (copy_path env src p) (t(q \<mapsto> Reg c m))"
  unfolding turns_def
proof (intro allI impI)
  fix s assume s: "in_image d i dirs f tr t s"
  note r = file_path_reach [OF s assms(2-4), of True] and e = host_file_reach [OF s assms(6,7)]
  have nd: "t q \<noteq> Some Dir" using s assms(2) by (auto simp: in_image_def tree_ok_def file_path_def)
  obtain u where u: "set_node (d @ q) (Some (Reg c m)) s = Some u" "in_image d i dirs f tr (t(q \<mapsto> Reg c m)) u"
    using file_ok_put [OF s assms(2,4), of "Some (Reg c m)"] by auto
  have "do_copy env src p s = Some u" using r assms(5) nd e u(1) by (simp add: do_copy_def)
  then show "\<exists>s'. copy_path env src p s = (Inr (), s') \<and> in_image d i dirs f tr (t(q \<mapsto> Reg c m)) s'"
    using run_sys [OF assms(1) _ u(2)] by (simp add: copy_path_def)
qed

section \<open>Paths of the program\<close>

lemma split_on_two: "split_on c (xs @ c # ys) = split_on c xs @ split_on c ys"
  by (induction xs) (auto split: list.split)

lemma path_components_append: "path_components (m @ CHR ''/'' # y) = path_components m @ path_components y"
  by (simp add: path_components_def split_on_two)

lemma starts_with_slash: "starts_with p ''/'' \<longleftrightarrow> (\<exists>y. p = CHR ''/'' # y)"
  by (auto simp: starts_with_iff)

lemma parts_of_below: "m \<noteq> [] \<Longrightarrow> parts_of env (m @ CHR ''/'' # y) = parts_of env m @ path_components y"
proof (cases m)
  case Nil
  then show "m \<noteq> [] \<Longrightarrow> ?thesis" by simp
next
  case (Cons x xs)
  then have "starts_with (m @ CHR ''/'' # y) ''/'' \<longleftrightarrow> starts_with m ''/''" by (simp add: starts_with_slash)
  then show ?thesis by (simp add: parts_of_def join_parts_def path_components_append)
qed

section \<open>Files of the host beside each other\<close>

text \<open>A host with nothing mounted, and a directory of it that is reached through directories.\<close>

definition host_at :: "fs \<Rightarrow> (string list \<Rightarrow> fs) \<Rightarrow> bhost \<Rightarrow> bool" where
  "host_at f tr s \<longleftrightarrow> bh_mounts s = [] \<and> bh_fs s = f \<and> bh_trees s = tr"

definition site :: "string list \<Rightarrow> fs \<Rightarrow> bool" where
  "site ds f \<longleftrightarrow> (\<forall>c \<in> set ds. ordinary c) \<and> (\<forall>q. prefix q ds \<and> q \<noteq> [] \<longrightarrow> f q = Some Dir)"

lemma host_at_visible: "host_at f tr s \<Longrightarrow> visible s = f"
  by (simp add: host_at_def visible_def mount_over_def)

lemma site_upd: "site ds f \<Longrightarrow> site ds (f(ds @ [x] := n))"
  by (auto simp: site_def dest: prefix_length_le)

lemma host_at_reach:
  assumes "host_at f tr s" and "site ds f" and "ordinary x" and "parts_of env p = ds @ [x]"
    and "follow \<Longrightarrow> \<forall>y. f (ds @ [x]) \<noteq> Some (Lnk y)"
  shows "reach_path env follow p s = Some (ds @ [x])" and "look (visible s) (ds @ [x]) = f (ds @ [x])"
proof -
  have v: "visible s = f" by (rule host_at_visible [OF assms(1)])
  have dirs: "f q = Some Dir" if "strict_prefix q (ds @ [x])" "q \<noteq> []" for q
    using assms(2) that by (auto simp: site_def strict_prefix_def)
  have "walk f max_links follow [] (ds @ [x]) =
      (if \<forall>q. strict_prefix q (ds @ [x]) \<and> q \<noteq> [] \<longrightarrow> f ([] @ q) = Some Dir then Some ([] @ ds @ [x]) else None)"
    using assms(2,3,5) dirs by (intro walk_ordinary) (auto simp: site_def)
  then show "reach_path env follow p s = Some (ds @ [x])" using dirs assms(4) by (simp add: reach_path_def v)
  show "look (visible s) (ds @ [x]) = f (ds @ [x])" by (simp add: look_def v)
qed

lemma host_at_set: "host_at f tr s \<Longrightarrow> \<exists>u. set_node q x s = Some u \<and> host_at (f(q := x)) tr u"
  by (simp add: host_at_def set_node_def mount_over_def)

lemma host_at_step [simp]: "host_at f tr (bh_step s) = host_at f tr s"
  by (simp add: host_at_def bh_step_def)

lemma b_sys_quiet: "quiet env \<Longrightarrow> g s = Some u \<Longrightarrow> b_sys env e g s = (Inr (), bh_step u)"
  by (simp add: b_sys_def quiet_def)

lemma b_cmd_quiet: "quiet env \<Longrightarrow> g s = Some u \<Longrightarrow> b_must (b_cmd env c g) e s = (Inr (), bh_step u)"
  by (simp add: b_cmd_def b_must_def quiet_def op_bind_apply op_ret_def)

lemma host_write:
  assumes "quiet env" and "host_at f tr s" and "site ds f" and "ordinary x" and "parts_of env p = ds @ [x]"
    and "f (ds @ [x]) = None \<or> (\<exists>a m. f (ds @ [x]) = Some (Reg a m))"
  shows "\<exists>u. write_path env p c s = (Inr (), u) \<and> host_at (f(ds @ [x] \<mapsto> Reg c (bits_of (f (ds @ [x]))))) tr u"
proof -
  note r = host_at_reach [OF assms(2-5), of True]
  obtain u where u: "set_node (ds @ [x]) (Some (Reg c (bits_of (f (ds @ [x]))))) s = Some u"
    "host_at (f(ds @ [x] \<mapsto> Reg c (bits_of (f (ds @ [x]))))) tr u"
    using host_at_set [OF assms(2)] by blast
  have "do_write env p c s = Some u" using r assms(6) u(1) by (auto simp: do_write_def bits_of_def)
  then show ?thesis using b_sys_quiet [OF assms(1)] u(2) by (simp add: write_path_def)
qed

lemma host_unlink:
  assumes "quiet env" and "host_at f tr s" and "site ds f" and "ordinary x" and "parts_of env p = ds @ [x]" and "f (ds @ [x]) \<noteq> Some Dir"
  shows "\<exists>u. unlink_path env p s = (Inr (), u) \<and> host_at (f(ds @ [x] := None)) tr u"
proof -
  note r = host_at_reach [OF assms(2-5), of False]
  obtain u where u: "set_node (ds @ [x]) None s = Some u" "host_at (f(ds @ [x] := None)) tr u"
    using host_at_set [OF assms(2)] by blast
  show ?thesis
  proof (cases "f (ds @ [x])")
    case None
    then have "f(ds @ [x] := None) = f" by auto
    then show ?thesis using r None assms(2) by (simp add: unlink_path_def b_try_def do_unlink_def)
  next
    case (Some n)
    then have "do_unlink env p s = Some u" using r assms(6) u(1) by (simp add: do_unlink_def)
    then show ?thesis using u(2) assms(1) by (simp add: unlink_path_def b_try_def quiet_def)
  qed
qed

lemma host_mkdirs:
  assumes "quiet env" and "host_at f tr s" and "site ds f" and "ordinary x" and "parts_of env p = ds @ [x]"
    and "f (ds @ [x]) = None \<or> f (ds @ [x]) = Some Dir"
  shows "\<exists>u. mkdirs_path env p s = (Inr (), u) \<and> host_at (f(ds @ [x] \<mapsto> Dir)) tr u"
proof -
  note r = host_at_reach [OF assms(2-5), of True]
  have skip: "do_mkdirs [] (ds @ [x]) s = do_mkdirs ([] @ ds) [x] s"
    using assms(3) host_at_visible [OF assms(2)] by (intro do_mkdirs_skip) (auto simp: site_def)
  obtain u where u: "set_node (ds @ [x]) (Some Dir) s = Some u" "host_at (f(ds @ [x] \<mapsto> Dir)) tr u"
    using host_at_set [OF assms(2)] by blast
  have "\<exists>u. do_mkdirs [] (ds @ [x]) s = Some u \<and> host_at (f(ds @ [x] \<mapsto> Dir)) tr u"
  proof (cases "f (ds @ [x])")
    case None
    then show ?thesis using skip r u assms(5) by (simp add: reach_path_def)
  next
    case (Some n)
    then have "f(ds @ [x] \<mapsto> Dir) = f" using assms(6) by auto
    then show ?thesis using skip r Some assms(2,5,6) by (simp add: reach_path_def)
  qed
  then show ?thesis using b_sys_quiet [OF assms(1)] assms(5) by (auto simp: mkdirs_path_def)
qed

lemma host_rmdir:
  assumes "quiet env" and "host_at f tr s" and "site ds f" and "ordinary x" and "parts_of env p = ds @ [x]" and "f (ds @ [x]) = Some Dir"
    and "\<And>c. f (ds @ [x, c]) = None"
  shows "\<exists>u. rmdir_path env p s = (Inr (), u) \<and> host_at (f(ds @ [x] := None)) tr u"
proof -
  note r = host_at_reach [OF assms(2-5), of False]
  obtain u where u: "set_node (ds @ [x]) None s = Some u" "host_at (f(ds @ [x] := None)) tr u"
    using host_at_set [OF assms(2)] by blast
  have "do_rmdir env p s = Some u"
    using r assms(2,6,7) host_at_visible [OF assms(2)] u(1) by (simp add: do_rmdir_def host_at_def)
  then show ?thesis using u(2) assms(1) by (simp add: rmdir_path_def b_try_def quiet_def)
qed

section \<open>Mounting and unmounting\<close>

lemma mount_dir_site: "site ds f \<Longrightarrow> ordinary x \<Longrightarrow> f (ds @ [x]) = Some Dir \<Longrightarrow> mount_dir (ds @ [x]) f"
  by (auto simp: mount_dir_def site_def)

lemma host_mount:
  assumes "quiet env" and "host_at f tr s" and "site ds f" and "ordinary x" and "parts_of env img = ds @ [x]"
    and "ordinary y" and "parts_of env target = ds @ [y]" and "f (ds @ [x]) = Some (Disk n True)" and "f (ds @ [y]) = Some Dir"
    and "tree_ok dirs (look (tr (ds @ [x])))"
  shows "\<exists>u. b_must (b_cmd env c (do_mount env img target False)) e s = (Inr (), u) \<and>
    in_image (ds @ [y]) (ds @ [x]) dirs f tr (look (tr (ds @ [x]))) u"
proof -
  note r = host_at_reach [OF assms(2-5), of True] host_at_reach [OF assms(2,3,6,7), of True]
  have "do_mount env img target False s = Some (s\<lparr>bh_mounts := \<lparr>mt_dir = ds @ [y], mt_src = Image (ds @ [x]), mt_ro = False\<rparr> # bh_mounts s\<rparr>)"
    using r assms(8,9) by (simp add: do_mount_def is_image_def)
  then show ?thesis
    using b_cmd_quiet [OF assms(1)] assms(2,10) mount_dir_site [OF assms(3,6,9)]
    by (simp add: in_image_def host_at_def bh_step_def)
qed

lemma image_umount:
  assumes "quiet env" and "in_image d i dirs f tr t s" and "parts_of env target = d"
  shows "\<exists>u tr'. b_sys env e (do_umount env target) s = (Inr (), u) \<and> host_at f tr' u \<and> (\<forall>j. j \<noteq> i \<longrightarrow> tr' j = tr j) \<and> look (tr' i) = t"
proof -
  note v = in_image_sees [OF assms(2)]
  have "walk (visible s) max_links True [] (d @ []) = Some (d @ [])"
    by (rule walk_below_present [OF v(3,4)]) (use v(1) [of "[]"] v(5) in auto)
  then have "do_umount env target s = Some (s\<lparr>bh_mounts := []\<rparr>)"
    using assms(2,3) by (simp add: do_umount_def reach_path_def in_image_def)
  then show ?thesis
    using b_sys_quiet [OF assms(1)] assms(2) by (auto simp: in_image_def host_at_def bh_step_def)
qed

end
