(* ===== verification/Image.thy ===== *)
theory Image
  imports Mounted
begin

text \<open>
  The root file system made from a container image (\<open>src/src/image.rs\<close>): the cache by digest, a new
  image file, the layers extracted into it, the agent and its files installed. The registry, the
  parsing of references and the archives are parameters.
\<close>

section \<open>Parameters\<close>

record layer_ref =
  lr_media :: string
  lr_digest :: string

text \<open>
  What the registry answers in one run: the manifest's layers and digest, and each layer's archive;
  and the two media types that name archives of files.
\<close>

record image_env =
  ie_host :: build_env
  ie_layer :: layer_env
  ie_parses :: "string \<Rightarrow> bool"
  ie_manifest :: "(layer_ref list \<times> string) option"
  ie_blob :: "layer_ref \<Rightarrow> tar_entry option list option option"
  ie_media :: "string \<times> string"
  ie_exe :: "string option"

section \<open>The image file\<close>

definition default_image_size :: nat where
  "default_image_size = 6 * 1024 * 1024 * 1024"

text \<open>Creating the file empties it, through links; then its length is set, then it is formatted.\<close>

definition do_truncate :: "build_env \<Rightarrow> string \<Rightarrow> nat \<Rightarrow> bhost \<Rightarrow> bhost option" where
  "do_truncate env p n s =
     obind (reach_path env True p s) (\<lambda>q. if look (visible s) q = Some Dir then None else set_node q (Some (Disk n False)) s)"

definition do_mkfs :: "build_env \<Rightarrow> string \<Rightarrow> bhost \<Rightarrow> bhost option" where
  "do_mkfs env p s =
     obind (reach_path env True p s) (\<lambda>q.
       case look (visible s) q of
         Some (Disk n _) \<Rightarrow>
           map_option (\<lambda>t. t\<lparr>bh_trees := (bh_trees t)(q := [[''lost+found''] \<mapsto> Dir])\<rparr>) (set_node q (Some (Disk n True)) s)
       | _ \<Rightarrow> None)"

definition create_ext4_image :: "build_env \<Rightarrow> string \<Rightarrow> nat \<Rightarrow> unit build_op" where
  "create_ext4_image env p n = b_all
     [b_sys env (CallFailed p) (do_truncate env p 0),
      b_sys env (CallFailed p) (do_truncate env p n),
      b_must (b_cmd env ''mkfs.ext4'' (do_mkfs env p)) (CmdFailed ''mkfs.ext4'')]"

definition mount_image :: "build_env \<Rightarrow> string \<Rightarrow> string \<Rightarrow> unit build_op" where
  "mount_image env img target = b_must (b_cmd env ''mount'' (do_mount env img target False)) (CmdFailed ''mount'')"

definition umount_image :: "build_env \<Rightarrow> string \<Rightarrow> unit build_op" where
  "umount_image env target = b_sys env (CallFailed target) (do_umount env target)"

section \<open>The layers\<close>

definition extract_onto :: "image_env \<Rightarrow> string \<Rightarrow> tar_entry option list option \<Rightarrow> unit build_op" where
  "extract_onto env mnt archive s =
     (case reach_path (ie_host env) True mnt s of
        None \<Rightarrow> (Inl (CallFailed mnt), s)
      | Some d \<Rightarrow>
          (case extract_layer (ie_layer env) d archive \<lparr>ls_fs = visible s, ls_tick = bh_tick s\<rparr> of
             (r, t) \<Rightarrow> (map_sum LayerFailed id r, (put_visible (ls_fs t) s)\<lparr>bh_tick := ls_tick t\<rparr>)))"

fun extract_all_layers :: "image_env \<Rightarrow> string \<Rightarrow> layer_ref list \<Rightarrow> unit build_op" where
  "extract_all_layers env mnt [] = op_ret ()"
| "extract_all_layers env mnt (l # ls) =
     (if lr_media l \<noteq> fst (ie_media env) \<and> lr_media l \<noteq> snd (ie_media env)
      then extract_all_layers env mnt ls
      else (case ie_blob env l of
              None \<Rightarrow> op_fail BlobFailed
            | Some archive \<Rightarrow> op_seq (extract_onto env mnt archive) (extract_all_layers env mnt ls)))"

section \<open>The files of the agent\<close>

definition exec_bits :: nat where "exec_bits = 493"

definition tab :: string where "tab = [CHR 0x09]"

definition image_entrypoint :: string where
  \<open>image_entrypoint = unlines
     [''#!/bin/bash'', ''set -euo pipefail'', ''exec > /var/log/runner.log 2>&1'',
      ''echo "=== fc-runner entrypoint $(date) ==="'', ''if [ -x /usr/local/bin/fc-runner ]; then'',
      tab @ ''exec /usr/local/bin/fc-runner agent --log-level info'', ''fi'',
      ''echo "fc-runner binary not found"'', ''reboot -f'']\<close>

definition image_rc_local :: string where
  "image_rc_local = unlines [''#!/bin/bash'', ''/entrypoint.sh >> /var/log/runner.log 2>&1 &'', ''exit 0'']"

definition root_fstab :: string where
  "root_fstab = ''/dev/vda'' @ tab @ ''/'' @ tab @ ''ext4'' @ tab @ ''defaults,noatime'' @ tab @ ''0'' @ tab @ ''1'' @ [CHR 0x0A]"

definition docker_wrapper :: string where
  \<open>docker_wrapper = unlines [''#!/bin/sh'', ''exec sudo /usr/bin/podman "$@"'']\<close>

definition containers_conf :: string where
  \<open>containers_conf = unlines
     [''[containers]'', ''dns_servers = ["8.8.8.8", "1.1.1.1"]'', '''', ''[engine]'', ''cgroup_manager = "cgroupfs"'',
      ''runtime = "crun"'']\<close>

definition registries_conf :: string where
  \<open>registries_conf = unlines [''unqualified-search-registries = ["docker.io"]'', ''short-name-mode = "permissive"'']\<close>

definition policy_json :: string where
  \<open>policy_json = unlines [''{ "default": [{ "type": "insecureAcceptAnything" }] }'']\<close>

definition image_overlay_init :: string where
  \<open>image_overlay_init = unlines
    [''#!/bin/sh'',
     ''# overlay-init: OverlayFS COW boot for Firecracker VMs'',
     '''',
     ''echo "overlay-init: starting"'',
     '''',
     ''# Mount /proc so we can read kernel command line (not available as PID 1)'',
     ''/bin/mount -t proc proc /proc'',
     '''',
     ''for arg in $(cat /proc/cmdline); do'',
     ''    key="${arg%%=*}"'',
     ''    val="${arg#*=}"'',
     ''    case "$key" in'',
     ''        overlay_root) overlay_root="$val" ;;'',
     ''    esac'',
     ''done'',
     '''',
     ''echo "overlay-init: overlay_root=$overlay_root"'',
     '''',
     ''pivot() {'',
     ''    /bin/mount '' @ [CHR 0x5C],
     ''        -o noatime,lowerdir=/,upperdir="$1",workdir="$2" '' @ [CHR 0x5C],
     ''        -t overlay "overlayfs:$1" /mnt'',
     ''    pivot_root /mnt /mnt/rom'',
     ''}'',
     '''',
     ''if [ -z "$overlay_root" ]; then'',
     ''    echo "overlay-init: no overlay_root, booting normally"'',
     ''    exec /sbin/init "$@"'',
     ''fi'',
     '''',
     ''if [ "$overlay_root" = "ram" ]; then'',
     ''    /bin/mount -t tmpfs -o noatime,mode=0755 tmpfs /overlay'',
     ''else'',
     ''    if [ ! -b "/dev/$overlay_root" ]; then'',
     ''        echo "FATAL: /dev/$overlay_root does not exist"'',
     ''        exec /sbin/init "$@"'',
     ''    fi'',
     ''    /bin/mount -t ext4 -o noatime "/dev/$overlay_root" /overlay'',
     ''fi'',
     '''',
     ''mkdir -p /overlay/root /overlay/work'',
     '''',
     ''# Unmount /proc before creating overlayfs'',
     ''/bin/umount /proc'',
     '''',
     ''pivot /overlay/root /overlay/work'',
     '''',
     ''# Mount devtmpfs so we have access to /dev/vdb in the new root'',
     ''/bin/mount -t devtmpfs devtmpfs /dev'',
     '''',
     ''# Mount overlay ext4 at a persistent path for container storage'',
     ''# Podman/containers need writable storage not on overlayfs'',
     ''mkdir -p /overlay-data'',
     ''/bin/mount -t ext4 -o noatime /dev/vdb /overlay-data'',
     ''mkdir -p /overlay-data/containers'',
     ''# Point Podman graphroot to real ext4 so fuse-overlayfs works'',
     ''mkdir -p /etc/containers'',
     ''cat > /etc/containers/storage.conf <<STOR'',
     ''[storage]'',
     ''driver = "overlay"'',
     ''graphroot = "/overlay-data/containers"'',
     ''runroot = "/run/containers/storage"'',
     ''STOR'',
     ''mkdir -p /run/containers/storage'',
     '''',
     ''# Write /etc/hosts to fix "unable to resolve host" warnings'',
     ''cat > /etc/hosts <<HOSTS'',
     ''127.0.0.1 localhost localhost.localdomain'',
     ''::1 localhost ip6-localhost ip6-loopback'',
     ''HOSTS'',
     '''',
     ''# Pre-configure network directly via ip commands '' @ [CHR 0xE2, CHR 0x80, CHR 0x94] @ '' systemd-networkd has'',
     ''# issues reading config files on overlayfs. Parse the injected networkd'',
     ''# config and apply it immediately so networking works before systemd starts.'',
     ''/bin/mount -t proc proc /proc'',
     ''/bin/mount -t sysfs sys /sys'',
     '''',
     ''if [ -f /etc/systemd/network/20-eth.network ]; then'',
     ''    addr=$(grep '' @ [CHR 0x27] @ ''^Address='' @ [CHR 0x27] @ '' /etc/systemd/network/20-eth.network | head -1 | cut -d= -f2)'',
     ''    gw=$(grep '' @ [CHR 0x27] @ ''^Gateway='' @ [CHR 0x27] @ '' /etc/systemd/network/20-eth.network | head -1 | cut -d= -f2)'',
     ''    if [ -n "$addr" ] && [ -n "$gw" ]; then'',
     ''        ip link set eth0 up'',
     ''        ip addr add "$addr" dev eth0 2>/dev/null'',
     ''        ip route add default via "$gw" 2>/dev/null'',
     ''        echo "overlay-init: network pre-configured $addr gw $gw"'',
     ''    fi'',
     ''fi'',
     '''',
     ''# Diagnostic: verify network state'',
     ''echo "overlay-init: ip addr:"'',
     ''ip addr show eth0 2>&1'',
     ''echo "overlay-init: ip route:"'',
     ''ip route show 2>&1'',
     '''',
     ''/bin/umount /sys'',
     ''/bin/umount /proc'',
     '''',
     ''echo "overlay-init: done, exec /sbin/init"'',
     ''exec /sbin/init "$@"'']\<close>
definition install_overlay_init_into :: "build_env \<Rightarrow> string \<Rightarrow> unit build_op" where
  "install_overlay_init_into env mnt = b_all
     (map (\<lambda>d. mkdirs_path env (mnt @ d)) [''/overlay/root'', ''/overlay/work'', ''/mnt'', ''/rom''] @
      [mkdirs_path env (mnt @ ''/sbin''),
       write_path env (mnt @ ''/sbin/overlay-init'') image_overlay_init,
       chmod_path env (mnt @ ''/sbin/overlay-init'') exec_bits])"

text \<open>The calls between the mount and the unmount.\<close>

definition agent_binary :: "image_env \<Rightarrow> string \<Rightarrow> unit build_op" where
  "agent_binary env mnt =
     (case ie_exe env of
        None \<Rightarrow> op_fail (CallFailed ''current_exe'')
      | Some exe \<Rightarrow> b_all
          [mkdirs_path (ie_host env) (mnt @ ''/usr/local/bin''),
           copy_path (ie_host env) exe (mnt @ ''/usr/local/bin/fc-runner''),
           chmod_path (ie_host env) (mnt @ ''/usr/local/bin/fc-runner'') exec_bits])"

definition write_exec :: "build_env \<Rightarrow> string \<Rightarrow> string \<Rightarrow> unit build_op list" where
  "write_exec env p c = [write_path env p c, chmod_path env p exec_bits]"

definition install_agent_files :: "image_env \<Rightarrow> string \<Rightarrow> unit build_op" where
  "install_agent_files env mnt =
     (let h = ie_host env; at = (\<lambda>p. mnt @ p) in
      op_bind (b_ask (\<lambda>s. \<not> file_exists h (at ''/usr/local/bin/fc-runner'') s)) (\<lambda>needs_install. b_all
        ([if needs_install then agent_binary env mnt else op_ret (),
          op_bind (b_ask (\<lambda>s. needs_install \<or> \<not> file_exists h (at ''/entrypoint.sh'') s)) (\<lambda>b.
            b_when b (write_exec h (at ''/entrypoint.sh'') image_entrypoint)),
          op_bind (b_ask (\<lambda>s. \<not> file_exists h (at ''/etc/rc.local'') s)) (\<lambda>b.
            b_when b (mkdirs_path h (at ''/etc'') # write_exec h (at ''/etc/rc.local'') image_rc_local)),
          write_path h (at ''/etc/fstab'') root_fstab,
          mkdirs_path h (at ''/etc/systemd/system''),
          unlink_path h (at ''/etc/systemd/system/serial-getty@ttyS0.service''),
          symlink_path h ''/dev/null'' (at ''/etc/systemd/system/serial-getty@ttyS0.service''),
          unlink_path h (at ''/usr/bin/docker'')] @
         write_exec h (at ''/usr/bin/docker'') docker_wrapper @
         [mkdirs_path h (at ''/etc/containers''),
          write_path h (at ''/etc/containers/containers.conf'') containers_conf,
          write_path h (at ''/etc/containers/registries.conf'') registries_conf,
          write_path h (at ''/etc/containers/policy.json'') policy_json,
          install_overlay_init_into h mnt])))"

definition install_agent_if_missing :: "image_env \<Rightarrow> string \<Rightarrow> unit build_op" where
  "install_agent_if_missing env rootfs =
     (let h = ie_host env; mnt = rootfs @ ''-agent-install'' in b_all
       [mkdirs_path h mnt, mount_image h rootfs mnt, install_agent_files env mnt, umount_image h mnt, rmdir_path h mnt])"

section \<open>Pulling\<close>

text \<open>The image is there with the digest of the manifest; a digest file that cannot be read counts as empty.\<close>

definition cached_digest :: "build_env \<Rightarrow> string \<Rightarrow> bhost \<Rightarrow> string" where
  "cached_digest env p s = (case (if be_ok env (bh_tick s) then read_at env p s else None) of None \<Rightarrow> [] | Some c \<Rightarrow> c)"

definition digest_file :: "string \<Rightarrow> string" where
  "digest_file out = out @ ''.digest''"

definition build_from_layers :: "image_env \<Rightarrow> layer_ref list \<Rightarrow> string \<Rightarrow> string \<Rightarrow> unit build_op" where
  "build_from_layers env layers digest out =
     (let h = ie_host env; mnt = out @ ''-oci-mount'' in b_all
       [unlink_path h out,
        create_ext4_image h out default_image_size,
        mkdirs_path h mnt,
        mount_image h out mnt,
        (\<lambda>s. case extract_all_layers env mnt layers s of
           (result, t) \<Rightarrow>
             (case umount_image h mnt t of
                (umounted, u) \<Rightarrow> op_seq (rmdir_path h mnt) (op_seq (op_lift result) (op_lift umounted)) u)),
        install_agent_if_missing env out,
        write_path h (digest_file out) digest])"

definition pull_and_convert :: "image_env \<Rightarrow> string \<Rightarrow> string \<Rightarrow> unit build_op" where
  "pull_and_convert env image_ref out =
     (if \<not> ie_parses env image_ref then op_fail BadReference
      else (case ie_manifest env of
              None \<Rightarrow> op_fail NoManifest
            | Some (layers, digest) \<Rightarrow>
                (\<lambda>s. if file_exists (ie_host env) out s \<and> file_exists (ie_host env) (digest_file out) s then
                       (if trim (cached_digest (ie_host env) (digest_file out) s) = digest then (Inr (), bh_step s)
                        else build_from_layers env layers digest out (bh_step s))
                     else build_from_layers env layers digest out s)))"

section \<open>What the installed files are\<close>

abbreviation "runner_at \<equiv> [''usr'', ''local'', ''bin'', ''fc-runner'']"
abbreviation "entry_at \<equiv> [''entrypoint.sh'']"
abbreviation "rc_local_at \<equiv> [''etc'', ''rc.local'']"
abbreviation "fstab_at \<equiv> [''etc'', ''fstab'']"
abbreviation "getty_at \<equiv> [''etc'', ''systemd'', ''system'', ''serial-getty@ttyS0.service'']"
abbreviation "docker_at \<equiv> [''usr'', ''bin'', ''docker'']"
abbreviation "containers_at \<equiv> [''etc'', ''containers'', ''containers.conf'']"
abbreviation "registries_at \<equiv> [''etc'', ''containers'', ''registries.conf'']"
abbreviation "policy_at \<equiv> [''etc'', ''containers'', ''policy.json'']"
abbreviation "init_at \<equiv> [''sbin'', ''overlay-init'']"

definition agent_dirs :: "string list list" where
  "agent_dirs =
     [[''usr'', ''local'', ''bin''], [''usr'', ''bin''], [''etc'', ''systemd'', ''system''], [''etc'', ''containers''],
      [''overlay'', ''root''], [''overlay'', ''work''], [''mnt''], [''rom''], [''sbin'']]"

definition plain_files :: "string list list" where
  "plain_files = [runner_at, entry_at, rc_local_at, fstab_at, containers_at, registries_at, policy_at, init_at]"

text \<open>An image whose directories for the agent are no links, and whose files in their places are neither
  directories nor links (but for the two that are removed first).\<close>

definition agent_fits :: "string list set \<Rightarrow> fs \<Rightarrow> bool" where
  "agent_fits dirs t \<longleftrightarrow> (\<forall>q \<in> set agent_dirs. \<forall>r. prefix r q \<longrightarrow> r \<in> dirs) \<and>
     (\<forall>q \<in> set (getty_at # docker_at # plain_files). q \<notin> dirs) \<and>
     (\<forall>q \<in> set plain_files. \<forall>x. t q \<noteq> Some (Lnk x)) \<and> t [''usr'', ''bin''] = Some Dir"

definition agent_nodes :: "string \<Rightarrow> fs \<Rightarrow> (string list \<times> inode) list" where
  "agent_nodes exe t =
     (if t runner_at = None then [(runner_at, Reg exe (Some exec_bits))] else []) @
     (if t runner_at = None \<or> t entry_at = None then [(entry_at, Reg image_entrypoint (Some exec_bits))] else []) @
     (if t rc_local_at = None then [(rc_local_at, Reg image_rc_local (Some exec_bits))] else []) @
     [(fstab_at, Reg root_fstab (bits_of (t fstab_at))), (getty_at, Lnk ''/dev/null''),
      (docker_at, Reg docker_wrapper (Some exec_bits)),
      (containers_at, Reg containers_conf (bits_of (t containers_at))),
      (registries_at, Reg registries_conf (bits_of (t registries_at))),
      (policy_at, Reg policy_json (bits_of (t policy_at))), (init_at, Reg image_overlay_init (Some exec_bits))]"

text \<open>The image with the agent: the files above, the directories for them, and everything else as it was.\<close>

definition agent_tree :: "string \<Rightarrow> fs \<Rightarrow> fs" where
  "agent_tree exe t =
     (\<lambda>p. case map_of (agent_nodes exe t) p of
        Some n \<Rightarrow> Some n
      | None \<Rightarrow> if \<exists>q \<in> set agent_dirs. prefix p q then Some Dir else t p)"

lemma agent_parts:
  "path_components ''usr/local/bin'' = [''usr'', ''local'', ''bin'']"
  "path_components ''usr/local/bin/fc-runner'' = runner_at" "path_components ''entrypoint.sh'' = entry_at"
  "path_components ''etc'' = [''etc'']" "path_components ''etc/rc.local'' = rc_local_at" "path_components ''etc/fstab'' = fstab_at"
  "path_components ''etc/systemd/system'' = [''etc'', ''systemd'', ''system'']"
  "path_components ''etc/systemd/system/serial-getty@ttyS0.service'' = getty_at"
  "path_components ''usr/bin/docker'' = docker_at" "path_components ''etc/containers'' = [''etc'', ''containers'']"
  "path_components ''etc/containers/containers.conf'' = containers_at"
  "path_components ''etc/containers/registries.conf'' = registries_at"
  "path_components ''etc/containers/policy.json'' = policy_at" "path_components ''overlay/root'' = [''overlay'', ''root'']"
  "path_components ''overlay/work'' = [''overlay'', ''work'']" "path_components ''mnt'' = [''mnt'']"
  "path_components ''rom'' = [''rom'']" "path_components ''sbin'' = [''sbin'']"
  "path_components ''sbin/overlay-init'' = init_at"
  by code_simp+

lemma agent_file_paths:
  assumes "agent_fits dirs t"
  shows "q \<in> set (getty_at # docker_at # plain_files) \<Longrightarrow> file_path dirs q"
    and "\<exists>a \<in> set agent_dirs. prefix q a \<Longrightarrow> dir_path dirs q"
proof -
  have ord: "\<forall>a \<in> set agent_dirs. \<forall>c \<in> set a. ordinary c" by (simp add: agent_dirs_def ordinary_def)
  show dir: "dir_path dirs q" if "\<exists>a \<in> set agent_dirs. prefix q a" for q
    using assms that ord unfolding dir_path_def agent_fits_def by (meson prefix_order.trans set_mono_prefix subsetD)
  show "file_path dirs q" if "q \<in> set (getty_at # docker_at # plain_files)" for q
  proof -
    have b: "\<exists>a \<in> set agent_dirs. prefix (butlast q) a" "q \<noteq> []" "\<forall>c \<in> set q. ordinary c"
      using that by (auto simp: plain_files_def agent_dirs_def ordinary_def)
    have "r \<in> dirs" if r: "strict_prefix r q" for r
    proof -
      have "prefix r (butlast q)" using r b(2) by (metis append_butlast_last_id prefix_order.less_le prefix_snoc)
      then show ?thesis using dir [OF b(1)] by (simp add: dir_path_def)
    qed
    then show ?thesis using b assms that by (auto simp: file_path_def agent_fits_def)
  qed
qed

text \<open>A file made executable: written, then its bits set.\<close>

lemma turns_exec:
  assumes "quiet env" and "file_path dirs q" and "parts_of env p = d @ q" and "t (butlast q) = Some Dir"
    and "\<forall>x. t q \<noteq> Some (Lnk x)" and "turns d i dirs f tr (t(q \<mapsto> Reg c (Some exec_bits))) (b_all ms) u"
  shows "turns d i dirs f tr t (b_all (write_exec env p c @ ms)) u"
proof -
  have q: "q \<noteq> []" using assms(2) by (simp add: file_path_def)
  then have "butlast q \<noteq> q" by (metis append_butlast_last_id not_Cons_self2 self_append_conv)
  then have b: "(t(q \<mapsto> Reg c (bits_of (t q)))) (butlast q) = Some Dir" using assms(4) by simp
  have "turns d i dirs f tr (t(q \<mapsto> Reg c (bits_of (t q)))) (chmod_path env p exec_bits)
      ((t(q \<mapsto> Reg c (bits_of (t q))))(q \<mapsto> Reg c (Some exec_bits)))"
    by (rule turns_chmod [OF assms(1-3)]) (use b in simp_all)
  then have c: "turns d i dirs f tr (t(q \<mapsto> Reg c (bits_of (t q)))) (chmod_path env p exec_bits) (t(q \<mapsto> Reg c (Some exec_bits)))"
    by simp
  show ?thesis
    unfolding write_exec_def append.simps by (rule turns_Cons [OF turns_write [OF assms(1-5)] turns_Cons [OF c assms(6)]])
qed

lemma overlay_turns:
  assumes "quiet h" and "agent_fits dirs t0" and "parts_of h mnt = d" and "mnt \<noteq> []" and "\<forall>x. t init_at \<noteq> Some (Lnk x)"
  shows "turns d i dirs f tr t (install_overlay_init_into h mnt)
    ((foldl (\<lambda>u q. put_node q Dir u) t [[''overlay'', ''root''], [''overlay'', ''work''], [''mnt''], [''rom''], [''sbin'']])
       (init_at \<mapsto> Reg image_overlay_init (Some exec_bits)))"
proof -
  have dp: "dir_path dirs q" if "q \<in> set agent_dirs" for q
    using agent_file_paths(2) [OF assms(2)] that by blast
  have fp: "file_path dirs init_at" using agent_file_paths(1) [OF assms(2), of init_at] by (simp add: plain_files_def)
  have at: "parts_of h (mnt @ CHR ''/'' # y) = d @ path_components y" for y
    using parts_of_below [OF assms(4)] assms(3) by simp
  have mk: "turns d i dirs f tr u (mkdirs_path h (mnt @ CHR ''/'' # y)) (put_node q Dir u)"
    if "path_components y = q" "q \<in> set agent_dirs" for y q u
    using turns_mkdirs [OF assms(1) dp [OF that(2)]] at that(1) by simp
  have m: "turns d i dirs f tr u (mkdirs_path h (mnt @ ''/overlay/root'')) (put_node [''overlay'', ''root''] Dir u)"
    "turns d i dirs f tr u (mkdirs_path h (mnt @ ''/overlay/work'')) (put_node [''overlay'', ''work''] Dir u)"
    "turns d i dirs f tr u (mkdirs_path h (mnt @ ''/mnt'')) (put_node [''mnt''] Dir u)"
    "turns d i dirs f tr u (mkdirs_path h (mnt @ ''/rom'')) (put_node [''rom''] Dir u)"
    "turns d i dirs f tr u (mkdirs_path h (mnt @ ''/sbin'')) (put_node [''sbin''] Dir u)" for u
    by (rule mk; simp add: agent_parts agent_dirs_def)+
  have w: "turns d i dirs f tr u (b_all [write_path h (mnt @ ''/sbin/overlay-init'') image_overlay_init,
      chmod_path h (mnt @ ''/sbin/overlay-init'') exec_bits]) (u(init_at \<mapsto> Reg image_overlay_init (Some exec_bits)))"
    if "u [''sbin''] = Some Dir" "\<forall>x. u init_at \<noteq> Some (Lnk x)" for u
  proof -
    have "turns d i dirs f tr u (b_all (write_exec h (mnt @ ''/sbin/overlay-init'') image_overlay_init @ []))
        (u(init_at \<mapsto> Reg image_overlay_init (Some exec_bits)))"
      using that by (intro turns_exec [OF assms(1) fp] turns_Nil) (simp_all add: at agent_parts)
    then show ?thesis by (simp add: write_exec_def)
  qed
  show ?thesis
    unfolding install_overlay_init_into_def list.map append.simps foldl.simps
    by (rule turns_Cons [OF m(1) turns_Cons [OF m(2) turns_Cons [OF m(3) turns_Cons [OF m(4) turns_Cons [OF m(5) w]]]]])
       (use assms(5) in \<open>simp_all add: put_node_def\<close>)
qed

lemma put_dir_at: "put_node q Dir t p = (if prefix p q then Some Dir else t p)"
  by (auto simp: put_node_def strict_prefix_def)

lemma turns_ret [simp]: "turns d i dirs f tr t (op_ret ()) t"
  by (simp add: turns_def op_ret_def)

text \<open>Installing the agent, call by call.\<close>

lemma install_agent_turns:
  assumes "quiet (ie_host env)" and "mnt \<noteq> []" and "parts_of (ie_host env) mnt = d" and "agent_fits dirs t" and "tree_ok dirs t"
    and "t [] = Some Dir" and "ie_exe env = Some exe" and "parts_of (ie_host env) exe = e" and "host_file d f e c m"
  shows "turns d i dirs f tr t (install_agent_files env mnt) (agent_tree c t)"
proof -
  let ?h = "ie_host env" and ?W = "turns d i dirs f tr"
  have at: "parts_of ?h (mnt @ CHR ''/'' # y) = d @ path_components y" for y using parts_of_below [OF assms(2)] assms(3) by simp
  have fp: "file_path dirs q" if "q \<in> set (getty_at # docker_at # plain_files)" for q
    using agent_file_paths(1) [OF assms(4) that] .
  have fps: "file_path dirs runner_at" "file_path dirs entry_at" "file_path dirs rc_local_at" "file_path dirs fstab_at"
    "file_path dirs getty_at" "file_path dirs docker_at" "file_path dirs containers_at" "file_path dirs registries_at"
    "file_path dirs policy_at" "file_path dirs init_at"
    by (rule fp; simp add: plain_files_def)+
  have nolink: "\<forall>x. t q \<noteq> Some (Lnk x)" if "q \<in> set plain_files" for q using assms(4) that by (auto simp: agent_fits_def)
  have nl: "\<forall>x. t runner_at \<noteq> Some (Lnk x)" "\<forall>x. t entry_at \<noteq> Some (Lnk x)" "\<forall>x. t rc_local_at \<noteq> Some (Lnk x)"
    "\<forall>x. t fstab_at \<noteq> Some (Lnk x)" "\<forall>x. t containers_at \<noteq> Some (Lnk x)" "\<forall>x. t registries_at \<noteq> Some (Lnk x)"
    "\<forall>x. t policy_at \<noteq> Some (Lnk x)" "\<forall>x. t init_at \<noteq> Some (Lnk x)"
    by (rule nolink; simp add: plain_files_def)+
  have bin: "t [''usr'', ''bin''] = Some Dir" using assms(4) by (simp add: agent_fits_def)
  have mk: "?W u (mkdirs_path ?h (mnt @ CHR ''/'' # y)) (put_node q Dir u)"
    if "path_components y = q" "\<exists>a \<in> set agent_dirs. prefix q a" for y q u
    using turns_mkdirs [OF assms(1) agent_file_paths(2) [OF assms(4) that(2)]] at that(1) by simp
  note mks = mk [OF agent_parts(1)] mk [OF agent_parts(4)] mk [OF agent_parts(7)] mk [OF agent_parts(10)]
  define T1 where "T1 = (if t runner_at = None then (put_node [''usr'', ''local'', ''bin''] Dir t)(runner_at \<mapsto> Reg c (Some exec_bits)) else t)"
  have s1: "?W t (if t runner_at = None then agent_binary env mnt else op_ret ()) T1"
  proof (cases "t runner_at = None")
    case True
    let ?u = "put_node [''usr'', ''local'', ''bin''] Dir t"
    have "?W t (mkdirs_path ?h (mnt @ ''/usr/local/bin'')) ?u" by (rule mks(1)) (simp add: agent_dirs_def)
    moreover have "?W ?u (copy_path ?h exe (mnt @ ''/usr/local/bin/fc-runner'')) (?u(runner_at \<mapsto> Reg c m))"
      by (rule turns_copy [OF assms(1) fps(1) _ _ _ assms(9,8)]) (simp_all add: at agent_parts put_node_def nl)
    moreover have "?W (?u(runner_at \<mapsto> Reg c m)) (chmod_path ?h (mnt @ ''/usr/local/bin/fc-runner'') exec_bits) T1"
    proof -
      have "?W (?u(runner_at \<mapsto> Reg c m)) (chmod_path ?h (mnt @ ''/usr/local/bin/fc-runner'') exec_bits)
          ((?u(runner_at \<mapsto> Reg c m))(runner_at \<mapsto> Reg c (Some exec_bits)))"
        by (rule turns_chmod [OF assms(1) fps(1)]) (simp_all add: at agent_parts put_node_def)
      then show ?thesis using True by (simp add: T1_def)
    qed
    ultimately have "?W t (b_all [mkdirs_path ?h (mnt @ ''/usr/local/bin''), copy_path ?h exe (mnt @ ''/usr/local/bin/fc-runner''),
        chmod_path ?h (mnt @ ''/usr/local/bin/fc-runner'') exec_bits]) T1"
      by (rule turns_Cons [OF _ turns_Cons [OF _ turns_Cons [OF _ turns_Nil]]])
    then show ?thesis using True by (simp add: agent_binary_def assms(7))
  next
    case False
    then show ?thesis by (simp only: T1_def if_False turns_ret)
  qed
  have v1: "T1 q = t q" if "q \<in> {[], entry_at, rc_local_at, fstab_at, getty_at, docker_at, containers_at, registries_at, policy_at, init_at,
      [''etc''], [''usr'', ''bin'']}" for q
    using that by (elim insertE emptyE) (simp_all add: T1_def put_node_def assms(6))
  define T2 where "T2 = (if t runner_at = None \<or> t entry_at = None then T1(entry_at \<mapsto> Reg image_entrypoint (Some exec_bits)) else T1)"
  have s2: "?W T1 (op_bind (b_ask (\<lambda>s. t runner_at = None \<or> \<not> file_exists ?h (mnt @ ''/entrypoint.sh'') s))
      (\<lambda>b. b_when b (write_exec ?h (mnt @ ''/entrypoint.sh'') image_entrypoint))) T2"
  proof (rule turns_ask [where x = "t runner_at = None \<or> t entry_at = None"])
    show "(t runner_at = None \<or> \<not> file_exists ?h (mnt @ ''/entrypoint.sh'') s) = (t runner_at = None \<or> t entry_at = None)"
      if "in_image d i dirs f tr T1 s" for s
      using file_exists_in [OF that fps(2), of ?h "mnt @ ''/entrypoint.sh''"] v1 nl(2) by (simp add: at agent_parts)
  next
    show "?W T1 (b_when (t runner_at = None \<or> t entry_at = None) (write_exec ?h (mnt @ ''/entrypoint.sh'') image_entrypoint)) T2"
    proof (rule turns_when)
      assume "t runner_at = None \<or> t entry_at = None"
      then have "?W T1 (b_all (write_exec ?h (mnt @ ''/entrypoint.sh'') image_entrypoint @ [])) T2"
        using v1 nl(2) assms(6) by (intro turns_exec [OF assms(1) fps(2)]) (simp_all add: at agent_parts T2_def)
      then show "?W T1 (b_all (write_exec ?h (mnt @ ''/entrypoint.sh'') image_entrypoint)) T2" by simp
    qed (auto simp: T2_def)
  qed
  have v2: "T2 q = t q" if "q \<in> {[], rc_local_at, fstab_at, getty_at, docker_at, containers_at, registries_at, policy_at, init_at,
      [''etc''], [''usr'', ''bin'']}" for q
    using that by (elim insertE emptyE) (simp_all add: T2_def v1)
  define T3 where "T3 = (if t rc_local_at = None then (put_node [''etc''] Dir T2)(rc_local_at \<mapsto> Reg image_rc_local (Some exec_bits)) else T2)"
  have s3: "?W T2 (op_bind (b_ask (\<lambda>s. \<not> file_exists ?h (mnt @ ''/etc/rc.local'') s))
      (\<lambda>b. b_when b (mkdirs_path ?h (mnt @ ''/etc'') # write_exec ?h (mnt @ ''/etc/rc.local'') image_rc_local))) T3"
  proof (rule turns_ask [where x = "t rc_local_at = None"])
    show "(\<not> file_exists ?h (mnt @ ''/etc/rc.local'') s) = (t rc_local_at = None)" if "in_image d i dirs f tr T2 s" for s
      using file_exists_in [OF that fps(3), of ?h "mnt @ ''/etc/rc.local''"] v2 nl(3) by (simp add: at agent_parts)
  next
    show "?W T2 (b_when (t rc_local_at = None) (mkdirs_path ?h (mnt @ ''/etc'') # write_exec ?h (mnt @ ''/etc/rc.local'') image_rc_local)) T3"
    proof (rule turns_when)
      assume n: "t rc_local_at = None"
      have "?W (put_node [''etc''] Dir T2) (b_all (write_exec ?h (mnt @ ''/etc/rc.local'') image_rc_local @ [])) T3"
        using n v2 nl(3) by (intro turns_exec [OF assms(1) fps(3)]) (simp_all add: at agent_parts T3_def put_node_def)
      moreover have "?W T2 (mkdirs_path ?h (mnt @ ''/etc'')) (put_node [''etc''] Dir T2)" by (rule mks(2)) (simp add: agent_dirs_def)
      ultimately show "?W T2 (b_all (mkdirs_path ?h (mnt @ ''/etc'') # write_exec ?h (mnt @ ''/etc/rc.local'') image_rc_local)) T3"
        by (intro turns_Cons) simp_all
    qed (auto simp: T3_def)
  qed
  have etc: "T3 [''etc''] = Some Dir"
  proof (cases "t rc_local_at = None")
    case True
    then show ?thesis by (simp add: T3_def put_node_def)
  next
    case False
    then have "t [''etc''] = Some Dir" using assms(5) unfolding tree_ok_def by (metis option.exhaust strict_prefix_simps(2) strict_prefix_simps(3))
    then show ?thesis by (simp add: T3_def v2 put_node_def)
  qed
  have v3: "T3 q = t q" if "q \<in> {fstab_at, getty_at, docker_at, containers_at, registries_at, policy_at, init_at, [''usr'', ''bin'']}" for q
    using that by (elim insertE emptyE) (simp_all add: T3_def put_node_def v2)
  define T4 where "T4 = T3(fstab_at \<mapsto> Reg root_fstab (bits_of (t fstab_at)))"
  have s4: "?W T3 (write_path ?h (mnt @ ''/etc/fstab'') root_fstab) T4"
    using turns_write [OF assms(1) fps(4), of "mnt @ ''/etc/fstab''" d T3 i f tr root_fstab] v3 nl(4) etc
    by (simp add: at agent_parts T4_def)
  define T5 where "T5 = put_node [''etc'', ''systemd'', ''system''] Dir T4"
  have s5: "?W T4 (mkdirs_path ?h (mnt @ ''/etc/systemd/system'')) T5" unfolding T5_def by (rule mks(3)) (simp add: agent_dirs_def)
  have s6: "?W T5 (unlink_path ?h (mnt @ ''/etc/systemd/system/serial-getty@ttyS0.service'')) (T5(getty_at := None))"
    by (rule turns_unlink [OF assms(1) fps(5)]) (simp add: at agent_parts)
  have s7: "?W (T5(getty_at := None)) (symlink_path ?h ''/dev/null'' (mnt @ ''/etc/systemd/system/serial-getty@ttyS0.service''))
      (T5(getty_at \<mapsto> Lnk ''/dev/null''))"
    using turns_symlink [OF assms(1) fps(5), of "mnt @ ''/etc/systemd/system/serial-getty@ttyS0.service''" d "T5(getty_at := None)" i f tr "''/dev/null''"]
    by (simp add: at agent_parts T5_def put_node_def)
  define T8 where "T8 = T5(getty_at \<mapsto> Lnk ''/dev/null'', docker_at := None)"
  have s8: "?W (T5(getty_at \<mapsto> Lnk ''/dev/null'')) (unlink_path ?h (mnt @ ''/usr/bin/docker'')) T8"
    unfolding T8_def by (rule turns_unlink [OF assms(1) fps(6)]) (simp add: at agent_parts)
  define T9 where "T9 = T8(docker_at \<mapsto> Reg docker_wrapper (Some exec_bits))"
  have bin8: "T8 [''usr'', ''bin''] = Some Dir" using bin v3 by (simp add: T8_def T5_def T4_def put_node_def)
  define T10 where "T10 = put_node [''etc'', ''containers''] Dir T9"
  have s10: "?W T9 (mkdirs_path ?h (mnt @ ''/etc/containers'')) T10" unfolding T10_def by (rule mks(4)) (simp add: agent_dirs_def)
  have v10: "T10 q = t q" if "q \<in> {containers_at, registries_at, policy_at, init_at}" for q
    using that by (elim insertE emptyE) (simp_all add: T10_def T9_def T8_def T5_def T4_def put_node_def v3)
  have c10: "T10 [''etc'', ''containers''] = Some Dir" by (simp add: T10_def put_node_def)
  define T11 where "T11 = T10(containers_at \<mapsto> Reg containers_conf (bits_of (t containers_at)))"
  have s11: "?W T10 (write_path ?h (mnt @ ''/etc/containers/containers.conf'') containers_conf) T11"
    using turns_write [OF assms(1) fps(7), of "mnt @ ''/etc/containers/containers.conf''" d T10 i f tr containers_conf] v10 nl(5) c10
    by (simp add: at agent_parts T11_def)
  define T12 where "T12 = T11(registries_at \<mapsto> Reg registries_conf (bits_of (t registries_at)))"
  have s12: "?W T11 (write_path ?h (mnt @ ''/etc/containers/registries.conf'') registries_conf) T12"
    using turns_write [OF assms(1) fps(8), of "mnt @ ''/etc/containers/registries.conf''" d T11 i f tr registries_conf] v10 nl(6) c10
    by (simp add: at agent_parts T12_def T11_def)
  define T13 where "T13 = T12(policy_at \<mapsto> Reg policy_json (bits_of (t policy_at)))"
  have s13: "?W T12 (write_path ?h (mnt @ ''/etc/containers/policy.json'') policy_json) T13"
    using turns_write [OF assms(1) fps(9), of "mnt @ ''/etc/containers/policy.json''" d T12 i f tr policy_json] v10 nl(7) c10
    by (simp add: at agent_parts T13_def T12_def T11_def)
  have l13: "\<forall>x. T13 init_at \<noteq> Some (Lnk x)" using v10 nl(8) by (simp add: T13_def T12_def T11_def)
  note s14 = overlay_turns [where t = T13 and i = i and f = f and tr = tr, OF assms(1,4,3,2) l13]
  define T14 where "T14 = (foldl (\<lambda>u q. put_node q Dir u) T13 [[''overlay'', ''root''], [''overlay'', ''work''], [''mnt''], [''rom''], [''sbin'']])
       (init_at \<mapsto> Reg image_overlay_init (Some exec_bits))"
  have tail: "?W T9 (b_all [mkdirs_path ?h (mnt @ ''/etc/containers''),
      write_path ?h (mnt @ ''/etc/containers/containers.conf'') containers_conf,
      write_path ?h (mnt @ ''/etc/containers/registries.conf'') registries_conf,
      write_path ?h (mnt @ ''/etc/containers/policy.json'') policy_json, install_overlay_init_into ?h mnt]) T14"
    unfolding T14_def
    by (rule turns_Cons [OF s10 turns_Cons [OF s11 turns_Cons [OF s12 turns_Cons [OF s13 turns_Cons [OF s14 turns_Nil]]]]])
  have wrapper: "?W T8 (b_all (write_exec ?h (mnt @ ''/usr/bin/docker'') docker_wrapper @
      [mkdirs_path ?h (mnt @ ''/etc/containers''), write_path ?h (mnt @ ''/etc/containers/containers.conf'') containers_conf,
       write_path ?h (mnt @ ''/etc/containers/registries.conf'') registries_conf,
       write_path ?h (mnt @ ''/etc/containers/policy.json'') policy_json, install_overlay_init_into ?h mnt])) T14"
    by (rule turns_exec [OF assms(1) fps(6)]) (use bin8 tail in \<open>simp_all add: at agent_parts T8_def T9_def\<close>)
  have "T14 = agent_tree c t"
  proof
    fix p
    have inner: "t q = Some Dir" if "t r = Some n" "strict_prefix q r" for q r n
      using assms(5) that unfolding tree_ok_def by blast
    have usr: "t p = Some Dir" if "prefix p [''usr'', ''bin'']"
      using inner [OF bin, of p] bin that by (cases "p = [''usr'', ''bin'']") (simp_all add: strict_prefix_def)
    have old: "t p = Some Dir" if "prefix p [''usr'', ''local'', ''bin'']" "t runner_at \<noteq> None"
      using that inner [of runner_at _ p] by (auto simp: strict_prefix_def prefix_Cons)
    have etc1: "prefix p [''etc'', ''systemd'', ''system'']" if "prefix p [''etc'']" using that by (auto simp: prefix_Cons)
    note defs = T14_def T13_def T12_def T11_def T10_def T9_def T8_def T5_def T4_def T3_def T2_def T1_def
    show "T14 p = agent_tree c t p"
    proof (cases "p \<in> {runner_at, entry_at, rc_local_at, fstab_at, getty_at, docker_at, containers_at, registries_at, policy_at, init_at}")
      case True
      then show ?thesis
        by (elim insertE emptyE) (simp_all add: defs put_node_def agent_tree_def agent_nodes_def agent_dirs_def)
    next
      case False
      then have "map_of (agent_nodes c t) p = None" by (simp add: agent_nodes_def)
      moreover have "T14 p = (if t runner_at = None \<and> prefix p [''usr'', ''local'', ''bin''] \<or> prefix p [''etc'', ''systemd'', ''system''] \<or>
          prefix p [''etc'', ''containers''] \<or> prefix p [''overlay'', ''root''] \<or> prefix p [''overlay'', ''work''] \<or>
          prefix p [''mnt''] \<or> prefix p [''rom''] \<or> prefix p [''sbin''] then Some Dir else t p)"
        using False etc1 by (auto simp: defs put_dir_at)
      ultimately show ?thesis using usr old by (auto simp: agent_tree_def agent_dirs_def)
    qed
  qed
  moreover have "?W t (install_agent_files env mnt) T14"
    unfolding install_agent_files_def Let_def
  proof (rule turns_ask [where x = "t runner_at = None"])
    show "(\<not> file_exists ?h (mnt @ ''/usr/local/bin/fc-runner'') s) = (t runner_at = None)" if "in_image d i dirs f tr t s" for s
      using file_exists_in [OF that fps(1), of ?h "mnt @ ''/usr/local/bin/fc-runner''"] nl(1) by (simp add: at agent_parts)
  next
    note start = turns_Cons [OF s1 turns_Cons [OF s2 turns_Cons [OF s3 turns_Cons [OF s4 turns_Cons [OF s5 turns_Cons [OF s6
      turns_Cons [OF s7 turns_Cons [OF s8 turns_Nil]]]]]]]]
    show "?W t (b_all ([if t runner_at = None then agent_binary env mnt else op_ret (),
          op_bind (b_ask (\<lambda>s. t runner_at = None \<or> \<not> file_exists ?h (mnt @ ''/entrypoint.sh'') s)) (\<lambda>b.
            b_when b (write_exec ?h (mnt @ ''/entrypoint.sh'') image_entrypoint)),
          op_bind (b_ask (\<lambda>s. \<not> file_exists ?h (mnt @ ''/etc/rc.local'') s)) (\<lambda>b.
            b_when b (mkdirs_path ?h (mnt @ ''/etc'') # write_exec ?h (mnt @ ''/etc/rc.local'') image_rc_local)),
          write_path ?h (mnt @ ''/etc/fstab'') root_fstab,
          mkdirs_path ?h (mnt @ ''/etc/systemd/system''),
          unlink_path ?h (mnt @ ''/etc/systemd/system/serial-getty@ttyS0.service''),
          symlink_path ?h ''/dev/null'' (mnt @ ''/etc/systemd/system/serial-getty@ttyS0.service''),
          unlink_path ?h (mnt @ ''/usr/bin/docker'')] @
         write_exec ?h (mnt @ ''/usr/bin/docker'') docker_wrapper @
         [mkdirs_path ?h (mnt @ ''/etc/containers''),
          write_path ?h (mnt @ ''/etc/containers/containers.conf'') containers_conf,
          write_path ?h (mnt @ ''/etc/containers/registries.conf'') registries_conf,
          write_path ?h (mnt @ ''/etc/containers/policy.json'') policy_json, install_overlay_init_into ?h mnt])) T14"
      by (rule turns_append [OF start wrapper])
  qed
  ultimately show ?thesis by simp
qed

section \<open>The layers in the mounted image\<close>

lemma put_visible_in_image:
  assumes "in_image d i dirs f tr t s" and "inside_only d (visible s) u" and "mount_dir d u" and "tree_ok dirs (below d u)"
  shows "in_image d i dirs f tr (below d u) ((put_visible u s)\<lparr>bh_tick := k\<rparr>)"
proof -
  note a = assms(1) [unfolded in_image_def] and v = in_image_sees [OF assms(1)]
  have over: "mount_over s q = (if prefix d q then Some \<lparr>mt_dir = d, mt_src = source.Image i, mt_ro = False\<rparr> else None)" for q
    using a by (simp add: mount_over_def)
  have fs: "(\<lambda>q. if mount_over s q = None then u q else bh_fs s q) = f"
    using a v(2) assms(2) by (auto simp: over inside_only_def fun_eq_iff)
  have "u d = Some Dir" using assms(3) by (simp add: mount_dir_def)
  then have tree: "look (bh_trees (put_visible u s) i) = below d u"
    using a by (auto simp: put_visible_def look_def below_def over fun_eq_iff)
  have other: "bh_trees (put_visible u s) j = tr j" if "j \<noteq> i" for j
    using a that by (simp add: put_visible_def)
  have rest: "bh_mounts (put_visible u s) = bh_mounts s" "bh_fs (put_visible u s) = f"
    using fs by (simp_all add: put_visible_def)
  show ?thesis
    using a assms(4) tree other rest by (simp add: in_image_def)
qed

lemma in_image_reach:
  assumes "in_image d i dirs f tr t s" and "parts_of h mnt = d"
  shows "reach_path h True mnt s = Some d"
proof -
  note v = in_image_sees [OF assms(1)]
  have "walk (visible s) max_links True [] (d @ []) = Some (d @ [])"
    by (rule walk_below_present [OF v(3,4)]) (use v(1) [of "[]"] v(5) in auto)
  then show ?thesis using assms(2) by (simp add: reach_path_def)
qed

definition good_layer :: "image_env \<Rightarrow> string list set \<Rightarrow> tar_entry list \<Rightarrow> bool" where
  "good_layer env dirs es \<longleftrightarrow> (\<forall>e \<in> set es. entry_ok dirs e) \<and> own_files_kept (map item_of es)"

lemma extract_onto_turns:
  assumes "parts_of (ie_host env) mnt = d" and "calm (ie_layer env)" and "unpacks (ie_layer env) d dirs" and "good_layer env dirs es"
  shows "turns d i dirs f tr t (extract_onto env mnt (Some (map Some es))) (oci_layer t (map item_of es))"
  unfolding turns_def
proof (intro allI impI)
  fix s assume s: "in_image d i dirs f tr t s"
  note v = in_image_sees [OF s]
  let ?l = "\<lparr>ls_fs = visible s, ls_tick = bh_tick s\<rparr>"
  have es: "\<forall>e \<in> set es. entry_ok dirs e" using assms(4) by (simp add: good_layer_def)
  have m: "mount_dir d (ls_fs ?l)" "tree_ok dirs (below d (ls_fs ?l))" using v(3,4) by simp_all
  obtain l where l: "extract_entries (ie_layer env) d (map Some es) ?l = (Inr (), l)"
    "below d (ls_fs l) = foldl lay (below d (visible s)) (map item_of es)" "inside_only d (visible s) (ls_fs l)"
    "mount_dir d (ls_fs l)" "tree_ok dirs (below d (ls_fs l))"
    using extract_entries_below [OF assms(2,3) m es] by auto
  have t: "below d (visible s) = t" using v(1) by (auto simp: below_def)
  have "below d (ls_fs l) = oci_layer t (map item_of es)"
    using l(2) t lay_is_oci_layer assms(4) by (simp add: good_layer_def)
  moreover have "extract_onto env mnt (Some (map Some es)) s = (Inr (), (put_visible (ls_fs l) s)\<lparr>bh_tick := ls_tick l\<rparr>)"
    using in_image_reach [OF s assms(1)] l(1) by (simp add: extract_onto_def extract_layer_def)
  ultimately show "\<exists>s'. extract_onto env mnt (Some (map Some es)) s = (Inr (), s') \<and>
      in_image d i dirs f tr (oci_layer t (map item_of es)) s'"
    using put_visible_in_image [OF s l(3-5)] by auto
qed

text \<open>The layers of a manifest that hold files, in order, over each other.\<close>

definition holds_files :: "image_env \<Rightarrow> layer_ref \<Rightarrow> bool" where
  "holds_files env l \<longleftrightarrow> lr_media l = fst (ie_media env) \<or> lr_media l = snd (ie_media env)"

definition layer_entries :: "image_env \<Rightarrow> layer_ref \<Rightarrow> tar_entry list" where
  "layer_entries env l = (case ie_blob env l of Some (Some es) \<Rightarrow> map the es | _ \<Rightarrow> [])"

definition layers_tree :: "image_env \<Rightarrow> layer_ref list \<Rightarrow> fs \<Rightarrow> fs" where
  "layers_tree env ls t = foldl (\<lambda>u l. oci_layer u (map item_of (layer_entries env l))) t (filter (holds_files env) ls)"

definition good_layers :: "image_env \<Rightarrow> string list set \<Rightarrow> layer_ref list \<Rightarrow> bool" where
  "good_layers env dirs ls \<longleftrightarrow> (\<forall>l \<in> set ls. holds_files env l \<longrightarrow>
     ie_blob env l = Some (Some (map Some (layer_entries env l))) \<and> good_layer env dirs (layer_entries env l))"

lemma extract_all_layers_turns:
  assumes "parts_of (ie_host env) mnt = d" and "calm (ie_layer env)" and "unpacks (ie_layer env) d dirs" and "good_layers env dirs ls"
  shows "turns d i dirs f tr t (extract_all_layers env mnt ls) (layers_tree env ls t)"
  using assms(4)
proof (induction ls arbitrary: t)
  case Nil
  then show ?case by (simp add: layers_tree_def)
next
  case (Cons l ls)
  have rest: "good_layers env dirs ls" using Cons.prems by (simp add: good_layers_def)
  show ?case
  proof (cases "holds_files env l")
    case True
    let ?u = "oci_layer t (map item_of (layer_entries env l))"
    have l: "ie_blob env l = Some (Some (map Some (layer_entries env l)))" "good_layer env dirs (layer_entries env l)"
      using Cons.prems True by (simp_all add: good_layers_def)
    have "turns d i dirs f tr t (extract_onto env mnt (Some (map Some (layer_entries env l)))) ?u"
      by (rule extract_onto_turns [OF assms(1-3) l(2)])
    moreover have "turns d i dirs f tr ?u (extract_all_layers env mnt ls) (layers_tree env ls ?u)" by (rule Cons.IH [OF rest])
    moreover have "layers_tree env (l # ls) t = layers_tree env ls ?u" using True by (simp add: layers_tree_def)
    moreover have "extract_all_layers env mnt (l # ls) =
        op_seq (extract_onto env mnt (Some (map Some (layer_entries env l)))) (extract_all_layers env mnt ls)"
      using True l(1) by (auto simp: holds_files_def)
    ultimately show ?thesis by (fastforce simp: turns_def op_seq_apply)
  next
    case False
    then have "extract_all_layers env mnt (l # ls) = extract_all_layers env mnt ls" "layers_tree env (l # ls) t = layers_tree env ls t"
      by (simp_all add: holds_files_def layers_tree_def)
    then show ?thesis using Cons.IH [OF rest] by (simp only:)
  qed
qed

section \<open>A whole pull\<close>

lemma parts_of_sibling:
  assumes "dir \<noteq> []" and "CHR ''/'' \<notin> set x" and "x \<noteq> []" and "x \<noteq> ''.''"
  shows "parts_of h (dir @ CHR ''/'' # x) = parts_of h dir @ [x]"
proof -
  have "path_components x = [x]" using assms(2-4) by (simp add: path_components_def split_on_no_sep)
  then show ?thesis using parts_of_below [OF assms(1)] by simp
qed

definition fresh_tree :: fs where
  "fresh_tree = [[] \<mapsto> Dir, [''lost+found''] \<mapsto> Dir]"

text \<open>The names beside the image: its digest and the two places it is mounted at.\<close>

abbreviation "mount_name x \<equiv> x @ ''-oci-mount''"
abbreviation "agent_name x \<equiv> x @ ''-agent-install''"
abbreviation "digest_name x \<equiv> x @ ''.digest''"

lemma image_names:
  assumes "CHR ''/'' \<notin> set x" and "ordinary x"
  shows "ordinary (mount_name x)" and "ordinary (agent_name x)" and "ordinary (digest_name x)"
    and "dir \<noteq> [] \<Longrightarrow> parts_of h (dir @ CHR ''/'' # mount_name x) = parts_of h dir @ [mount_name x]"
    and "dir \<noteq> [] \<Longrightarrow> parts_of h (dir @ CHR ''/'' # agent_name x) = parts_of h dir @ [agent_name x]"
    and "dir \<noteq> [] \<Longrightarrow> parts_of h (dir @ CHR ''/'' # digest_name x) = parts_of h dir @ [digest_name x]"
    and "dir \<noteq> [] \<Longrightarrow> parts_of h (dir @ CHR ''/'' # x) = parts_of h dir @ [x]"
proof -
  have long: "ordinary (x @ y)" if "3 \<le> length y" for y
  proof -
    have "3 \<le> length (x @ y)" using that by simp
    then have "x @ y \<noteq> '''' \<and> x @ y \<noteq> ''.'' \<and> x @ y \<noteq> ''..''" by fastforce
    then show ?thesis by (simp add: ordinary_def)
  qed
  show o: "ordinary (mount_name x)" "ordinary (agent_name x)" "ordinary (digest_name x)" by (rule long; simp)+
  show "parts_of h (dir @ CHR ''/'' # mount_name x) = parts_of h dir @ [mount_name x]"
    "parts_of h (dir @ CHR ''/'' # agent_name x) = parts_of h dir @ [agent_name x]"
    "parts_of h (dir @ CHR ''/'' # digest_name x) = parts_of h dir @ [digest_name x]"
    "parts_of h (dir @ CHR ''/'' # x) = parts_of h dir @ [x]" if "dir \<noteq> []"
    using assms o that by (auto intro!: parts_of_sibling simp: ordinary_def)
qed

lemma create_image_host:
  assumes "quiet h" and "host_at f tr s" and "site ds f" and "ordinary x" and "parts_of h p = ds @ [x]" and "f (ds @ [x]) = None"
  shows "\<exists>u. create_ext4_image h p n s = (Inr (), u) \<and>
    host_at (f(ds @ [x] \<mapsto> Disk n True)) (tr(ds @ [x] := [[''lost+found''] \<mapsto> Dir])) u"
proof -
  have trunc: "\<exists>u. b_sys h (CallFailed p) (do_truncate h p k) s = (Inr (), u) \<and> host_at (g(ds @ [x] \<mapsto> Disk k False)) tr u"
    if g: "host_at g tr s" "site ds g" "g (ds @ [x]) = None \<or> (\<exists>l b. g (ds @ [x]) = Some (Disk l b))" for g s k
  proof -
    obtain u where u: "set_node (ds @ [x]) (Some (Disk k False)) s = Some u" "host_at (g(ds @ [x] \<mapsto> Disk k False)) tr u"
      using host_at_set [OF g(1)] by blast
    have r: "reach_path h True p s = Some (ds @ [x])" "look (visible s) (ds @ [x]) \<noteq> Some Dir"
      using host_at_reach [OF g(1,2) assms(4,5), of True] g(3) by auto
    have "do_truncate h p k s = Some u" using r u(1) by (simp add: do_truncate_def)
    then show ?thesis using b_sys_quiet [OF assms(1)] u(2) by simp
  qed
  let ?f = "\<lambda>b. f(ds @ [x] \<mapsto> Disk n b)"
  obtain a where a: "b_sys h (CallFailed p) (do_truncate h p 0) s = (Inr (), a)" "host_at (f(ds @ [x] \<mapsto> Disk 0 False)) tr a"
    using trunc [OF assms(2,3)] assms(6) by blast
  obtain b where b: "b_sys h (CallFailed p) (do_truncate h p n) a = (Inr (), b)" "host_at (?f False) tr b"
    using trunc [OF a(2) site_upd [OF assms(3)], of n] by auto
  obtain u where u: "set_node (ds @ [x]) (Some (Disk n True)) b = Some u" "host_at (?f True) tr u"
    using host_at_set [OF b(2), of "ds @ [x]" "Some (Disk n True)"] by auto
  have "do_mkfs h p b = Some (u\<lparr>bh_trees := (bh_trees u)(ds @ [x] := [[''lost+found''] \<mapsto> Dir])\<rparr>)"
    using host_at_reach [OF b(2) site_upd [OF assms(3)] assms(4,5), of True] u(1) by (simp add: do_mkfs_def)
  then have "b_must (b_cmd h ''mkfs.ext4'' (do_mkfs h p)) (CmdFailed ''mkfs.ext4'') b =
      (Inr (), bh_step (u\<lparr>bh_trees := (bh_trees u)(ds @ [x] := [[''lost+found''] \<mapsto> Dir])\<rparr>))"
    by (rule b_cmd_quiet [OF assms(1)])
  then show ?thesis
    using a(1) b(1) u(2) by (simp add: create_ext4_image_def op_seq_apply op_ret_def host_at_def bh_step_def)
qed

text \<open>The part of a pull between the image file and its mount: the layers, then the unmount.\<close>

lemma layers_host:
  assumes "quiet (ie_host env)" and "calm (ie_layer env)" and "in_image (ds @ [y]) i dirs f tr t s"
    and "parts_of (ie_host env) mnt = ds @ [y]" and "unpacks (ie_layer env) (ds @ [y]) dirs" and "good_layers env dirs ls"
    and "site ds f" and "ordinary y" and "f (ds @ [y]) = Some Dir" and "\<And>c. f (ds @ [y, c]) = None"
  shows "\<exists>u tr'. (case extract_all_layers env mnt ls s of
           (result, t) \<Rightarrow>
             (case umount_image (ie_host env) mnt t of
                (umounted, u) \<Rightarrow> op_seq (rmdir_path (ie_host env) mnt) (op_seq (op_lift result) (op_lift umounted)) u)) = (Inr (), u) \<and>
     host_at (f(ds @ [y] := None)) tr' u \<and> (\<forall>j. j \<noteq> i \<longrightarrow> tr' j = tr j) \<and> look (tr' i) = layers_tree env ls t"
proof -
  obtain a where a: "extract_all_layers env mnt ls s = (Inr (), a)" "in_image (ds @ [y]) i dirs f tr (layers_tree env ls t) a"
    using extract_all_layers_turns [OF assms(4,2,5,6)] assms(3) unfolding turns_def by blast
  obtain b tr' where b: "umount_image (ie_host env) mnt a = (Inr (), b)" "host_at f tr' b" "\<forall>j. j \<noteq> i \<longrightarrow> tr' j = tr j"
    "look (tr' i) = layers_tree env ls t"
    using image_umount [OF assms(1) a(2) assms(4)] unfolding umount_image_def by blast
  obtain u where "rmdir_path (ie_host env) mnt b = (Inr (), u)" "host_at (f(ds @ [y] := None)) tr' u"
    using host_rmdir [OF assms(1) b(2) assms(7,8,4,9,10)] by blast
  then show ?thesis using a(1) b by (auto simp: op_seq_apply op_lift_apply)
qed

lemma agent_host:
  assumes "quiet (ie_host env)" and "host_at f tr s" and "site ds f" and "ordinary x" and "ordinary (agent_name x)"
    and "parts_of (ie_host env) out = ds @ [x]" and "parts_of (ie_host env) (out @ ''-agent-install'') = ds @ [agent_name x]"
    and "f (ds @ [x]) = Some (Disk n True)" and "f (ds @ [agent_name x]) = None" and "\<And>c. f (ds @ [agent_name x, c]) = None"
    and "tree_ok dirs (look (tr (ds @ [x])))" and "agent_fits dirs (look (tr (ds @ [x])))" and "ie_exe env = Some exe"
    and "parts_of (ie_host env) exe = e" and "host_file (ds @ [agent_name x]) f e c m"
  shows "\<exists>u tr'. install_agent_if_missing env out s = (Inr (), u) \<and> host_at f tr' u \<and> (\<forall>j. j \<noteq> ds @ [x] \<longrightarrow> tr' j = tr j) \<and>
    look (tr' (ds @ [x])) = agent_tree c (look (tr (ds @ [x])))"
proof -
  let ?h = "ie_host env" and ?mnt = "out @ ''-agent-install''" and ?q = "ds @ [agent_name x]" and ?t = "look (tr (ds @ [x]))"
  let ?f = "f(?q \<mapsto> Dir)"
  obtain a where a: "mkdirs_path ?h ?mnt s = (Inr (), a)" "host_at ?f tr a"
    using host_mkdirs [OF assms(1-3,5,7)] assms(9) by blast
  have other: "?f (ds @ [x]) = Some (Disk n True)" using assms(8) by simp
  have d: "?f ?q = Some Dir" by simp
  obtain b where b: "mount_image ?h out ?mnt a = (Inr (), b)" "in_image ?q (ds @ [x]) dirs ?f tr ?t b"
    using host_mount [OF assms(1) a(2) site_upd [OF assms(3)] assms(4,6,5,7) other d assms(11)] unfolding mount_image_def by blast
  have e: "host_file ?q ?f e c m" using assms(15) by (auto simp: host_file_def)
  have "turns ?q (ds @ [x]) dirs ?f tr ?t (install_agent_files env ?mnt) (agent_tree c ?t)"
    by (rule install_agent_turns [OF assms(1) _ assms(7,12,11) _ assms(13,14) e]) (simp_all add: look_def)
  then obtain g where g: "install_agent_files env ?mnt b = (Inr (), g)" "in_image ?q (ds @ [x]) dirs ?f tr (agent_tree c ?t) g"
    using b(2) unfolding turns_def by blast
  obtain v tr' where v: "umount_image ?h ?mnt g = (Inr (), v)" "host_at ?f tr' v" "\<forall>j. j \<noteq> ds @ [x] \<longrightarrow> tr' j = tr j"
    "look (tr' (ds @ [x])) = agent_tree c ?t"
    using image_umount [OF assms(1) g(2) assms(7)] unfolding umount_image_def by blast
  have "?f (ds @ [agent_name x, k]) = None" for k using assms(10) by simp
  then obtain w where w: "rmdir_path ?h ?mnt v = (Inr (), w)" "host_at (?f(?q := None)) tr' w"
    using host_rmdir [OF assms(1) v(2) site_upd [OF assms(3)] assms(5,7) d] by blast
  have "?f(?q := None) = f" using assms(9) by auto
  then show ?thesis
    using a(1) b(1) g(1) v w by (auto simp: install_agent_if_missing_def Let_def op_seq_apply op_ret_def)
qed

lemma good_layers_tree_ok: "tree_ok dirs t \<Longrightarrow> good_layers env dirs ls \<Longrightarrow> tree_ok dirs (layers_tree env ls t)"
proof (induction ls arbitrary: t)
  case Nil
  then show ?case by (simp add: layers_tree_def)
next
  case (Cons l ls)
  have fold: "tree_ok dirs (foldl lay u (map item_of es))" if "tree_ok dirs u" "\<forall>e \<in> set es. entry_ok dirs e" for u es
    using that by (induction es arbitrary: u) (simp_all add: tree_ok_lay)
  show ?case
  proof (cases "holds_files env l")
    case True
    then have "good_layer env dirs (layer_entries env l)" using Cons.prems(2) by (simp add: good_layers_def)
    then have "tree_ok dirs (oci_layer t (map item_of (layer_entries env l)))"
      using fold [OF Cons.prems(1)] lay_is_oci_layer unfolding good_layer_def by metis
    then show ?thesis using Cons.IH Cons.prems(2) True by (simp add: layers_tree_def good_layers_def)
  next
    case False
    then show ?thesis using Cons.IH [OF Cons.prems(1)] Cons.prems(2) by (simp add: layers_tree_def good_layers_def)
  qed
qed

text \<open>The place of an image on the host: its directory is there, and beside the image there is nothing in the
  way but perhaps an older image and its digest.\<close>

definition image_place :: "fs \<Rightarrow> string list \<Rightarrow> string \<Rightarrow> bool" where
  "image_place f ds x \<longleftrightarrow> site ds f \<and> ordinary x \<and> CHR ''/'' \<notin> set x \<and> f (ds @ [x]) \<noteq> Some Dir \<and>
     (f (ds @ [digest_name x]) = None \<or> (\<exists>a m. f (ds @ [digest_name x]) = Some (Reg a m))) \<and>
     (\<forall>y \<in> {mount_name x, agent_name x}. f (ds @ [y]) = None \<and> (\<forall>c. f (ds @ [y, c]) = None))"

text \<open>Up to the mount: an empty file system where the image was, mounted beside it.\<close>

lemma prepare_image_host:
  assumes "quiet (ie_host env)" and "host_at f tr s" and "dir \<noteq> []" and "parts_of (ie_host env) dir = ds"
    and "image_place f ds x" and "tree_ok dirs fresh_tree" and "out = dir @ CHR ''/'' # x" and "mnt = out @ ''-oci-mount''"
  shows "\<exists>k. (\<forall>rest. b_all (unlink_path (ie_host env) out # create_ext4_image (ie_host env) out default_image_size #
      mkdirs_path (ie_host env) mnt # mount_image (ie_host env) out mnt # rest) s = b_all rest k) \<and>
    in_image (ds @ [mount_name x]) (ds @ [x]) dirs (f(ds @ [x] \<mapsto> Disk default_image_size True, ds @ [mount_name x] \<mapsto> Dir))
      (tr(ds @ [x] := [[''lost+found''] \<mapsto> Dir])) fresh_tree k"
proof -
  let ?h = "ie_host env" and ?o = "ds @ [x]" and ?m = "ds @ [mount_name x]"
  have site: "site ds f" and x: "ordinary x" "CHR ''/'' \<notin> set x" and place: "f ?o \<noteq> Some Dir" "f ?m = None"
    using assms(5) by (auto simp: image_place_def)
  note n = image_names [OF x(2,1)]
  have p: "parts_of ?h mnt = ?m" "parts_of ?h out = ?o"
    using n(4,7) [OF assms(3), of ?h, unfolded assms(4)] by (simp_all add: assms(7,8))
  let ?f1 = "f(?o := None)" and ?f2 = "f(?o \<mapsto> Disk default_image_size True)" and ?tr = "tr(?o := [[''lost+found''] \<mapsto> Dir])"
  let ?f3 = "?f2(?m \<mapsto> Dir)"
  obtain a where a: "unlink_path ?h out s = (Inr (), a)" "host_at ?f1 tr a"
    using host_unlink [OF assms(1,2) site x(1) p(2) place(1)] by blast
  obtain b where b: "create_ext4_image ?h out default_image_size a = (Inr (), b)" "host_at ?f2 ?tr b"
    using create_image_host [OF assms(1) a(2) site_upd [OF site] x(1) p(2), of default_image_size] by auto
  note site2 = site_upd [OF site, of x "Some (Disk default_image_size True)"]
  have m2: "?f2 ?m = None" using place(2) by simp
  obtain g where g: "mkdirs_path ?h mnt b = (Inr (), g)" "host_at ?f3 ?tr g"
    using host_mkdirs [OF assms(1) b(2) site2 n(1) p(1)] m2 by blast
  have look0: "look (?tr ?o) = fresh_tree" by (auto simp: look_def fresh_tree_def)
  have "?f3 ?o = Some (Disk default_image_size True)" "?f3 ?m = Some Dir" "tree_ok dirs (look (?tr ?o))"
    unfolding look0 using assms(6) by simp_all
  then obtain k where k: "mount_image ?h out mnt g = (Inr (), k)" "in_image ?m ?o dirs ?f3 ?tr fresh_tree k"
    using host_mount [OF assms(1) g(2) site_upd [OF site2] x(1) p(2) n(1) p(1)] unfolding mount_image_def look0 by blast
  show ?thesis using a(1) b(1) g(1) k by (intro exI [of _ k]) (simp add: op_seq_apply)
qed

lemma build_from_layers_host:
  assumes "quiet (ie_host env)" and "calm (ie_layer env)" and "host_at f tr s" and "dir \<noteq> []" and "parts_of (ie_host env) dir = ds"
    and "image_place f ds x" and "unpacks (ie_layer env) (ds @ [mount_name x]) dirs" and "good_layers env dirs ls"
    and "tree_ok dirs fresh_tree" and "agent_fits dirs (layers_tree env ls fresh_tree)" and "ie_exe env = Some exe"
    and "parts_of (ie_host env) exe = e" and "host_file (ds @ [agent_name x]) f e c m" and "e \<noteq> ds @ [x]"
  shows "\<exists>t tr'. build_from_layers env ls digest (dir @ CHR ''/'' # x) s = (Inr (), t) \<and>
    host_at (f(ds @ [x] \<mapsto> Disk default_image_size True,
      ds @ [digest_name x] \<mapsto> Reg digest (bits_of (f (ds @ [digest_name x]))))) tr' t \<and>
    (\<forall>j. j \<noteq> ds @ [x] \<longrightarrow> tr' j = tr j) \<and> look (tr' (ds @ [x])) = agent_tree c (layers_tree env ls fresh_tree)"
proof -
  let ?h = "ie_host env" and ?out = "dir @ CHR ''/'' # x" and ?mnt = "(dir @ CHR ''/'' # x) @ ''-oci-mount''"
  let ?o = "ds @ [x]" and ?y = "mount_name x" and ?m = "ds @ [mount_name x]" and ?a = "ds @ [agent_name x]" and ?g = "ds @ [digest_name x]"
  have site: "site ds f" and x: "ordinary x" "CHR ''/'' \<notin> set x" and place: "f ?o \<noteq> Some Dir"
    "f ?m = None" "\<And>k. f (ds @ [mount_name x, k]) = None" "f ?a = None" "\<And>k. f (ds @ [agent_name x, k]) = None"
    "f ?g = None \<or> (\<exists>a m. f ?g = Some (Reg a m))"
    using assms(6) by (auto simp: image_place_def)
  note n = image_names [OF x(2,1)]
  have p: "parts_of ?h ?mnt = ?m" "parts_of ?h (?out @ ''-agent-install'') = ?a"
    "parts_of ?h (digest_file ?out) = ?g" "parts_of ?h ?out = ?o"
    using n(4-7) [OF assms(4), of ?h, unfolded assms(5)] by (simp_all add: digest_file_def)
  let ?f2 = "f(?o \<mapsto> Disk default_image_size True)"
  let ?f3 = "?f2(?m \<mapsto> Dir)" and ?tr = "tr(?o := [[''lost+found''] \<mapsto> Dir])"
  obtain k where k: "\<And>rest. b_all (unlink_path ?h ?out # create_ext4_image ?h ?out default_image_size #
      mkdirs_path ?h ?mnt # mount_image ?h ?out ?mnt # rest) s = b_all rest k" "in_image ?m ?o dirs ?f3 ?tr fresh_tree k"
    using prepare_image_host [OF assms(1,3-6,9) refl refl] by blast
  note site2 = site_upd [OF site, of x "Some (Disk default_image_size True)"]
  have m3: "?f3 (ds @ [mount_name x, j]) = None" for j using place(3) by simp
  obtain l tr' where l: "(case extract_all_layers env ?mnt ls k of
           (result, t) \<Rightarrow>
             (case umount_image ?h ?mnt t of
                (umounted, u) \<Rightarrow> op_seq (rmdir_path ?h ?mnt) (op_seq (op_lift result) (op_lift umounted)) u)) = (Inr (), l)"
    "host_at (?f3(?m := None)) tr' l" "\<forall>j. j \<noteq> ?o \<longrightarrow> tr' j = ?tr j" "look (tr' ?o) = layers_tree env ls fresh_tree"
    using layers_host [OF assms(1,2) k(2) p(1) assms(7,8) site_upd [OF site2] n(1) fun_upd_same m3] by blast
  have f4: "?f3(?m := None) = ?f2" using place(2) by auto
  have e: "host_file ?a ?f2 e c m" using assms(13,14) place(1) by (auto simp: host_file_def)
  have tree: "tree_ok dirs (look (tr' ?o))" unfolding l(4) by (rule good_layers_tree_ok [OF assms(9,8)])
  have host4: "host_at ?f2 tr' l" using l(2) unfolding f4 .
  have disk: "?f2 ?o = Some (Disk default_image_size True)" and a4: "?f2 ?a = None" "\<And>j. ?f2 (ds @ [agent_name x, j]) = None"
    using place(4,5) by simp_all
  obtain q tr'' where q: "install_agent_if_missing env ?out l = (Inr (), q)" "host_at ?f2 tr'' q" "\<forall>j. j \<noteq> ?o \<longrightarrow> tr'' j = tr' j"
    "look (tr'' ?o) = agent_tree c (layers_tree env ls fresh_tree)"
    using agent_host [OF assms(1) host4 site2 x(1) n(2) p(4,2) disk a4 tree _ assms(11,12) e] assms(10) l(4) by metis
  obtain t where t: "write_path ?h (digest_file ?out) digest q = (Inr (), t)"
    "host_at (?f2(?g \<mapsto> Reg digest (bits_of (?f2 ?g)))) tr'' t"
    using host_write [OF assms(1) q(2) site2 n(3) p(3)] place(6) by fastforce
  have "build_from_layers env ls digest ?out s = (Inr (), t)"
    unfolding build_from_layers_def Let_def k(1)
    by (subst b_all.simps, subst op_seq_apply, subst l(1)) (simp add: op_seq_apply op_ret_def q(1) t(1))
  moreover have "bits_of (?f2 ?g) = bits_of (f ?g)" by simp
  ultimately show ?thesis using l(3) q t(2) by auto
qed

lemma host_at_exists:
  assumes "host_at f tr s" and "site ds f" and "ordinary x" and "parts_of h p = ds @ [x]" and "\<forall>y. f (ds @ [x]) \<noteq> Some (Lnk y)"
  shows "file_exists h p s \<longleftrightarrow> f (ds @ [x]) \<noteq> None"
  using host_at_reach [OF assms(1-4), of True] assms(4,5)
  by (simp add: file_exists_def path_exists_def node_at_def reach_path_def)

lemma cached_digest_host:
  assumes "quiet h" and "host_at f tr s" and "site ds f" and "ordinary x" and "parts_of h p = ds @ [x]" and "f (ds @ [x]) = Some (Reg c m)"
  shows "cached_digest h p s = c"
  using host_at_reach [OF assms(2-5), of True] assms(1,6) by (simp add: cached_digest_def read_at_def quiet_def)

text \<open>C8: Pulling an image. On a host with nothing in the way, when every call works and the registry's layers
  are well behaved, a pull whose digest differs from the remembered one succeeds. The image file then
  holds the layers over each other, as the image specification says, with the agent and its files
  installed; its digest is remembered; nothing is mounted, and no other file of the host has changed. A
  second pull of the same manifest does nothing.\<close>

theorem pull_builds_image:
  assumes "quiet (ie_host env)" and "calm (ie_layer env)" and "ie_parses env r" and "ie_manifest env = Some (ls, digest)"
    and "host_at f tr s" and "dir \<noteq> []" and "parts_of (ie_host env) dir = ds" and "image_place f ds x"
    and "\<forall>a m. f (ds @ [digest_name x]) = Some (Reg a m) \<longrightarrow> trim a \<noteq> digest"
    and "unpacks (ie_layer env) (ds @ [mount_name x]) dirs" and "good_layers env dirs ls"
    and "tree_ok dirs fresh_tree" and "agent_fits dirs (layers_tree env ls fresh_tree)" and "ie_exe env = Some exe"
    and "parts_of (ie_host env) exe = e" and "host_file (ds @ [agent_name x]) f e c m" and "e \<noteq> ds @ [x]"
  shows "\<exists>t tr'. pull_and_convert env r (dir @ CHR ''/'' # x) s = (Inr (), t) \<and>
    host_at (f(ds @ [x] \<mapsto> Disk default_image_size True,
      ds @ [digest_name x] \<mapsto> Reg digest (bits_of (f (ds @ [digest_name x]))))) tr' t \<and>
    (\<forall>j. j \<noteq> ds @ [x] \<longrightarrow> tr' j = tr j) \<and> look (tr' (ds @ [x])) = agent_tree c (layers_tree env ls fresh_tree) \<and>
    (trim digest = digest \<longrightarrow> pull_and_convert env r (dir @ CHR ''/'' # x) t = (Inr (), bh_step t))"
proof -
  let ?h = "ie_host env" and ?out = "dir @ CHR ''/'' # x" and ?o = "ds @ [x]" and ?g = "ds @ [digest_name x]"
  have site: "site ds f" and x: "ordinary x" "CHR ''/'' \<notin> set x" and dig: "f ?g = None \<or> (\<exists>a m. f ?g = Some (Reg a m))"
    using assms(8) by (auto simp: image_place_def)
  note n = image_names [OF x(2,1)]
  have p: "parts_of ?h ?out = ?o" "parts_of ?h (digest_file ?out) = ?g"
    using n(6,7) [OF assms(6), of ?h] assms(7) by (simp_all add: digest_file_def)
  have build: "\<exists>t tr'. build_from_layers env ls digest ?out v = (Inr (), t) \<and>
      host_at (f(?o \<mapsto> Disk default_image_size True, ?g \<mapsto> Reg digest (bits_of (f ?g)))) tr' t \<and>
      (\<forall>j. j \<noteq> ?o \<longrightarrow> tr' j = tr j) \<and> look (tr' ?o) = agent_tree c (layers_tree env ls fresh_tree)" if "host_at f tr v" for v
    by (rule build_from_layers_host [OF assms(1,2) that assms(6-8,10-17)])
  have "pull_and_convert env r ?out s \<in> {build_from_layers env ls digest ?out s, build_from_layers env ls digest ?out (bh_step s)}"
  proof (cases "f ?g")
    case None
    then have "\<not> file_exists ?h (digest_file ?out) s"
      using host_at_exists [OF assms(5) site n(3) p(2)] by simp
    then show ?thesis using assms(3,4) by (simp add: pull_and_convert_def)
  next
    case (Some k)
    then obtain a m where a: "f ?g = Some (Reg a m)" using dig by auto
    then have "trim (cached_digest ?h (digest_file ?out) s) \<noteq> digest"
      using cached_digest_host [OF assms(1,5) site n(3) p(2) a] assms(9) by simp
    then show ?thesis using assms(3,4) by (simp add: pull_and_convert_def)
  qed
  then obtain t tr' where t: "pull_and_convert env r ?out s = (Inr (), t)"
    "host_at (f(?o \<mapsto> Disk default_image_size True, ?g \<mapsto> Reg digest (bits_of (f ?g)))) tr' t"
    "\<forall>j. j \<noteq> ?o \<longrightarrow> tr' j = tr j" "look (tr' ?o) = agent_tree c (layers_tree env ls fresh_tree)"
    using build [OF assms(5)] build [of "bh_step s"] assms(5) by fastforce
  have again: "pull_and_convert env r ?out t = (Inr (), bh_step t)" if "trim digest = digest"
  proof -
    note site2 = site_upd [OF site_upd [OF site]]
    have "file_exists ?h ?out t" "file_exists ?h (digest_file ?out) t"
      using host_at_exists [OF t(2) site2 x(1) p(1)] host_at_exists [OF t(2) site2 n(3) p(2)] by auto
    moreover have "cached_digest ?h (digest_file ?out) t = digest"
      by (rule cached_digest_host [OF assms(1) t(2) site2 n(3) p(2)]) simp
    ultimately show ?thesis using assms(3,4) that by (simp add: pull_and_convert_def)
  qed
  then show ?thesis using t by blast
qed

section \<open>What goes wrong\<close>

text \<open>
  A rebuild that fails leaves the old digest beside the new, unfinished image: the next pull of the
  old manifest takes the unfinished image for the cached one. Here the first layer cannot be fetched,
  and the image is the empty file system.
\<close>

theorem failed_pull_trusts_old_digest:
  assumes "quiet (ie_host env)" and "ie_parses env r" and "ie_manifest env = Some (l # ls, digest)" and "holds_files env l"
    and "ie_blob env l = None" and "host_at f tr s" and "dir \<noteq> []" and "parts_of (ie_host env) dir = ds" and "image_place f ds x"
    and "f (ds @ [x]) = Some (Disk k b)" and "f (ds @ [digest_name x]) = Some (Reg old m)" and "trim old \<noteq> digest"
    and "ie_host env' = ie_host env" and "ie_parses env' r" and "ie_manifest env' = Some (ls', trim old)"
  shows "\<exists>t tr'. pull_and_convert env r (dir @ CHR ''/'' # x) s = (Inl BlobFailed, t) \<and>
    pull_and_convert env' r (dir @ CHR ''/'' # x) t = (Inr (), bh_step t) \<and>
    host_at (f(ds @ [x] \<mapsto> Disk default_image_size True)) tr' t \<and> look (tr' (ds @ [x])) = fresh_tree"
proof -
  let ?h = "ie_host env" and ?out = "dir @ CHR ''/'' # x" and ?mnt = "(dir @ CHR ''/'' # x) @ ''-oci-mount''"
  let ?o = "ds @ [x]" and ?m = "ds @ [mount_name x]" and ?g = "ds @ [digest_name x]"
  let ?f2 = "f(?o \<mapsto> Disk default_image_size True)" and ?tr = "tr(?o := [[''lost+found''] \<mapsto> Dir])"
  let ?f3 = "?f2(?m \<mapsto> Dir)"
  have site: "site ds f" and x: "ordinary x" "CHR ''/'' \<notin> set x" and place: "f ?m = None" "\<And>k. f (ds @ [mount_name x, k]) = None"
    using assms(9) by (auto simp: image_place_def)
  note n = image_names [OF x(2,1)]
  have p: "parts_of ?h ?mnt = ?m" "parts_of ?h (digest_file ?out) = ?g" "parts_of ?h ?out = ?o"
    using n(4,6,7) [OF assms(7), of ?h, unfolded assms(8)] by (simp_all add: digest_file_def)
  have s1: "host_at f tr (bh_step s)" using assms(6) by simp
  have fresh: "tree_ok {[], [''lost+found'']} fresh_tree" by (auto simp: tree_ok_def fresh_tree_def strict_prefix_def prefix_Cons split: if_splits)
  obtain j where j: "\<And>rest. b_all (unlink_path ?h ?out # create_ext4_image ?h ?out default_image_size #
      mkdirs_path ?h ?mnt # mount_image ?h ?out ?mnt # rest) (bh_step s) = b_all rest j"
    "in_image ?m ?o {[], [''lost+found'']} ?f3 ?tr fresh_tree j"
    using prepare_image_host [OF assms(1) s1 assms(7-9) fresh refl refl] by blast
  note site2 = site_upd [OF site, of x "Some (Disk default_image_size True)"]
  have ex: "extract_all_layers env ?mnt (l # ls) j = (Inl BlobFailed, j)"
    using assms(4,5) by (auto simp: holds_files_def op_fail_def)
  obtain u tr' where u: "umount_image ?h ?mnt j = (Inr (), u)" "host_at ?f3 tr' u" "look (tr' ?o) = fresh_tree"
    using image_umount [OF assms(1) j(2) p(1)] unfolding umount_image_def by blast
  have m3: "?f3 (ds @ [mount_name x, k]) = None" for k using place(2) by simp
  obtain t where t: "rmdir_path ?h ?mnt u = (Inr (), t)" "host_at (?f3(?m := None)) tr' t"
    using host_rmdir [OF assms(1) u(2) site_upd [OF site2] n(1) p(1) fun_upd_same m3] by blast
  have "?f3(?m := None) = ?f2" using place(1) by auto
  then have host: "host_at ?f2 tr' t" using t(2) by (simp only:)
  have cached: "file_exists ?h ?out s" "file_exists ?h (digest_file ?out) s" "cached_digest ?h (digest_file ?out) s = old"
    using host_at_exists [OF assms(6) site x(1) p(3)] host_at_exists [OF assms(6) site n(3) p(2)] assms(10,11)
      cached_digest_host [OF assms(1,6) site n(3) p(2) assms(11)] by auto
  have "build_from_layers env (l # ls) digest ?out (bh_step s) = (Inl BlobFailed, t)"
    unfolding build_from_layers_def Let_def j(1)
    by (subst b_all.simps, subst op_seq_apply, subst ex) (simp add: op_seq_apply op_lift_apply u(1) [simplified] t(1) [simplified])
  then have "pull_and_convert env r ?out s = (Inl BlobFailed, t)"
    using assms(2,3,12) cached by (simp add: pull_and_convert_def)
  moreover have "?f2 ?g = Some (Reg old m)" using assms(11) by simp
  then have "pull_and_convert env' r ?out t = (Inr (), bh_step t)"
    using host_at_exists [OF host site2 x(1) p(3)] host_at_exists [OF host site2 n(3) p(2)] assms(13-15)
      cached_digest_host [OF assms(1) host site2 n(3) p(2)] by (simp add: pull_and_convert_def)
  ultimately show ?thesis using host u(3) by blast
qed

text \<open>An error while the agent is installed returns before the unmount: the image stays mounted.\<close>

lemma failed_install_stays_mounted:
  assumes "quiet (ie_host env)" and "host_at f tr s" and "site ds f" and "ordinary x" and "ordinary (agent_name x)"
    and "parts_of (ie_host env) out = ds @ [x]" and "parts_of (ie_host env) (out @ ''-agent-install'') = ds @ [agent_name x]"
    and "out \<noteq> []" and "f (ds @ [x]) = Some (Disk n True)" and "f (ds @ [agent_name x]) = None"
    and "tree_ok dirs (look (tr (ds @ [x])))" and "file_path dirs runner_at" and "tr (ds @ [x]) runner_at = None" and "ie_exe env = None"
  shows "\<exists>u. install_agent_if_missing env out s = (Inl (CallFailed ''current_exe''), u) \<and>
    bh_mounts u = [\<lparr>mt_dir = ds @ [agent_name x], mt_src = source.Image (ds @ [x]), mt_ro = False\<rparr>]"
proof -
  let ?h = "ie_host env" and ?mnt = "out @ ''-agent-install''" and ?q = "ds @ [agent_name x]" and ?t = "look (tr (ds @ [x]))"
  let ?f = "f(?q \<mapsto> Dir)"
  obtain a where a: "mkdirs_path ?h ?mnt s = (Inr (), a)" "host_at ?f tr a"
    using host_mkdirs [OF assms(1-3,5,7)] assms(10) by blast
  have other: "?f (ds @ [x]) = Some (Disk n True)" using assms(9) by simp
  obtain b where b: "mount_image ?h out ?mnt a = (Inr (), b)" "in_image ?q (ds @ [x]) dirs ?f tr ?t b"
    using host_mount [OF assms(1) a(2) site_upd [OF assms(3)] assms(4,6,5,7) other fun_upd_same assms(11)] unfolding mount_image_def by blast
  have "parts_of ?h (?mnt @ ''/usr/local/bin/fc-runner'') = ?q @ runner_at"
    using parts_of_below [of ?mnt ?h "''usr/local/bin/fc-runner''"] assms(7) by (simp add: agent_parts)
  then have "\<not> file_exists ?h (?mnt @ ''/usr/local/bin/fc-runner'') b"
    using file_exists_in [OF b(2) assms(12)] assms(13) by (simp add: look_def)
  then have "install_agent_files env ?mnt b = (Inl (CallFailed ''current_exe''), b)"
    using assms(14) by (simp add: install_agent_files_def Let_def op_bind_apply b_ask_def op_seq_apply agent_binary_def op_fail_def)
  then show ?thesis
    using a(1) b by (simp add: install_agent_if_missing_def Let_def op_seq_apply in_image_def)
qed

text \<open>A link of the image is followed on the host: with \<open>/etc/fstab\<close> a link to a file of the host, the file of
  the host is overwritten.\<close>

lemma walk_dirs:
  assumes "\<forall>c \<in> set xs. ordinary c" and "\<And>q. prefix q xs \<Longrightarrow> q \<noteq> [] \<Longrightarrow> t (here @ q) = Some Dir"
  shows "walk t n follow here (xs @ ys) = walk t n follow (here @ xs) ys"
  using assms
proof (induction xs arbitrary: here)
  case (Cons c xs)
  have "t (here @ [c]) = Some Dir" using Cons.prems(2) [of "[c]"] by simp
  moreover have "walk t n follow (here @ [c]) (xs @ ys) = walk t n follow ((here @ [c]) @ xs) ys"
    using Cons.prems by (intro Cons.IH) auto
  ultimately show ?case using Cons.prems(1) by (simp add: ordinary_def)
qed simp

lemma image_link_overwrites_host:
  assumes "quiet h" and "in_image d i dirs f tr t s" and "parts_of h mnt = d" and "mnt \<noteq> []" and "t [''etc''] = Some Dir"
    and "t fstab_at = Some (Lnk ''/etc/shadow'')" and "f [''etc''] = Some Dir" and "f [''etc'', ''shadow''] = Some (Reg c m)"
    and "\<not> prefix d [''etc'', ''shadow'']"
  shows "\<exists>u. write_path h (mnt @ ''/etc/fstab'') root_fstab s = (Inr (), u) \<and>
    bh_fs u [''etc'', ''shadow''] = Some (Reg root_fstab m) \<and> bh_trees u = bh_trees s"
proof -
  note v = in_image_sees [OF assms(2)]
  have "\<not> prefix d [''etc'']" using assms(9) prefix_order.trans [of d "[''etc'']"] by auto
  then have out: "visible s [''etc''] = Some Dir" "visible s [''etc'', ''shadow''] = Some (Reg c m)"
    using v(2) [OF assms(9)] v(2) [of "[''etc'']"] assms(7,8) by simp_all
  have d: "\<forall>x \<in> set (d @ [''etc'']). ordinary x"
    using v(3) by (auto simp: mount_dir_def ordinary_def)
  have dir: "visible s ([] @ q) = Some Dir" if "prefix q (d @ [''etc''])" "q \<noteq> []" for q
    using that v(1) [of "[''etc'']"] assms(5) v(3) by (auto simp: mount_dir_def)
  have "walk (visible s) max_links True [] ((d @ [''etc'']) @ [''fstab'']) = walk (visible s) max_links True ([] @ d @ [''etc'']) [''fstab'']"
    by (rule walk_dirs) (use d dir in auto)
  also have "\<dots> = Some [''etc'', ''shadow'']"
  proof -
    have "visible s (d @ fstab_at) = Some (Lnk ''/etc/shadow'')" using v(1) [of fstab_at] assms(6) by simp
    moreover have "path_components ''/etc/shadow'' = [''etc'', ''shadow'']" by code_simp
    ultimately show ?thesis using out by (simp add: starts_with_slash max_links_def)
  qed
  finally have "reach_path h True (mnt @ ''/etc/fstab'') s = Some [''etc'', ''shadow'']"
    using parts_of_below [OF assms(4), of h "''etc/fstab''"] assms(3) by (simp add: reach_path_def agent_parts)
  moreover have "mount_over s [''etc'', ''shadow''] = None" using assms(2,9) by (simp add: in_image_def mount_over_def)
  ultimately show ?thesis
    using b_sys_quiet [OF assms(1)] out
    by (simp add: write_path_def do_write_def look_def set_node_def b_sys_def bh_step_def)
qed

section \<open>A registry and a host, for the witness\<close>

definition demo_image_dirs :: "string list set" where
  "demo_image_dirs = insert [''lost+found''] (set (concat (map prefixes agent_dirs)))"

definition demo_image_entries :: "tar_entry list" where
  "demo_image_entries = [\<lparr>te_path = ''usr/bin/'', te_node = Dir\<rparr>, \<lparr>te_path = ''etc/os-release'', te_node = Reg ''demo'' None\<rparr>]"

definition quiet_env_at :: "string list \<Rightarrow> build_env" where
  "quiet_env_at cwd = \<lparr>be_ok = (\<lambda>_. True), be_out = (\<lambda>_. Runs), be_cwd = cwd\<rparr>"

definition demo_image_env :: image_env where
  "demo_image_env = \<lparr>ie_host = quiet_env_at [], ie_layer = plain_env, ie_parses = (\<lambda>_. True),
     ie_manifest = Some ([\<lparr>lr_media = ''gz'', lr_digest = ''1''\<rparr>], ''sha256:1''),
     ie_blob = (\<lambda>_. Some (Some (map Some demo_image_entries))), ie_media = (''gz'', ''gzip''), ie_exe = Some ''/bin/fc-runner''\<rparr>"

definition demo_image_fs :: fs where
  "demo_image_fs = map_of [([''img''], Dir), ([''bin''], Dir), ([''bin'', ''fc-runner''], Reg ''ELF'' (Some exec_bits))]"

definition demo_image_host :: bhost where
  "demo_image_host = \<lparr>bh_fs = demo_image_fs, bh_trees = (\<lambda>_. Map.empty), bh_mounts = [], bh_mtime = (\<lambda>_. 0), bh_tick = 0\<rparr>"

lemma demo_image_items:
  "map item_of demo_image_entries = [Node [''usr'', ''bin''] Dir, Node [''etc'', ''os-release''] (Reg ''demo'' None)]"
  by code_simp

lemma demo_in_dirs: "r \<in> demo_image_dirs \<longleftrightarrow> r = [''lost+found''] \<or> (\<exists>q \<in> set agent_dirs. prefix r q)"
  by (auto simp: demo_image_dirs_def)

lemma demo_layers_tree:
  "layers_tree demo_image_env [\<lparr>lr_media = ''gz'', lr_digest = ''1''\<rparr>] fresh_tree =
     put_node [''etc'', ''os-release''] (Reg ''demo'' None) (put_node [''usr'', ''bin''] Dir fresh_tree)"
  by (simp add: layers_tree_def holds_files_def demo_image_env_def layer_entries_def demo_image_items oci_layer_def hide_def comp_def)

lemma demo_good_layers: "good_layers demo_image_env demo_image_dirs [\<lparr>lr_media = ''gz'', lr_digest = ''1''\<rparr>]"
proof -
  have i: "item_of \<lparr>te_path = ''usr/bin/'', te_node = Dir\<rparr> = Node [''usr'', ''bin''] Dir"
    "item_of \<lparr>te_path = ''etc/os-release'', te_node = Reg ''demo'' None\<rparr> = Node [''etc'', ''os-release''] (Reg ''demo'' None)"
    using demo_image_items by (simp_all add: demo_image_entries_def)
  have p: "r = [] \<or> r = [''etc'']" if "prefix r [''etc'', ''os-release'']" "r \<noteq> [''etc'', ''os-release'']" for r
    using that by (auto simp: prefix_Cons)
  have "\<forall>e \<in> set demo_image_entries. entry_ok demo_image_dirs e"
    by (auto dest!: p simp: demo_image_entries_def entry_ok_def i starts_with_slash ordinary_def demo_in_dirs agent_dirs_def strict_prefix_def)
  moreover have "own_files_kept (map item_of demo_image_entries)" by (simp add: demo_image_items)
  ultimately show ?thesis
    by (simp add: good_layers_def good_layer_def layer_entries_def demo_image_env_def comp_def)
qed

lemma pull_builds_image_witness:
  "\<exists>t tr. pull_and_convert demo_image_env ''img:1'' ''/img/root.ext4'' demo_image_host = (Inr (), t) \<and> host_at (bh_fs t) tr t \<and>
     bh_fs t [''img'', ''root.ext4.digest''] = Some (Reg ''sha256:1'' None) \<and>
     tr [''img'', ''root.ext4''] [''etc'', ''os-release''] = Some (Reg ''demo'' None) \<and>
     tr [''img'', ''root.ext4''] runner_at = Some (Reg ''ELF'' (Some exec_bits)) \<and>
     pull_and_convert demo_image_env ''img:1'' ''/img/root.ext4'' t = (Inr (), bh_step t)"
proof -
  let ?ls = "[\<lparr>lr_media = ''gz'', lr_digest = ''1''\<rparr>]"
  let ?t = "layers_tree demo_image_env ?ls fresh_tree"
  have env: "quiet (ie_host demo_image_env)" "calm (ie_layer demo_image_env)" "ie_parses demo_image_env ''img:1''"
    "ie_manifest demo_image_env = Some (?ls, ''sha256:1'')" "ie_exe demo_image_env = Some ''/bin/fc-runner''"
    "unpacks (ie_layer demo_image_env) ([''img''] @ [mount_name ''root.ext4'']) demo_image_dirs"
    by (simp_all add: demo_image_env_def quiet_def quiet_env_at_def plain_calm plain_unpacks)
  have host: "host_at demo_image_fs (\<lambda>_. Map.empty) demo_image_host" by (simp add: host_at_def demo_image_host_def)
  have parts: "parts_of (ie_host demo_image_env) ''/img'' = [''img'']" "parts_of (ie_host demo_image_env) ''/bin/fc-runner'' = [''bin'', ''fc-runner'']"
    by code_simp+
  have place: "image_place demo_image_fs [''img''] ''root.ext4''"
    by (auto simp: image_place_def site_def demo_image_fs_def ordinary_def prefix_Cons)
  have nodig: "\<forall>a m. demo_image_fs ([''img''] @ [digest_name ''root.ext4'']) = Some (Reg a m) \<longrightarrow> trim a \<noteq> ''sha256:1''"
    by (simp add: demo_image_fs_def)
  have fresh: "tree_ok demo_image_dirs fresh_tree"
    by (auto simp: tree_ok_def fresh_tree_def demo_in_dirs agent_dirs_def strict_prefix_def prefix_Cons split: if_splits)
  have val: "?t q = (if q = [''etc'', ''os-release''] then Some (Reg ''demo'' None) else if prefix q [''etc'', ''os-release''] then Some Dir
      else if prefix q [''usr'', ''bin''] then Some Dir else fresh_tree q)" for q
    by (simp add: demo_layers_tree put_dir_at) (simp add: put_node_def strict_prefix_def put_dir_at)
  have fv: "fresh_tree q = (if q = [] \<or> q = [''lost+found''] then Some Dir else None)" for q by (simp add: fresh_tree_def)
  have fits: "agent_fits demo_image_dirs ?t"
    by (auto simp: agent_fits_def val fv demo_in_dirs plain_files_def agent_dirs_def)
  have exe: "host_file ([''img''] @ [agent_name ''root.ext4'']) demo_image_fs [''bin'', ''fc-runner''] ''ELF'' (Some exec_bits)"
    by (auto simp: host_file_def ordinary_def demo_image_fs_def strict_prefix_def prefix_Cons)
  obtain t tr where t: "pull_and_convert demo_image_env ''img:1'' (''/img'' @ CHR ''/'' # ''root.ext4'') demo_image_host = (Inr (), t)"
    "host_at (demo_image_fs([''img''] @ [''root.ext4''] \<mapsto> Disk default_image_size True,
      [''img''] @ [digest_name ''root.ext4''] \<mapsto> Reg ''sha256:1'' (bits_of (demo_image_fs ([''img''] @ [digest_name ''root.ext4'']))))) tr t"
    "look (tr ([''img''] @ [''root.ext4''])) = agent_tree ''ELF'' ?t"
    "trim ''sha256:1'' = ''sha256:1'' \<longrightarrow> pull_and_convert demo_image_env ''img:1'' (''/img'' @ CHR ''/'' # ''root.ext4'') t = (Inr (), bh_step t)"
    using pull_builds_image [OF env(1-4) host _ parts(1) place nodig env(6) demo_good_layers fresh fits env(5) parts(2) exe] by fastforce
  have trim: "trim ''sha256:1'' = ''sha256:1''" by (simp add: trim_id is_ws_def)
  have node: "tr [''img'', ''root.ext4''] q = agent_tree ''ELF'' ?t q" if "q \<noteq> []" for q
    using fun_cong [OF t(3), of q] that by (simp add: look_def)
  have "?t runner_at = None" by (simp add: val fv)
  then have "tr [''img'', ''root.ext4''] runner_at = Some (Reg ''ELF'' (Some exec_bits))"
    by (simp add: node agent_tree_def agent_nodes_def)
  moreover have "tr [''img'', ''root.ext4''] [''etc'', ''os-release''] = Some (Reg ''demo'' None)"
    by (simp add: node agent_tree_def agent_nodes_def agent_dirs_def val)
  ultimately show ?thesis
    using t(1,2,4) trim by (intro exI [of _ t] exI [of _ tr]) (auto simp: host_at_def demo_image_fs_def bits_of_def)
qed

end
