(* ===== verification/Ext4.thy ===== *)
theory Ext4
  imports Rust_Strings "HOL-Library.Word" "HOL-Library.Sublist"
begin

text \<open>
  The byte-level parts of the host's set-up (\<open>src/src/vm/setup.rs\<close>): the superblock of an ext4 image
  and the arithmetic of shrinking it, the two copying loops that make the image, the search for its
  partition, and the search for the drivers in a kernel. Files are lists of bytes.
\<close>

unbundle bit_operations_syntax

type_synonym byte = "8 word"

section \<open>Numbers in little-endian order\<close>

fun le_nat :: "byte list \<Rightarrow> nat" where
  "le_nat [] = 0"
| "le_nat (b # bs) = unat b + 256 * le_nat bs"

fun le_bytes :: "nat \<Rightarrow> nat \<Rightarrow> byte list" where
  "le_bytes 0 k = []"
| "le_bytes (Suc n) k = word_of_nat k # le_bytes n (k div 256)"

lemma length_le_bytes [simp]: "length (le_bytes n k) = n"
  by (induction n k rule: le_bytes.induct) auto

lemma le_nat_bytes: "le_nat (le_bytes n k) = k mod 256 ^ n"
proof (induction n k rule: le_bytes.induct)
  case (2 n k)
  have "unat (word_of_nat k :: byte) = k mod 256" by (simp add: unat_of_nat)
  then show ?case using 2 by (simp add: mod_mult2_eq)
qed simp

section \<open>The superblock\<close>

datatype sb_error = ShortFile | BadMagic nat

definition sb_field :: "byte list \<Rightarrow> nat \<Rightarrow> nat \<Rightarrow> byte list" where
  "sb_field file off n = take n (drop (1024 + off) file)"

definition le_u32 :: "byte list \<Rightarrow> 32 word" where
  "le_u32 bs = word_of_nat (le_nat bs)"

text \<open>
  The number of blocks and the size of one. The shift is the one of a release build, which takes the
  amount modulo the width; the addition before it wraps at 32 bits.
\<close>

definition read_ext4_superblock :: "byte list \<Rightarrow> sb_error + (64 word \<times> 64 word)" where
  "read_ext4_superblock file =
     (if length file < 1024 + 512 then Inl ShortFile
      else if le_nat (sb_field file 56 2) \<noteq> 0xEF53 then Inl (BadMagic (le_nat (sb_field file 56 2)))
      else
        (let blocks_lo = ucast (le_u32 (sb_field file 4 4)) :: 64 word;
             blocks_hi = ucast (le_u32 (sb_field file 336 4)) :: 64 word;
             log_block_size = le_u32 (sb_field file 24 4)
         in Inr (blocks_lo OR push_bit 32 blocks_hi, push_bit (unat (10 + log_block_size) mod 64) 1)))"

definition spare_bytes :: "64 word" where
  "spare_bytes = 512 * 1024 * 1024"

definition final_bytes :: "64 word \<Rightarrow> 64 word \<Rightarrow> 64 word" where
  "final_bytes block_count block_size = block_count * block_size + spare_bytes"

definition final_blocks :: "64 word \<Rightarrow> 64 word \<Rightarrow> 64 word" where
  "final_blocks block_count block_size = final_bytes block_count block_size div block_size"

section \<open>Finding the partition\<close>

definition has_magic :: "byte list \<Rightarrow> nat \<Rightarrow> bool" where
  "has_magic img off \<longleftrightarrow> off + 1024 + 56 + 2 \<le> length img \<and> le_nat (take 2 (drop (off + 1024 + 56) img)) = 0xEF53"

text \<open>The first partition with the magic number, or the whole file; an offset and a length.\<close>

definition find_ext4 :: "(nat \<times> nat) list \<Rightarrow> byte list \<Rightarrow> (nat \<times> nat) option" where
  "find_ext4 partitions img =
     (case find (\<lambda>p. has_magic img (fst p)) partitions of
        Some p \<Rightarrow> Some p
      | None \<Rightarrow> if has_magic img 0 then Some (0, length img) else None)"

section \<open>The copying loops\<close>

definition qcow_chunk :: nat where "qcow_chunk = 1024 * 1024"

definition part_chunk :: nat where "part_chunk = 4 * 1024 * 1024"

text \<open>
  The virtual disk, a chunk at a time: the buffer is cleared, read into, and written whole. A read
  gives the bytes it put at the front of the buffer.
\<close>

function copy_qcow :: "(nat \<Rightarrow> nat \<Rightarrow> byte list option) \<Rightarrow> nat \<Rightarrow> nat \<Rightarrow> byte list option" where
  "copy_qcow read_at virtual_size offset =
     (if offset < virtual_size then
        (let to_read = min qcow_chunk (virtual_size - offset) in
         case read_at offset to_read of
           None \<Rightarrow> None
         | Some bs \<Rightarrow>
             map_option (\<lambda>rest. take to_read (bs @ replicate to_read 0) @ rest)
               (copy_qcow read_at virtual_size (offset + to_read)))
      else Some [])"
  by pat_completeness auto
termination by (relation "measure (\<lambda>(r, size, offset). size - offset)") (auto simp: qcow_chunk_def)

declare copy_qcow.simps [simp del]

text \<open>The partition: a read may give fewer bytes than asked for, and none at the end of the file.\<close>

function copy_partition :: "(nat \<Rightarrow> nat \<Rightarrow> nat) \<Rightarrow> byte list \<Rightarrow> nat \<Rightarrow> nat \<Rightarrow> byte list" where
  "copy_partition gives img pos remaining =
     (if 0 < remaining then
        (let to_read = min part_chunk remaining;
             n = min (gives pos to_read) (min to_read (length img - pos))
         in if n = 0 then [] else take n (drop pos img) @ copy_partition gives img (pos + n) (remaining - n))
      else [])"
  by pat_completeness auto
termination by (relation "measure (\<lambda>(g, img, pos, remaining). remaining)") (auto simp: part_chunk_def)

declare copy_partition.simps [simp del]

definition extract_partition :: "(nat \<Rightarrow> nat \<Rightarrow> nat) \<Rightarrow> (nat \<times> nat) list \<Rightarrow> byte list \<Rightarrow> byte list option" where
  "extract_partition gives partitions img =
     map_option (\<lambda>(off, len). copy_partition gives img off len) (find_ext4 partitions img)"

section \<open>Drivers in a kernel\<close>

definition windows :: "nat \<Rightarrow> 'a list \<Rightarrow> 'a list list" where
  "windows n xs = map (\<lambda>i. take n (drop i xs)) [0..<Suc (length xs) - n]"

definition nuls :: string where "nuls = [CHR 0x00, CHR 0x00, CHR 0x00]"

definition has_squashfs :: "string \<Rightarrow> bool" where
  "has_squashfs data \<longleftrightarrow>
     list_ex (\<lambda>w. w = ''squashfs: version'') (windows 17 data) \<or>
     list_ex (\<lambda>w. w = ''squashfs_fs_type'' @ nuls \<or> starts_with w ''squashfs_read_'') (windows 19 data)"

definition has_overlay :: "string \<Rightarrow> bool" where
  "has_overlay data \<longleftrightarrow>
     list_ex (\<lambda>w. w = ''overlayfs: '' @ [CHR 0x00] \<or> w = ''overlayfs: o'') (windows 12 data) \<or>
     list_ex (\<lambda>w. w = ''ovl_fs_type'' @ nuls \<or> starts_with w (''ovl_mount_dir'' @ [CHR 0x00])) (windows 14 data)"

section \<open>The loops copy everything\<close>

lemma take_drop_split: "i + m \<le> j \<Longrightarrow> take m (drop i xs) @ take (j - (i + m)) (drop (i + m) xs) = take (j - i) (drop i xs)"
proof -
  assume "i + m \<le> j"
  then have "take (j - i) (drop i xs) = take (m + (j - (i + m))) (drop i xs)" by simp
  then show ?thesis by (simp add: take_add add.commute)
qed

lemma copy_qcow_from:
  assumes reads: "\<forall>off n. off + n \<le> length disk \<longrightarrow> read_at off n = Some (take n (drop off disk))"
  shows "copy_qcow read_at (length disk) offset = Some (drop offset disk)"
proof (induction "length disk - offset" arbitrary: offset rule: less_induct)
  case less
  show ?case
  proof (cases "offset < length disk")
    case True
    define n where "n = min qcow_chunk (length disk - offset)"
    have n: "0 < n" "offset + n \<le> length disk" using True by (auto simp: n_def qcow_chunk_def)
    have "copy_qcow read_at (length disk) (offset + n) = Some (drop (offset + n) disk)"
      by (rule less) (use n True in auto)
    moreover have "take n (take n (drop offset disk) @ replicate n 0) = take n (drop offset disk)"
      using n by simp
    moreover have "take n (drop offset disk) @ drop (offset + n) disk = drop offset disk"
      by (metis append_take_drop_id drop_drop add.commute)
    ultimately show ?thesis
      using True reads n(2) by (subst copy_qcow.simps) (simp add: n_def [symmetric] Let_def)
  next
    case False
    then show ?thesis by (subst copy_qcow.simps) simp
  qed
qed

text \<open>The loop that turns the downloaded disk into a raw one ends, and when each read gives the bytes it was
  asked for the result is the whole disk, whatever its size.\<close>

theorem copy_qcow_whole_disk:
  assumes "\<forall>off n. off + n \<le> length disk \<longrightarrow> read_at off n = Some (take n (drop off disk))"
  shows "copy_qcow read_at (length disk) 0 = Some disk"
  using copy_qcow_from [OF assms, of 0] by simp

lemma copy_qcow_whole_disk_witness:
  "copy_qcow (\<lambda>off n. Some (take n (drop off (replicate 3000000 7)))) 3000000 0 = Some (replicate 3000000 7)"
  using copy_qcow_whole_disk [of "replicate 3000000 7" "\<lambda>off n. Some (take n (drop off (replicate 3000000 7)))"]
  by simp

lemma copy_partition_all:
  assumes gives: "\<forall>p n. 0 < n \<longrightarrow> 0 < gives p n"
  shows "copy_partition gives img pos remaining = take remaining (drop pos img)"
proof (induction remaining arbitrary: pos rule: less_induct)
  case (less remaining)
  define w where "w = min part_chunk remaining"
  define n where "n = min (gives pos w) (min w (length img - pos))"
  show ?case
  proof (cases "0 < remaining \<and> pos < length img")
    case True
    have w: "0 < w" "w \<le> remaining" using True by (auto simp: w_def part_chunk_def)
    have n: "0 < n" "n \<le> remaining" using True w gives by (auto simp: n_def)
    have "copy_partition gives img (pos + n) (remaining - n) = take (remaining - n) (drop (pos + n) img)"
      by (rule less) (use n in auto)
    moreover have "take n (drop pos img) @ take (remaining - n) (drop (pos + n) img) = take remaining (drop pos img)"
      using take_drop_split [of pos n "pos + remaining" img] n by simp
    ultimately show ?thesis
      using True n by (subst copy_partition.simps) (simp add: w_def [symmetric] n_def [symmetric] Let_def)
  next
    case False
    then show ?thesis
      by (subst copy_partition.simps) (auto simp: Let_def)
  qed
qed

text \<open>The partition that is taken.\<close>

lemma find_ext4_first:
  "find_ext4 ps img =
     (if \<exists>p \<in> set ps. has_magic img (fst p) then Some (hd (filter (\<lambda>p. has_magic img (fst p)) ps))
      else if has_magic img 0 then Some (0, length img) else None)"
proof -
  have "find (\<lambda>p. has_magic img (fst p)) ps = (case filter (\<lambda>p. has_magic img (fst p)) ps of [] \<Rightarrow> None | p # _ \<Rightarrow> Some p)"
    by (induction ps) auto
  then show ?thesis
    by (auto simp: find_ext4_def filter_empty_conv split: list.splits)
qed

text \<open>C24: The root file system is cut out of the raw disk exactly: the bytes of the first partition with the ext4
  magic number, of the whole disk when it is a bare file system, and nothing when there is neither; the
  copying loop ends, however few bytes the reads give at a time.\<close>

theorem extract_partition_spec:
  assumes "\<forall>p n. 0 < n \<longrightarrow> 0 < gives p n"
  shows "extract_partition gives ps img =
    (if \<exists>p \<in> set ps. has_magic img (fst p)
     then (case hd (filter (\<lambda>p. has_magic img (fst p)) ps) of (off, len) \<Rightarrow> Some (take len (drop off img)))
     else if has_magic img 0 then Some img else None)"
  by (simp add: extract_partition_def find_ext4_first copy_partition_all [OF assms] split: prod.split)

definition demo_disk :: "byte list" where
  "demo_disk = replicate 20 1 @ replicate 1080 2 @ le_bytes 2 0xEF53 @ replicate 50 3"

lemma extract_partition_spec_witness:
  "extract_partition (\<lambda>p n. 1) [(0, 20), (20, 1100)] demo_disk = Some (take 1100 (drop 20 demo_disk))"
proof -
  have len: "length demo_disk = 1152" by (simp add: demo_disk_def)
  have "take 2 (drop 1080 demo_disk) = replicate 2 2" by (simp add: demo_disk_def)
  then have zero: "take 2 (drop 1080 demo_disk) = [2, 2]" by (simp only: numeral_2_eq_2 replicate_Suc replicate_0)
  have here: "take 2 (drop 1100 demo_disk) = le_bytes 2 0xEF53" by (simp add: demo_disk_def)
  have "\<not> has_magic demo_disk 0" "has_magic demo_disk 20"
    using zero here by (simp_all add: has_magic_def le_nat_bytes len)
  then show ?thesis using extract_partition_spec [of "\<lambda>p n. 1" "[(0, 20), (20, 1100)]" demo_disk] by simp
qed

section \<open>The superblock is read right\<close>

text \<open>A superblock with the given fields, over whatever the file held.\<close>

definition patch :: "nat \<Rightarrow> byte list \<Rightarrow> byte list \<Rightarrow> byte list" where
  "patch off bs file = take off file @ bs @ drop (off + length bs) file"

definition write_superblock :: "nat \<Rightarrow> nat \<Rightarrow> byte list \<Rightarrow> byte list" where
  "write_superblock blocks log_size file =
     patch (1024 + 56) (le_bytes 2 0xEF53) (patch (1024 + 4) (le_bytes 4 (blocks mod 2 ^ 32))
       (patch (1024 + 336) (le_bytes 4 (blocks div 2 ^ 32)) (patch (1024 + 24) (le_bytes 4 log_size) file)))"

lemma patch_length: "off + length bs \<le> length file \<Longrightarrow> length (patch off bs file) = length file"
  by (simp add: patch_def)

lemma field_patch_same: "off = 1024 + k \<Longrightarrow> off + length bs \<le> length file \<Longrightarrow> n = length bs \<Longrightarrow> sb_field (patch off bs file) k n = bs"
  by (simp add: sb_field_def patch_def)

lemma field_patch_other:
  assumes "1024 + k + n \<le> off \<or> off + length bs \<le> 1024 + k" and "off + length bs \<le> length file"
  shows "sb_field (patch off bs file) k n = sb_field file k n"
proof (rule nth_equalityI)
  have len: "length (patch off bs file) = length file" using assms(2) by (rule patch_length)
  then show "length (sb_field (patch off bs file) k n) = length (sb_field file k n)" by (simp add: sb_field_def)
  fix i assume "i < length (sb_field (patch off bs file) k n)"
  then have i: "i < n" "1024 + k + i < length file" using len by (auto simp: sb_field_def)
  then have "patch off bs file ! (1024 + k + i) = file ! (1024 + k + i)"
    using assms by (auto simp: patch_def nth_append min_def add.assoc)
  then show "sb_field (patch off bs file) k n ! i = sb_field file k n ! i"
    using i len by (simp add: sb_field_def)
qed

lemma u32_bytes: "k < 2 ^ 32 \<Longrightarrow> le_u32 (le_bytes 4 k) = word_of_nat k"
  by (simp add: le_u32_def le_nat_bytes)

text \<open>C23: The superblock that \<open>mkfs\<close> wrote is read back: from a file with the magic number, a number of blocks
  below \<open>2^64\<close> in two halves and the logarithm of a block size of at most 64 KiB, exactly that number and
  that size.\<close>

theorem superblock_round_trip:
  assumes "1024 + 512 \<le> length file" and "blocks < 2 ^ 64" and "log_size \<le> 6"
  shows "\<exists>count size. read_ext4_superblock (write_superblock blocks log_size file) = Inr (count, size) \<and>
    unat count = blocks \<and> unat size = 1024 * 2 ^ log_size"
proof -
  let ?f1 = "patch (1024 + 24) (le_bytes 4 log_size) file"
  let ?f2 = "patch (1024 + 336) (le_bytes 4 (blocks div 2 ^ 32)) ?f1"
  let ?f3 = "patch (1024 + 4) (le_bytes 4 (blocks mod 2 ^ 32)) ?f2"
  let ?f = "write_superblock blocks log_size file"
  have len: "length ?f1 = length file" "length ?f2 = length file" "length ?f3 = length file" "length ?f = length file"
    using assms(1) by (simp_all add: write_superblock_def patch_length)
  have magic: "sb_field ?f 56 2 = le_bytes 2 0xEF53"
    using assms(1) len by (simp add: write_superblock_def field_patch_same)
  have lo: "sb_field ?f 4 4 = le_bytes 4 (blocks mod 2 ^ 32)"
    using assms(1) len by (simp add: write_superblock_def field_patch_same field_patch_other)
  have hi: "sb_field ?f 336 4 = le_bytes 4 (blocks div 2 ^ 32)"
    using assms(1) len by (simp add: write_superblock_def field_patch_same field_patch_other)
  have lg: "sb_field ?f 24 4 = le_bytes 4 log_size"
    using assms(1) len by (simp add: write_superblock_def field_patch_same field_patch_other)
  define lo_w where "lo_w = (word_of_nat (blocks mod 2 ^ 32) :: 32 word)"
  define hi_w where "hi_w = (word_of_nat (blocks div 2 ^ 32) :: 32 word)"
  have u: "unat lo_w = blocks mod 2 ^ 32" "unat hi_w = blocks div 2 ^ 32"
    using assms(2) by (simp_all add: lo_w_def hi_w_def unat_of_nat)
  define count where "count = (ucast lo_w :: 64 word) OR push_bit 32 (ucast hi_w)"
  have "unat count = blocks"
  proof -
    have "unat (ucast lo_w :: 64 word) = blocks mod 2 ^ 32" "unat (ucast hi_w :: 64 word) = blocks div 2 ^ 32"
      using u assms(2) by (simp_all add: unsigned_ucast_eq take_bit_nat_eq_self)
    moreover from this have "unat (push_bit 32 (ucast hi_w :: 64 word)) = 2 ^ 32 * (blocks div 2 ^ 32)"
      using assms(2) by (simp add: push_bit_eq_mult unat_word_ariths)
    moreover have "(ucast lo_w :: 64 word) AND push_bit 32 (ucast hi_w) = 0"
      by (rule bit_word_eqI) (auto simp: bit_simps dest: bit_imp_le_length)
    then have "count = ucast lo_w + push_bit 32 (ucast hi_w)" by (simp add: count_def disjunctive_add_eq_or)
    ultimately show ?thesis using assms(2) by (simp add: unat_word_ariths)
  qed
  moreover have "unat (push_bit (unat (10 + (word_of_nat log_size :: 32 word)) mod 64) (1 :: 64 word)) = 1024 * 2 ^ log_size"
  proof -
    have "log_size \<in> {0, 1, 2, 3, 4, 5, 6}" using assms(3) by auto
    then show ?thesis by (elim insertE emptyE) simp_all
  qed
  moreover have "read_ext4_superblock ?f = Inr (count, push_bit (unat (10 + (word_of_nat log_size :: 32 word)) mod 64) 1)"
    using assms len
    by (simp add: read_ext4_superblock_def magic lo hi lg le_nat_bytes u32_bytes count_def lo_w_def hi_w_def Let_def)
  ultimately show ?thesis by blast
qed

lemma superblock_round_trip_witness:
  "\<exists>count size. read_ext4_superblock (write_superblock 1572864 2 (replicate 2048 0)) = Inr (count, size) \<and>
     unat count = 1572864 \<and> unat size = 4096"
  using superblock_round_trip [of "replicate 2048 0" 1572864 2] by simp

text \<open>A file without the magic number is refused, and so is one that is too short.\<close>

lemma superblock_refused:
  "length file < 1536 \<or> le_nat (sb_field file 56 2) \<noteq> 0xEF53 \<longleftrightarrow> (\<exists>e. read_ext4_superblock file = Inl e)"
  by (auto simp: read_ext4_superblock_def Let_def)

section \<open>Shrinking keeps the file system\<close>



text \<open>A superblock that makes the size wrap is believed: with \<open>2^52\<close> blocks of 4096 bytes the image is cut to half
  a gigabyte.\<close>

lemma shrink_wraps: "final_bytes 4503599627370496 4096 = 536870912"
  by (simp add: final_bytes_def spare_bytes_def)

section \<open>What a kernel has to contain\<close>

lemma in_windows: "0 < n \<Longrightarrow> w \<in> set (windows n xs) \<longleftrightarrow> length w = n \<and> sublist w xs"
proof
  assume n: "0 < n" and "w \<in> set (windows n xs)"
  then obtain i where "i \<in> set [0..<Suc (length xs) - n]" and w: "w = take n (drop i xs)"
    unfolding windows_def set_map by blast
  with n have i: "i + n \<le> length xs" "w = take n (drop i xs)" by auto
  then have "xs = take i xs @ w @ drop n (drop i xs)" by (simp only: append_take_drop_id)
  then show "length w = n \<and> sublist w xs" using i unfolding sublist_def by auto
next
  assume n: "0 < n" and "length w = n \<and> sublist w xs"
  then obtain as bs where "xs = as @ w @ bs" "length w = n" by (auto simp: sublist_def)
  then have "w = take n (drop (length as) xs)" "length as + n \<le> length xs" by auto
  then show "w \<in> set (windows n xs)" by (auto simp: windows_def)
qed

lemma window_is: "length w = n \<Longrightarrow> 0 < n \<Longrightarrow> list_ex (\<lambda>v. v = w) (windows n xs) \<longleftrightarrow> sublist w xs"
  using in_windows [of n w xs] by (auto simp: list_ex_iff)

lemma window_starts:
  assumes "p \<noteq> []" and "length p \<le> n"
  shows "list_ex (\<lambda>v. starts_with v p) (windows n xs) \<longleftrightarrow> (\<exists>rest. length rest = n - length p \<and> sublist (p @ rest) xs)"
proof -
  have n: "0 < n" using assms by (cases p) auto
  show ?thesis
  proof
    assume "list_ex (\<lambda>v. starts_with v p) (windows n xs)"
    then obtain r where "length (p @ r) = n" "sublist (p @ r) xs"
      by (auto simp: list_ex_iff in_windows [OF n] starts_with_iff)
    then show "\<exists>rest. length rest = n - length p \<and> sublist (p @ rest) xs" by (intro exI [of _ r]) auto
  next
    assume "\<exists>rest. length rest = n - length p \<and> sublist (p @ rest) xs"
    then obtain r where "length r = n - length p" "sublist (p @ r) xs" by blast
    then have "p @ r \<in> set (windows n xs)" using assms(2) by (simp add: in_windows [OF n])
    then show "list_ex (\<lambda>v. starts_with v p) (windows n xs)" by (auto simp: list_ex_iff starts_with_iff)
  qed
qed

lemma list_ex_or: "list_ex (\<lambda>w. P w \<or> Q w) ws \<longleftrightarrow> list_ex P ws \<or> list_ex Q ws"
  by (auto simp: list_ex_iff)

lemma window_is_either:
  "length w = n \<Longrightarrow> length w' = n \<Longrightarrow> 0 < n \<Longrightarrow>
    list_ex (\<lambda>v. v = w \<or> v = w') (windows n xs) \<longleftrightarrow> sublist w xs \<or> sublist w' xs"
  by (simp only: list_ex_or window_is)

lemma window_is_or_starts:
  assumes "length w = n" and "p \<noteq> []" and "length p + k = n"
  shows "list_ex (\<lambda>v. v = w \<or> starts_with v p) (windows n xs) \<longleftrightarrow>
    sublist w xs \<or> (\<exists>rest. length rest = k \<and> sublist (p @ rest) xs)"
proof -
  have n: "0 < n" "length p \<le> n" "n - length p = k" using assms by (cases p; auto)+
  show ?thesis unfolding list_ex_or window_is [OF assms(1) n(1)] window_starts [OF assms(2) n(2)] n(3) by (rule refl)
qed

text \<open>A kernel passes as one with both drivers exactly when it contains one of the markers of each; the
  markers that are the start of a name count when the file goes on for the rest of the window.\<close>

theorem kernel_markers:
  "has_squashfs data \<and> has_overlay data \<longleftrightarrow>
     (sublist ''squashfs: version'' data \<or> sublist (''squashfs_fs_type'' @ nuls) data \<or>
      (\<exists>rest. length rest = 5 \<and> sublist (''squashfs_read_'' @ rest) data)) \<and>
     (sublist (''overlayfs: '' @ [CHR 0x00]) data \<or> sublist ''overlayfs: o'' data \<or>
      sublist (''ovl_fs_type'' @ nuls) data \<or> sublist (''ovl_mount_dir'' @ [CHR 0x00]) data)"
proof -
  have sq1: "list_ex (\<lambda>w. w = ''squashfs: version'') (windows 17 data) \<longleftrightarrow> sublist ''squashfs: version'' data"
    by (rule window_is) simp_all
  have sq2: "list_ex (\<lambda>w. w = ''squashfs_fs_type'' @ nuls \<or> starts_with w ''squashfs_read_'') (windows 19 data) \<longleftrightarrow>
      sublist (''squashfs_fs_type'' @ nuls) data \<or> (\<exists>rest. length rest = 5 \<and> sublist (''squashfs_read_'' @ rest) data)"
    by (rule window_is_or_starts) (simp_all add: nuls_def)
  have ov1: "list_ex (\<lambda>w. w = ''overlayfs: '' @ [CHR 0x00] \<or> w = ''overlayfs: o'') (windows 12 data) \<longleftrightarrow>
      sublist (''overlayfs: '' @ [CHR 0x00]) data \<or> sublist ''overlayfs: o'' data"
    by (rule window_is_either) simp_all
  have ov2: "list_ex (\<lambda>w. w = ''ovl_fs_type'' @ nuls \<or> starts_with w (''ovl_mount_dir'' @ [CHR 0x00])) (windows 14 data) \<longleftrightarrow>
      sublist (''ovl_fs_type'' @ nuls) data \<or>
      (\<exists>rest. length rest = 0 \<and> sublist ((''ovl_mount_dir'' @ [CHR 0x00]) @ rest) data)"
    by (rule window_is_or_starts) (simp_all add: nuls_def)
  have whole: "(\<exists>rest. length rest = 0 \<and> sublist (w @ rest) data) \<longleftrightarrow> sublist w data" for w
    by auto
  show ?thesis
    unfolding has_squashfs_def has_overlay_def sq1 sq2 ov1 ov2 whole by blast
qed

end
