(* ===== verification/Rootfs.thy ===== *)
theory Rootfs
  imports Image Ext4
begin

text \<open>
  The root file system made from a cloud image (\<open>src/src/vm/setup.rs\<close>): the kernel and the image
  fetched, the image turned into a file system of its own, packages, users, the runner and the agent
  put into it, the file shrunk, its overlay init kept up to date and a squashfs made of it. Downloads,
  the qcow2 and partition readers, commands inside the image and archives are parameters.
\<close>

section \<open>Parameters\<close>

text \<open>
  What a download gives, how much of a failed write reaches the file, the virtual disk of a qcow2
  image, the partitions of a disk, how much a read gives, the tree of a file system, the first bytes of
  an image after the tools (by the number of the call), whether a program is missing where it is not
  started, a command in the image (whether it succeeds and what it leaves), an archive unpacked at a
  directory, and the program's own file.
\<close>

record setup_env =
  se_host :: build_env
  se_get :: "string \<Rightarrow> string option"
  se_written :: "nat \<Rightarrow> nat"
  se_qcow :: "string \<Rightarrow> (nat \<times> (nat \<Rightarrow> nat \<Rightarrow> byte list option)) option"
  se_partitions :: "byte list \<Rightarrow> (nat \<times> nat) list option"
  se_gives :: "nat \<Rightarrow> nat \<Rightarrow> nat"
  se_tree :: "byte list \<Rightarrow> fs"
  se_super :: "nat \<Rightarrow> byte list"
  se_absent :: "nat \<Rightarrow> bool"
  se_chroot :: "string \<Rightarrow> string list \<Rightarrow> fs \<Rightarrow> bool \<times> fs"
  se_untar :: "string \<Rightarrow> string list \<Rightarrow> fs \<Rightarrow> bool \<times> fs"
  se_exe :: "string option"

definition bytes_of :: "string \<Rightarrow> byte list" where
  "bytes_of s = map (\<lambda>c. word_of_nat (of_char c)) s"

definition chars_of :: "byte list \<Rightarrow> string" where
  "chars_of bs = map (\<lambda>b. char_of (unat b)) bs"

lemma bytes_of_chars [simp]: "bytes_of (chars_of bs) = bs"
proof -
  have "of_char (char_of (unat b) :: char) = unat b" for b :: byte
  proof -
    have "unat b < 256" using unsigned_less [of b, where 'a = nat] by simp
    then show ?thesis by (simp add: of_char_of)
  qed
  then show ?thesis by (simp add: bytes_of_def chars_of_def comp_def map_idI)
qed

section \<open>Calls\<close>

text \<open>Writing to a file that was opened: a write that fails may leave a part.\<close>

definition write_all :: "setup_env \<Rightarrow> string \<Rightarrow> string \<Rightarrow> unit build_op" where
  "write_all env p c s =
     (if be_ok (se_host env) (bh_tick s) then b_sys (se_host env) (CallFailed p) (do_write (se_host env) p c) s
      else (Inl (CallFailed p),
        bh_step (case do_write (se_host env) p (take (se_written env (bh_tick s)) c) s of None \<Rightarrow> s | Some t \<Rightarrow> t)))"

definition download_file :: "setup_env \<Rightarrow> string \<Rightarrow> string \<Rightarrow> unit build_op" where
  "download_file env url dest =
     (case se_get env url of
        None \<Rightarrow> op_fail FetchFailed
      | Some body \<Rightarrow> b_all [write_path (se_host env) dest [], write_all env dest body])"

definition mount_ext4 :: "build_env \<Rightarrow> string \<Rightarrow> string \<Rightarrow> bool \<Rightarrow> unit build_op" where
  "mount_ext4 env img target ro = b_must (b_cmd env ''mount'' (do_mount env img target ro)) (CmdFailed ''mount'')"

text \<open>Mounts whose failure is ignored: a directory of the host, a file system of the kernel's.\<close>

definition put_mount :: "build_env \<Rightarrow> source \<Rightarrow> string \<Rightarrow> bhost \<Rightarrow> bhost option" where
  "put_mount env src target s =
     obind (reach_path env True target s) (\<lambda>d.
       if look (visible s) d = Some Dir
       then Some (s\<lparr>bh_mounts := \<lparr>mt_dir = d, mt_src = src, mt_ro = False\<rparr> # bh_mounts s\<rparr>) else None)"

definition bind_mount :: "build_env \<Rightarrow> string \<Rightarrow> string \<Rightarrow> unit build_op" where
  "bind_mount env source target =
     b_try env (\<lambda>s. obind (reach_path env True source s) (\<lambda>b.
       if look (visible s) b = Some Dir then put_mount env (Bind b) target s else None))"

definition mount_pseudo :: "build_env \<Rightarrow> string \<Rightarrow> string \<Rightarrow> unit build_op" where
  "mount_pseudo env fstype target = b_try env (put_mount env (Other fstype) target)"

definition lazy_umount :: "build_env \<Rightarrow> string \<Rightarrow> unit build_op" where
  "lazy_umount env target = b_sys env (CallFailed target) (do_umount env target)"

text \<open>A command in the image sees the tree below the mount point and leaves another one.\<close>

definition chroot_command :: "setup_env \<Rightarrow> string \<Rightarrow> string \<Rightarrow> string list \<Rightarrow> bool build_op" where
  "chroot_command env root prog args s =
     (let out = be_out (se_host env) (bh_tick s) in
      if out = NotSpawned then (Inl (NoCmd ''chroot''), bh_step s)
      else
        (case reach_path (se_host env) True root s of
           None \<Rightarrow> (Inr False, bh_step s)
         | Some d \<Rightarrow>
             (case se_chroot env prog args (below d (visible s)) of
                (ok, t) \<Rightarrow>
                  (Inr (ok \<and> out = Runs),
                   bh_step (put_visible (\<lambda>q. if prefix d q then t (drop (length d) q) else visible s q) s)))))"

text \<open>\<open>mode | 0o111\<close>; a file made without a mode has the one of the umask, \<open>0o644\<close>.\<close>

definition plus_exec :: "nat option \<Rightarrow> nat" where
  "plus_exec m = or (case m of None \<Rightarrow> 420 | Some k \<Rightarrow> k) 73"

definition do_set_executable :: "build_env \<Rightarrow> string \<Rightarrow> bhost \<Rightarrow> bhost option" where
  "do_set_executable env p s =
     obind (reach_path env True p s) (\<lambda>q.
       case look (visible s) q of
         None \<Rightarrow> None
       | Some (Reg c m) \<Rightarrow> set_node q (Some (Reg c (Some (plus_exec m)))) s
       | _ \<Rightarrow> Some s)"

definition set_executable :: "build_env \<Rightarrow> string \<Rightarrow> unit build_op" where
  "set_executable env p = b_sys env (CallFailed p) (do_set_executable env p)"

text \<open>\<open>remove_dir_all\<close>: a directory with all that is in it, or a link.\<close>

definition do_rmtree :: "build_env \<Rightarrow> string \<Rightarrow> bhost \<Rightarrow> bhost option" where
  "do_rmtree env p s =
     obind (reach_path env False p s) (\<lambda>q.
       case look (visible s) q of
         Some Dir \<Rightarrow>
           if q = [] \<or> (\<exists>m \<in> set (bh_mounts s). prefix q (mt_dir m)) then None
           else Some (put_visible (\<lambda>r. if prefix q r then None else visible s r) s)
       | Some (Lnk _) \<Rightarrow> set_node q None s
       | _ \<Rightarrow> None)"

text \<open>The tools of ext4, looked for in three places; they write to the image.\<close>

definition do_touch :: "build_env \<Rightarrow> string \<Rightarrow> bhost \<Rightarrow> bhost option" where
  "do_touch env p s =
     obind (reach_path env True p s) (\<lambda>q. if is_image (look (visible s) q) then set_node q (look (visible s) q) s else None)"

fun e2fs_in :: "setup_env \<Rightarrow> string list \<Rightarrow> string \<Rightarrow> string \<Rightarrow> bool build_op" where
  "e2fs_in env [] tool p = op_fail (NoCmd tool)"
| "e2fs_in env (dir # dirs) tool p =
     (\<lambda>s. case b_cmd (se_host env) (dir @ tool) (do_touch (se_host env) p) s of
        (Inr ok, t) \<Rightarrow> (Inr ok, t)
      | (Inl e, t) \<Rightarrow> if se_absent env (bh_tick s) then e2fs_in env dirs tool p t else (Inl e, t))"

definition run_e2fs_tool :: "setup_env \<Rightarrow> string \<Rightarrow> string \<Rightarrow> bool build_op" where
  "run_e2fs_tool env tool p = e2fs_in env [''/sbin/'', ''/usr/sbin/'', ''''] tool p"

text \<open>The directory of a path, as \<open>Path::parent\<close> gives it; the text is looked at from its end.\<close>

fun trim_tail :: "string \<Rightarrow> string" where
  "trim_tail [] = []"
| "trim_tail (c # r) =
     (if c = CHR ''/'' \<or> c = CHR ''.'' \<and> r \<noteq> [] \<and> hd r = CHR ''/'' then trim_tail r else c # r)"

definition path_parent :: "string \<Rightarrow> string option" where
  "path_parent p =
     (let q = trim_tail (rev p); r = trim_tail (dropWhile (\<lambda>c. c \<noteq> CHR ''/'') q) in
      if q = [] then None
      else if r \<noteq> [] then Some (rev r)
      else if starts_with p ''/'' then Some ''/'' else Some [])"

text \<open>\<open>create_dir_all\<close> of the empty path does nothing.\<close>

definition make_parent :: "build_env \<Rightarrow> string \<Rightarrow> unit build_op" where
  "make_parent env p = (if p = [] then op_ret () else mkdirs_path env p)"

section \<open>The kernel\<close>

definition ensure_kernel :: "setup_env \<Rightarrow> string \<Rightarrow> string \<Rightarrow> unit build_op" where
  "ensure_kernel env path url s =
     (if file_exists (se_host env) path s then (Inr (), s)
      else b_all
        [case path_parent path of None \<Rightarrow> op_ret () | Some d \<Rightarrow> make_parent (se_host env) d,
         download_file env url path] s)"

definition verify_kernel_overlay_support :: "build_env \<Rightarrow> string \<Rightarrow> unit build_op" where
  "verify_kernel_overlay_support env path s =
     (case (if be_ok env (bh_tick s) then read_at env path s else None) of
        None \<Rightarrow> (Inl (CallFailed path), bh_step s)
      | Some data \<Rightarrow>
          (if \<not> has_squashfs data \<or> \<not> has_overlay data
           then Inl (KernelLacks (\<not> has_squashfs data) (\<not> has_overlay data)) else Inr (), bh_step s))"

section \<open>From the download to a file system\<close>

text \<open>The qcow2 image as a raw disk; when a read fails, what was written before it stays, and is written
  over by the next attempt.\<close>

definition qcow_to_raw :: "setup_env \<Rightarrow> string \<Rightarrow> string \<Rightarrow> unit build_op" where
  "qcow_to_raw env cloud raw s =
     (case obind (if be_ok (se_host env) (bh_tick s) then read_at (se_host env) cloud s else None) (se_qcow env) of
        None \<Rightarrow> (Inl (CallFailed cloud), bh_step s)
      | Some (virtual_size, read) \<Rightarrow> b_all
          [write_path (se_host env) raw [],
           case copy_qcow read virtual_size 0 of
             None \<Rightarrow> op_fail (CallFailed cloud)
           | Some bs \<Rightarrow> write_all env raw (chars_of bs)] (bh_step s))"

text \<open>The file of the partition, and \<open>set_len\<close>: the file system survives when all of it is still in the file.\<close>

definition do_partition :: "setup_env \<Rightarrow> string \<Rightarrow> byte list \<Rightarrow> bhost \<Rightarrow> bhost option" where
  "do_partition env p part s =
     obind (reach_path (se_host env) True p s) (\<lambda>q.
       if look (visible s) q = Some Dir then None
       else map_option (\<lambda>t. t\<lparr>bh_trees := (bh_trees t)(q := se_tree env part)\<rparr>)
              (set_node q (Some (Disk (length part) True)) s))"

definition do_set_len :: "build_env \<Rightarrow> string \<Rightarrow> nat \<Rightarrow> nat \<Rightarrow> bhost \<Rightarrow> bhost option" where
  "do_set_len env p n used s =
     obind (reach_path env True p s) (\<lambda>q.
       case look (visible s) q of
         Some (Disk _ b) \<Rightarrow> set_node q (Some (Disk n (b \<and> used \<le> n))) s
       | _ \<Rightarrow> None)"

definition rootfs_size :: nat where "rootfs_size = 6 * 1024 * 1024 * 1024"

definition raw_to_rootfs :: "setup_env \<Rightarrow> string \<Rightarrow> string \<Rightarrow> unit build_op" where
  "raw_to_rootfs env raw rootfs s =
     (case (if be_ok (se_host env) (bh_tick s) then read_at (se_host env) raw s else None) of
        None \<Rightarrow> (Inl (CallFailed raw), bh_step s)
      | Some c \<Rightarrow>
          (case obind (se_partitions env (bytes_of c)) (\<lambda>ps. extract_partition (se_gives env) ps (bytes_of c)) of
             None \<Rightarrow> (Inl NoPartition, bh_step s)
           | Some part \<Rightarrow> b_all
               [b_sys (se_host env) (CallFailed rootfs) (do_truncate (se_host env) rootfs 0),
                b_sys (se_host env) (CallFailed rootfs) (do_partition env rootfs part),
                b_sys (se_host env) (CallFailed rootfs) (do_set_len (se_host env) rootfs rootfs_size (length part))]
               (bh_step s)))"

section \<open>What is put into the image\<close>

definition overlay_init_script :: string where
  \<open>overlay_init_script = unlines
    [''#!/bin/sh'',
     ''# overlay-init: OverlayFS COW boot for Firecracker VMs'',
     ''# Mounts a read-write overlay on top of the read-only squashfs root.'',
     ''# Usage: kernel boot args: init=/sbin/overlay-init overlay_root=vdb'',
     '''',
     ''echo "overlay-init: starting"'',
     '''',
     ''# Mount /proc so we can read kernel command line (not available as PID 1)'',
     ''/bin/mount -t proc proc /proc'',
     '''',
     ''# Parse overlay_root from /proc/cmdline'',
     ''for arg in $(cat /proc/cmdline); do'',
     ''    key="${arg%%=*}"'',
     ''    val="${arg#*=}"'',
     ''    case "$key" in'',
     ''        overlay_root) overlay_root="$val" ;;'',
     ''    esac'',
     ''done'',
     '''',
     ''echo "overlay-init: overlay_root=$overlay_root"'',
     '''',
     ''pivot() {'',
     ''    /bin/mount '' @ [CHR 0x5C],
     ''        -o noatime,lowerdir=/,upperdir="$1",workdir="$2" '' @ [CHR 0x5C],
     ''        -t overlay "overlayfs:$1" /mnt'',
     ''    pivot_root /mnt /mnt/rom'',
     ''}'',
     '''',
     ''if [ -z "$overlay_root" ]; then'',
     ''    echo "overlay-init: no overlay_root, booting normally"'',
     ''    exec /sbin/init "$@"'',
     ''fi'',
     '''',
     ''if [ "$overlay_root" = "ram" ]; then'',
     ''    /bin/mount -t tmpfs -o noatime,mode=0755 tmpfs /overlay'',
     ''else'',
     ''    if [ ! -b "/dev/$overlay_root" ]; then'',
     ''        echo "FATAL: /dev/$overlay_root does not exist"'',
     ''        exec /sbin/init "$@"'',
     ''    fi'',
     ''    /bin/mount -t ext4 -o noatime "/dev/$overlay_root" /overlay'',
     ''fi'',
     '''',
     ''mkdir -p /overlay/root /overlay/work'',
     '''',
     ''# Unmount /proc before creating overlayfs'',
     ''/bin/umount /proc'',
     '''',
     ''pivot /overlay/root /overlay/work'',
     '''',
     ''# Mount devtmpfs so we have access to /dev/vdb in the new root'',
     ''/bin/mount -t devtmpfs devtmpfs /dev'',
     '''',
     ''# Mount overlay ext4 at a persistent path for container storage'',
     ''# Podman/containers need writable storage not on overlayfs'',
     ''mkdir -p /overlay-data'',
     ''/bin/mount -t ext4 -o noatime /dev/vdb /overlay-data'',
     ''mkdir -p /overlay-data/containers'',
     ''# Point Podman graphroot to real ext4 so fuse-overlayfs works'',
     ''mkdir -p /etc/containers'',
     ''cat > /etc/containers/storage.conf <<STOR'',
     ''[storage]'',
     ''driver = "overlay"'',
     ''graphroot = "/overlay-data/containers"'',
     ''runroot = "/run/containers/storage"'',
     ''STOR'',
     ''mkdir -p /run/containers/storage'',
     '''',
     ''# Mount persistent cache volume if cache_dev is set in kernel cmdline'',
     ''for arg in $(cat /rom/proc/cmdline 2>/dev/null) $(cat /proc/cmdline 2>/dev/null); do'',
     ''    key="${arg%%=*}"'',
     ''    val="${arg#*=}"'',
     ''    case "$key" in'',
     ''        cache_dev) cache_dev="$val" ;;'',
     ''    esac'',
     ''done'',
     '''',
     ''if [ -n "$cache_dev" ] && [ -b "/dev/$cache_dev" ]; then'',
     ''    echo "overlay-init: mounting cache volume /dev/$cache_dev at /cache"'',
     ''    mkdir -p /cache'',
     ''    /bin/mount -t ext4 -o noatime "/dev/$cache_dev" /cache'',
     '''',
     ''    # Create cache directory structure and make it writable by the runner user'',
     ''    mkdir -p /cache/cargo/registry /cache/cargo/git /cache/cargo/bin'',
     ''    mkdir -p /cache/cargo/target'',
     ''    mkdir -p /cache/tool-cache'',
     ''    chown -R runner:runner /cache'',
     '''',
     ''    # Symlink common cache paths for the runner user'',
     ''    RUNNER_HOME="/home/runner"'',
     ''    if [ -d "$RUNNER_HOME" ]; then'',
     ''        mkdir -p "$RUNNER_HOME/.cargo"'',
     ''        # Only create symlinks if targets don'' @ [CHR 0x27] @ ''t exist yet (first boot after overlay wipe)'',
     ''        for dir in registry git bin; do'',
     ''            if [ ! -L "$RUNNER_HOME/.cargo/$dir" ]; then'',
     ''                rm -rf "$RUNNER_HOME/.cargo/$dir"'',
     ''                ln -s "/cache/cargo/$dir" "$RUNNER_HOME/.cargo/$dir"'',
     ''            fi'',
     ''        done'',
     ''        chown -h runner:runner "$RUNNER_HOME/.cargo" "$RUNNER_HOME/.cargo/registry" '' @ [CHR 0x5C],
     ''            "$RUNNER_HOME/.cargo/git" "$RUNNER_HOME/.cargo/bin" 2>/dev/null'',
     ''    fi'',
     '''',
     ''    echo "overlay-init: cache volume mounted at /cache"'',
     ''else'',
     ''    if [ -n "$cache_dev" ]; then'',
     ''        echo "overlay-init: WARNING: cache device /dev/$cache_dev not found"'',
     ''    fi'',
     ''fi'',
     '''',
     ''# Write /etc/hosts to fix "unable to resolve host" warnings'',
     ''cat > /etc/hosts <<HOSTS'',
     ''127.0.0.1 localhost localhost.localdomain'',
     ''::1 localhost ip6-localhost ip6-loopback'',
     ''HOSTS'',
     '''',
     ''# Pre-configure network directly via ip commands '' @ [CHR 0xE2, CHR 0x80, CHR 0x94] @ '' systemd-networkd has'',
     ''# issues reading config files on overlayfs. Parse the injected networkd'',
     ''# config and apply it immediately so networking works before systemd starts.'',
     ''/bin/mount -t proc proc /proc'',
     ''/bin/mount -t sysfs sys /sys'',
     '''',
     ''if [ -f /etc/systemd/network/20-eth.network ]; then'',
     ''    addr=$(grep '' @ [CHR 0x27] @ ''^Address='' @ [CHR 0x27] @ '' /etc/systemd/network/20-eth.network | head -1 | cut -d= -f2)'',
     ''    gw=$(grep '' @ [CHR 0x27] @ ''^Gateway='' @ [CHR 0x27] @ '' /etc/systemd/network/20-eth.network | head -1 | cut -d= -f2)'',
     ''    if [ -n "$addr" ] && [ -n "$gw" ]; then'',
     ''        ip link set eth0 up'',
     ''        ip addr add "$addr" dev eth0 2>/dev/null'',
     ''        ip route add default via "$gw" 2>/dev/null'',
     ''        echo "overlay-init: network pre-configured $addr gw $gw"'',
     ''    fi'',
     ''fi'',
     '''',
     ''# Diagnostic: verify network state'',
     ''echo "overlay-init: ip addr:"'',
     ''ip addr show eth0 2>&1'',
     ''echo "overlay-init: ip route:"'',
     ''ip route show 2>&1'',
     '''',
     ''/bin/umount /sys'',
     ''/bin/umount /proc'',
     '''',
     ''echo "overlay-init: done, exec /sbin/init"'',
     ''exec /sbin/init "$@"'']\<close>

definition agent_entrypoint :: string where
  \<open>agent_entrypoint = unlines
    [''#!/bin/bash'',
     ''set -euo pipefail'',
     ''exec > /var/log/runner.log 2>&1'',
     '''',
     ''echo "=== fc-runner entrypoint $(date) ==="'',
     '''',
     ''# Prefer the Rust agent (reads MMDS directly, explicit env, VSOCK reporting)'',
     ''if [ -x /usr/local/bin/fc-runner ]; then'',
     ''    echo "Using fc-runner agent"'',
     ''    exec /usr/local/bin/fc-runner agent --log-level info'',
     ''fi'',
     '''',
     ''# Fallback: shell-based entrypoint (legacy)'',
     ''echo "fc-runner binary not found, using shell fallback"'',
     '''',
     ''if [ ! -f /etc/fc-runner-env ]; then'',
     ''    echo "ERROR: /etc/fc-runner-env not found"'',
     ''    sleep 3'',
     ''    reboot -f'',
     ''fi'',
     '''',
     ''source /etc/fc-runner-env'',
     ''echo "VM_ID=${VM_ID} MODE=${RUNNER_MODE:-jit}"'',
     '''',
     ''# Wait for network connectivity'',
     ''for i in $(seq 1 30); do'',
     ''    if ip route show default | grep -q default 2>/dev/null; then'',
     ''        if curl -sf --connect-timeout 3 --max-time 5 https://github.com > /dev/null 2>&1; then'',
     ''            echo "Network ready"'',
     ''            break'',
     ''        fi'',
     ''    fi'',
     ''    echo "Waiting for network ($i/30)..."'',
     ''    sleep 1'',
     ''done'',
     '''',
     ''cd /home/runner'',
     '''',
     ''# Source Rust environment for CI jobs'',
     ''export PATH="/home/runner/.cargo/bin:$PATH"'',
     '''',
     ''# Set up Actions cache service if configured by fc-runner host'',
     ''if [ -f /etc/fc-runner-cache ]; then'',
     ''    . /etc/fc-runner-cache'',
     ''    export ACTIONS_CACHE_URL="${FC_CACHE_URL}"'',
     ''    export ACTIONS_RUNTIME_TOKEN="${FC_CACHE_TOKEN}"'',
     ''    # S3 credentials for runs-on/cache direct uploads'',
     ''    [ -n "${FC_S3_ENDPOINT}" ] && export RUNS_ON_S3_BUCKET_ENDPOINT="${FC_S3_ENDPOINT}"'',
     ''    [ -n "${FC_S3_BUCKET}" ] && export RUNS_ON_S3_BUCKET_CACHE="${FC_S3_BUCKET}"'',
     ''    [ -n "${FC_S3_ACCESS_KEY}" ] && export AWS_ACCESS_KEY_ID="${FC_S3_ACCESS_KEY}"'',
     ''    [ -n "${FC_S3_SECRET_KEY}" ] && export AWS_SECRET_ACCESS_KEY="${FC_S3_SECRET_KEY}"'',
     ''    [ -n "${FC_S3_REGION}" ] && export AWS_REGION="${FC_S3_REGION}"'',
     ''    [ -n "${FC_S3_ENDPOINT}" ] && export RUNS_ON_S3_FORCE_PATH_STYLE="true"'',
     ''    # Ensure sudo -E preserves these vars (env_reset may strip them)'',
     ''    echo '' @ [CHR 0x27] @ ''Defaults env_keep += "ACTIONS_CACHE_URL ACTIONS_RUNTIME_TOKEN AWS_ACCESS_KEY_ID AWS_SECRET_ACCESS_KEY AWS_REGION RUNS_ON_S3_BUCKET_CACHE RUNS_ON_S3_BUCKET_ENDPOINT RUNS_ON_S3_FORCE_PATH_STYLE"'' @ [CHR 0x27] @ '' > /etc/sudoers.d/fc-cache'',
     ''    # Also write to runner .env as a fallback'',
     ''    echo "ACTIONS_CACHE_URL=${FC_CACHE_URL}" >> /home/runner/.env'',
     ''    echo "ACTIONS_RUNTIME_TOKEN=${FC_CACHE_TOKEN}" >> /home/runner/.env'',
     ''    [ -n "${FC_S3_ENDPOINT}" ] && echo "RUNS_ON_S3_BUCKET_ENDPOINT=${FC_S3_ENDPOINT}" >> /home/runner/.env'',
     ''    [ -n "${FC_S3_BUCKET}" ] && echo "RUNS_ON_S3_BUCKET_CACHE=${FC_S3_BUCKET}" >> /home/runner/.env'',
     ''    [ -n "${FC_S3_ACCESS_KEY}" ] && echo "AWS_ACCESS_KEY_ID=${FC_S3_ACCESS_KEY}" >> /home/runner/.env'',
     ''    [ -n "${FC_S3_SECRET_KEY}" ] && echo "AWS_SECRET_ACCESS_KEY=${FC_S3_SECRET_KEY}" >> /home/runner/.env'',
     ''    [ -n "${FC_S3_REGION}" ] && echo "AWS_REGION=${FC_S3_REGION}" >> /home/runner/.env'',
     ''    [ -n "${FC_S3_ENDPOINT}" ] && echo "RUNS_ON_S3_FORCE_PATH_STYLE=true" >> /home/runner/.env'',
     ''    echo "Cache service configured: ${FC_CACHE_URL}"'',
     ''fi'',
     '''',
     ''if [ "${RUNNER_MODE:-jit}" = "jit" ]; then'',
     ''    echo "Starting runner (JIT mode)..."'',
     ''    sudo -E -u runner ./run.sh --jitconfig "${RUNNER_TOKEN}"'',
     ''else'',
     ''    echo "Registering runner..."'',
     ''    sudo -E -u runner ./config.sh '' @ [CHR 0x5C],
     ''        --url "${REPO_URL}" '' @ [CHR 0x5C],
     ''        --token "${RUNNER_TOKEN}" '' @ [CHR 0x5C],
     ''        --name "${RUNNER_NAME:-fc-$(hostname)}" '' @ [CHR 0x5C],
     ''        --labels "firecracker,linux,x64" '' @ [CHR 0x5C],
     ''        --ephemeral '' @ [CHR 0x5C],
     ''        --unattended '' @ [CHR 0x5C],
     ''        --disableupdate '' @ [CHR 0x5C],
     ''        --work /home/runner/_work'',
     ''    echo "Starting runner (registered mode)..."'',
     ''    sudo -E -u runner ./run.sh'',
     ''fi'',
     '''',
     ''echo "Runner finished, shutting down"'',
     ''reboot -f'']\<close>

definition chroot_resolv :: string where
  "chroot_resolv = unlines [''nameserver 8.8.8.8'', ''nameserver 1.1.1.1'']"

definition install_packages_args :: "string list" where
  "install_packages_args =
     [''-c'',
      ''export DEBIAN_FRONTEND=noninteractive && apt-get update -q && apt-get install -y --no-install-recommends '' @
      ''curl git jq ca-certificates sudo libicu74 iproute2 systemd-resolved build-essential pkg-config libssl-dev '' @
      ''gcc g++ make cmake python3 python3-pip python3-venv nodejs npm '' @
      ''podman buildah crun netavark aardvark-dns iptables wget tar gzip xz-utils zstd zip bzip2 '' @
      ''libffi-dev zlib1g-dev net-tools dnsutils iputils-ping file locales && apt-get clean && rm -rf /var/lib/apt/lists/*'']"

definition rust_args :: "string list" where
  "rust_args =
     [''-c'',
      ''su - runner -c '' @ [CHR 0x27] @
      ''curl --proto =https --tlsv1.2 -sSf https://sh.rustup.rs | sh -s -- -y --default-toolchain stable'' @ [CHR 0x27] @
      '' && ln -sf /home/runner/.cargo/bin/cargo /usr/local/bin/cargo && ln -sf /home/runner/.cargo/bin/rustc /usr/local/bin/rustc'' @
      '' && ln -sf /home/runner/.cargo/bin/rustup /usr/local/bin/rustup && echo '' @ [CHR 0x27] @
      ''export PATH=/home/runner/.cargo/bin:$PATH'' @ [CHR 0x27] @ '' >> /home/runner/.bashrc && echo '' @ [CHR 0x27] @
      ''PATH=/home/runner/.cargo/bin:/usr/local/bin:/usr/bin:/bin'' @ [CHR 0x27] @ '' > /etc/environment'']"

definition disable_services_args :: "string list" where
  "disable_services_args =
     [''-c'', concat
        [''systemctl disable apt-daily.timer apt-daily-upgrade.timer 2>/dev/null || true; '',
         ''systemctl disable motd-news.timer 2>/dev/null || true; '',
         ''systemctl mask systemd-timesyncd.service 2>/dev/null || true; '',
         ''systemctl mask boot-efi.mount 2>/dev/null || true; '',
         ''systemctl mask systemd-gpt-auto-generator 2>/dev/null || true; '',
         ''systemctl mask podman-restart.service 2>/dev/null || true; '',
         ''systemctl mask podman-auto-update.service 2>/dev/null || true; '',
         ''systemctl mask podman-auto-update.timer 2>/dev/null || true; '',
         ''systemctl mask podman-clean-transient.service 2>/dev/null || true'']]"

definition eth_network :: "network_config \<Rightarrow> string" where
  "eth_network nw =
     unlines [''[Match]'', ''Name=eth0'', '''', ''[Network]'', ''Address='' @ nw_guest_ip nw @ ''/'' @ nw_cidr nw,
              ''Gateway='' @ nw_host_ip nw, join_with [CHR 0x0A] (map (\<lambda>d. ''DNS='' @ d) (nw_dns nw))]"

definition runner_url :: string where
  "runner_url =
     ''https://github.com/actions/runner/releases/download/v2.332.0/actions-runner-linux-x64-2.332.0.tar.gz''"

definition rc_local_unit :: string where
  "rc_local_unit = unlines
     [''[Unit]'', ''Description=/etc/rc.local Compatibility'', ''ConditionFileIsExecutable=/etc/rc.local'', '''',
      ''[Service]'', ''Type=forking'', ''ExecStart=/etc/rc.local'', ''TimeoutSec=0'', ''RemainAfterExit=yes'', '''',
      ''[Install]'', ''WantedBy=multi-user.target'']"

definition install_overlay_init :: "build_env \<Rightarrow> string \<Rightarrow> unit build_op" where
  "install_overlay_init env mnt = b_all
     (map (\<lambda>d. mkdirs_path env (mnt @ d)) [''/overlay/root'', ''/overlay/work'', ''/mnt'', ''/rom''] @
      [write_path env (mnt @ ''/sbin/overlay-init'') overlay_init_script,
       set_executable env (mnt @ ''/sbin/overlay-init'')])"

text \<open>The archive of the runner, read from the file that was downloaded and unpacked beside it.\<close>

definition unpack_runner :: "setup_env \<Rightarrow> string \<Rightarrow> string \<Rightarrow> unit build_op" where
  "unpack_runner env tarball dir s =
     (case (if be_ok (se_host env) (bh_tick s) then read_at (se_host env) tarball s else None) of
        None \<Rightarrow> (Inl (CallFailed tarball), bh_step s)
      | Some c \<Rightarrow>
          (case se_untar env c (parts_of (se_host env) dir) (visible s) of
             (ok, u) \<Rightarrow> (if ok then Inr () else Inl (CallFailed tarball), bh_step (put_visible u s))))"

definition symlink_if_missing :: "build_env \<Rightarrow> string \<Rightarrow> string \<Rightarrow> unit build_op" where
  "symlink_if_missing env target p =
     op_bind (b_ask (\<lambda>s. \<not> file_exists env p s)) (\<lambda>b. b_when b [b_ignore (symlink_path env target p)])"

definition base_files :: "setup_env \<Rightarrow> network_config \<Rightarrow> string \<Rightarrow> unit build_op list" where
  "base_files env nw mnt =
     (let h = se_host env; at = (\<lambda>p. mnt @ p) in
      [write_path h (at ''/etc/fstab'') root_fstab,
       unlink_path h (at ''/etc/resolv.conf''),
       write_path h (at ''/etc/resolv.conf'') chroot_resolv,
       b_must (chroot_command env mnt ''bash'' install_packages_args) (CmdFailed ''apt-get''),
       op_bind (chroot_command env mnt ''bash'' rust_args) (\<lambda>_. op_ret ()),
       b_ignore (chroot_command env mnt ''systemctl'' [''mask'', ''serial-getty@ttyS0.service'']),
       mkdirs_path h (at ''/var/tmp''),
       chmod_path h (at ''/var/tmp'') 1023,
       unlink_path h (at ''/etc/resolv.conf''),
       symlink_path h ''/run/systemd/resolve/stub-resolv.conf'' (at ''/etc/resolv.conf''),
       mkdirs_path h (at ''/etc/systemd/network''),
       write_path h (at ''/etc/systemd/network/20-eth.network'') (eth_network nw),
       b_ignore (chroot_command env mnt ''systemctl'' [''enable'', ''systemd-networkd'', ''systemd-resolved'']),
       mkdirs_path h (at ''/etc/systemd/system/multi-user.target.wants''),
       symlink_if_missing h ''/lib/systemd/system/systemd-networkd.service''
         (at ''/etc/systemd/system/multi-user.target.wants/systemd-networkd.service''),
       symlink_if_missing h ''/lib/systemd/system/systemd-resolved.service''
         (at ''/etc/systemd/system/multi-user.target.wants/systemd-resolved.service''),
       b_ignore (chroot_command env mnt ''bash'' disable_services_args),
       op_bind (b_ask (file_exists h (at ''/etc/fstab.d''))) (\<lambda>b. b_when b [b_try h (do_rmtree h (at ''/etc/fstab.d''))])])"

definition runner_files :: "setup_env \<Rightarrow> string \<Rightarrow> unit build_op list" where
  "runner_files env mnt =
     (let h = se_host env; at = (\<lambda>p. mnt @ p) in
      [b_ignore (chroot_command env mnt ''useradd'' [''-m'', ''-s'', ''/bin/bash'', ''runner'']),
       write_path h (at ''/etc/sudoers.d/runner'') (''runner ALL=(ALL) NOPASSWD:ALL'' @ [CHR 0x0A]),
       unlink_path h (at ''/usr/bin/docker''),
       write_path h (at ''/usr/bin/docker'') docker_wrapper,
       set_executable h (at ''/usr/bin/docker''),
       mkdirs_path h (at ''/etc/containers''),
       write_path h (at ''/etc/containers/containers.conf'') containers_conf,
       write_path h (at ''/etc/containers/registries.conf'') registries_conf,
       write_path h (at ''/etc/containers/policy.json'') policy_json,
       mkdirs_path h (at ''/home/runner''),
       download_file env runner_url (at ''/home/runner/actions-runner.tar.gz''),
       unpack_runner env (at ''/home/runner/actions-runner.tar.gz'') (at ''/home/runner''),
       unlink_path h (at ''/home/runner/actions-runner.tar.gz''),
       b_must (chroot_command env mnt ''chown'' [''-R'', ''runner:runner'', ''/home/runner'']) (CmdFailed ''chown'')])"

definition boot_files :: "setup_env \<Rightarrow> string \<Rightarrow> unit build_op list" where
  "boot_files env mnt =
     (let h = se_host env; at = (\<lambda>p. mnt @ p) in
      [case se_exe env of
         None \<Rightarrow> op_fail (CallFailed ''current_exe'')
       | Some exe \<Rightarrow> b_all
           [mkdirs_path h (at ''/usr/local/bin''), copy_path h exe (at ''/usr/local/bin/fc-runner''),
            set_executable h (at ''/usr/local/bin/fc-runner'')],
       write_path h (at ''/entrypoint.sh'') agent_entrypoint,
       set_executable h (at ''/entrypoint.sh''),
       write_path h (at ''/etc/rc.local'') image_rc_local,
       set_executable h (at ''/etc/rc.local''),
       op_bind (b_ask (\<lambda>s. \<not> file_exists h (at ''/etc/systemd/system/rc-local.service'') s))
         (\<lambda>b. b_when b [write_path h (at ''/etc/systemd/system/rc-local.service'') rc_local_unit]),
       b_ignore (chroot_command env mnt ''systemctl'' [''enable'', ''rc-local.service'']),
       mkdirs_path h (at ''/etc/systemd/system/multi-user.target.wants''),
       symlink_if_missing h ''/etc/systemd/system/rc-local.service''
         (at ''/etc/systemd/system/multi-user.target.wants/rc-local.service''),
       install_overlay_init h mnt])"

definition build_rootfs_contents :: "setup_env \<Rightarrow> string \<Rightarrow> network_config \<Rightarrow> unit build_op" where
  "build_rootfs_contents env mnt nw = b_all (base_files env nw mnt @ runner_files env mnt @ boot_files env mnt)"

section \<open>The golden root file system\<close>

text \<open>Between the mounts and the unmounts; the unmounts are made whatever happened.\<close>

definition fill_rootfs :: "setup_env \<Rightarrow> network_config \<Rightarrow> string \<Rightarrow> string \<Rightarrow> unit build_op" where
  "fill_rootfs env nw rootfs mnt s =
     (let h = se_host env in
      case build_rootfs_contents env mnt nw
             (snd (b_all [bind_mount h ''/dev'' (mnt @ ''/dev''), bind_mount h ''/dev/pts'' (mnt @ ''/dev/pts''),
                          mount_pseudo h ''proc'' (mnt @ ''/proc''), mount_pseudo h ''sysfs'' (mnt @ ''/sys'')] s)) of
        (result, t) \<Rightarrow>
          (case lazy_umount h mnt
                  (snd (b_all (map (\<lambda>sub. b_ignore (lazy_umount h (mnt @ sub))) [''/dev/pts'', ''/dev'', ''/proc'', ''/sys'']) t)) of
             (umounted, u) \<Rightarrow>
               op_seq (rmdir_path h mnt)
                 (case result of
                    Inl e \<Rightarrow> op_seq (unlink_path h rootfs) (op_fail e)
                  | Inr _ \<Rightarrow> op_lift umounted) u))"

definition shrink_rootfs :: "setup_env \<Rightarrow> string \<Rightarrow> unit build_op" where
  "shrink_rootfs env rootfs = b_all
     [b_ignore (run_e2fs_tool env ''e2fsck'' rootfs),
      b_ignore (run_e2fs_tool env ''resize2fs'' rootfs),
      (\<lambda>s. if be_ok (se_host env) (bh_tick s) \<and> file_exists (se_host env) rootfs s then
             (case read_ext4_superblock (se_super env (bh_tick s)) of
                Inl e \<Rightarrow> (Inl NotExt4, bh_step s)
              | Inr (blocks, bsize) \<Rightarrow>
                  b_when (blocks \<noteq> 0)
                    [b_ignore (run_e2fs_tool env ''resize2fs'' rootfs),
                     b_sys (se_host env) (CallFailed rootfs)
                       (do_set_len (se_host env) rootfs (unat (final_bytes blocks bsize)) (unat blocks * unat bsize))] (bh_step s))
           else (Inl (CallFailed rootfs), bh_step s))]"

definition build_rootfs :: "setup_env \<Rightarrow> string \<Rightarrow> string \<Rightarrow> network_config \<Rightarrow> string \<Rightarrow> unit build_op" where
  "build_rootfs env rootfs url nw dir =
     (let h = se_host env; cloud = dir @ ''/cloud-base.img''; raw = dir @ ''/cloud-raw.img''; mnt = rootfs @ ''.mnt'' in b_all
       [make_parent h dir,
        op_bind (b_ask (\<lambda>s. \<not> file_exists h cloud s)) (\<lambda>b. b_when b [download_file env url cloud]),
        qcow_to_raw env cloud raw,
        raw_to_rootfs env raw rootfs,
        unlink_path h raw,
        b_ignore (run_e2fs_tool env ''e2fsck'' rootfs),
        b_ignore (run_e2fs_tool env ''resize2fs'' rootfs),
        mkdirs_path h mnt,
        mount_ext4 h rootfs mnt False,
        fill_rootfs env nw rootfs mnt,
        shrink_rootfs env rootfs])"

definition ensure_golden_rootfs :: "setup_env \<Rightarrow> string \<Rightarrow> string \<Rightarrow> network_config \<Rightarrow> unit build_op" where
  "ensure_golden_rootfs env rootfs url nw s =
     (if file_exists (se_host env) rootfs s then (Inr (), s)
      else case path_parent rootfs of
             None \<Rightarrow> (Inl NoParent, s)
           | Some dir \<Rightarrow> build_rootfs env rootfs url nw dir s)"

section \<open>The overlay init and the squashfs\<close>

definition read_or_empty :: "build_env \<Rightarrow> string \<Rightarrow> string build_op" where
  "read_or_empty env p s =
     (Inr (case (if be_ok env (bh_tick s) then read_at env p s else None) of None \<Rightarrow> [] | Some c \<Rightarrow> c), bh_step s)"

definition ensure_overlay_init_installed :: "build_env \<Rightarrow> string \<Rightarrow> unit build_op" where
  "ensure_overlay_init_installed env rootfs =
     (let mnt = rootfs @ ''.mnt'' in
      op_seq (mkdirs_path env mnt) (op_seq (mount_ext4 env rootfs mnt True)
       (op_bind (read_or_empty env (mnt @ ''/sbin/overlay-init'')) (\<lambda>existing.
        op_seq (lazy_umount env mnt)
          (if existing = overlay_init_script then rmdir_path env mnt
           else op_seq (mount_ext4 env rootfs mnt False)
             (\<lambda>s. case install_overlay_init env mnt s of
                (result, t) \<Rightarrow> op_seq (lazy_umount env mnt) (op_seq (rmdir_path env mnt) (op_lift result)) t))))))"

definition mtime_at :: "build_env \<Rightarrow> string \<Rightarrow> bhost \<Rightarrow> nat option" where
  "mtime_at env p s =
     obind (reach_path env True p s) (\<lambda>q. if look (visible s) q = None then None else Some (bh_mtime s q))"

definition squashfs_file :: "string \<Rightarrow> string" where
  "squashfs_file p = replace_all ''.ext4'' ''.squashfs'' p"

definition up_to_date :: "build_env \<Rightarrow> string \<Rightarrow> bhost \<Rightarrow> bool" where
  "up_to_date env p s \<longleftrightarrow>
     (case (mtime_at env (squashfs_file p) s, mtime_at env p s) of (Some sq, Some ext) \<Rightarrow> ext \<le> sq | _ \<Rightarrow> False)"

text \<open>The tool packs the tree it is given; when it fails, the start of a file may be left.\<close>

definition mksquashfs :: "build_env \<Rightarrow> string \<Rightarrow> string \<Rightarrow> bool build_op" where
  "mksquashfs env dir out s =
     (case be_out env (bh_tick s) of
        NotSpawned \<Rightarrow> (Inl (NoCmd ''mksquashfs''), bh_step s)
      | r \<Rightarrow>
          (case obind (reach_path env True dir s) (\<lambda>d. obind (reach_path env True out s) (\<lambda>q.
                  if look (visible s) d = Some Dir \<and> look (visible s) q \<noteq> Some Dir
                  then map_option (\<lambda>t. if r = Runs then t\<lparr>bh_trees := (bh_trees t)(q := below d (visible s))\<rparr> else t)
                         (set_node q (Some (Disk 0 (r = Runs))) s)
                  else None)) of
             None \<Rightarrow> (Inr False, bh_step s)
           | Some t \<Rightarrow> (Inr (r = Runs), bh_step t)))"

text \<open>A \<open>which\<close> that cannot be started counts as one that found nothing.\<close>

definition which_mksquashfs :: "build_env \<Rightarrow> bool build_op" where
  "which_mksquashfs env s = (Inr (be_out env (bh_tick s) = Runs), bh_step s)"

definition convert_to_squashfs :: "build_env \<Rightarrow> string \<Rightarrow> unit build_op" where
  "convert_to_squashfs env ext s =
     (let mnt = ext @ ''-squashfs-mount''; sq = squashfs_file ext in
      if be_ok env (bh_tick s) \<and> up_to_date env ext s then (Inr (), bh_step s)
      else op_bind (which_mksquashfs env) (\<lambda>found.
        if \<not> found then op_fail NoMksquashfs
        else b_all
          [mkdirs_path env mnt,
           mount_ext4 env ext mnt True,
           (\<lambda>t. case mksquashfs env mnt sq t of
              (result, u) \<Rightarrow>
                op_seq (b_ignore (b_cmd env ''umount'' (do_umount env mnt)))
                  (op_seq (rmdir_path env mnt) (b_must (op_lift result) (CmdFailed ''mksquashfs''))) u),
           b_sys env (CallFailed sq) (\<lambda>t. if file_exists env sq t then Some t else None),
           b_sys env (CallFailed ext) (\<lambda>t. if file_exists env ext t then Some t else None)]) (bh_step s))"

end
