(* ===== verification/Rootfs_Fill.thy ===== *)
theory Rootfs_Fill
  imports Rootfs
begin

text \<open>
  Whatever happens while the root file system is filled (commands and downloads that fail, archives
  and packages with any contents, links that lead anywhere), the directories that lead to the mount
  point stay, so everything is unmounted in the end, and a file system that was not filled is not left
  behind as an image.
\<close>

section \<open>What no call changes\<close>

text \<open>The image is mounted at \<open>d\<close>, everything mounted later is below it.\<close>

definition mounts_ok :: "string list \<Rightarrow> mount list \<Rightarrow> bool" where
  "mounts_ok d ms \<longleftrightarrow> (\<exists>ns m. ms = ns @ [m] \<and> mt_dir m = d \<and> (\<forall>n \<in> set ns. strict_prefix d (mt_dir n)))"

definition stands :: "string list \<Rightarrow> mount list \<Rightarrow> bhost \<Rightarrow> bool" where
  "stands d ms s \<longleftrightarrow> bh_mounts s = ms \<and> mounts_ok d ms \<and> mount_dir d (bh_fs s)"

definition keeps :: "string list \<Rightarrow> mount list \<Rightarrow> 'a build_op \<Rightarrow> bool" where
  "keeps d ms m \<longleftrightarrow> (\<forall>s. stands d ms s \<longrightarrow> stands d ms (snd (m s)))"

lemma mounts_ok_below: "mounts_ok d ms \<Longrightarrow> m \<in> set ms \<Longrightarrow> prefix d (mt_dir m)"
  by (auto simp: mounts_ok_def strict_prefix_def)

lemma stands_over:
  assumes "stands d ms s"
  shows "strict_prefix r d \<Longrightarrow> mount_over s r = None" and "\<exists>m. mount_over s d = Some m \<and> mt_dir m = d"
proof -
  have "\<not> prefix (mt_dir m) r" if "strict_prefix r d" "m \<in> set (bh_mounts s)" for m
    using assms mounts_ok_below [of d ms m] that unfolding stands_def by (meson prefix_order.leD prefix_order.trans)
  then show "mount_over s r = None" if "strict_prefix r d" using that by (auto simp: mount_over_def find_None_iff)
  obtain ns m where ms: "bh_mounts s = ns @ [m]" "mt_dir m = d" "\<forall>n \<in> set ns. strict_prefix d (mt_dir n)"
    using assms by (auto simp: stands_def mounts_ok_def)
  have "find (\<lambda>m. prefix (mt_dir m) d) ns = None"
    using ms(3) by (auto simp: find_None_iff dest: prefix_order.leD)
  moreover have "find P (xs @ ys) = (case find P xs of None \<Rightarrow> find P ys | Some x \<Rightarrow> Some x)" for P and xs ys :: "mount list"
    by (induction xs) auto
  ultimately show "\<exists>m. mount_over s d = Some m \<and> mt_dir m = d" using ms(1,2) by (simp add: mount_over_def)
qed

lemma stands_visible:
  assumes "stands d ms s" and "prefix r d" and "r \<noteq> []"
  shows "visible s r = Some Dir"
proof (cases "r = d")
  case True
  then show ?thesis using stands_over(2) [OF assms(1)] by (auto simp: visible_def)
next
  case False
  then have "mount_over s r = None" using stands_over(1) [OF assms(1)] assms(2) by (simp add: strict_prefix_def)
  then show ?thesis using assms by (simp add: visible_def stands_def mount_dir_def)
qed

lemma stands_reach:
  assumes "stands d ms s" and "parts_of env p = d"
  shows "reach_path env follow p s = Some d" and "look (visible s) d = Some Dir"
proof -
  have d: "d \<noteq> []" "\<forall>c \<in> set d. ordinary c" using assms(1) by (auto simp: stands_def mount_dir_def)
  have "walk (visible s) max_links follow [] d =
      (if \<forall>q. strict_prefix q d \<and> q \<noteq> [] \<longrightarrow> visible s ([] @ q) = Some Dir then Some ([] @ d) else None)"
    using stands_visible [OF assms(1)] d by (intro walk_ordinary) (auto simp: strict_prefix_def)
  then show "reach_path env follow p s = Some d"
    using stands_visible [OF assms(1)] assms(2) by (auto simp: reach_path_def strict_prefix_def)
  show "look (visible s) d = Some Dir" using stands_visible [OF assms(1), of d] d by (simp add: look_def)
qed

lemma stands_step [simp]: "stands d ms (bh_step s) \<longleftrightarrow> stands d ms s"
  by (simp add: stands_def bh_step_def)

lemma stands_fs:
  assumes "stands d ms s" and "bh_mounts t = bh_mounts s"
    and "\<And>r. prefix r d \<Longrightarrow> r \<noteq> [] \<Longrightarrow> bh_fs s r = Some Dir \<Longrightarrow> bh_fs t r = Some Dir"
  shows "stands d ms t"
  using assms by (auto simp: stands_def mount_dir_def)

lemma set_node_stands:
  assumes "stands d ms s" and "set_node q x s = Some t" and "look (visible s) q \<noteq> Some Dir \<or> x = Some Dir"
  shows "stands d ms t"
proof (cases "mount_over s q")
  case None
  then have "bh_fs t = (bh_fs s)(q := x)" "bh_mounts t = bh_mounts s" using assms(2) by (auto simp: set_node_def)
  moreover have "x = Some Dir" if "prefix q d" "q \<noteq> []"
    using stands_visible [OF assms(1) that] assms(3) that by (simp add: look_def)
  ultimately show ?thesis using stands_fs [OF assms(1), of t] by auto
next
  case (Some m)
  show ?thesis
  proof (cases "mt_src m")
    case (Bind b)
    let ?r = "b @ drop (length (mt_dir m)) q"
    have t: "bh_fs t = (bh_fs s)(?r := x)" "bh_mounts t = bh_mounts s"
      using assms(2) Some Bind by (auto simp: set_node_def Let_def)
    have "x = Some Dir" if "bh_fs s ?r = Some Dir"
    proof -
      have "look (visible s) q = Some Dir" using that Some Bind by (simp add: look_def visible_def)
      then show ?thesis using assms(3) by simp
    qed
    then show ?thesis by (intro stands_fs [OF assms(1) t(2)]) (auto simp: t(1))
  next
    case (Image i)
    then have "bh_fs t = bh_fs s" "bh_mounts t = bh_mounts s" using assms(2) Some by (auto simp: set_node_def split: if_splits)
    then show ?thesis using stands_fs [OF assms(1)] by simp
  next
    case (Other o')
    then show ?thesis using assms(2) Some by (simp add: set_node_def)
  qed
qed

lemma put_visible_stands:
  assumes "stands d ms s" and "\<And>r. strict_prefix r d \<Longrightarrow> r \<noteq> [] \<Longrightarrow> u r = Some Dir"
  shows "stands d ms (put_visible u s)"
proof (rule stands_fs [OF assms(1)])
  show "bh_mounts (put_visible u s) = bh_mounts s" by (simp add: put_visible_def)
next
  fix r assume r: "prefix r d" "r \<noteq> []" "bh_fs s r = Some Dir"
  show "bh_fs (put_visible u s) r = Some Dir"
  proof (cases "r = d")
    case True
    then show ?thesis using r stands_over(2) [OF assms(1)] by (auto simp: put_visible_def)
  next
    case False
    then show ?thesis using r assms(2) [of r] by (simp add: put_visible_def strict_prefix_def)
  qed
qed

section \<open>The calls keep it\<close>

named_theorems keeping

text \<open>What a call does to the state, when it does something.\<close>

definition mild :: "string list \<Rightarrow> mount list \<Rightarrow> (bhost \<Rightarrow> bhost option) \<Rightarrow> bool" where
  "mild d ms f \<longleftrightarrow> (\<forall>s t. stands d ms s \<and> f s = Some t \<longrightarrow> stands d ms t)"

lemma mildD: "mild d ms f \<Longrightarrow> stands d ms s \<Longrightarrow> f s = Some t \<Longrightarrow> stands d ms t"
  by (auto simp: mild_def)

lemma stay_sys [keeping]: "mild d ms f \<Longrightarrow> keeps d ms (b_sys env e f)"
  by (auto simp: keeps_def b_sys_def dest: mildD split: option.split)

lemma stay_try [keeping]: "mild d ms f \<Longrightarrow> keeps d ms (b_try env f)"
  by (auto simp: keeps_def b_try_def dest: mildD split: option.split)

lemma stay_ret [keeping]: "keeps d ms (op_ret x)"
  by (simp add: keeps_def op_ret_def)

lemma stay_fail [keeping]: "keeps d ms (op_fail e)"
  by (simp add: keeps_def op_fail_def)

lemma stay_ask [keeping]: "keeps d ms (b_ask f)"
  by (simp add: keeps_def b_ask_def)

lemma stay_bind [keeping]:
  assumes "keeps d ms m" and "\<And>x. keeps d ms (g x)"
  shows "keeps d ms (op_bind m g)"
  unfolding keeps_def
proof (intro allI impI)
  fix s assume "stands d ms s"
  then have "stands d ms (snd (m s))" using assms(1) by (simp add: keeps_def)
  then show "stands d ms (snd (op_bind m g s))"
    using assms(2) by (auto simp: op_bind_apply keeps_def split: prod.splits sum.splits)
qed

lemma stay_seq [keeping]: "keeps d ms m \<Longrightarrow> keeps d ms n \<Longrightarrow> keeps d ms (op_seq m n)"
  using stay_bind [of d ms m "\<lambda>_. n"] by (simp add: op_seq_def)

lemma stay_must [keeping]: "keeps d ms m \<Longrightarrow> keeps d ms (b_must m e)"
  unfolding b_must_def by (intro stay_bind) (auto intro: keeping)

lemma stay_ignore [keeping]: "keeps d ms m \<Longrightarrow> keeps d ms (b_ignore m)"
  by (simp add: keeps_def b_ignore_def)

lemma stay_all [keeping]: "(\<forall>m \<in> set xs. keeps d ms m) \<Longrightarrow> keeps d ms (b_all xs)"
  by (induction xs) (auto intro: keeping)

lemma stay_when [keeping]: "(\<forall>m \<in> set xs. keeps d ms m) \<Longrightarrow> keeps d ms (b_when b xs)"
  by (auto simp: b_when_def intro: keeping)

lemma mild_reach:
  assumes "\<And>s q t. stands d ms s \<Longrightarrow> g q s = Some t \<Longrightarrow> stands d ms t"
  shows "mild d ms (\<lambda>s. obind (r s) (\<lambda>q. g q s))"
  using assms by (auto simp: mild_def)

lemma mild_write [keeping]: "mild d ms (do_write env p c)"
  unfolding do_write_def [abs_def]
proof (rule mild_reach)
  fix s q t
  assume s: "stands d ms s" and "(case look (visible s) q of Some Dir \<Rightarrow> None | Some (Reg _ m) \<Rightarrow> set_node q (Some (Reg c m)) s
      | _ \<Rightarrow> set_node q (Some (Reg c None)) s) = Some t"
  then have "\<exists>m. set_node q (Some (Reg c m)) s = Some t" "look (visible s) q \<noteq> Some Dir"
    by (auto split: option.splits inode.splits)
  then show "stands d ms t" using set_node_stands [OF s] by blast
qed

lemma mild_file:
  assumes "\<And>c m. g c m \<noteq> Some Dir"
  shows "mild d ms (\<lambda>s. obind (r s) (\<lambda>q. case look (visible s) q of None \<Rightarrow> None | Some (Reg c m) \<Rightarrow> set_node q (g c m) s | _ \<Rightarrow> Some s))"
proof (rule mild_reach)
  fix s q t
  assume s: "stands d ms s" and "(case look (visible s) q of None \<Rightarrow> None | Some (Reg c m) \<Rightarrow> set_node q (g c m) s | _ \<Rightarrow> Some s) = Some t"
  then consider "t = s" | c m where "look (visible s) q = Some (Reg c m)" "set_node q (g c m) s = Some t"
    by (auto split: option.splits inode.splits)
  then show "stands d ms t" using set_node_stands [OF s] s by cases auto
qed

lemma mild_chmod [keeping]: "mild d ms (do_chmod env p mode)"
  unfolding do_chmod_def [abs_def] by (rule mild_file) simp

lemma mild_exec [keeping]: "mild d ms (do_set_executable env p)"
  unfolding do_set_executable_def [abs_def] by (rule mild_file) simp

lemma mild_unlink [keeping]: "mild d ms (do_unlink env p)"
  unfolding do_unlink_def [abs_def] by (rule mild_reach) (auto split: if_splits intro: set_node_stands)

lemma mild_symlink [keeping]: "mild d ms (do_symlink env x p)"
  unfolding do_symlink_def [abs_def] by (rule mild_reach) (auto split: if_splits intro: set_node_stands)

lemma mild_copy [keeping]: "mild d ms (do_copy env x p)"
  unfolding mild_def
proof (intro allI impI)
  fix s t assume a: "stands d ms s \<and> do_copy env x p s = Some t"
  then obtain r where r: "reach_path env True x s = Some r" by (auto simp: do_copy_def)
  with a obtain c m where c: "look (visible s) r = Some (Reg c m)" by (auto simp: do_copy_def split: option.splits inode.splits)
  with a r obtain q where "reach_path env True p s = Some q" "look (visible s) q \<noteq> Some Dir" "set_node q (Some (Reg c m)) s = Some t"
    by (auto simp: do_copy_def split: if_splits)
  then show "stands d ms t" using a set_node_stands by blast
qed

lemma mkdirs_stands: "stands d ms s \<Longrightarrow> do_mkdirs before cs s = Some t \<Longrightarrow> stands d ms t"
proof (induction before cs s rule: do_mkdirs.induct)
  case (2 before c cs s)
  obtain q where q: "walk (visible s) max_links True [] (before @ [c]) = Some q" using 2(4) by auto
  show ?case
  proof (cases "look (visible s) q")
    case None
    then obtain v where v: "set_node q (Some Dir) s = Some v" "do_mkdirs (before @ [c]) cs v = Some t" using 2(4) q by auto
    have "stands d ms v" using set_node_stands [OF 2(3) v(1)] by simp
    then show ?thesis using 2(1) [OF None _ v(2)] by blast
  next
    case (Some x)
    then have x: "x = Dir" "do_mkdirs (before @ [c]) cs s = Some t" using 2(4) q by (auto split: inode.splits)
    then show ?thesis using 2(2) [OF Some x(1) 2(3) x(2)] by blast
  qed
qed simp

lemma mild_mkdirs [keeping]: "mild d ms (do_mkdirs before cs)"
  by (auto simp: mild_def intro: mkdirs_stands)

lemma mild_rmtree [keeping]: "mild d ms (do_rmtree env p)"
  unfolding mild_def
proof (intro allI impI)
  fix s t assume a: "stands d ms s \<and> do_rmtree env p s = Some t"
  then obtain q where q: "reach_path env False p s = Some q" by (auto simp: do_rmtree_def)
  have s: "stands d ms s" using a by simp
  consider x where "look (visible s) q = Some (Lnk x)" "set_node q None s = Some t"
    | "\<not> (\<exists>m \<in> set (bh_mounts s). prefix q (mt_dir m))" "t = put_visible (\<lambda>r. if prefix q r then None else visible s r) s"
    using a q by (auto simp: do_rmtree_def split: option.splits inode.splits if_splits)
  then show "stands d ms t"
  proof cases
    case 1
    then show ?thesis using set_node_stands [OF s 1(2)] by simp
  next
    case 2
    have "\<exists>m \<in> set (bh_mounts s). mt_dir m = d" using s by (auto simp: stands_def mounts_ok_def)
    then obtain m where "m \<in> set (bh_mounts s)" "mt_dir m = d" by blast
    then have "\<not> prefix q r" if "strict_prefix r d" for r
      using 2(1) that by (meson prefix_order.less_imp_le prefix_order.trans)
    then show ?thesis
      unfolding 2(2) using stands_visible [OF s] by (intro put_visible_stands [OF s]) (auto simp: strict_prefix_def)
  qed
qed

lemma stay_chroot [keeping]:
  assumes "parts_of (se_host env) root = d"
  shows "keeps d ms (chroot_command env root prog args)"
  unfolding keeps_def
proof (intro allI impI)
  fix s assume s: "stands d ms s"
  have "stands d ms (put_visible (\<lambda>q. if prefix d q then t (drop (length d) q) else visible s q) s)" for t
    using stands_visible [OF s] by (intro put_visible_stands [OF s]) (auto simp: strict_prefix_def dest: prefix_order.antisym)
  then show "stands d ms (snd (chroot_command env root prog args s))"
    using s stands_reach [OF s assms] by (simp add: chroot_command_def Let_def split: prod.split)
qed

text \<open>The archive library replaces no directory outside the one it unpacks into.\<close>

definition unpacks_inside :: "setup_env \<Rightarrow> bool" where
  "unpacks_inside env \<longleftrightarrow>
     (\<forall>c dir t q. t q = Some Dir \<and> \<not> prefix dir q \<longrightarrow> snd (se_untar env c dir t) q = Some Dir)"

lemma stay_untar [keeping]:
  assumes "unpacks_inside env" and "parts_of (se_host env) dir = d @ e" and "e \<noteq> []"
  shows "keeps d ms (unpack_runner env tarball dir)"
  unfolding keeps_def
proof (intro allI impI)
  fix s assume s: "stands d ms s"
  have "snd (se_untar env c (d @ e) (visible s)) r = Some Dir" if "strict_prefix r d" "r \<noteq> []" for r c
  proof -
    have "\<not> prefix (d @ e) r" using that(1) by (meson prefix_order.leD prefix_def append_prefixD)
    then show ?thesis using assms(1) stands_visible [OF s, of r] that unfolding unpacks_inside_def strict_prefix_def by blast
  qed
  then have "stands d ms (put_visible (snd (se_untar env c (d @ e) (visible s))) s)" for c
    by (intro put_visible_stands [OF s])
  then show "stands d ms (snd (unpack_runner env tarball dir s))"
    using s by (simp add: unpack_runner_def assms(2) split: prod.split option.split)
       (metis snd_conv)
qed

lemma stay_write_all [keeping]: "keeps d ms (write_all env p c)"
  unfolding keeps_def
proof (intro allI impI)
  fix s assume s: "stands d ms s"
  show "stands d ms (snd (write_all env p c s))"
    using s stay_sys [OF mild_write, of d ms "se_host env" "CallFailed p" "se_host env" p c] mildD [OF mild_write s]
    by (auto simp: write_all_def keeps_def split: option.split)
qed

lemma stay_paths [keeping]:
  "keeps d ms (write_path env p c)" "keeps d ms (chmod_path env p mode)" "keeps d ms (mkdirs_path env p)"
  "keeps d ms (unlink_path env p)" "keeps d ms (symlink_path env x p)" "keeps d ms (copy_path env x p)"
  "keeps d ms (set_executable env p)"
  by (simp_all add: write_path_def chmod_path_def mkdirs_path_def unlink_path_def symlink_path_def copy_path_def
      set_executable_def keeping)

lemma stay_download [keeping]: "keeps d ms (download_file env url p)"
  by (auto simp: download_file_def keeping split: option.split)

lemma stay_link [keeping]: "keeps d ms (symlink_if_missing env x p)"
  unfolding symlink_if_missing_def by (intro keeping) (auto intro!: keeping)

lemma stay_overlay_init [keeping]: "keeps d ms (install_overlay_init env mnt)"
  unfolding install_overlay_init_def by (intro keeping) (auto intro: keeping)

lemma stay_contents:
  assumes "unpacks_inside env" and "parts_of (se_host env) mnt = d" and "mnt \<noteq> []"
  shows "keeps d ms (build_rootfs_contents env mnt nw)"
proof -
  have dir: "parts_of (se_host env) (mnt @ ''/home/runner'') = d @ [''home'', ''runner'']"
    using parts_of_below [OF assms(3), of "se_host env" "''home/runner''"] assms(2) by (simp add: path_components_def)
  note k = keeping stay_chroot [OF assms(2)] stay_untar [OF assms(1) dir]
  have "\<forall>m \<in> set (base_files env nw mnt). keeps d ms m"
    by (auto simp: base_files_def Let_def intro!: k)
  moreover have "\<forall>m \<in> set (runner_files env mnt). keeps d ms m"
    by (auto simp: runner_files_def Let_def intro!: k)
  moreover have "\<forall>m \<in> set (boot_files env mnt). keeps d ms m"
    by (auto simp: boot_files_def Let_def split: option.split intro!: k)
  ultimately show ?thesis unfolding build_rootfs_contents_def by (intro stay_all) auto
qed

section \<open>Mounted and unmounted again\<close>

lemma stands_reach_below:
  assumes "stands d ms s" and "parts_of env p = d @ q" and "\<forall>c \<in> set q. ordinary c"
    and "\<And>r. prefix r q \<Longrightarrow> r \<noteq> [] \<Longrightarrow> visible s (d @ r) = Some Dir"
  shows "reach_path env follow p s = Some (d @ q)" and "look (visible s) (d @ q) = Some Dir"
proof -
  have d: "d \<noteq> []" "\<forall>c \<in> set d. ordinary c" using assms(1) by (auto simp: stands_def mount_dir_def)
  have v: "visible s r = Some Dir" if "prefix r (d @ q)" "r \<noteq> []" for r
    using that stands_visible [OF assms(1), of r] assms(4) d(1) unfolding prefix_append by (metis append_Nil2 prefix_order.refl)
  have "walk (visible s) max_links follow [] (d @ q) =
      (if \<forall>r. strict_prefix r (d @ q) \<and> r \<noteq> [] \<longrightarrow> visible s ([] @ r) = Some Dir then Some ([] @ d @ q) else None)"
    using v d assms(3) by (intro walk_ordinary) (auto simp: strict_prefix_def)
  then show "reach_path env follow p s = Some (d @ q)" using v assms(2) by (auto simp: reach_path_def strict_prefix_def)
  show "look (visible s) (d @ q) = Some Dir" using v d by (simp add: look_def)
qed

text \<open>The mounts beside the image, in the order of the latest first.\<close>

definition image_mount :: "string list \<Rightarrow> string list \<Rightarrow> mount" where
  "image_mount d i = \<lparr>mt_dir = d, mt_src = Image i, mt_ro = False\<rparr>"

definition kernel_mounts :: "string list \<Rightarrow> mount list" where
  "kernel_mounts d =
     [\<lparr>mt_dir = d @ [''sys''], mt_src = Other ''sysfs'', mt_ro = False\<rparr>, \<lparr>mt_dir = d @ [''proc''], mt_src = Other ''proc'', mt_ro = False\<rparr>,
      \<lparr>mt_dir = d @ [''dev'', ''pts''], mt_src = Bind [''dev'', ''pts''], mt_ro = False\<rparr>,
      \<lparr>mt_dir = d @ [''dev''], mt_src = Bind [''dev''], mt_ro = False\<rparr>]"

lemma mounts_ok_kernel: "k \<le> 4 \<Longrightarrow> mounts_ok d (drop k (kernel_mounts d) @ [image_mount d i])"
proof -
  assume "k \<le> 4"
  then consider "k = 0" | "k = 1" | "k = 2" | "k = 3" | "k = 4" by linarith
  then show ?thesis by cases (auto simp: mounts_ok_def kernel_mounts_def image_mount_def strict_prefix_def)
qed

lemma put_mount_below:
  assumes "stands d ms s" and "parts_of env p = d @ q" and "\<forall>c \<in> set q. ordinary c" and "q \<noteq> []"
    and "\<And>r. prefix r q \<Longrightarrow> r \<noteq> [] \<Longrightarrow> visible s (d @ r) = Some Dir"
  shows "\<exists>t. put_mount env src p s = Some t \<and> stands d (\<lparr>mt_dir = d @ q, mt_src = src, mt_ro = False\<rparr> # ms) t \<and>
    bh_fs t = bh_fs s \<and> bh_trees t = bh_trees s"
proof -
  have "strict_prefix d (d @ q)" using assms(4) by (auto simp: strict_prefix_def)
  then have "mounts_ok d (\<lparr>mt_dir = d @ q, mt_src = src, mt_ro = False\<rparr> # ms)"
    using assms(1) unfolding stands_def mounts_ok_def by (metis Cons_eq_appendI mount.select_convs(1) set_ConsD)
  then show ?thesis
    using assms(1) stands_reach_below [OF assms(1-3,5)] by (simp add: put_mount_def stands_def)
qed

lemma umount_below:
  assumes "stands d ms s" and "parts_of env p = d @ q" and "\<forall>c \<in> set q. ordinary c" and "\<forall>k. be_ok env k"
    and "\<And>r. prefix r q \<Longrightarrow> r \<noteq> [] \<Longrightarrow> \<exists>m. mount_over s (d @ r) = Some m \<and> mt_dir m = d @ r"
    and "drop_mounts (d @ q) ms = Some ns"
  shows "\<exists>t. lazy_umount env p s = (Inr (), t) \<and> bh_mounts t = ns \<and> bh_fs t = bh_fs s"
proof -
  have "visible s (d @ r) = Some Dir" if "prefix r q" "r \<noteq> []" for r
    using assms(5) [OF that] by (auto simp: visible_def)
  then have "reach_path env True p s = Some (d @ q)" using stands_reach_below(1) [OF assms(1-3)] by blast
  then show ?thesis
    using assms(1,4,6) by (simp add: lazy_umount_def b_sys_def do_umount_def stands_def bh_step_def)
qed

lemma try_mount:
  assumes "put_mount env src p s = Some t" and "\<forall>k. be_ok env k"
  shows "b_try env (put_mount env src p) s = (Inr (), bh_step t)"
  using assms by (simp add: b_try_def)

lemma dir_reach:
  assumes "stands d ms s" and "parts_of env p = q" and "\<forall>c \<in> set q. ordinary c" and "q \<noteq> []"
    and "\<And>r. prefix r q \<Longrightarrow> r \<noteq> [] \<Longrightarrow> visible s r = Some Dir"
  shows "reach_path env True p s = Some q" and "look (visible s) q = Some Dir"
proof -
  have "walk (visible s) max_links True [] q =
      (if \<forall>r. strict_prefix r q \<and> r \<noteq> [] \<longrightarrow> visible s ([] @ r) = Some Dir then Some ([] @ q) else None)"
    using assms by (intro walk_ordinary) (auto simp: strict_prefix_def)
  then show "reach_path env True p s = Some q" using assms(2,5) by (auto simp: reach_path_def strict_prefix_def)
  show "look (visible s) q = Some Dir" using assms(4,5) by (simp add: look_def)
qed

lemma sub_parts:
  assumes "parts_of env mnt = d" and "mnt \<noteq> []"
  shows "parts_of env (mnt @ ''/dev'') = d @ [''dev'']" "parts_of env (mnt @ ''/dev/pts'') = d @ [''dev'', ''pts'']"
    "parts_of env (mnt @ ''/proc'') = d @ [''proc'']" "parts_of env (mnt @ ''/sys'') = d @ [''sys'']"
    "parts_of env ''/dev'' = [''dev'']" "parts_of env ''/dev/pts'' = [''dev'', ''pts'']"
  using parts_of_below [OF assms(2), of env "''dev''"] parts_of_below [OF assms(2), of env "''dev/pts''"]
    parts_of_below [OF assms(2), of env "''proc''"] parts_of_below [OF assms(2), of env "''sys''"] assms(1)
  by (simp_all add: path_components_def parts_of_def join_parts_def starts_with_slash)

lemma prefix_two: "prefix r [a, b] \<Longrightarrow> r \<noteq> [] \<Longrightarrow> r = [a] \<or> r = [a, b]"
  by (auto simp: prefix_Cons)

lemma kernel_mounts_made:
  assumes env: "\<forall>k. be_ok env k" and s: "stands d [image_mount d i] s" and mnt: "parts_of env mnt = d" "mnt \<noteq> []"
    and host: "bh_fs s [''dev''] = Some Dir" "bh_fs s [''dev'', ''pts''] = Some Dir" "\<not> prefix d [''dev'', ''pts'']"
    and tree: "bh_trees s i [''dev''] = Some Dir" "bh_trees s i [''proc''] = Some Dir" "bh_trees s i [''sys''] = Some Dir"
  shows "\<exists>t. b_all [bind_mount env ''/dev'' (mnt @ ''/dev''), bind_mount env ''/dev/pts'' (mnt @ ''/dev/pts''),
      mount_pseudo env ''proc'' (mnt @ ''/proc''), mount_pseudo env ''sysfs'' (mnt @ ''/sys'')] s = (Inr (), t) \<and>
    stands d (kernel_mounts d @ [image_mount d i]) t \<and> bh_fs t = bh_fs s"
proof -
  note p = sub_parts [OF mnt]
  have ord: "ordinary ''dev''" "ordinary ''pts''" "ordinary ''proc''" "ordinary ''sys''" by (simp_all add: ordinary_def)
  have nod: "\<not> prefix d [''dev'']" using host(3) prefix_order.trans [of d "[''dev'']" "[''dev'', ''pts'']"] by auto
  have out: "mount_over u [''dev''] = None" "mount_over u [''dev'', ''pts''] = None"
    if "stands d ms u" for u ms
  proof -
    have "\<not> prefix (mt_dir m) q" if "m \<in> set (bh_mounts u)" "prefix q [''dev'', ''pts'']" for m q
      using \<open>stands d ms u\<close> mounts_ok_below [of d ms m] that host(3) unfolding stands_def by (metis prefix_order.trans)
    then show "mount_over u [''dev''] = None" "mount_over u [''dev'', ''pts''] = None"
      by (auto simp: mount_over_def find_None_iff)
  qed
  have dev: "reach_path env True ''/dev'' u = Some [''dev'']" "look (visible u) [''dev''] = Some Dir"
      "reach_path env True ''/dev/pts'' u = Some [''dev'', ''pts'']" "look (visible u) [''dev'', ''pts''] = Some Dir"
    if u: "stands d ms u" "bh_fs u = bh_fs s" for u ms
  proof -
    have v: "visible u [''dev''] = Some Dir" "visible u [''dev'', ''pts''] = Some Dir"
      using out [OF u(1)] u(2) host by (simp_all add: visible_def)
    show "reach_path env True ''/dev'' u = Some [''dev'']" "look (visible u) [''dev''] = Some Dir"
      using dir_reach [OF u(1) p(5)] v ord by (auto simp: prefix_Cons)
    show "reach_path env True ''/dev/pts'' u = Some [''dev'', ''pts'']" "look (visible u) [''dev'', ''pts''] = Some Dir"
      using dir_reach [OF u(1) p(6)] v ord by (auto dest!: prefix_two)
  qed
  let ?m = "kernel_mounts d @ [image_mount d i]"
  have v1: "visible s (d @ [''dev'']) = Some Dir"
    using s tree by (simp add: visible_def mount_over_def stands_def image_mount_def)
  obtain a where a: "put_mount env (Bind [''dev'']) (mnt @ ''/dev'') s = Some a" "stands d (drop 3 ?m) a" "bh_fs a = bh_fs s" "bh_trees a = bh_trees s"
    using put_mount_below [OF s p(1)] v1 ord by (auto simp: kernel_mounts_def prefix_Cons)
  have v2: "visible (bh_step a) (d @ [''dev'']) = Some Dir" "visible (bh_step a) (d @ [''dev'', ''pts'']) = Some Dir"
    using a host by (simp_all add: visible_def mount_over_def stands_def kernel_mounts_def image_mount_def bh_step_def)
  have a': "stands d (drop 3 ?m) (bh_step a)" "bh_fs (bh_step a) = bh_fs s" "bh_trees (bh_step a) = bh_trees s"
    using a by (simp_all add: bh_step_def stands_def)
  obtain b where b: "put_mount env (Bind [''dev'', ''pts'']) (mnt @ ''/dev/pts'') (bh_step a) = Some b" "stands d (drop 2 ?m) b" "bh_fs b = bh_fs s"
      "bh_trees b = bh_trees s"
    using put_mount_below [OF a'(1) p(2)] v2 ord a'(2,3) by (fastforce simp: kernel_mounts_def dest: prefix_two)
  have v3: "visible (bh_step b) (d @ [''proc'']) = Some Dir"
    using b tree by (simp add: visible_def mount_over_def stands_def kernel_mounts_def image_mount_def bh_step_def)
  have b': "stands d (drop 2 ?m) (bh_step b)" "bh_fs (bh_step b) = bh_fs s" "bh_trees (bh_step b) = bh_trees s"
    using b by (simp_all add: bh_step_def stands_def)
  obtain g where g: "put_mount env (Other ''proc'') (mnt @ ''/proc'') (bh_step b) = Some g" "stands d (drop 1 ?m) g" "bh_fs g = bh_fs s" "bh_trees g = bh_trees s"
    using put_mount_below [OF b'(1) p(3)] v3 ord b'(2,3) by (auto simp: kernel_mounts_def prefix_Cons)
  have v4: "visible (bh_step g) (d @ [''sys'']) = Some Dir"
    using g tree by (simp add: visible_def mount_over_def stands_def kernel_mounts_def image_mount_def bh_step_def)
  have g': "stands d (drop 1 ?m) (bh_step g)" "bh_fs (bh_step g) = bh_fs s"
    using g by (simp_all add: bh_step_def stands_def)
  obtain k where k: "put_mount env (Other ''sysfs'') (mnt @ ''/sys'') (bh_step g) = Some k" "stands d ?m k" "bh_fs k = bh_fs s"
    using put_mount_below [OF g'(1) p(4)] v4 ord g'(2) by (auto simp: kernel_mounts_def prefix_Cons)
  have "b_all [bind_mount env ''/dev'' (mnt @ ''/dev''), bind_mount env ''/dev/pts'' (mnt @ ''/dev/pts''),
      mount_pseudo env ''proc'' (mnt @ ''/proc''), mount_pseudo env ''sysfs'' (mnt @ ''/sys'')] s = (Inr (), bh_step k)"
    using dev [OF s refl] dev [OF a'(1,2)] env a(1) b(1) g(1) k(1)
    by (simp add: bind_mount_def mount_pseudo_def op_seq_apply b_try_def op_ret_def)
  then show ?thesis using k(2,3) by (auto simp: bh_step_def stands_def)
qed

lemma kernel_mounts_removed:
  assumes env: "\<forall>k. be_ok env k" and s: "stands d (kernel_mounts d @ [image_mount d i]) s" and mnt: "parts_of env mnt = d" "mnt \<noteq> []"
  shows "\<exists>t. b_all (map (\<lambda>sub. b_ignore (lazy_umount env (mnt @ sub))) [''/dev/pts'', ''/dev'', ''/proc'', ''/sys'']) s = (Inr (), t) \<and>
    stands d [image_mount d i] t"
proof -
  note p = sub_parts [OF mnt]
  have ord: "ordinary ''dev''" "ordinary ''pts''" "ordinary ''proc''" "ordinary ''sys''" by (simp_all add: ordinary_def)
  let ?m = "kernel_mounts d @ [image_mount d i]"
  let ?sys = "\<lparr>mt_dir = d @ [''sys''], mt_src = Other ''sysfs'', mt_ro = False\<rparr>" and ?proc = "\<lparr>mt_dir = d @ [''proc''], mt_src = Other ''proc'', mt_ro = False\<rparr>"
    and ?dev = "\<lparr>mt_dir = d @ [''dev''], mt_src = Bind [''dev''], mt_ro = False\<rparr>" and ?i = "image_mount d i"
  have st: "stands d ms u" if "bh_mounts u = ms" "bh_fs u = bh_fs s" "mounts_ok d ms" for u ms
    using s that by (simp add: stands_def)
  have ok: "mounts_ok d [?sys, ?proc, ?dev, ?i]" "mounts_ok d [?sys, ?proc, ?i]" "mounts_ok d [?sys, ?i]" "mounts_ok d [?i]"
    by (auto simp: mounts_ok_def image_mount_def strict_prefix_def)
  obtain a where a: "lazy_umount env (mnt @ ''/dev/pts'') s = (Inr (), a)" "bh_mounts a = [?sys, ?proc, ?dev, ?i]" "bh_fs a = bh_fs s"
    using umount_below [OF s p(2) _ env] s ord
    by (fastforce simp: stands_def mount_over_def kernel_mounts_def image_mount_def strict_prefix_def dest: prefix_two)
  note a' = st [OF a(2,3) ok(1)]
  obtain b where b: "lazy_umount env (mnt @ ''/dev'') a = (Inr (), b)" "bh_mounts b = [?sys, ?proc, ?i]" "bh_fs b = bh_fs s"
    using umount_below [OF a' p(1) _ env] a ord
    by (fastforce simp: mount_over_def image_mount_def strict_prefix_def prefix_Cons)
  note b' = st [OF b(2,3) ok(2)]
  obtain g where g: "lazy_umount env (mnt @ ''/proc'') b = (Inr (), g)" "bh_mounts g = [?sys, ?i]" "bh_fs g = bh_fs s"
    using umount_below [OF b' p(3) _ env] b ord
    by (fastforce simp: mount_over_def image_mount_def strict_prefix_def prefix_Cons)
  note g' = st [OF g(2,3) ok(3)]
  obtain k where k: "lazy_umount env (mnt @ ''/sys'') g = (Inr (), k)" "bh_mounts k = [?i]" "bh_fs k = bh_fs s"
    using umount_below [OF g' p(4) _ env] g ord
    by (fastforce simp: mount_over_def image_mount_def strict_prefix_def prefix_Cons)
  show ?thesis
    using a(1) b(1) g(1) k(1) st [OF k(2,3) ok(4)]
    by (simp add: op_seq_apply b_ignore_def op_ret_def)
qed

lemma removed_or_absent:
  assumes "\<forall>k. be_ok env k" and "host_at f tr s" and "site ds f" and "ordinary x" and "parts_of env p = ds @ [x]"
  shows "\<exists>t. unlink_path env p s = (Inr (), t) \<and> bh_mounts t = [] \<and> \<not> is_image (bh_fs t (ds @ [x]))"
proof (cases "f (ds @ [x]) \<in> {None, Some Dir}")
  case True
  then have "do_unlink env p s = None"
    using host_at_reach [OF assms(2-5), of False] by (auto simp: do_unlink_def)
  then show ?thesis using True assms(2) by (auto simp: unlink_path_def b_try_def bh_step_def host_at_def is_image_def)
next
  case False
  obtain u where "set_node (ds @ [x]) None s = Some u" "host_at (f(ds @ [x] := None)) tr u"
    using host_at_set [OF assms(2)] by blast
  then show ?thesis
    using host_at_reach [OF assms(2-5), of False] False assms(1)
    by (auto simp: unlink_path_def b_try_def do_unlink_def bh_step_def host_at_def is_image_def)
qed

lemma rmdir_host:
  assumes "host_at f tr s" and "site ds f" and "ordinary y" and "parts_of env p = ds @ [y]"
  shows "\<exists>t g. rmdir_path env p s = (Inr (), t) \<and> host_at g tr t \<and> site ds g \<and> (\<forall>q. q \<noteq> ds @ [y] \<longrightarrow> g q = f q)"
proof -
  obtain u where u: "set_node (ds @ [y]) None s = Some u" "host_at (f(ds @ [y] := None)) tr u"
    using host_at_set [OF assms(1)] by blast
  have r: "reach_path env False p s = Some (ds @ [y])" using host_at_reach [OF assms, of False] by simp
  show ?thesis
  proof (cases "be_ok env (bh_tick s) \<and> do_rmdir env p s \<noteq> None")
    case True
    then have "do_rmdir env p s = Some u" using r u(1) by (auto simp: do_rmdir_def split: if_splits)
    then show ?thesis using True u(2) site_upd [OF assms(2), of y None]
      by (intro exI [of _ "bh_step u"] exI [of _ "f(ds @ [y] := None)"]) (simp add: rmdir_path_def b_try_def)
  next
    case False
    then show ?thesis using assms(1,2)
      by (intro exI [of _ "bh_step s"] exI [of _ f]) (auto simp: rmdir_path_def b_try_def)
  qed
qed

text \<open>C11: Filling the root file system cleans up whatever happens: when the host grants the system calls, then for
  every outcome of the commands, the downloads and the archives, and whatever packages and links the
  image has, nothing stays mounted, the result is the one of the filling, and after a failure no image
  is left that a later start would take for a finished one.\<close>

theorem fill_rootfs_cleans_up:
  assumes env: "\<forall>k. be_ok (se_host env) k" "unpacks_inside env"
    and s: "bh_mounts s = [image_mount (ds @ [y]) (ds @ [x])]" "site ds (bh_fs s)" "bh_fs s (ds @ [y]) = Some Dir"
    and names: "ordinary x" "ordinary y" "parts_of (se_host env) rootfs = ds @ [x]" "parts_of (se_host env) mnt = ds @ [y]" "mnt \<noteq> []"
    and host: "bh_fs s [''dev''] = Some Dir" "bh_fs s [''dev'', ''pts''] = Some Dir" "\<not> prefix (ds @ [y]) [''dev'', ''pts'']"
    and tree: "\<forall>c \<in> {''dev'', ''proc'', ''sys''}. bh_trees s (ds @ [x]) [c] = Some Dir"
  shows "\<exists>r t u. build_rootfs_contents env mnt nw u = (r, t) \<and> fst (fill_rootfs env nw rootfs mnt s) = r \<and>
    bh_mounts (snd (fill_rootfs env nw rootfs mnt s)) = [] \<and>
    (\<not> is_ok r \<longrightarrow> \<not> is_image (bh_fs (snd (fill_rootfs env nw rootfs mnt s)) (ds @ [x])))"
proof -
  let ?h = "se_host env" and ?d = "ds @ [y]" and ?i = "ds @ [x]"
  have st: "stands ?d [image_mount ?d ?i] s"
    using s mount_dir_site [OF s(2) names(2) s(3)] mounts_ok_kernel [of 4 ?d ?i] by (simp add: stands_def kernel_mounts_def)
  have t3: "bh_trees s ?i [''dev''] = Some Dir" "bh_trees s ?i [''proc''] = Some Dir" "bh_trees s ?i [''sys''] = Some Dir"
    using tree by simp_all
  obtain u where u: "b_all [bind_mount ?h ''/dev'' (mnt @ ''/dev''), bind_mount ?h ''/dev/pts'' (mnt @ ''/dev/pts''),
      mount_pseudo ?h ''proc'' (mnt @ ''/proc''), mount_pseudo ?h ''sysfs'' (mnt @ ''/sys'')] s = (Inr (), u)"
    "stands ?d (kernel_mounts ?d @ [image_mount ?d ?i]) u"
    using kernel_mounts_made [OF env(1) st names(4,5) host t3] by blast
  obtain r t where rt: "build_rootfs_contents env mnt nw u = (r, t)" by fastforce
  have "stands ?d (kernel_mounts ?d @ [image_mount ?d ?i]) t"
    using stay_contents [OF env(2) names(4,5), of "kernel_mounts ?d @ [image_mount ?d ?i]" nw] u(2) rt
    unfolding keeps_def by (metis snd_conv)
  then obtain v where v: "b_all (map (\<lambda>sub. b_ignore (lazy_umount ?h (mnt @ sub))) [''/dev/pts'', ''/dev'', ''/proc'', ''/sys'']) t = (Inr (), v)"
    "stands ?d [image_mount ?d ?i] v"
    using kernel_mounts_removed [OF env(1) _ names(4,5)] by blast
  have "parts_of ?h mnt = ?d @ []" using names(4) by simp
  then obtain w where w: "lazy_umount ?h mnt v = (Inr (), w)" "bh_mounts w = []" "bh_fs w = bh_fs v"
    using umount_below [OF v(2), of ?h mnt "[]" "[]"] env(1) by (auto simp: image_mount_def)
  have site: "site ds (bh_fs w)" using v(2) w(3) by (auto simp: site_def stands_def mount_dir_def)
  have hw: "host_at (bh_fs w) (bh_trees w) w" using w(2) by (simp add: host_at_def)
  obtain z g where z: "rmdir_path ?h mnt w = (Inr (), z)" "host_at g (bh_trees w) z" "site ds g"
    using rmdir_host [OF hw site names(2,4)] by blast
  obtain q where q: "unlink_path ?h rootfs z = (Inr (), q)" "bh_mounts q = []" "\<not> is_image (bh_fs q ?i)"
    using removed_or_absent [OF env(1) z(2,3) names(1,3)] by blast
  have "fill_rootfs env nw rootfs mnt s = (case r of Inl e \<Rightarrow> (Inl e, q) | Inr _ \<Rightarrow> (Inr (), z))"
    unfolding fill_rootfs_def Let_def u(1) snd_conv rt prod.case v(1) w(1)
    by (cases r) (simp_all add: op_seq_apply z(1) q(1) op_fail_def op_lift_apply)
  then show ?thesis
    using rt q z(2) by (cases r) (auto simp: host_at_def)
qed

section \<open>A host where packages cannot be installed\<close>

definition demo_setup_env :: setup_env where
  "demo_setup_env = \<lparr>se_host = quiet_env_at [], se_get = (\<lambda>_. None), se_written = (\<lambda>_. 0), se_qcow = (\<lambda>_. None),
     se_partitions = (\<lambda>_. None), se_gives = (\<lambda>_ n. n), se_tree = (\<lambda>_. Map.empty), se_super = (\<lambda>_. []), se_absent = (\<lambda>_. True),
     se_chroot = (\<lambda>_ _ t. (False, t)), se_untar = (\<lambda>_ _ t. (False, t)), se_exe = None\<rparr>"

definition demo_filling :: bhost where
  "demo_filling = \<lparr>bh_fs = map_of [([''opt''], Dir), ([''opt'', ''r.ext4''], Disk 4096 True), ([''opt'', ''r.ext4.mnt''], Dir),
       ([''dev''], Dir), ([''dev'', ''pts''], Dir)],
     bh_trees = (\<lambda>_. map_of [([''dev''], Dir), ([''proc''], Dir), ([''sys''], Dir)]),
     bh_mounts = [image_mount [''opt'', ''r.ext4.mnt''] [''opt'', ''r.ext4'']], bh_mtime = (\<lambda>_. 0), bh_tick = 0\<rparr>"

lemma fill_rootfs_cleans_up_witness:
  "bh_mounts (snd (fill_rootfs demo_setup_env default_network_config ''/opt/r.ext4'' ''/opt/r.ext4.mnt'' demo_filling)) = []"
proof -
  have parts: "parts_of (se_host demo_setup_env) ''/opt/r.ext4'' = [''opt''] @ [''r.ext4'']"
    "parts_of (se_host demo_setup_env) ''/opt/r.ext4.mnt'' = [''opt''] @ [''r.ext4.mnt'']"
    by code_simp+
  have "site [''opt''] (bh_fs demo_filling)" by (simp add: site_def ordinary_def demo_filling_def prefix_Cons)
  moreover have "unpacks_inside demo_setup_env" by (simp add: unpacks_inside_def demo_setup_env_def)
  ultimately show ?thesis
    using fill_rootfs_cleans_up [OF _ _ _ _ _ _ _ parts, of demo_filling default_network_config]
    by (simp add: demo_setup_env_def demo_filling_def quiet_env_at_def ordinary_def)
qed

end
