(* ===== verification/Overlay.thy ===== *)
theory Overlay
  imports Rootfs
begin

text \<open>
  The overlay init of the golden image and the squashfs made of it (\<open>src/src/vm/setup.rs\<close>): what a
  start leaves in the image, and that a second start finds nothing to do.
\<close>

section \<open>A call through a link of the image\<close>

text \<open>Where the image has its programs: in a directory of its own, or below \<open>/usr\<close> with a link.\<close>

definition init_place :: "fs \<Rightarrow> string list" where
  "init_place t = (if t [''sbin''] = Some (Lnk ''usr/sbin'') then [''usr'', ''sbin'', ''overlay-init''] else init_at)"

lemma walk_below_dirs:
  assumes "mount_dir d t"
  shows "walk t n follow [] (d @ q) = walk t n follow d q"
  using walk_dirs [of d t "[]" n follow q] assms by (auto simp: mount_dir_def)

lemma walk_link:
  assumes "t (here @ [c]) = Some (Lnk y)" and "ordinary c" and "cs \<noteq> []" and "\<not> starts_with y ''/''"
  shows "walk t (Suc n) follow here (c # cs) = walk t n follow here (path_components y @ cs)"
  using assms by (simp add: ordinary_def)

lemma init_reach:
  assumes s: "in_image d i dirs f tr t s" and p: "parts_of env p = d @ init_at"
    and fp: "file_path dirs (init_place t)" and dir: "t (butlast (init_place t)) = Some Dir" and nl: "\<forall>x. t (init_place t) \<noteq> Some (Lnk x)"
  shows "reach_path env True p s = Some (d @ init_place t) \<and> look (visible s) (d @ init_place t) = t (init_place t)"
proof (cases "t [''sbin''] = Some (Lnk ''usr/sbin'')")
  case False
  then show ?thesis using file_path_reach [OF s fp _ dir, of env p True] p nl by (simp add: init_place_def)
next
  case True
  note v = in_image_sees [OF s]
  let ?q = "[''usr'', ''sbin'', ''overlay-init'']"
  have q: "\<forall>c \<in> set ?q. ordinary c" "\<forall>r. strict_prefix r ?q \<longrightarrow> r \<in> dirs"
    using fp True by (auto simp: file_path_def init_place_def)
  have ok: "tree_ok dirs t" using s by (simp add: in_image_def)
  have up: "\<forall>r. strict_prefix r ?q \<longrightarrow> t r = Some Dir"
    using parents_dirs [OF ok, of ?q] dir True by (simp add: init_place_def)
  have "walk (visible s) max_links True [] (d @ init_at) = walk (visible s) max_links True d init_at"
    by (rule walk_below_dirs [OF v(3)])
  also have "\<dots> = walk (visible s) 39 True d ?q"
  proof -
    have "max_links = Suc 39" by (simp add: max_links_def)
    moreover have "path_components ''usr/sbin'' = [''usr'', ''sbin'']" by code_simp
    ultimately show ?thesis
      using walk_link [of "visible s" d "''sbin''" "''usr/sbin''" "[''overlay-init'']" 39 True] v(1) [of "[''sbin'']"] True
      by (simp add: starts_with_slash ordinary_def del: walk.simps)
  qed
  also have "\<dots> = walk (visible s) 39 True [] (d @ ?q)"
    by (rule walk_below_dirs [OF v(3), symmetric])
  also have "\<dots> = Some (d @ ?q)"
    using in_image_walk(1) [OF s q, of True 39] up nl True by (simp add: init_place_def)
  finally show ?thesis
    using p True in_image_walk(2) [OF s q, of True] nl by (simp add: reach_path_def init_place_def)
qed

lemma turns_set_executable_at:
  assumes "quiet env" and "file_path dirs q" and "t (butlast q) = Some Dir" and "t q = Some (Reg c m)"
    and at: "\<And>s. in_image d i dirs f tr t s \<Longrightarrow> reach_path env True p s = Some (d @ q) \<and> look (visible s) (d @ q) = t q"
  shows "turns d i dirs f tr t (set_executable env p) (t(q \<mapsto> Reg c (Some (plus_exec m))))"
  unfolding turns_def
proof (intro allI impI)
  fix s assume s: "in_image d i dirs f tr t s"
  obtain u where u: "set_node (d @ q) (Some (Reg c (Some (plus_exec m)))) s = Some u"
    "in_image d i dirs f tr (t(q \<mapsto> Reg c (Some (plus_exec m)))) u"
    using file_ok_put [OF s assms(2,3), of "Some (Reg c (Some (plus_exec m)))"] by auto
  have "do_set_executable env p s = Some u" using at [OF s] assms(4) u(1) by (simp add: do_set_executable_def)
  then show "\<exists>s'. set_executable env p s = (Inr (), s') \<and> in_image d i dirs f tr (t(q \<mapsto> Reg c (Some (plus_exec m)))) s'"
    using run_sys [OF assms(1) _ u(2)] by (simp add: set_executable_def)
qed

section \<open>The overlay init installed\<close>

definition init_dirs :: "string list list" where
  "init_dirs = [[''overlay'', ''root''], [''overlay'', ''work''], [''mnt''], [''rom'']]"

definition init_fits :: "string list set \<Rightarrow> fs \<Rightarrow> bool" where
  "init_fits dirs t \<longleftrightarrow> (\<forall>q \<in> set init_dirs. \<forall>r. prefix r q \<longrightarrow> r \<in> dirs) \<and>
     (\<forall>r. strict_prefix r (init_place t) \<longrightarrow> r \<in> dirs) \<and> init_place t \<notin> dirs \<and>
     t (butlast (init_place t)) = Some Dir \<and> (\<forall>x. t (init_place t) \<noteq> Some (Lnk x))"

definition with_dirs :: "fs \<Rightarrow> fs" where
  "with_dirs t = (\<lambda>p. if \<exists>q \<in> set init_dirs. prefix p q then Some Dir else t p)"

definition init_tree :: "fs \<Rightarrow> fs" where
  "init_tree t = (with_dirs t)(init_place t \<mapsto> Reg overlay_init_script (Some (plus_exec (bits_of (t (init_place t))))))"

lemma with_dirs_fold: "foldl (\<lambda>u q. put_node q Dir u) t init_dirs = with_dirs t"
  by (rule ext) (auto simp: init_dirs_def with_dirs_def put_dir_at)

lemma init_place_ordinary: "\<forall>c \<in> set (init_place t). ordinary c" "init_place t \<noteq> []"
  by (auto simp: init_place_def ordinary_def)

lemma with_dirs_init:
  assumes "init_fits dirs t"
  shows "with_dirs t (init_place t) = t (init_place t)" and "with_dirs t (butlast (init_place t)) = Some Dir"
    and "init_place (with_dirs t) = init_place t" and "file_path dirs (init_place t)"
proof -
  show "with_dirs t (init_place t) = t (init_place t)" "with_dirs t (butlast (init_place t)) = Some Dir"
    using assms by (auto simp: init_fits_def with_dirs_def)
  have "\<not> (\<exists>q \<in> set init_dirs. prefix [''sbin''] q)" by (auto simp: init_dirs_def)
  then show "init_place (with_dirs t) = init_place t" by (simp add: init_place_def with_dirs_def)
  show "file_path dirs (init_place t)" using assms init_place_ordinary [of t] by (simp add: file_path_def init_fits_def)
qed

lemma install_overlay_init_turns:
  assumes "quiet env" and "init_fits dirs t" and "parts_of env mnt = d" and "mnt \<noteq> []"
  shows "turns d i dirs f tr t (install_overlay_init env mnt) (init_tree t)"
proof -
  have at: "parts_of env (mnt @ CHR ''/'' # y) = d @ path_components y" for y
    using parts_of_below [OF assms(4)] assms(3) by simp
  have dp: "dir_path dirs q" if "q \<in> set init_dirs" for q
    using assms(2) that by (auto simp: init_fits_def dir_path_def init_dirs_def ordinary_def)
  have mk: "turns d i dirs f tr u (mkdirs_path env (mnt @ CHR ''/'' # y)) (put_node q Dir u)"
    if "path_components y = q" "q \<in> set init_dirs" for y q u
    using turns_mkdirs [OF assms(1) dp [OF that(2)]] at that(1) by simp
  have m: "turns d i dirs f tr u (mkdirs_path env (mnt @ ''/overlay/root'')) (put_node [''overlay'', ''root''] Dir u)"
    "turns d i dirs f tr u (mkdirs_path env (mnt @ ''/overlay/work'')) (put_node [''overlay'', ''work''] Dir u)"
    "turns d i dirs f tr u (mkdirs_path env (mnt @ ''/mnt'')) (put_node [''mnt''] Dir u)"
    "turns d i dirs f tr u (mkdirs_path env (mnt @ ''/rom'')) (put_node [''rom''] Dir u)" for u
    by (rule mk; simp add: path_components_def init_dirs_def)+
  let ?t = "with_dirs t" and ?q = "init_place t" and ?p = "mnt @ ''/sbin/overlay-init''"
  note w = with_dirs_init [OF assms(2)]
  have nl: "\<forall>x. t ?q \<noteq> Some (Lnk x)" using assms(2) by (simp add: init_fits_def)
  have parts: "parts_of env ?p = d @ init_at" using at [of "''sbin/overlay-init''"] by (simp add: path_components_def)
  let ?r = "?t(?q \<mapsto> Reg overlay_init_script (bits_of (?t ?q)))"
  have reach1: "reach_path env True ?p s = Some (d @ ?q) \<and> look (visible s) (d @ ?q) = ?t ?q" if "in_image d i dirs f tr ?t s" for s
    using init_reach [OF that parts] w nl by simp
  have q: "?q \<noteq> []" using w(4) by (simp add: file_path_def)
  then have "butlast ?q \<noteq> ?q" by (metis append_butlast_last_id not_Cons_self2 self_append_conv)
  then have dir2: "?r (butlast ?q) = Some Dir" using w(2) by simp
  have "?q \<noteq> [''sbin'']" by (auto simp: init_place_def)
  then have place2: "init_place ?r = ?q" using w(3) by (simp add: init_place_def)
  have reach2: "reach_path env True ?p s = Some (d @ ?q) \<and> look (visible s) (d @ ?q) = ?r ?q" if "in_image d i dirs f tr ?r s" for s
    using init_reach [OF that parts] w(4) dir2 unfolding place2 by simp
  have fits: "?r(?q \<mapsto> Reg overlay_init_script (Some (plus_exec (bits_of (?t ?q))))) = init_tree t"
    using w(1) by (simp add: init_tree_def)
  have a: "turns d i dirs f tr ?t (write_path env ?p overlay_init_script) ?r"
    by (rule turns_write_at [OF assms(1) w(4,2) reach1]) (use nl w(1) in auto)
  have "turns d i dirs f tr ?r (set_executable env ?p)
      (?r(?q \<mapsto> Reg overlay_init_script (Some (plus_exec (bits_of (?t ?q))))))"
    by (rule turns_set_executable_at [OF assms(1) w(4) dir2 fun_upd_same]) (rule reach2)
  then have b: "turns d i dirs f tr ?r (set_executable env ?p) (init_tree t)" unfolding fits .
  have fold: "put_node [''rom''] Dir (put_node [''mnt''] Dir (put_node [''overlay'', ''work''] Dir (put_node [''overlay'', ''root''] Dir t))) = ?t"
    using with_dirs_fold [of t] by (simp add: init_dirs_def)
  have m4: "turns d i dirs f tr (put_node [''mnt''] Dir (put_node [''overlay'', ''work''] Dir (put_node [''overlay'', ''root''] Dir t)))
      (mkdirs_path env (mnt @ ''/rom'')) ?t"
    using m(4) unfolding fold [symmetric] .
  show ?thesis
    unfolding install_overlay_init_def list.map append.simps
    by (rule turns_Cons [OF m(1) turns_Cons [OF m(2) turns_Cons [OF m(3) turns_Cons [OF m4 turns_Cons [OF a turns_Cons [OF b turns_Nil]]]]]])
qed

section \<open>A start keeps the overlay init up to date\<close>

abbreviation "mnt_name x \<equiv> x @ ''.mnt''"

lemma mnt_names:
  assumes "CHR ''/'' \<notin> set x" and "ordinary x" and "dir \<noteq> []"
  shows "ordinary (mnt_name x)" and "parts_of h ((dir @ CHR ''/'' # x) @ ''.mnt'') = parts_of h dir @ [mnt_name x]"
    and "parts_of h (dir @ CHR ''/'' # x) = parts_of h dir @ [x]"
proof -
  have "3 \<le> length (mnt_name x)" by simp
  then have "mnt_name x \<noteq> '''' \<and> mnt_name x \<noteq> ''.'' \<and> mnt_name x \<noteq> ''..''" by fastforce
  then show o: "ordinary (mnt_name x)" by (simp add: ordinary_def)
  show "parts_of h ((dir @ CHR ''/'' # x) @ ''.mnt'') = parts_of h dir @ [mnt_name x]"
    "parts_of h (dir @ CHR ''/'' # x) = parts_of h dir @ [x]"
    using assms o by (auto intro!: parts_of_sibling simp: ordinary_def)
qed

definition mounted_at :: "string list \<Rightarrow> string list \<Rightarrow> bool \<Rightarrow> fs \<Rightarrow> (string list \<Rightarrow> fs) \<Rightarrow> bhost \<Rightarrow> bool" where
  "mounted_at d i ro f tr s \<longleftrightarrow>
     bh_mounts s = [\<lparr>mt_dir = d, mt_src = Image i, mt_ro = ro\<rparr>] \<and> bh_fs s = f \<and> bh_trees s = tr"

lemma mounted_visible: "mounted_at d i ro f tr s \<Longrightarrow> visible (s\<lparr>bh_mounts := [\<lparr>mt_dir = d, mt_src = Image i, mt_ro = b\<rparr>]\<rparr>) = visible s"
  by (rule ext) (simp add: mounted_at_def visible_def mount_over_def)

lemma mounted_in_image:
  "mounted_at d i ro f tr s \<Longrightarrow> mount_dir d f \<Longrightarrow> tree_ok dirs (look (tr i)) \<Longrightarrow>
    in_image d i dirs f tr (look (tr i)) (s\<lparr>bh_mounts := [\<lparr>mt_dir = d, mt_src = Image i, mt_ro = False\<rparr>]\<rparr>)"
  by (simp add: mounted_at_def in_image_def)

lemma host_mounted:
  assumes "quiet env" and "host_at f tr s" and "site ds f" and "ordinary x" and "parts_of env img = ds @ [x]"
    and "ordinary y" and "parts_of env target = ds @ [y]" and "f (ds @ [x]) = Some (Disk n True)" and "f (ds @ [y]) = Some Dir"
  shows "\<exists>u. mount_ext4 env img target ro s = (Inr (), u) \<and> mounted_at (ds @ [y]) (ds @ [x]) ro f tr u"
proof -
  note r = host_at_reach [OF assms(2-5), of True] host_at_reach [OF assms(2,3,6,7), of True]
  have "do_mount env img target ro s = Some (s\<lparr>bh_mounts := \<lparr>mt_dir = ds @ [y], mt_src = Image (ds @ [x]), mt_ro = ro\<rparr> # bh_mounts s\<rparr>)"
    using r assms(8,9) by (simp add: do_mount_def is_image_def)
  then show ?thesis
    using b_cmd_quiet [OF assms(1)] assms(2) by (simp add: mount_ext4_def mounted_at_def host_at_def bh_step_def)
qed

lemma mounted_reach:
  assumes "mounted_at d i ro f tr s" and "mount_dir d f" and "parts_of env p = d"
  shows "reach_path env True p s = Some d" and "look (visible s) d = Some Dir"
proof -
  have v: "visible s q = Some Dir" if "prefix q d" "q \<noteq> []" for q
    using that assms(1,2) by (auto simp: mounted_at_def visible_def mount_over_def mount_dir_def)
  then have "walk (visible s) max_links True [] d = Some d"
    using assms(2) walk_dirs [of d "visible s" "[]" max_links True "[]"] by (auto simp: mount_dir_def)
  then show "reach_path env True p s = Some d" using assms(3) by (simp add: reach_path_def)
  show "look (visible s) d = Some Dir" using v [of d] by (simp add: look_def)
qed

lemma mounted_umount:
  assumes "quiet env" and "mounted_at d i ro f tr s" and "mount_dir d f" and "parts_of env target = d"
  shows "\<exists>u. lazy_umount env target s = (Inr (), u) \<and> host_at f tr u"
proof -
  have "do_umount env target s = Some (s\<lparr>bh_mounts := []\<rparr>)"
    using mounted_reach(1) [OF assms(2-4)] assms(2) by (simp add: do_umount_def mounted_at_def)
  then show ?thesis
    using b_sys_quiet [OF assms(1)] assms(2) by (auto simp: lazy_umount_def mounted_at_def host_at_def bh_step_def)
qed

definition script_of :: "fs \<Rightarrow> string" where
  "script_of t = (case t (init_place t) of Some (Reg c _) \<Rightarrow> c | _ \<Rightarrow> [])"

lemma init_script_read:
  assumes "quiet env" and "mounted_at d i ro f tr s" and "mount_dir d f" and "tree_ok dirs (look (tr i))"
    and "init_fits dirs (look (tr i))" and "parts_of env p = d @ init_at"
  shows "read_or_empty env p s = (Inr (script_of (look (tr i))), bh_step s)"
proof -
  let ?t = "look (tr i)" and ?s = "s\<lparr>bh_mounts := [\<lparr>mt_dir = d, mt_src = Image i, mt_ro = False\<rparr>]\<rparr>"
  have "in_image d i dirs f tr ?t ?s" by (rule mounted_in_image [OF assms(2-4)])
  then have "reach_path env True p ?s = Some (d @ init_place ?t) \<and> look (visible ?s) (d @ init_place ?t) = ?t (init_place ?t)"
    using init_reach [OF _ assms(6)] assms(5) with_dirs_init(4) [OF assms(5)] by (simp add: init_fits_def)
  then show ?thesis
    using assms(1) mounted_visible [OF assms(2)]
    by (auto simp: read_or_empty_def read_at_def reach_path_def script_of_def quiet_def split: option.split inode.split)
qed

definition up_to_date_tree :: "fs \<Rightarrow> fs" where
  "up_to_date_tree t = (if script_of t = overlay_init_script then t else init_tree t)"

lemma init_tree_fits:
  assumes "init_fits dirs t"
  shows "init_place (init_tree t) = init_place t" and "init_fits dirs (init_tree t)" and "script_of (init_tree t) = overlay_init_script"
proof -
  note w = with_dirs_init [OF assms]
  have "init_place t \<noteq> [''sbin'']" by (auto simp: init_place_def)
  then show p: "init_place (init_tree t) = init_place t" using w(3) by (simp add: init_tree_def init_place_def)
  have "butlast (init_place t) \<noteq> init_place t"
    using w(4) by (metis file_path_def append_butlast_last_id not_Cons_self2 self_append_conv)
  then show "init_fits dirs (init_tree t)"
    using assms w(2) unfolding init_fits_def p by (simp add: init_tree_def)
  show "script_of (init_tree t) = overlay_init_script" unfolding script_of_def p by (simp add: init_tree_def)
qed

lemma up_to_date_script: "init_fits dirs t \<Longrightarrow> script_of (up_to_date_tree t) = overlay_init_script"
  by (simp add: up_to_date_tree_def init_tree_fits(3))

lemma up_to_date_fits: "init_fits dirs t \<Longrightarrow> init_fits dirs (up_to_date_tree t)"
  by (simp add: up_to_date_tree_def init_tree_fits(2))

text \<open>The place of the golden image: nothing is in the way of its mount point.\<close>

definition golden_place :: "fs \<Rightarrow> string list \<Rightarrow> string \<Rightarrow> bool" where
  "golden_place f ds x \<longleftrightarrow> site ds f \<and> ordinary x \<and> CHR ''/'' \<notin> set x \<and> (\<exists>n. f (ds @ [x]) = Some (Disk n True)) \<and>
     f (ds @ [mnt_name x]) = None \<and> (\<forall>c. f (ds @ [mnt_name x, c]) = None)"

lemma overlay_init_once:
  assumes env: "quiet env" and s: "host_at f tr s" and dir: "dir \<noteq> []" "parts_of env dir = ds" and place: "golden_place f ds x"
    and tree: "tree_ok dirs (look (tr (ds @ [x])))" and fits: "init_fits dirs (look (tr (ds @ [x])))"
  shows "\<exists>u tr'. ensure_overlay_init_installed env (dir @ CHR ''/'' # x) s = (Inr (), u) \<and> host_at f tr' u \<and>
    (\<forall>j. j \<noteq> ds @ [x] \<longrightarrow> tr' j = tr j) \<and> look (tr' (ds @ [x])) = up_to_date_tree (look (tr (ds @ [x]))) \<and>
    (script_of (look (tr (ds @ [x]))) = overlay_init_script \<longrightarrow> tr' = tr) \<and> tree_ok dirs (look (tr' (ds @ [x])))"
proof -
  let ?out = "dir @ CHR ''/'' # x" and ?o = "ds @ [x]" and ?m = "ds @ [mnt_name x]" and ?t = "look (tr (ds @ [x]))"
  let ?mnt = "?out @ ''.mnt''" and ?f = "f(ds @ [mnt_name x] \<mapsto> Dir)"
  have site: "site ds f" and x: "ordinary x" "CHR ''/'' \<notin> set x" and free: "f ?m = None" "\<And>c. f (ds @ [mnt_name x, c]) = None"
    using place by (auto simp: golden_place_def)
  obtain n where n: "f ?o = Some (Disk n True)" using place by (auto simp: golden_place_def)
  note nm = mnt_names(1) [OF x(2,1) dir(1)] mnt_names(2,3) [OF x(2,1) dir(1), of env, unfolded dir(2)]
  have disk: "?f ?o = Some (Disk n True)" using n by simp
  note site1 = site_upd [OF site, of "mnt_name x" "Some Dir"]
  have md: "mount_dir ?m ?f" by (rule mount_dir_site [OF site1 nm(1) fun_upd_same])
  have again: "?f(?m := None) = f" using free(1) by auto
  have kids: "?f (ds @ [mnt_name x, c]) = None" for c using free(2) by simp
  obtain a where a: "mkdirs_path env ?mnt s = (Inr (), a)" "host_at ?f tr a"
    using host_mkdirs [OF env s site nm(1,2)] free(1) by blast
  obtain b where b: "mount_ext4 env ?out ?mnt True a = (Inr (), b)" "mounted_at ?m ?o True ?f tr b"
    using host_mounted [OF env a(2) site1 x(1) nm(3,1,2) disk fun_upd_same] by blast
  have p: "parts_of env (?mnt @ ''/sbin/overlay-init'') = ?m @ init_at"
    using parts_of_below [of ?mnt env "''sbin/overlay-init''"] nm(2) by (simp add: path_components_def)
  have r: "read_or_empty env (?mnt @ ''/sbin/overlay-init'') b = (Inr (script_of ?t), bh_step b)"
    by (rule init_script_read [OF env b(2) md tree fits p])
  have b': "mounted_at ?m ?o True ?f tr (bh_step b)" using b(2) by (simp add: mounted_at_def bh_step_def)
  obtain g where g: "lazy_umount env ?mnt (bh_step b) = (Inr (), g)" "host_at ?f tr g"
    using mounted_umount [OF env b' md nm(2)] by blast
  show ?thesis
  proof (cases "script_of ?t = overlay_init_script")
    case True
    obtain q where q: "rmdir_path env ?mnt g = (Inr (), q)" "host_at (?f(?m := None)) tr q"
      using host_rmdir [OF env g(2) site1 nm(1,2) fun_upd_same kids] by blast
    have "ensure_overlay_init_installed env ?out s = (Inr (), q)"
      using True a(1) b(1) r g(1) q(1) by (simp add: ensure_overlay_init_installed_def Let_def op_seq_apply op_bind_apply)
    then show ?thesis using q(2) True tree unfolding again by (auto simp: up_to_date_tree_def)
  next
    case False
    obtain h where h: "mount_ext4 env ?out ?mnt False g = (Inr (), h)" "mounted_at ?m ?o False ?f tr h"
      using host_mounted [OF env g(2) site1 x(1) nm(3,1,2) disk fun_upd_same] by blast
    have hi: "in_image ?m ?o dirs ?f tr ?t h"
      using h(2) md tree by (simp add: mounted_at_def in_image_def)
    obtain k where k: "install_overlay_init env ?mnt h = (Inr (), k)" "in_image ?m ?o dirs ?f tr (init_tree ?t) k"
      using install_overlay_init_turns [OF env fits nm(2), of ?o ?f tr] hi unfolding turns_def by fastforce
    obtain w tr' where w: "lazy_umount env ?mnt k = (Inr (), w)" "host_at ?f tr' w" "\<forall>j. j \<noteq> ?o \<longrightarrow> tr' j = tr j" "look (tr' ?o) = init_tree ?t"
      using image_umount [OF env k(2) nm(2)] unfolding lazy_umount_def by blast
    obtain q where q: "rmdir_path env ?mnt w = (Inr (), q)" "host_at (?f(?m := None)) tr' q"
      using host_rmdir [OF env w(2) site1 nm(1,2) fun_upd_same kids] by blast
    have ok: "tree_ok dirs (init_tree ?t)" using k(2) by (simp add: in_image_def)
    have "ensure_overlay_init_installed env ?out s = (Inr (), q)"
      using False a(1) b(1) r g(1) h(1) k(1) w(1) q(1)
      by (simp add: ensure_overlay_init_installed_def Let_def op_seq_apply op_bind_apply op_lift_apply)
    then show ?thesis using q(2) w(3,4) False ok unfolding again by (auto simp: up_to_date_tree_def)
  qed
qed

text \<open>C17: After a start the golden image has the overlay init of this version of the program: on a host whose calls
  work, the mounts, the other images and the host's own files are as before, the script in the image,
  in \<open>/sbin\<close> or where its link leads, is the expected one and executable when it was written, and a
  second start changes nothing in the image.\<close>

theorem overlay_init_up_to_date:
  assumes "quiet env" and "host_at f tr s" and "dir \<noteq> []" and "parts_of env dir = ds" and "golden_place f ds x"
    and "tree_ok dirs (look (tr (ds @ [x])))" and "init_fits dirs (look (tr (ds @ [x])))"
  shows "\<exists>u tr'. ensure_overlay_init_installed env (dir @ CHR ''/'' # x) s = (Inr (), u) \<and> host_at f tr' u \<and>
    (\<forall>j. j \<noteq> ds @ [x] \<longrightarrow> tr' j = tr j) \<and> look (tr' (ds @ [x])) = up_to_date_tree (look (tr (ds @ [x]))) \<and>
    script_of (look (tr' (ds @ [x]))) = overlay_init_script \<and>
    (\<exists>v. ensure_overlay_init_installed env (dir @ CHR ''/'' # x) u = (Inr (), v) \<and> host_at f tr' v)"
proof -
  obtain u tr' where u: "ensure_overlay_init_installed env (dir @ CHR ''/'' # x) s = (Inr (), u)" "host_at f tr' u"
    "\<forall>j. j \<noteq> ds @ [x] \<longrightarrow> tr' j = tr j" "look (tr' (ds @ [x])) = up_to_date_tree (look (tr (ds @ [x])))" "tree_ok dirs (look (tr' (ds @ [x])))"
    using overlay_init_once [OF assms] by blast
  have fits: "init_fits dirs (look (tr' (ds @ [x])))" and script: "script_of (look (tr' (ds @ [x]))) = overlay_init_script"
    unfolding u(4) using up_to_date_fits [OF assms(7)] up_to_date_script [OF assms(7)] by blast+
  obtain v tr'' where v: "ensure_overlay_init_installed env (dir @ CHR ''/'' # x) u = (Inr (), v)" "host_at f tr'' v" "tr'' = tr'"
    using overlay_init_once [OF assms(1) u(2) assms(3-5) u(5) fits] script by blast
  show ?thesis using u v script by blast
qed

text \<open>An image of Ubuntu's kind, with a link from \<open>/sbin\<close>.\<close>

definition demo_linked_tree :: fs where
  "demo_linked_tree = map_of [([''usr''], Dir), ([''usr'', ''sbin''], Dir), ([''sbin''], Lnk ''usr/sbin'')]"

definition demo_golden_fs :: fs where
  "demo_golden_fs = map_of [([''opt''], Dir), ([''opt'', ''r.ext4''], Disk 4096 True)]"

definition demo_golden_host :: bhost where
  "demo_golden_host = \<lparr>bh_fs = demo_golden_fs, bh_trees = (\<lambda>_. demo_linked_tree), bh_mounts = [], bh_mtime = (\<lambda>_. 0), bh_tick = 0\<rparr>"

definition demo_linked_dirs :: "string list set" where
  "demo_linked_dirs = {[], [''usr''], [''usr'', ''sbin''], [''overlay''], [''overlay'', ''root''], [''overlay'', ''work''], [''mnt''], [''rom'']}"

lemma demo_linked_fits: "tree_ok demo_linked_dirs (look demo_linked_tree)" "init_fits demo_linked_dirs (look demo_linked_tree)"
proof -
  have p: "init_place (look demo_linked_tree) = [''usr'', ''sbin'', ''overlay-init'']"
    by (simp add: init_place_def look_def demo_linked_tree_def)
  show "tree_ok demo_linked_dirs (look demo_linked_tree)"
    by (auto simp: tree_ok_def look_def demo_linked_tree_def demo_linked_dirs_def strict_prefix_def prefix_Cons split: if_splits)
  show "init_fits demo_linked_dirs (look demo_linked_tree)"
    unfolding init_fits_def p
    by (auto simp: look_def demo_linked_tree_def demo_linked_dirs_def init_dirs_def strict_prefix_def prefix_Cons)
qed

lemma overlay_init_up_to_date_witness:
  "\<exists>u tr. ensure_overlay_init_installed (quiet_env_at []) ''/opt/r.ext4'' demo_golden_host = (Inr (), u) \<and> host_at demo_golden_fs tr u \<and>
     script_of (look (tr [''opt'', ''r.ext4''])) = overlay_init_script"
proof -
  have "host_at demo_golden_fs (\<lambda>_. demo_linked_tree) demo_golden_host" by (simp add: host_at_def demo_golden_host_def)
  moreover have "parts_of (quiet_env_at []) ''/opt'' = [''opt'']" by code_simp
  moreover have "golden_place demo_golden_fs [''opt''] ''r.ext4''"
    by (simp add: golden_place_def site_def ordinary_def demo_golden_fs_def prefix_Cons)
  moreover have "quiet (quiet_env_at [])" by (simp add: quiet_def quiet_env_at_def)
  ultimately have "\<exists>u tr'. ensure_overlay_init_installed (quiet_env_at []) (''/opt'' @ CHR ''/'' # ''r.ext4'') demo_golden_host = (Inr (), u) \<and>
      host_at demo_golden_fs tr' u \<and> (\<forall>j. j \<noteq> [''opt''] @ [''r.ext4''] \<longrightarrow> tr' j = demo_linked_tree) \<and>
      look (tr' ([''opt''] @ [''r.ext4''])) = up_to_date_tree (look demo_linked_tree) \<and>
      script_of (look (tr' ([''opt''] @ [''r.ext4'']))) = overlay_init_script \<and>
      (\<exists>v. ensure_overlay_init_installed (quiet_env_at []) (''/opt'' @ CHR ''/'' # ''r.ext4'') u = (Inr (), v) \<and> host_at demo_golden_fs tr' v)"
    using demo_linked_fits by (intro overlay_init_up_to_date [where dirs = demo_linked_dirs]) simp_all
  then show ?thesis by (simp del: Prelude.op_simps) blast
qed

section \<open>The squashfs\<close>

lemma sq_step [simp]:
  "bh_mounts (bh_step s) = bh_mounts s" "bh_fs (bh_step s) = bh_fs s" "bh_trees (bh_step s) = bh_trees s"
  "bh_mtime (bh_step s) = bh_mtime s" "bh_tick (bh_step s) = Suc (bh_tick s)"
  by (simp_all add: bh_step_def)

abbreviation "sq_mount_name x \<equiv> x @ ''-squashfs-mount''"

lemma sq_names:
  assumes "CHR ''/'' \<notin> set x" and "ordinary x" and "dir \<noteq> []"
  shows "ordinary (sq_mount_name x)" and "parts_of h ((dir @ CHR ''/'' # x) @ ''-squashfs-mount'') = parts_of h dir @ [sq_mount_name x]"
    and "parts_of h (dir @ CHR ''/'' # x) = parts_of h dir @ [x]"
proof -
  have "3 \<le> length (sq_mount_name x)" by simp
  then have "sq_mount_name x \<noteq> '''' \<and> sq_mount_name x \<noteq> ''.'' \<and> sq_mount_name x \<noteq> ''..''" by fastforce
  then show o: "ordinary (sq_mount_name x)" by (simp add: ordinary_def)
  show "parts_of h ((dir @ CHR ''/'' # x) @ ''-squashfs-mount'') = parts_of h dir @ [sq_mount_name x]"
    "parts_of h (dir @ CHR ''/'' # x) = parts_of h dir @ [x]"
    using assms o by (auto intro!: parts_of_sibling simp: ordinary_def)
qed

lemma mkdir_new:
  assumes "\<forall>k. be_ok env k" and "host_at f tr s" and "site ds f" and "ordinary x" and "parts_of env p = ds @ [x]" and "f (ds @ [x]) = None"
  shows "mkdirs_path env p s = (Inr (), bh_step (s\<lparr>bh_fs := f(ds @ [x] \<mapsto> Dir), bh_mtime := (bh_mtime s)(ds @ [x] := bh_tick s)\<rparr>))"
proof -
  have skip: "do_mkdirs [] (ds @ [x]) s = do_mkdirs ([] @ ds) [x] s"
    using assms(3) host_at_visible [OF assms(2)] by (intro do_mkdirs_skip) (auto simp: site_def)
  have "walk (visible s) max_links True [] (ds @ [x]) = Some (ds @ [x])" "look (visible s) (ds @ [x]) = None"
    using host_at_reach [OF assms(2-5), of True] assms(5,6) by (simp_all add: reach_path_def)
  then have "do_mkdirs [] (parts_of env p) s =
      Some (s\<lparr>bh_fs := f(ds @ [x] \<mapsto> Dir), bh_mtime := (bh_mtime s)(ds @ [x] := bh_tick s)\<rparr>)"
    using skip assms(2,5) by (simp add: set_node_def mount_over_def host_at_def)
  then show ?thesis using assms(1) by (simp add: mkdirs_path_def b_sys_def)
qed

text \<open>A conversion in which the tool ends one way or the other.\<close>

definition tool_ends :: "build_env \<Rightarrow> nat \<Rightarrow> cmd_outcome \<Rightarrow> bool" where
  "tool_ends env k r \<longleftrightarrow> (\<forall>j. be_ok env j) \<and> (\<forall>j. j \<noteq> k \<longrightarrow> be_out env j = Runs) \<and> be_out env k = r \<and> r \<noteq> NotSpawned"

definition squash_place :: "fs \<Rightarrow> string list \<Rightarrow> string \<Rightarrow> string \<Rightarrow> bool" where
  "squash_place f ds x z \<longleftrightarrow> site ds f \<and> ordinary x \<and> CHR ''/'' \<notin> set x \<and> ordinary z \<and> CHR ''/'' \<notin> set z \<and> x \<noteq> z \<and>
     z \<noteq> sq_mount_name x \<and> (\<exists>n. f (ds @ [x]) = Some (Disk n True)) \<and>
     (f (ds @ [z]) = None \<or> (\<exists>n b. f (ds @ [z]) = Some (Disk n b))) \<and>
     f (ds @ [sq_mount_name x]) = None \<and> (\<forall>c. f (ds @ [sq_mount_name x, c]) = None)"

lemma time_there:
  assumes "host_at f tr s" and "site ds f" and "ordinary x" and "parts_of env p = ds @ [x]" and "f (ds @ [x]) = Some (Disk n b)"
  shows "mtime_at env p s = Some (bh_mtime s (ds @ [x]))" and "file_exists env p s"
  using host_at_reach [OF assms(1-4), of True] assms(5) by (simp_all add: mtime_at_def file_exists_def path_exists_def node_at_def reach_path_def)

lemma convert_run:
  assumes env: "tool_ends env (bh_tick s + 4) r" and s: "host_at f tr s" and dir: "dir \<noteq> []" "parts_of env dir = ds"
    and place: "squash_place f ds x z" and sq: "squashfs_file (dir @ CHR ''/'' # x) = dir @ CHR ''/'' # z"
    and old: "\<not> up_to_date env (dir @ CHR ''/'' # x) s" and time: "bh_mtime s (ds @ [x]) \<le> bh_tick s"
  shows "\<exists>u. convert_to_squashfs env (dir @ CHR ''/'' # x) s = (if r = Runs then Inr () else Inl (CmdFailed ''mksquashfs''), u) \<and>
    host_at (f(ds @ [z] \<mapsto> Disk 0 (r = Runs))) (if r = Runs then tr(ds @ [z] := look (tr (ds @ [x]))) else tr) u \<and>
    up_to_date env (dir @ CHR ''/'' # x) u"
proof -
  let ?out = "dir @ CHR ''/'' # x" and ?o = "ds @ [x]" and ?z = "ds @ [z]" and ?m = "ds @ [sq_mount_name x]"
  define mnt where "mnt = ?out @ ''-squashfs-mount''"
  let ?f = "f(ds @ [sq_mount_name x] \<mapsto> Dir)" and ?sq = "dir @ CHR ''/'' # z"
  have p: "site ds f" "ordinary x" "CHR ''/'' \<notin> set x" "ordinary z" "CHR ''/'' \<notin> set z" "x \<noteq> z" "z \<noteq> sq_mount_name x"
    "f ?m = None" "\<And>c. f (ds @ [sq_mount_name x, c]) = None" "f ?z = None \<or> (\<exists>n b. f ?z = Some (Disk n b))"
    using place by (auto simp: squash_place_def)
  obtain n where n: "f ?o = Some (Disk n True)" using place by (auto simp: squash_place_def)
  have ok: "\<forall>j. be_ok env j" and runs: "\<And>j. j \<noteq> bh_tick s + 4 \<Longrightarrow> be_out env j = Runs" and out: "be_out env (bh_tick s + 4) = r" "r \<noteq> NotSpawned"
    using env by (auto simp: tool_ends_def)
  note nx = sq_names(1) [OF p(3,2) dir(1)] sq_names(2,3) [OF p(3,2) dir(1), of env, unfolded dir(2), folded mnt_def]
  note nz = sq_names(3) [OF p(5,4) dir(1), of env, unfolded dir(2)]
  let ?s1 = "bh_step (bh_step s)"
  define a where "a = bh_step (?s1\<lparr>bh_fs := ?f, bh_mtime := (bh_mtime s)(?m := bh_tick s + 2)\<rparr>)"
  have s1: "host_at f tr ?s1" using s by simp
  have a: "mkdirs_path env mnt ?s1 = (Inr (), a)"
    using mkdir_new [OF ok s1 p(1) nx(1,2) p(8)] by (simp add: a_def)
  have ha: "host_at ?f tr a" and at: "bh_tick a = bh_tick s + 3" "bh_mtime a = (bh_mtime s)(?m := bh_tick s + 2)"
    using s by (simp_all add: host_at_def a_def)
  note site1 = site_upd [OF p(1), of "sq_mount_name x" "Some Dir"]
  have md: "mount_dir ?m ?f" by (rule mount_dir_site [OF site1 nx(1) fun_upd_same])
  have oo: "?f ?o = Some (Disk n True)" using n by simp
  let ?img = "\<lparr>mt_dir = ?m, mt_src = Image ?o, mt_ro = True\<rparr>"
  define b where "b = bh_step (a\<lparr>bh_mounts := [?img]\<rparr>)"
  have b: "mount_ext4 env ?out mnt True a = (Inr (), b)"
  proof -
    note q = host_at_reach [OF ha site1 p(2) nx(3), of True] host_at_reach [OF ha site1 nx(1,2), of True]
    have "do_mount env ?out mnt True a = Some (a\<lparr>bh_mounts := [?img]\<rparr>)"
      using q oo ha by (simp add: do_mount_def is_image_def host_at_def)
    then show ?thesis using runs [of "bh_tick s + 3"] at(1)
      by (simp add: mount_ext4_def b_must_def b_cmd_def op_bind_apply op_ret_def b_def)
  qed
  have mb: "mounted_at ?m ?o True ?f tr b" using ha by (simp add: mounted_at_def host_at_def b_def)
  have vis: "visible b q = (if prefix ?m q then (if q = ?m then Some Dir else tr ?o (drop (length ?m) q)) else ?f q)" for q
    using mb by (auto simp: visible_def mount_over_def mounted_at_def)
  have bel: "below ?m (visible b) = look (tr ?o)"
    by (rule ext) (auto simp: below_def vis look_def)
  have nz': "\<not> prefix ?m q" if "prefix q ?z" for q
  proof
    assume "prefix ?m q"
    then have "prefix ?m ?z" using that by (rule prefix_order.trans)
    then show False using p(7) by simp
  qed
  have vz: "visible b q = ?f q" if "prefix q ?z" for q using nz' [OF that] by (simp add: vis)
  have fz: "?f ?z = f ?z" using p(7) by simp
  have rz: "reach_path env True ?sq b = Some ?z" "look (visible b) ?z = f ?z"
  proof -
    have "walk (visible b) max_links True [] ?z =
        (if \<forall>q. strict_prefix q ?z \<and> q \<noteq> [] \<longrightarrow> visible b ([] @ q) = Some Dir then Some ([] @ ?z) else None)"
      using p(1,4,10) vz fz site1 by (intro walk_ordinary) (auto simp: site_def strict_prefix_def)
    moreover have "visible b q = Some Dir" if "strict_prefix q ?z" "q \<noteq> []" for q
      using that vz site1 by (auto simp: site_def strict_prefix_def)
    ultimately show "reach_path env True ?sq b = Some ?z" using nz by (simp add: reach_path_def)
    show "look (visible b) ?z = f ?z" using vz [of ?z] fz by (simp add: look_def)
  qed
  note rm = mounted_reach [OF mb md nx(2)]
  have "mount_over b ?z = None" using nz' [of ?z] mb by (simp add: mount_over_def mounted_at_def)
  then have set: "set_node ?z y b = Some (b\<lparr>bh_fs := (bh_fs b)(?z := y), bh_mtime := (bh_mtime b)(?z := bh_tick b)\<rparr>)" for y
    by (simp add: set_node_def)
  define w where "w = bh_step (b\<lparr>bh_fs := ?f(?z \<mapsto> Disk 0 (r = Runs)), bh_mtime := (bh_mtime b)(?z := bh_tick s + 4),
      bh_trees := if r = Runs then tr(?z := look (tr ?o)) else tr\<rparr>)"
  have tick: "bh_tick b = bh_tick s + 4" using at by (simp add: b_def)
  have fb: "bh_fs b = ?f" "bh_trees b = tr" using mb by (simp_all add: mounted_at_def)
  have "f ?z \<noteq> Some Dir" using p(10) by auto
  then have mk: "mksquashfs env mnt ?sq b = (Inr (r = Runs), w)"
    using out rm rz bel fb by (cases r) (simp_all add: mksquashfs_def tick set w_def comp_def)
  let ?g = "f(?z \<mapsto> Disk 0 (r = Runs))" and ?tr = "if r = Runs then tr(?z := look (tr ?o)) else tr"
  have gf: "?f(?z \<mapsto> Disk 0 (r = Runs)) = ?g(?m \<mapsto> Dir)" using p(7) by (auto intro: fun_upd_twist)
  have mw: "mounted_at ?m ?o True (?g(?m \<mapsto> Dir)) ?tr w"
    using gf mb by (simp add: mounted_at_def w_def)
  have siteg: "site ds (?g(?m \<mapsto> Dir))" using site_upd [OF site_upd [OF p(1)]] by simp
  have mdg: "mount_dir ?m (?g(?m \<mapsto> Dir))" by (rule mount_dir_site [OF siteg nx(1) fun_upd_same])
  have um: "do_umount env mnt w = Some (w\<lparr>bh_mounts := []\<rparr>)"
    using mounted_reach(1) [OF mw mdg nx(2)] mw by (simp add: do_umount_def mounted_at_def)
  define c where "c = bh_step (w\<lparr>bh_mounts := []\<rparr>)"
  have wt: "bh_tick w = bh_tick s + 5" using tick by (simp add: w_def)
  have umc: "b_ignore (b_cmd env ''umount'' (do_umount env mnt)) w = (Inr (), c)"
    using um runs [of "bh_tick s + 5"] wt by (simp add: b_ignore_def b_cmd_def c_def)
  have hc: "host_at (?g(?m \<mapsto> Dir)) ?tr c" using mw by (simp add: host_at_def mounted_at_def c_def)
  define e where "e = bh_step (c\<lparr>bh_fs := (bh_fs c)(?m := None), bh_mtime := (bh_mtime c)(?m := bh_tick c)\<rparr>)"
  have gm: "?g ?m = None" using p(7,8) by auto
  have rmd: "rmdir_path env mnt c = (Inr (), e)"
  proof -
    note q = host_at_reach [OF hc siteg nx(1,2), of False]
    have "\<And>k. visible c (ds @ [sq_mount_name x, k]) = None" using host_at_visible [OF hc] p(9) by simp
    moreover have "set_node ?m None c = Some (c\<lparr>bh_fs := (bh_fs c)(?m := None), bh_mtime := (bh_mtime c)(?m := bh_tick c)\<rparr>)"
      using hc by (simp add: set_node_def mount_over_def host_at_def)
    ultimately have "do_rmdir env mnt c = Some (c\<lparr>bh_fs := (bh_fs c)(?m := None), bh_mtime := (bh_mtime c)(?m := bh_tick c)\<rparr>)"
      using q hc by (simp add: do_rmdir_def host_at_def)
    then show ?thesis using ok by (simp add: rmdir_path_def b_try_def e_def)
  qed
  have "(?g(?m \<mapsto> Dir))(?m := None) = ?g" by (rule ext) (use gm in auto)
  then have he: "host_at ?g ?tr e" using hc by (simp add: host_at_def e_def)
  have steps: "host_at ?g ?tr (bh_step (bh_step e))" using he by simp
  have siteg': "site ds ?g" using site_upd [OF p(1)] by simp
  have go: "?g ?o = Some (Disk n True)" and gz: "?g ?z = Some (Disk 0 (r = Runs))" using n p(6) by simp_all
  have times: "bh_mtime e ?z = bh_tick s + 4" "bh_mtime e ?o = bh_mtime s ?o" using p(6,7) at by (simp_all add: e_def c_def w_def b_def)
  have utd: "up_to_date env ?out v" if "host_at ?g ?tr v" "bh_mtime v = bh_mtime e" for v
    using time_there(1) [OF that(1) siteg' p(2) nx(3) go] time_there(1) [OF that(1) siteg' p(4) nz gz] time times that(2) sq
    by (simp add: up_to_date_def)
  show ?thesis
  proof (cases "r = Runs")
    case True
    have ex: "file_exists env ?sq e" "file_exists env ?out (bh_step e)"
      using time_there(2) [OF he siteg' p(4) nz gz] time_there(2) [OF host_at_step [THEN iffD2, OF he] siteg' p(2) nx(3) go] by blast+
    have "convert_to_squashfs env ?out s = (Inr (), bh_step (bh_step e))"
      unfolding convert_to_squashfs_def Let_def sq mnt_def [symmetric]
      using old ok runs [of "bh_tick s + 1"] True ex
      by (simp add: op_bind_apply which_mksquashfs_def op_seq_apply a b mk umc rmd b_must_def op_lift_apply op_ret_def b_sys_def del: fun_upd_apply)
    then show ?thesis using True steps utd [OF steps] by auto
  next
    case False
    have "convert_to_squashfs env ?out s = (Inl (CmdFailed ''mksquashfs''), e)"
      unfolding convert_to_squashfs_def Let_def sq mnt_def [symmetric]
      using old ok runs [of "bh_tick s + 1"] False
      by (simp add: op_bind_apply which_mksquashfs_def op_seq_apply a b mk umc rmd b_must_def op_lift_apply op_ret_def op_fail_def del: fun_upd_apply)
    then show ?thesis using False he utd [OF he] by auto
  qed
qed

text \<open>C19: The squashfs that the VMs share is the golden image: after a conversion on a host whose calls work the file
  beside the image holds exactly the image's tree, nothing else has changed and nothing stays mounted,
  and the next start finds it up to date.\<close>

theorem squashfs_is_golden_tree:
  assumes "quiet env" and "host_at f tr s" and "dir \<noteq> []" and "parts_of env dir = ds" and "squash_place f ds x z"
    and "squashfs_file (dir @ CHR ''/'' # x) = dir @ CHR ''/'' # z" and "\<not> up_to_date env (dir @ CHR ''/'' # x) s"
    and "bh_mtime s (ds @ [x]) \<le> bh_tick s"
  shows "\<exists>u. convert_to_squashfs env (dir @ CHR ''/'' # x) s = (Inr (), u) \<and>
    host_at (f(ds @ [z] \<mapsto> Disk 0 True)) (tr(ds @ [z] := look (tr (ds @ [x])))) u \<and>
    convert_to_squashfs env (dir @ CHR ''/'' # x) u = (Inr (), bh_step u)"
proof -
  have "tool_ends env (bh_tick s + 4) Runs" using assms(1) by (simp add: tool_ends_def quiet_def)
  then obtain u where u: "convert_to_squashfs env (dir @ CHR ''/'' # x) s = (Inr (), u)"
    "host_at (f(ds @ [z] \<mapsto> Disk 0 True)) (tr(ds @ [z] := look (tr (ds @ [x])))) u" "up_to_date env (dir @ CHR ''/'' # x) u"
    using convert_run [OF _ assms(2-8), of Runs] by auto
  then have "convert_to_squashfs env (dir @ CHR ''/'' # x) u = (Inr (), bh_step u)"
    using assms(1) by (simp add: convert_to_squashfs_def quiet_def)
  then show ?thesis using u by blast
qed

lemma squashfs_is_golden_tree_witness:
  "\<exists>u. convert_to_squashfs (quiet_env_at []) ''/opt/r.ext4'' demo_golden_host = (Inr (), u) \<and>
     bh_trees u [''opt'', ''r.squashfs''] [''sbin''] = Some (Lnk ''usr/sbin'')"
proof -
  have "host_at demo_golden_fs (\<lambda>_. demo_linked_tree) demo_golden_host" by (simp add: host_at_def demo_golden_host_def)
  moreover have "parts_of (quiet_env_at []) ''/opt'' = [''opt'']" by code_simp
  moreover have "squash_place demo_golden_fs [''opt''] ''r.ext4'' ''r.squashfs''"
    by (simp add: squash_place_def site_def ordinary_def demo_golden_fs_def prefix_Cons)
  moreover have sq: "squashfs_file (''/opt'' @ CHR ''/'' # ''r.ext4'') = ''/opt'' @ CHR ''/'' # ''r.squashfs''" by code_simp
  moreover have env: "quiet (quiet_env_at [])" by (simp add: quiet_def quiet_env_at_def)
  moreover have "mtime_at (quiet_env_at []) ''/opt/r.squashfs'' demo_golden_host = None"
  proof -
    have "parts_of (quiet_env_at []) ''/opt/r.squashfs'' = [''opt''] @ [''r.squashfs'']" by code_simp
    then show ?thesis
      using host_at_reach [of demo_golden_fs "\<lambda>_. demo_linked_tree" demo_golden_host "[''opt'']" "''r.squashfs''" "quiet_env_at []" "''/opt/r.squashfs''" True]
        calculation(1) by (simp add: mtime_at_def site_def ordinary_def demo_golden_fs_def prefix_Cons)
  qed
  then have "\<not> up_to_date (quiet_env_at []) (''/opt'' @ CHR ''/'' # ''r.ext4'') demo_golden_host"
    using sq by (simp add: up_to_date_def)
  moreover have "bh_mtime demo_golden_host ([''opt''] @ [''r.ext4'']) \<le> bh_tick demo_golden_host" by (simp add: demo_golden_host_def)
  ultimately obtain u where "convert_to_squashfs (quiet_env_at []) (''/opt'' @ CHR ''/'' # ''r.ext4'') demo_golden_host = (Inr (), u)"
    "host_at (demo_golden_fs([''opt''] @ [''r.squashfs''] \<mapsto> Disk 0 True))
       ((\<lambda>_. demo_linked_tree)([''opt''] @ [''r.squashfs''] := look demo_linked_tree)) u"
    using squashfs_is_golden_tree [of "quiet_env_at []" demo_golden_fs "\<lambda>_. demo_linked_tree" demo_golden_host "''/opt''" "[''opt'']" "''r.ext4''" "''r.squashfs''"]
    by blast
  then show ?thesis by (intro exI [of _ u]) (simp add: host_at_def look_def demo_linked_tree_def)
qed

text \<open>When the tool fails after it made its file, the error is reported once: the file is newer than the image, so
  the next start takes it for the finished squashfs.\<close>

lemma failed_mksquashfs_is_kept:
  assumes "tool_ends env (bh_tick s + 4) ExitsNonzero" and "host_at f tr s" and "dir \<noteq> []" and "parts_of env dir = ds"
    and "squash_place f ds x z" and "squashfs_file (dir @ CHR ''/'' # x) = dir @ CHR ''/'' # z"
    and "\<not> up_to_date env (dir @ CHR ''/'' # x) s" and "bh_mtime s (ds @ [x]) \<le> bh_tick s"
  shows "\<exists>u. convert_to_squashfs env (dir @ CHR ''/'' # x) s = (Inl (CmdFailed ''mksquashfs''), u) \<and>
    convert_to_squashfs env (dir @ CHR ''/'' # x) u = (Inr (), bh_step u) \<and>
    bh_fs u (ds @ [z]) = Some (Disk 0 False)"
proof -
  obtain u where u: "convert_to_squashfs env (dir @ CHR ''/'' # x) s = (Inl (CmdFailed ''mksquashfs''), u)"
    "host_at (f(ds @ [z] \<mapsto> Disk 0 False)) tr u" "up_to_date env (dir @ CHR ''/'' # x) u"
    using convert_run [OF assms] by auto
  then have "convert_to_squashfs env (dir @ CHR ''/'' # x) u = (Inr (), bh_step u)"
    using assms(1) by (simp add: convert_to_squashfs_def tool_ends_def)
  then show ?thesis using u by (auto simp: host_at_def)
qed

text \<open>An image whose name lacks the suffix is its own squashfs, and is always up to date: it is never converted.\<close>

lemma no_suffix_no_conversion:
  assumes "squashfs_file p = p" and "be_ok env (bh_tick s)" and "mtime_at env p s = Some k"
  shows "convert_to_squashfs env p s = (Inr (), bh_step s)"
  using assms by (simp add: convert_to_squashfs_def up_to_date_def)

end
