(* ===== verification/Setup.thy ===== *)
theory Setup
  imports Rootfs_Fill Overlay Firewall
begin

text \<open>
  The start of the daemon on its host (\<open>src/src/vm/setup.rs\<close>): the check for KVM, the networks VMs
  may reach, the kernel, the golden image from a container or a cloud image, its overlay init and its
  squashfs, the rules of the network, the directories of the run. The state is the host's files and
  mounts beside the host's network, and the configuration, of which the networks are filled in.
\<close>

section \<open>Parameters and state\<close>

text \<open>What asking for \<open>/dev/kvm\<close> gives, the second time it is asked for.\<close>

datatype kvm_meta = KvmFine | KvmDenied | KvmBroken

record assets_env =
  ae_setup :: setup_env
  ae_image :: image_env
  ae_net :: fw_env
  ae_cidrs :: "nat \<Rightarrow> string list option"
  ae_cpuinfo :: "string option"
  ae_kvm :: bool
  ae_kvm_meta :: kvm_meta

record assets =
  as_host :: bhost
  as_net :: fw_host
  as_config :: app_config

datatype asset_error = HostSide build_error | NetSide fw_error

type_synonym 'a asset_op = "(assets, asset_error, 'a) op"

definition on_host :: "'a build_op \<Rightarrow> 'a asset_op" where
  "on_host m s = (case m (as_host s) of (r, t) \<Rightarrow> (map_sum HostSide id r, s\<lparr>as_host := t\<rparr>))"

definition on_net :: "'a fw_op \<Rightarrow> 'a asset_op" where
  "on_net m s = (case m (as_net s) of (r, t) \<Rightarrow> (map_sum NetSide id r, s\<lparr>as_net := t\<rparr>))"

section \<open>The steps of a start\<close>

text \<open>A file that cannot be read counts as empty.\<close>

definition virt_count :: "string option \<Rightarrow> nat" where
  "virt_count cpuinfo =
     length (filter (\<lambda>l. contains_str l ''vmx'' \<or> contains_str l ''svm'')
       (str_lines (case cpuinfo of None \<Rightarrow> [] | Some s \<Rightarrow> s)))"

definition preflight_kvm :: "assets_env \<Rightarrow> (build_error, unit) result" where
  "preflight_kvm env =
     (if virt_count (ae_cpuinfo env) = 0 then Inl NoVirt
      else if \<not> ae_kvm env then Inl NoKvm
      else case ae_kvm_meta env of KvmFine \<Rightarrow> Inr () | KvmDenied \<Rightarrow> Inr () | KvmBroken \<Rightarrow> Inl NoKvm)"

definition default_kernel_url :: string where
  "default_kernel_url = ''https://s3.amazonaws.com/spec.ccfc.min/firecracker-ci/v1.11/x86_64/vmlinux-6.1.102''"

definition default_cloud_img_url :: string where
  "default_cloud_img_url =
     ''https://cloud-images.ubuntu.com/minimal/releases/noble/release/ubuntu-24.04-minimal-cloudimg-amd64.img''"

definition or_default :: "'a option \<Rightarrow> 'a \<Rightarrow> 'a" where
  "or_default x d = (case x of None \<Rightarrow> d | Some y \<Rightarrow> y)"

definition golden_image :: "assets_env \<Rightarrow> app_config \<Rightarrow> unit build_op" where
  "golden_image env cfg =
     (let f = firecracker cfg in
      case fc_image f of
        Some ref \<Rightarrow> pull_and_convert (ae_image env) ref (rootfs_golden f)
      | None \<Rightarrow> ensure_golden_rootfs (ae_setup env) (rootfs_golden f)
                 (or_default (cloud_img_url f) default_cloud_img_url) (network cfg))"

definition overlay_steps :: "build_env \<Rightarrow> firecracker_config \<Rightarrow> unit build_op" where
  "overlay_steps h f =
     b_when (overlay_rootfs f)
       [verify_kernel_overlay_support h (kernel_path f), convert_to_squashfs h (rootfs_golden f)]"

definition ensure_directories :: "build_env \<Rightarrow> app_config \<Rightarrow> unit build_op" where
  "ensure_directories h cfg = b_all
     (make_parent h (work_dir (runner cfg)) #
      (case jailer_path (firecracker cfg) of
         None \<Rightarrow> [] | Some _ \<Rightarrow> [make_parent h (jailer_chroot_base (firecracker cfg))]))"

definition resolve_config :: "assets_env \<Rightarrow> app_config \<Rightarrow> app_config" where
  "resolve_config env cfg = cfg\<lparr>network := resolve_allowed_networks (ae_cidrs env) (network cfg)\<rparr>"

definition ensure_vm_assets :: "assets_env \<Rightarrow> unit asset_op" where
  "ensure_vm_assets env s =
     (let h = se_host (ae_setup env); cfg = resolve_config env (as_config s); f = firecracker cfg in
      op_seq (on_host (op_lift (preflight_kvm env)))
     (op_seq (op_modify (\<lambda>s. s\<lparr>as_config := cfg\<rparr>))
     (op_seq (on_host (ensure_kernel (ae_setup env) (kernel_path f) (or_default (kernel_url f) default_kernel_url)))
     (op_seq (on_host (golden_image env cfg))
     (op_seq (on_host (ensure_overlay_init_installed h (rootfs_golden f)))
     (op_seq (on_host (overlay_steps h f))
     (op_seq (on_net (ensure_network (ae_net env) (network cfg)))
             (on_host (ensure_directories h cfg)))))))) s)"

section \<open>A start that succeeds\<close>

lemma both_Inr: "op_seq m n s = (Inr x, t) \<longleftrightarrow> (\<exists>y u. m s = (Inr y, u) \<and> n u = (Inr x, t))"
  by (auto simp: op_seq_apply split: prod.splits sum.splits)

lemma on_host_Inr: "on_host m s = (Inr x, t) \<longleftrightarrow> (\<exists>h. m (as_host s) = (Inr x, h) \<and> t = s\<lparr>as_host := h\<rparr>)"
  by (cases "fst (m (as_host s))") (auto simp: on_host_def split: prod.splits)

lemma on_net_Inr: "on_net m s = (Inr x, t) \<longleftrightarrow> (\<exists>h. m (as_net s) = (Inr x, h) \<and> t = s\<lparr>as_net := h\<rparr>)"
  by (cases "fst (m (as_net s))") (auto simp: on_net_def split: prod.splits)

text \<open>The parts of a start that succeeds, each on what the one before it left.\<close>

lemma assets_succeed:
  assumes "ensure_vm_assets env s = (Inr (), t)"
  shows "\<exists>a b c d n. preflight_kvm env = Inr () \<and>
    ensure_kernel (ae_setup env) (kernel_path (firecracker (as_config s)))
      (or_default (kernel_url (firecracker (as_config s))) default_kernel_url) (as_host s) = (Inr (), a) \<and>
    golden_image env (resolve_config env (as_config s)) a = (Inr (), b) \<and>
    ensure_overlay_init_installed (se_host (ae_setup env)) (rootfs_golden (firecracker (as_config s))) b = (Inr (), c) \<and>
    overlay_steps (se_host (ae_setup env)) (firecracker (as_config s)) c = (Inr (), d) \<and>
    ensure_network (ae_net env) (network (resolve_config env (as_config s))) (as_net s) = (Inr (), n) \<and>
    ensure_directories (se_host (ae_setup env)) (resolve_config env (as_config s)) d = (Inr (), as_host t) \<and>
    as_net t = n \<and> as_config t = resolve_config env (as_config s)"
proof -
  have f: "firecracker (resolve_config env (as_config s)) = firecracker (as_config s)" by (simp add: resolve_config_def)
  show ?thesis
    using assms unfolding ensure_vm_assets_def Let_def f
    by (auto simp: both_Inr on_host_Inr on_net_Inr op_lift_apply op_modify_def)
qed

lemma cleanup_keeps_rules: "fw_chains (snd (cleanup_taps env ns s)) = fw_chains s \<and> fw_sets (snd (cleanup_taps env ns s)) = fw_sets s"
proof (induction ns arbitrary: s)
  case Nil
  show ?case by (simp add: op_ret_def)
next
  case (Cons n ns)
  show ?case
    using Cons by (simp add: op_bind_apply run_cmd_def split: cmd_outcome.split)
qed

lemma forwarding_keeps_rules:
  "ensure_ip_forwarding env s = (r, t) \<Longrightarrow> fw_chains t = fw_chains s \<and> fw_sets t = fw_sets s"
  by (auto simp: ensure_ip_forwarding_def op_seq_apply file_op_def split: if_splits)

lemma network_nat_rules:
  assumes "ensure_network env nw s = (Inr (), t)"
  shows "\<exists>u. fw_chains u = fw_chains s \<and> fw_sets u = fw_sets s \<and> ensure_nat_rules env nw u = (Inr (), t)"
proof -
  obtain a u where a: "cleanup_stale_taps env s = (Inr (), a)" "ensure_ip_forwarding env a = (Inr (), u)" "ensure_nat_rules env nw u = (Inr (), t)"
    using assms by (auto simp: ensure_network_def both_Inr)
  have "fw_chains a = fw_chains s \<and> fw_sets a = fw_sets s"
    using cleanup_keeps_rules [of "quiet_env env" "map (\<lambda>i. ''tap-fc'' @ show_nat i) [0..<16]" s] a(1)
    by (simp add: cleanup_stale_taps_def)
  then show ?thesis using forwarding_keeps_rules [OF a(2)] a(3) by auto
qed

text \<open>The addresses that the configuration and GitHub allow.\<close>

definition allowed_ranges :: "(nat \<Rightarrow> string list option) \<Rightarrow> network_config \<Rightarrow> string set" where
  "allowed_ranges cidrs nw =
     {e \<in> set (allowed_networks nw). \<not> eq_ignore_ascii_case e ''github''} \<union>
     (\<Union>i < github_entries (allowed_networks nw). set (the (cidrs i))) \<union> (\<lambda>d. d @ ''/32'') ` set (nw_dns nw)"


section \<open>A start, for the witness\<close>

text \<open>On a host that has everything but the overlay init, with the cache service on.\<close>

definition demo_start_fs :: fs where
  "demo_start_fs = map_of [([''opt''], Dir), ([''opt'', ''r.ext4''], Disk 4096 True), ([''opt'', ''vmlinux''], Reg ''ELF'' None)]"

definition demo_start_host :: bhost where
  "demo_start_host = demo_golden_host\<lparr>bh_fs := demo_start_fs\<rparr>"

definition demo_start_config :: app_config where
  "demo_start_config = (minimal_config ''runner'')\<lparr>
     runner := default_runner_config\<lparr>work_dir := ''/opt''\<rparr>,
     firecracker := (default_firecracker_config ''/opt/vmlinux'' ''/opt/r.ext4'')\<lparr>overlay_rootfs := False\<rparr>,
     network := default_network_config\<lparr>allowed_networks := [''10.0.0.0/8'']\<rparr>,
     cache_service := default_cache_config\<lparr>cs_enabled := True\<rparr>\<rparr>"

definition demo_start_env :: assets_env where
  "demo_start_env = \<lparr>ae_setup = demo_setup_env, ae_image = demo_image_env, ae_net = demo_fw, ae_cidrs = (\<lambda>_. None),
     ae_cpuinfo = Some ''flags : vmx'', ae_kvm = True, ae_kvm_meta = KvmFine\<rparr>"

definition demo_start :: assets where
  "demo_start = \<lparr>as_host = demo_start_host, as_net = fresh_fw, as_config = demo_start_config\<rparr>"

lemma mkdirs_there:
  assumes "\<forall>k. be_ok env k" and "host_at f tr s" and "site ds f" and "parts_of env p = ds"
  shows "mkdirs_path env p s = (Inr (), bh_step s)"
proof -
  have "do_mkdirs [] (ds @ []) s = do_mkdirs ([] @ ds) [] s"
    using assms(3) host_at_visible [OF assms(2)] by (intro do_mkdirs_skip) (auto simp: site_def)
  then show ?thesis using assms(1,4) by (simp add: mkdirs_path_def b_sys_def)
qed

lemma demo_start_succeeds: "\<exists>t. ensure_vm_assets demo_start_env demo_start = (Inr (), t)"
proof -
  let ?h = "quiet_env_at []" and ?nw = "network (resolve_config demo_start_env demo_start_config)"
  have env: "quiet ?h" by (simp add: quiet_def quiet_env_at_def)
  have h: "se_host demo_setup_env = ?h" by (simp add: demo_setup_env_def)
  have host: "host_at demo_start_fs (\<lambda>_. demo_linked_tree) demo_start_host"
    by (simp add: host_at_def demo_start_host_def demo_golden_host_def)
  have site: "site [''opt''] demo_start_fs" by (simp add: site_def ordinary_def demo_start_fs_def prefix_Cons)
  have parts: "parts_of ?h ''/opt'' = [''opt'']" "parts_of ?h ''/opt/vmlinux'' = [''opt''] @ [''vmlinux'']"
    "parts_of ?h ''/opt/r.ext4'' = [''opt''] @ [''r.ext4'']" by code_simp+
  have place: "golden_place demo_start_fs [''opt''] ''r.ext4''"
    by (simp add: golden_place_def site_def ordinary_def demo_start_fs_def prefix_Cons)
  have ex: "file_exists ?h ''/opt/vmlinux'' demo_start_host" "file_exists ?h ''/opt/r.ext4'' demo_start_host"
    using host_at_exists [OF host site _ parts(2)] host_at_exists [OF host site _ parts(3)]
    by (simp_all add: ordinary_def demo_start_fs_def)
  have kvm: "preflight_kvm demo_start_env = Inr ()"
  proof -
    have "virt_count (Some ''flags : vmx'') = 1" by code_simp
    then show ?thesis by (simp add: preflight_kvm_def demo_start_env_def)
  qed
  obtain u tr where u: "ensure_overlay_init_installed ?h ''/opt/r.ext4'' demo_start_host = (Inr (), u)" "host_at demo_start_fs tr u"
    using overlay_init_once [OF env host _ parts(1) place, of demo_linked_dirs] demo_linked_fits by auto
  obtain n where n: "ensure_network demo_fw ?nw fresh_fw = (Inr (), n)"
    using network_ready [OF demo_all_run demo_iface] by blast
  have dirs: "ensure_directories ?h (resolve_config demo_start_env demo_start_config) u = (Inr (), bh_step u)"
    using mkdirs_there [OF _ u(2) site parts(1)] env
    by (simp add: ensure_directories_def make_parent_def resolve_config_def demo_start_config_def minimal_config_def default_runner_config_def
        default_firecracker_config_def op_seq_apply op_ret_def quiet_def)
  have "ensure_vm_assets demo_start_env demo_start = (Inr (), \<lparr>as_host = bh_step u, as_net = n, as_config = resolve_config demo_start_env demo_start_config\<rparr>)"
    using kvm ex u(1) n dirs
    by (simp add: ensure_vm_assets_def Let_def op_seq_apply on_host_def on_net_def op_lift_apply op_modify_def golden_image_def
        ensure_kernel_def ensure_golden_rootfs_def overlay_steps_def b_when_def op_ret_def h
        demo_start_def demo_start_env_def resolve_config_def demo_start_config_def default_firecracker_config_def)
  then show ?thesis by blast
qed


end
