(* ===== verification/Agent.thy ===== *)
theory Agent
  imports Mmds Github
begin

text \<open>
  The guest agent (\<open>src/src/agent.rs\<close>): the metadata it reads from the metadata service, the
  environment, credentials and commands it runs the GitHub runner with, and the messages it sends
  to the host. Running a command, answering an HTTP request and connecting the VSOCK are
  parameters; what the agent does is returned as a list of actions in order.
\<close>

section \<open>Metadata\<close>

record metadata =
  md_jit_config :: "string option"
  md_token :: "string option"
  md_mode :: "string option"
  md_repo_url :: "string option"
  md_runner_name :: "string option"
  md_hostname :: string
  md_shutdown :: bool
  md_ephemeral :: bool
  md_cache_url :: "string option"
  md_cache_token :: "string option"
  md_s3_endpoint :: "string option"
  md_s3_bucket :: "string option"
  md_s3_access_key :: "string option"
  md_s3_secret_key :: "string option"
  md_s3_region :: "string option"

definition default_ephemeral :: bool where
  "default_ephemeral = True"

definition de_metadata :: "json \<Rightarrow> metadata option" where
  "de_metadata j =
     obind (de_opt as_str ''runner_jit_config'' j) (\<lambda>jc.
     obind (de_opt as_str ''runner_token'' j) (\<lambda>tok.
     obind (de_opt as_str ''runner_mode'' j) (\<lambda>mode.
     obind (de_opt as_str ''repo_url'' j) (\<lambda>url.
     obind (de_opt as_str ''runner_name'' j) (\<lambda>name.
     obind (de_req as_str ''hostname'' j) (\<lambda>host.
     obind (de_default as_bool False ''shutdown_on_exit'' j) (\<lambda>sd.
     obind (de_default as_bool default_ephemeral ''ephemeral'' j) (\<lambda>eph.
     obind (de_opt as_str ''cache_url'' j) (\<lambda>cu.
     obind (de_opt as_str ''cache_token'' j) (\<lambda>ct.
     obind (de_opt as_str ''s3_endpoint'' j) (\<lambda>se.
     obind (de_opt as_str ''s3_bucket'' j) (\<lambda>sb.
     obind (de_opt as_str ''s3_access_key'' j) (\<lambda>sa.
     obind (de_opt as_str ''s3_secret_key'' j) (\<lambda>ss.
     obind (de_opt as_str ''s3_region'' j) (\<lambda>sr.
     Some \<lparr>md_jit_config = jc, md_token = tok, md_mode = mode, md_repo_url = url, md_runner_name = name,
           md_hostname = host, md_shutdown = sd, md_ephemeral = eph, md_cache_url = cu, md_cache_token = ct,
           md_s3_endpoint = se, md_s3_bucket = sb, md_s3_access_key = sa, md_s3_secret_key = ss,
           md_s3_region = sr\<rparr>)))))))))))))))"

section \<open>Messages to the host\<close>

datatype agent_message =
    Ready string | JobStarted "nat option" | LogLine string | JobCompleted int

fun message_json :: "agent_message \<Rightarrow> json" where
  "message_json (Ready ts) = json_obj [(''type'', JStr ''ready''), (''timestamp'', JStr ts)]"
| "message_json (JobStarted i) =
     json_obj [(''type'', JStr ''job_started''),
               (''job_id'', case i of None \<Rightarrow> JNull | Some n \<Rightarrow> JNum (int n))]"
| "message_json (LogLine l) = json_obj [(''type'', JStr ''log''), (''line'', JStr l)]"
| "message_json (JobCompleted c) = json_obj [(''type'', JStr ''job_completed''), (''exit_code'', JNum c)]"

section \<open>Reading the metadata\<close>

datatype agent_error = MmdsFailed | MmdsStatus nat | MmdsBadJson | RunnerExited int

text \<open>A token first, then the object; \<open>ask_token\<close> and \<open>ask\<close> are the two requests.\<close>

definition read_mmds ::
    "string option \<Rightarrow> (string \<Rightarrow> http_response option) \<Rightarrow> (agent_error, metadata) result" where
  "read_mmds ask_token ask =
     bindE (ok_or ask_token MmdsFailed) (\<lambda>t.
     bindE (ok_or (ask t) MmdsFailed) (\<lambda>r.
     bindE (ensure (is_success r) (MmdsStatus (rs_status r))) (\<lambda>_.
     ok_or (obind (rs_body r) de_metadata) MmdsBadJson)))"

text \<open>
  Attempt \<open>k\<close> of \<open>n\<close>; \<open>try_read k\<close> is what that attempt gives. The result carries the number of
  delays slept. The loop is only entered with \<open>k \<le> n\<close> (it is called with 10 attempts).
\<close>

function read_mmds_from ::
    "(nat \<Rightarrow> (agent_error, 'm) result) \<Rightarrow> nat \<Rightarrow> nat \<Rightarrow> (agent_error, 'm) result \<times> nat" where
  "read_mmds_from try_read n k =
     (case try_read k of
        Inr m \<Rightarrow> (Inr m, 0)
      | Inl e \<Rightarrow>
          if n \<le> k then (Inl e, 0)
          else (let (r, d) = read_mmds_from try_read n (Suc k) in (r, Suc d)))"
  by pat_completeness auto
termination by (relation "measure (\<lambda>(f, n, k). n - k)") auto

declare read_mmds_from.simps [simp del]

definition read_mmds_with_retry :: "(nat \<Rightarrow> (agent_error, 'm) result) \<Rightarrow> nat \<Rightarrow> (agent_error, 'm) result \<times> nat" where
  "read_mmds_with_retry try_read n = read_mmds_from try_read n 1"

section \<open>Host name\<close>

definition alnum :: "char \<Rightarrow> bool" where
  "alnum c = (let n = of_char c :: nat in
     (48 \<le> n \<and> n \<le> 57) \<or> (65 \<le> n \<and> n \<le> 90) \<or> (97 \<le> n \<and> n \<le> 122))"

definition sanitize_hostname :: "string \<Rightarrow> string" where
  "sanitize_hostname h = filter (\<lambda>c. alnum c \<or> c = CHR ''-'' \<or> c = CHR ''.'') h"

definition hosts_file :: "string \<Rightarrow> string" where
  "hosts_file h = unlines [''127.0.0.1 localhost localhost.localdomain '' @ h,
     ''::1 localhost ip6-localhost ip6-loopback '' @ h]"

section \<open>The runner's environment\<close>

definition runner_path :: string where
  "runner_path = ''/home/runner/.cargo/bin:/usr/local/sbin:/usr/local/bin:/usr/sbin:/usr/bin:/sbin:/bin''"

definition when_set :: "string option \<Rightarrow> (string \<Rightarrow> (string \<times> string) list) \<Rightarrow> (string \<times> string) list" where
  "when_set o' f = (case o' of None \<Rightarrow> [] | Some v \<Rightarrow> if v = [] then [] else f v)"

definition runner_env :: "metadata \<Rightarrow> (string \<times> string) list" where
  "runner_env m =
     [(''PATH'', runner_path), (''HOME'', ''/home/runner''), (''USER'', ''runner''), (''LOGNAME'', ''runner'')]
     @ when_set (md_cache_url m) (\<lambda>u.
         [(''ACTIONS_CACHE_URL'', u), (''ACTIONS_RESULTS_URL'', u), (''ACTIONS_CACHE_SERVICE_V2'', ''true'')])
     @ when_set (md_cache_token m) (\<lambda>t. [(''ACTIONS_RUNTIME_TOKEN'', t)])
     @ when_set (md_s3_endpoint m) (\<lambda>e.
         [(''RUNS_ON_S3_BUCKET_ENDPOINT'', e), (''RUNS_ON_S3_FORCE_PATH_STYLE'', ''true'')])
     @ when_set (md_s3_bucket m) (\<lambda>b. [(''RUNS_ON_S3_BUCKET_CACHE'', b)])
     @ when_set (md_s3_access_key m) (\<lambda>k. [(''AWS_ACCESS_KEY_ID'', k)])
     @ when_set (md_s3_secret_key m) (\<lambda>k. [(''AWS_SECRET_ACCESS_KEY'', k)])
     @ when_set (md_s3_region m) (\<lambda>r. [(''AWS_REGION'', r)])"

section \<open>Credentials\<close>

definition parse_u32_or :: "nat \<Rightarrow> string \<Rightarrow> nat" where
  "parse_u32_or d s = (case parse_unsigned u32_max s of Some n \<Rightarrow> n | None \<Rightarrow> d)"

text \<open>The first line of \<open>/etc/passwd\<close> for the user; otherwise 1000 and 1000.\<close>

fun passwd_ids :: "string list \<Rightarrow> nat \<times> nat" where
  "passwd_ids [] = (1000, 1000)"
| "passwd_ids (l # ls) =
     (let fs = split_on (CHR '':'') l in
      if 4 \<le> length fs \<and> fs ! 0 = ''runner''
      then (parse_u32_or 1000 (fs ! 2), parse_u32_or 1000 (fs ! 3))
      else passwd_ids ls)"

fun group_gids :: "nat \<Rightarrow> string list \<Rightarrow> nat list" where
  "group_gids primary [] = []"
| "group_gids primary (l # ls) =
     (let fs = split_on (CHR '':'') l in
      if 4 \<le> length fs then
        (case parse_unsigned u32_max (fs ! 2) of
           None \<Rightarrow> group_gids primary ls
         | Some g \<Rightarrow>
             if g \<noteq> primary \<and> (\<exists>x \<in> set (split_on (CHR '','') (fs ! 3)). trim x = ''runner'')
             then g # group_gids primary ls else group_gids primary ls)
      else group_gids primary ls)"

text \<open>\<open>None\<close> is a file that cannot be read.\<close>

definition runner_credentials :: "string option \<Rightarrow> string option \<Rightarrow> nat \<times> nat \<times> nat list" where
  "runner_credentials passwd groupf =
     (let (uid, gid) = (case passwd of None \<Rightarrow> (1000, 1000) | Some p \<Rightarrow> passwd_ids (str_lines p));
          extra = (case groupf of None \<Rightarrow> [] | Some g \<Rightarrow> group_gids gid (str_lines g))
      in (uid, gid, gid # extra))"

section \<open>Commands\<close>

text \<open>
  A command of the agent: program, arguments, working directory, the whole environment (it starts
  empty) and whether it drops to the runner user. Its outcome is a parameter.
\<close>

record command =
  cm_prog :: string
  cm_args :: "string list"
  cm_dir :: "string option"
  cm_env :: "(string \<times> string) list"
  cm_as_runner :: bool

datatype exec_result = StartFailed | WaitFailed | ExitCode int | Signaled

text \<open>\<open>code().unwrap_or(1)\<close>, and 1 for a command that could not be started or waited for.\<close>

fun exit_code_of :: "exec_result \<Rightarrow> int" where
  "exit_code_of (ExitCode c) = c"
| "exit_code_of _ = 1"

datatype action =
    SetHostname string | WriteHosts string | CheckRuntime | Send agent_message | Exec command | Reboot

definition run_sh :: "metadata \<Rightarrow> string list \<Rightarrow> command" where
  "run_sh m args = \<lparr>cm_prog = ''/home/runner/run.sh'', cm_args = args, cm_dir = Some ''/home/runner'',
     cm_env = runner_env m, cm_as_runner = True\<rparr>"

definition config_sh :: "metadata \<Rightarrow> string \<Rightarrow> string \<Rightarrow> command" where
  "config_sh m url tok = \<lparr>cm_prog = ''/home/runner/config.sh'',
     cm_args = [''--url'', url, ''--token'', tok, ''--name'',
        (case md_runner_name m of Some n \<Rightarrow> n | None \<Rightarrow> md_hostname m),
        ''--labels'', ''firecracker,linux,x64'', ''--unattended'', ''--disableupdate'',
        ''--work'', ''/home/runner/_work''] @ (if md_ephemeral m then [''--ephemeral''] else []),
     cm_dir = Some ''/home/runner'', cm_env = runner_env m, cm_as_runner = True\<rparr>"

definition run_runner_jit :: "(command \<Rightarrow> exec_result) \<Rightarrow> metadata \<Rightarrow> action list \<times> int" where
  "run_runner_jit exec m =
     (case md_jit_config m of
        None \<Rightarrow> ([], 1)
      | Some jc \<Rightarrow> (let c = run_sh m [''--jitconfig'', jc] in ([Exec c], exit_code_of (exec c))))"

definition run_runner_registered :: "(command \<Rightarrow> exec_result) \<Rightarrow> metadata \<Rightarrow> action list \<times> int" where
  "run_runner_registered exec m =
     (case md_token m of
        None \<Rightarrow> ([], 1)
      | Some tok \<Rightarrow>
          (case md_repo_url m of
             None \<Rightarrow> ([], 1)
           | Some url \<Rightarrow>
               (let c = config_sh m url tok; r = run_sh m [] in
                if exec c = ExitCode 0 then ([Exec c, Exec r], exit_code_of (exec r))
                else ([Exec c], exit_code_of (exec c)))))"

definition run_runner :: "(command \<Rightarrow> exec_result) \<Rightarrow> metadata \<Rightarrow> action list \<times> int" where
  "run_runner exec m =
     (let mode = (case md_mode m of None \<Rightarrow> ''jit'' | Some x \<Rightarrow> x) in
      if mode = ''register'' \<or> mode = ''registration'' then run_runner_registered exec m
      else run_runner_jit exec m)"

text \<open>Messages go out only when the VSOCK connection was made; a failing write is only logged.\<close>

definition report :: "bool \<Rightarrow> agent_message \<Rightarrow> action list" where
  "report connected msg = (if connected then [Send msg] else [])"

definition run_with_reporting ::
    "(command \<Rightarrow> exec_result) \<Rightarrow> bool \<Rightarrow> string \<Rightarrow> metadata \<Rightarrow> action list \<times> int" where
  "run_with_reporting exec connected timestamp m =
     (let (acts, code) = run_runner exec m in
      (report connected (Ready timestamp) @ report connected (JobStarted None) @ acts
         @ report connected (JobCompleted code), code))"

text \<open>The whole agent after the metadata has been read.\<close>

definition run_agent ::
    "(command \<Rightarrow> exec_result) \<Rightarrow> bool \<Rightarrow> string \<Rightarrow> metadata \<Rightarrow> action list \<times> (agent_error, unit) result" where
  "run_agent exec connected timestamp m =
     (let h = sanitize_hostname (md_hostname m);
          (acts, code) = run_with_reporting exec connected timestamp m
      in ([SetHostname h, WriteHosts (hosts_file h), CheckRuntime] @ acts
            @ (if md_shutdown m then [Reboot] else []),
          ensure (code = 0) (RunnerExited code)))"

section \<open>Properties\<close>

lemma read_mmds_from_success:
  "k \<le> j \<Longrightarrow> j \<le> n \<Longrightarrow> try_read j = Inr m \<Longrightarrow> (\<And>i. k \<le> i \<Longrightarrow> i < j \<Longrightarrow> \<not> is_ok (try_read i)) \<Longrightarrow>
     read_mmds_from try_read n k = (Inr m, j - k)"
proof (induction "j - k" arbitrary: k)
  case 0
  then show ?case by (subst read_mmds_from.simps) simp
next
  case (Suc d)
  then have "\<not> is_ok (try_read k)" by simp
  then obtain e where "try_read k = Inl e" by (auto simp: not_is_ok_iff)
  moreover have "read_mmds_from try_read n (Suc k) = (Inr m, j - Suc k)"
    using Suc by (intro Suc.hyps(1)) auto
  ultimately show ?case using Suc.hyps(2) Suc.prems by (subst read_mmds_from.simps) auto
qed

lemma read_mmds_from_failure:
  "k \<le> n \<Longrightarrow> (\<And>i. k \<le> i \<Longrightarrow> i \<le> n \<Longrightarrow> \<not> is_ok (try_read i)) \<Longrightarrow> try_read n = Inl e \<Longrightarrow>
     read_mmds_from try_read n k = (Inl e, n - k)"
proof (induction "n - k" arbitrary: k)
  case 0
  then show ?case by (subst read_mmds_from.simps) simp
next
  case (Suc d)
  then have "\<not> is_ok (try_read k)" by simp
  then obtain e' where "try_read k = Inl e'" by (auto simp: not_is_ok_iff)
  moreover have "read_mmds_from try_read n (Suc k) = (Inl e, n - Suc k)"
    using Suc by (intro Suc.hyps(1)) auto
  ultimately show ?case using Suc.hyps(2) by (subst read_mmds_from.simps) auto
qed

text \<open>Reading the metadata, with at least one attempt allowed, gives the result of the first attempt
  that succeeds, after one delay for each failure before it; when every attempt fails it gives the
  error of the last one, after one delay less than attempts.\<close>

theorem read_mmds_retry:
  assumes "1 \<le> n"
  shows "read_mmds_with_retry try_read n =
    (case find (\<lambda>j. is_ok (try_read j)) [1..<Suc n] of
       Some j \<Rightarrow> (try_read j, j - 1)
     | None \<Rightarrow> (try_read n, n - 1))"
proof (cases "find (\<lambda>j. is_ok (try_read j)) [1..<Suc n]")
  case None
  then have no: "\<not> is_ok (try_read i)" if "1 \<le> i" "i \<le> n" for i
    using that by (auto simp: find_None_iff simp del: upt_Suc)
  with assms obtain e where "try_read n = Inl e" by (metis not_is_ok_iff order_refl)
  with None no assms show ?thesis
    by (simp add: read_mmds_with_retry_def read_mmds_from_failure)
next
  case (Some j)
  then obtain i where i: "i < n" "is_ok (try_read (Suc i))" "j = Suc i" "\<forall>l<i. \<not> is_ok (try_read (Suc l))"
    by (auto simp: find_Some_iff simp del: upt_Suc)
  then obtain m where "try_read j = Inr m" by (metis is_ok_iff)
  moreover have "\<not> is_ok (try_read l)" if "1 \<le> l" "l < j" for l
    using i(3,4) that by (cases l) auto
  ultimately show ?thesis
    using Some i read_mmds_from_success [of 1 j n try_read m] by (simp add: read_mmds_with_retry_def)
qed

theorem read_mmds_retry_witness:
  "read_mmds_with_retry (\<lambda>k. if k = 3 then Inr ''m'' else Inl MmdsFailed) 10 = (Inr ''m'', 2)"
  using read_mmds_retry [of 10 "\<lambda>k. if k = 3 then Inr ''m'' else Inl MmdsFailed"]
  by (simp add: upt_rec)

definition runner_env_keys :: "string list" where
  "runner_env_keys =
     [''PATH'', ''HOME'', ''USER'', ''LOGNAME'', ''ACTIONS_CACHE_URL'', ''ACTIONS_RESULTS_URL'',
      ''ACTIONS_CACHE_SERVICE_V2'', ''ACTIONS_RUNTIME_TOKEN'', ''RUNS_ON_S3_BUCKET_ENDPOINT'',
      ''RUNS_ON_S3_FORCE_PATH_STYLE'', ''RUNS_ON_S3_BUCKET_CACHE'', ''AWS_ACCESS_KEY_ID'',
      ''AWS_SECRET_ACCESS_KEY'', ''AWS_REGION'']"

lemma when_set_keys: "(\<And>v. map fst (f v) = ks) \<Longrightarrow> subseq (map fst (when_set x f)) ks"
  by (auto simp: when_set_def split: option.splits)

lemma runner_env_subseq: "subseq (map fst (runner_env m)) runner_env_keys"
proof -
  have K: "runner_env_keys = [''PATH'', ''HOME'', ''USER'', ''LOGNAME''] @
      [''ACTIONS_CACHE_URL'', ''ACTIONS_RESULTS_URL'', ''ACTIONS_CACHE_SERVICE_V2''] @ [''ACTIONS_RUNTIME_TOKEN''] @
      [''RUNS_ON_S3_BUCKET_ENDPOINT'', ''RUNS_ON_S3_FORCE_PATH_STYLE''] @ [''RUNS_ON_S3_BUCKET_CACHE''] @
      [''AWS_ACCESS_KEY_ID''] @ [''AWS_SECRET_ACCESS_KEY''] @ [''AWS_REGION'']"
    by (simp add: runner_env_keys_def)
  have B: "subseq (map fst [(''PATH'', runner_path), (''HOME'', ''/home/runner''), (''USER'', ''runner''), (''LOGNAME'', ''runner'')])
      [''PATH'', ''HOME'', ''USER'', ''LOGNAME'']" by (simp only: list.map fst_conv subseq_order.refl)
  show ?thesis
    unfolding K runner_env_def map_append
    by (intro list_emb_append_mono B when_set_keys) (simp_all only: list.map fst_conv)
qed

lemma subseq_distinct: "subseq xs ys \<Longrightarrow> distinct ys \<Longrightarrow> distinct xs"
  by (auto simp: subseq_conv_nths distinct_nthsI)

lemma subseq_subset: "subseq xs ys \<Longrightarrow> set xs \<subseteq> set ys"
  by (auto simp: subseq_conv_nths dest: in_set_nthsD)

lemma runner_env_keys_distinct: "distinct runner_env_keys"
  by (simp add: runner_env_keys_def)

text \<open>the runner's environment sets every variable at most once and none outside the fixed list;
  the four base variables are always there, first, with fixed values, whatever the metadata says.\<close>

theorem runner_env_closed:
  "distinct (map fst (runner_env m)) \<and> set (map fst (runner_env m)) \<subseteq> set runner_env_keys \<and>
   take 4 (runner_env m) =
     [(''PATH'', runner_path), (''HOME'', ''/home/runner''), (''USER'', ''runner''), (''LOGNAME'', ''runner'')]"
proof (intro conjI)
  show "distinct (map fst (runner_env m))"
    by (rule subseq_distinct [OF runner_env_subseq runner_env_keys_distinct])
  show "set (map fst (runner_env m)) \<subseteq> set runner_env_keys"
    by (rule subseq_subset [OF runner_env_subseq])
  show "take 4 (runner_env m) =
     [(''PATH'', runner_path), (''HOME'', ''/home/runner''), (''USER'', ''runner''), (''LOGNAME'', ''runner'')]"
    by (simp add: runner_env_def)
qed

text \<open>A run's actions are commands only.\<close>

lemma run_runner_cmds: "\<exists>cmds. fst (run_runner exec m) = map Exec cmds"
proof -
  have "set (fst (run_runner exec m)) \<subseteq> range Exec"
    by (auto simp: run_runner_def run_runner_jit_def run_runner_registered_def Let_def
        split: if_splits option.splits)
  then show ?thesis by (metis ex_map_conv image_iff subset_iff)
qed

text \<open>with the VSOCK connected the host is told exactly three things, in this order: ready, job
  started, and job completed with the exit code the agent goes on with; every command of the runner
  runs between the second and the third.\<close>

theorem reporting_order:
  "\<exists>cmds. run_with_reporting exec True ts m =
     ([Send (Ready ts), Send (JobStarted None)] @ map Exec cmds @ [Send (JobCompleted (snd (run_runner exec m)))],
      snd (run_runner exec m)) \<and> fst (run_runner exec m) = map Exec cmds"
proof -
  obtain acts code where r: "run_runner exec m = (acts, code)" by (metis surj_pair)
  then show ?thesis
    using run_runner_cmds [of exec m] by (auto simp: run_with_reporting_def report_def)
qed

lemma sanitize_hostname_chars:
  "c \<in> set (sanitize_hostname h) \<Longrightarrow> alnum c \<or> c = CHR ''-'' \<or> c = CHR ''.''"
  by (auto simp: sanitize_hostname_def)

lemma sanitize_hostname_id:
  "(\<And>c. c \<in> set h \<Longrightarrow> alnum c \<or> c = CHR ''-'' \<or> c = CHR ''.'') \<Longrightarrow> sanitize_hostname h = h"
  by (auto simp: sanitize_hostname_def intro: filter_True)

text \<open>The groups handed to \<open>setgroups\<close>: the primary one first, and no other one equal to it.\<close>

lemma runner_groups:
  "runner_credentials p g = (u, gid, gs) \<Longrightarrow> hd gs = gid \<and> gid \<notin> set (tl gs)"
proof -
  have "primary \<notin> set (group_gids primary ls)" for primary ls
    by (induction primary ls rule: group_gids.induct) (auto simp: Let_def split: option.splits)
  then show "runner_credentials p g = (u, gid, gs) \<Longrightarrow> hd gs = gid \<and> gid \<notin> set (tl gs)"
    by (auto simp: runner_credentials_def Let_def split: prod.splits option.splits)
qed
end
