(* ===== verification/Pool.thy ===== *)
theory Pool
  imports Config
begin

text \<open>
  The manager of a named pool (\<open>src/src/scheduler/pool.rs\<close>) as a machine. A state holds what
  the manager shares with its VM tasks and with the management API (free slots, the count of
  active VMs, the paused flag, the two adjustable limits), the bag of VM tasks with the stage
  each has reached, the bounded completion channel, and where the manager's own loop stands.
  Every await point of the source separates two steps, so tasks, API calls and cancellation
  interleave there; each step is one of the operations defined here.
\<close>

section \<open>State\<close>

datatype pool_stage = Spawned | Active | Sending

datatype pool_task = PoolTask (pt_slot: nat) (pt_repo: string) (pt_stage: pool_stage)

text \<open>
  \<open>Starting i n\<close> is the initial loop at index \<open>i\<close> of \<open>n\<close>; \<open>Selecting\<close> is the
  \<open>select!\<close>; the next four are the points a replacement passes after a completion.
\<close>

datatype pool_phase =
    NotStarted | Starting nat nat | Selecting
  | Delaying string | AtPause string | AtLimit string | AtPop string
  | Draining | Stopped | NoReposError | ChannelPanic

record pool_state =
  ps_free :: "nat list"
  ps_active :: nat
  ps_paused :: bool
  ps_min :: nat
  ps_max :: nat
  ps_tasks :: "pool_task multiset"
  ps_chan :: "(nat \<times> string) list"
  ps_cap :: nat
  ps_phase :: pool_phase
  ps_cancelled :: bool
  ps_dropped :: "(nat \<times> string) multiset"

definition pool_new :: "pool_config \<Rightarrow> nat list \<Rightarrow> pool_state" where
  "pool_new pc slots =
     \<lparr>ps_free = slots, ps_active = 0, ps_paused = False,
      ps_min = min_ready pc, ps_max = max_ready pc, ps_tasks = {#}, ps_chan = [], ps_cap = 0,
      ps_phase = NotStarted, ps_cancelled = False, ps_dropped = {#}\<rparr>"

section \<open>The management calls\<close>

definition pool_pause :: "pool_state \<Rightarrow> pool_state" where
  "pool_pause s = s\<lparr>ps_paused := True\<rparr>"

definition pool_resume :: "pool_state \<Rightarrow> pool_state" where
  "pool_resume s = s\<lparr>ps_paused := False\<rparr>"

definition pool_scale :: "nat option \<Rightarrow> nat option \<Rightarrow> pool_state \<Rightarrow> pool_state" where
  "pool_scale new_min new_max s =
     s\<lparr>ps_min := (case new_min of None \<Rightarrow> ps_min s | Some m \<Rightarrow> m),
       ps_max := (case new_max of None \<Rightarrow> ps_max s | Some m \<Rightarrow> m)\<rparr>"

record pool_status =
  st_name :: string
  st_repos :: "string list"
  st_min_ready :: nat
  st_max_ready :: nat
  st_active :: nat
  st_idle_slots :: nat
  st_paused :: bool

definition pool_status_of :: "pool_config \<Rightarrow> pool_state \<Rightarrow> pool_status" where
  "pool_status_of pc s =
     \<lparr>st_name = pool_name pc, st_repos = pool_repos pc, st_min_ready = ps_min s,
      st_max_ready = ps_max s, st_active = ps_active s, st_idle_slots = length (ps_free s),
      st_paused = ps_paused s\<rparr>"

section \<open>The manager's loop\<close>

definition pool_spawn_vm :: "nat \<Rightarrow> string \<Rightarrow> pool_state \<Rightarrow> pool_state" where
  "pool_spawn_vm sl r s = s\<lparr>ps_tasks := add_mset (PoolTask sl r Spawned) (ps_tasks s)\<rparr>"

text \<open>
  The start of \<open>run\<close>: no repositories is an error, and a channel of capacity 0 panics.
\<close>

definition pool_run_start :: "pool_config \<Rightarrow> pool_state \<Rightarrow> pool_state" where
  "pool_run_start pc s =
     (if pool_repos pc = [] then s\<lparr>ps_phase := NoReposError\<rparr>
      else if ps_max s * 2 = 0 then s\<lparr>ps_phase := ChannelPanic\<rparr>
      else s\<lparr>ps_cap := ps_max s * 2, ps_phase := Starting 0 (ps_min s)\<rparr>)"

definition pool_initial_spawn :: "pool_config \<Rightarrow> nat \<Rightarrow> nat \<Rightarrow> pool_state \<Rightarrow> pool_state" where
  "pool_initial_spawn pc i n s =
     (if i < n then
        (case vec_pop (ps_free s) of
           Some (sl, rest) \<Rightarrow>
             pool_spawn_vm sl (pool_repos pc ! (i mod length (pool_repos pc)))
               (s\<lparr>ps_free := rest, ps_phase := Starting (Suc i) n\<rparr>)
         | None \<Rightarrow> s\<lparr>ps_phase := Selecting\<rparr>)
      else s\<lparr>ps_phase := Selecting\<rparr>)"

definition pool_recv :: "nat \<Rightarrow> string \<Rightarrow> (nat \<times> string) list \<Rightarrow> pool_state \<Rightarrow> pool_state" where
  "pool_recv sl r rest s =
     s\<lparr>ps_chan := rest, ps_free := vec_push (ps_free s) sl, ps_phase := Delaying r\<rparr>"

text \<open>After the delay: the cancellation, the paused flag, the limit and the free slots are read in turn.\<close>

definition pool_after_delay :: "string \<Rightarrow> pool_state \<Rightarrow> pool_state" where
  "pool_after_delay r s = s\<lparr>ps_phase := (if ps_cancelled s then Stopped else AtPause r)\<rparr>"

definition pool_check_paused :: "string \<Rightarrow> pool_state \<Rightarrow> pool_state" where
  "pool_check_paused r s = s\<lparr>ps_phase := (if ps_paused s then Selecting else AtLimit r)\<rparr>"

definition pool_check_limit :: "string \<Rightarrow> pool_state \<Rightarrow> pool_state" where
  "pool_check_limit r s = s\<lparr>ps_phase := (if ps_max s \<le> ps_active s then Selecting else AtPop r)\<rparr>"

definition pool_replace :: "string \<Rightarrow> pool_state \<Rightarrow> pool_state" where
  "pool_replace r s =
     (case vec_pop (ps_free s) of
        Some (sl, rest) \<Rightarrow> pool_spawn_vm sl r (s\<lparr>ps_free := rest, ps_phase := Selecting\<rparr>)
      | None \<Rightarrow> s\<lparr>ps_phase := Selecting\<rparr>)"

section \<open>The VM task\<close>

definition pool_task_start :: "nat \<Rightarrow> string \<Rightarrow> pool_task multiset \<Rightarrow> pool_state \<Rightarrow> pool_state" where
  "pool_task_start sl r M s =
     s\<lparr>ps_tasks := add_mset (PoolTask sl r Active) M, ps_active := Suc (ps_active s)\<rparr>"

definition pool_task_exit :: "nat \<Rightarrow> string \<Rightarrow> pool_task multiset \<Rightarrow> pool_state \<Rightarrow> pool_state" where
  "pool_task_exit sl r M s =
     s\<lparr>ps_tasks := add_mset (PoolTask sl r Sending) M, ps_active := ps_active s - 1\<rparr>"

text \<open>
  The completion is sent when the channel has room. Once the manager has returned, the channel is
  closed and the failing send is ignored.
\<close>

definition pool_stopped :: "pool_state \<Rightarrow> bool" where
  "pool_stopped s \<longleftrightarrow> ps_phase s \<in> {Stopped, NoReposError, ChannelPanic}"

definition pool_task_send :: "nat \<Rightarrow> string \<Rightarrow> pool_task multiset \<Rightarrow> pool_state \<Rightarrow> pool_state" where
  "pool_task_send sl r M s =
     (if pool_stopped s then s\<lparr>ps_tasks := M, ps_dropped := add_mset (sl, r) (ps_dropped s)\<rparr>
      else s\<lparr>ps_tasks := M, ps_chan := ps_chan s @ [(sl, r)]\<rparr>)"

definition pool_can_send :: "pool_state \<Rightarrow> bool" where
  "pool_can_send s \<longleftrightarrow> pool_stopped s \<or> length (ps_chan s) < ps_cap s"

section \<open>Steps\<close>

inductive pool_step :: "pool_config \<Rightarrow> pool_state \<Rightarrow> pool_state \<Rightarrow> bool" for pc where
  run_start: "ps_phase s = NotStarted \<Longrightarrow> pool_step pc s (pool_run_start pc s)"
| initial_spawn: "ps_phase s = Starting i n \<Longrightarrow> pool_step pc s (pool_initial_spawn pc i n s)"
| recv: "ps_phase s = Selecting \<Longrightarrow> ps_chan s = (sl, r) # rest \<Longrightarrow> pool_step pc s (pool_recv sl r rest s)"
| shutdown: "ps_phase s = Selecting \<Longrightarrow> ps_cancelled s \<Longrightarrow> pool_step pc s (s\<lparr>ps_phase := Draining\<rparr>)"
| drained: "ps_phase s = Draining \<Longrightarrow> pool_step pc s (s\<lparr>ps_phase := Stopped\<rparr>)"
| after_delay: "ps_phase s = Delaying r \<Longrightarrow> pool_step pc s (pool_after_delay r s)"
| check_paused: "ps_phase s = AtPause r \<Longrightarrow> pool_step pc s (pool_check_paused r s)"
| check_limit: "ps_phase s = AtLimit r \<Longrightarrow> pool_step pc s (pool_check_limit r s)"
| replace: "ps_phase s = AtPop r \<Longrightarrow> pool_step pc s (pool_replace r s)"
| task_start: "ps_tasks s = add_mset (PoolTask sl r Spawned) M \<Longrightarrow> pool_step pc s (pool_task_start sl r M s)"
| task_exit: "ps_tasks s = add_mset (PoolTask sl r Active) M \<Longrightarrow> pool_step pc s (pool_task_exit sl r M s)"
| task_send: "ps_tasks s = add_mset (PoolTask sl r Sending) M \<Longrightarrow> pool_can_send s \<Longrightarrow>
    pool_step pc s (pool_task_send sl r M s)"
| api_pause: "pool_step pc s (pool_pause s)"
| api_resume: "pool_step pc s (pool_resume s)"
| api_scale: "pool_step pc s (pool_scale mn mx s)"
| cancel: "pool_step pc s (s\<lparr>ps_cancelled := True\<rparr>)"

definition pool_init :: "pool_config \<Rightarrow> nat list \<Rightarrow> pool_state \<Rightarrow> bool" where
  "pool_init pc slots s \<longleftrightarrow> s = pool_new pc slots"

lemmas pool_ops =
  pool_run_start_def pool_initial_spawn_def pool_recv_def pool_after_delay_def pool_check_paused_def
  pool_check_limit_def pool_replace_def pool_task_start_def pool_task_exit_def pool_task_send_def
  pool_pause_def pool_resume_def pool_scale_def pool_spawn_vm_def

section \<open>Slots\<close>

definition pool_free :: "pool_state \<Rightarrow> nat multiset" where
  "pool_free s = mset (ps_free s)"

definition pool_lent :: "pool_state \<Rightarrow> nat multiset" where
  "pool_lent s = image_mset pt_slot (ps_tasks s) + mset (map fst (ps_chan s))
     + image_mset fst (ps_dropped s)"

definition is_active :: "pool_task \<Rightarrow> bool" where
  "is_active t \<longleftrightarrow> pt_stage t = Active"

lemma is_active_simps [simp]:
  "is_active (PoolTask sl r Active)" "\<not> is_active (PoolTask sl r Spawned)" "\<not> is_active (PoolTask sl r Sending)"
  by (simp_all add: is_active_def)

text \<open>
  The invariant: the counter counts the active tasks, the channel respects its capacity, and
  every repository a VM is started for is one of the pool's.
\<close>

definition phase_repos :: "pool_phase \<Rightarrow> string set" where
  "phase_repos ph = (case ph of Delaying r \<Rightarrow> {r} | AtPause r \<Rightarrow> {r} | AtLimit r \<Rightarrow> {r} | AtPop r \<Rightarrow> {r} | _ \<Rightarrow> {})"

definition pool_inv :: "pool_config \<Rightarrow> pool_state \<Rightarrow> bool" where
  "pool_inv pc s \<longleftrightarrow>
     ps_active s = tally is_active (ps_tasks s) \<and>
     length (ps_chan s) \<le> ps_cap s \<and>
     (\<forall>t \<in># ps_tasks s. pt_repo t \<in> set (pool_repos pc)) \<and>
     snd ` set (ps_chan s) \<subseteq> set (pool_repos pc) \<and>
     phase_repos (ps_phase s) \<subseteq> set (pool_repos pc) \<and>
     (ps_phase s = NotStarted \<longrightarrow> ps_cap s = 0) \<and>
     (pool_repos pc = [] \<longrightarrow> ps_phase s \<in> {NotStarted, NoReposError})"

lemma pool_inv_init: "pool_init pc slots s \<Longrightarrow> pool_inv pc s"
  by (simp add: pool_init_def pool_new_def pool_inv_def phase_repos_def)

lemma pool_inv_step: "pool_step pc s t \<Longrightarrow> pool_inv pc s \<Longrightarrow> pool_inv pc t"
proof (induction rule: pool_step.induct)
  case (initial_spawn s i n)
  then have "pool_repos pc \<noteq> []" by (auto simp: pool_inv_def)
  then have "pool_repos pc ! (i mod length (pool_repos pc)) \<in> set (pool_repos pc)" by simp
  with initial_spawn show ?case
    by (auto simp: pool_inv_def pool_initial_spawn_def pool_spawn_vm_def phase_repos_def split: option.splits)
qed (auto simp: pool_inv_def pool_ops phase_repos_def pool_can_send_def split: option.splits)

lemma pool_slots_init: "pool_init pc slots s \<Longrightarrow> pool_free s + pool_lent s = mset slots"
  by (simp add: pool_init_def pool_new_def pool_free_def pool_lent_def)

lemma pool_slots_step: "pool_step pc s t \<Longrightarrow> pool_free t + pool_lent t = pool_free s + pool_lent s"
  by (induction rule: pool_step.induct)
     (auto simp: pool_ops pool_free_def pool_lent_def slot_simps vec_pop_Some split: option.splits)

interpretation pool: slot_system "pool_init pc slots" "pool_step pc" "pool_inv pc" pool_free pool_lent slots
  for pc slots
  by unfold_locales (auto intro: pool_inv_init pool_inv_step pool_slots_init pool_slots_step)

section \<open>A pool that has run dry\<close>

text \<open>
  Replacements are started by completions only. With no VM task and no completion under way, and
  the initial loop over, nothing the manager, the API or the tasks can do starts a VM again.
\<close>

definition pool_dry :: "pool_state \<Rightarrow> bool" where
  "pool_dry s \<longleftrightarrow> ps_tasks s = {#} \<and> ps_chan s = [] \<and> ps_phase s \<in> {Selecting, Draining, Stopped}"

lemma pool_dry_step: "pool_dry s \<Longrightarrow> pool_step pc s t \<Longrightarrow> pool_dry t"
  by (erule pool_step.cases) (auto simp: pool_dry_def pool_ops)

text \<open>One repository, at least one idle VM wanted.\<close>

definition solo_pool :: "string \<Rightarrow> string \<Rightarrow> nat \<Rightarrow> pool_config" where
  "solo_pool n r m =
     \<lparr>pool_name = n, pool_repos = [r], min_ready = 1, max_ready = Suc m, pool_vcpu = None, pool_mem = None\<rparr>"

section \<open>Counting VMs\<close>

lemma active_le_tasks: "tally is_active M \<le> size (image_mset pt_slot M)"
  by (simp add: tally_le_size)

definition active_slots :: "pool_state \<Rightarrow> nat multiset" where
  "active_slots s = image_mset pt_slot (filter_mset is_active (ps_tasks s))"

lemma active_slots_sub: "active_slots s \<subseteq># pool_lent s"
  unfolding active_slots_def pool_lent_def
  by (metis image_mset_subseteq_mono multiset_filter_subset subset_mset.order_trans mset_subset_eq_add_left)

text \<open>C10: whatever the interleaving of the manager, its VMs, API calls (scaling included) and
  shutdown, every slot given to a pool is at all times in exactly one place: free, held by one VM
  task, or in one completion. So no two VMs of a pool are ever on the same slot, and no slot is
  lost while the pool runs.\<close>

theorem pool_slots_conserved:
  assumes "distinct slots" and "reach (pool_init pc slots) (pool_step pc) s"
  shows "pool_free s + pool_lent s = mset slots \<and> mset_distinct (pool_free s + pool_lent s) \<and>
    mset_distinct (active_slots s)"
  using pool.conserved [OF assms(2)] pool.exclusive [OF assms]
    mset_distinct_subset [OF active_slots_sub pool.lent_distinct [OF assms]] by blast

theorem pool_slots_conserved_witness:
  "pool_free (pool_new (solo_pool ''p'' ''r'' 3) [0, 4]) + pool_lent (pool_new (solo_pool ''p'' ''r'' 3) [0, 4])
     = mset [0, 4]"
  using pool_slots_conserved [of "[0, 4]" "solo_pool ''p'' ''r'' 3" "pool_new (solo_pool ''p'' ''r'' 3) [0, 4]"]
  by (simp add: reach_init pool_init_def)

text \<open>a pool never runs more VMs than the slots it was given, however far the management API
  scales \<open>max_ready\<close> up, and the reported count of active VMs is exact.\<close>

theorem pool_active_bounded:
  assumes "reach (pool_init pc slots) (pool_step pc) s"
  shows "ps_active s = size (active_slots s) \<and> ps_active s \<le> length slots \<and>
    st_active (pool_status_of pc s) + st_idle_slots (pool_status_of pc s) \<le> length slots"
proof -
  have A: "ps_active s = size (active_slots s)"
    using pool.reach_inv [OF assms] by (simp add: pool_inv_def active_slots_def tally_def)
  moreover have "size (active_slots s) \<le> size (pool_lent s)"
    by (simp add: active_slots_sub size_mset_mono)
  ultimately show ?thesis
    using pool.size_conserved [OF assms] by (simp add: pool_status_of_def pool_free_def)
qed

theorem pool_active_bounded_witness:
  "ps_active (pool_new (solo_pool ''p'' ''r'' 3) [0, 4]) \<le> length [0, 4 :: nat]"
  using pool_active_bounded [of "solo_pool ''p'' ''r'' 3" "[0, 4]" "pool_new (solo_pool ''p'' ''r'' 3) [0, 4]"]
  by (simp add: reach_init pool_init_def)

lemma pool_dry_steps: "steps (pool_step pc) s t \<Longrightarrow> pool_dry s \<Longrightarrow> pool_dry t"
  by (erule steps_invariant) (auto intro: pool_dry_step)

text \<open>A run up to the point after the completion of the only VM has been received.\<close>

lemma solo_pool_completion:
  fixes n r m
  defines "pc \<equiv> solo_pool n r m"
  obtains s where "reach (pool_init pc [k]) (pool_step pc) s" and "ps_phase s = Delaying r"
    and "ps_tasks s = {#}" and "ps_chan s = []" and "ps_free s = [k]"
    and "ps_min s = 1" and "ps_max s = Suc m" and "ps_active s = 0"
    and "\<not> ps_cancelled s" and "\<not> ps_paused s"
proof -
  let ?R = "reach (pool_init pc [k]) (pool_step pc)"
  let ?s1 = "pool_run_start pc (pool_new pc [k])"
  let ?s2 = "pool_initial_spawn pc 0 1 ?s1"
  let ?s3 = "pool_initial_spawn pc 1 1 ?s2"
  let ?s4 = "pool_task_start k r {#} ?s3"
  let ?s5 = "pool_task_exit k r {#} ?s4"
  let ?s6 = "pool_task_send k r {#} ?s5"
  let ?s7 = "pool_recv k r [] ?s6"
  note ops = pool_ops pool_new_def pc_def solo_pool_def vec_pop_def vec_push_def pool_stopped_def pool_can_send_def
  have "?R (pool_new pc [k])" by (rule reach_init) (simp add: pool_init_def)
  then have "?R ?s1" by (rule reach_step) (simp add: pool_step.run_start pool_new_def)
  then have "?R ?s2" by (rule reach_step, intro pool_step.initial_spawn) (simp add: ops)
  then have "?R ?s3" by (rule reach_step, intro pool_step.initial_spawn) (simp add: ops)
  then have "?R ?s4" by (rule reach_step, intro pool_step.task_start) (simp add: ops)
  then have "?R ?s5" by (rule reach_step, intro pool_step.task_exit) (simp add: ops)
  then have "?R ?s6" by (rule reach_step, intro pool_step.task_send) (simp_all add: ops)
  then have "?R ?s7" by (rule reach_step, intro pool_step.recv) (simp_all add: ops)
  then show thesis by (rule that) (simp_all add: ops)
qed

text \<open>a pool that is paused while a replacement is due never recovers. From the start of a pool
  that is to keep one VM ready, a state is reachable in which it is neither paused nor shutting
  down, and from which no continuation, resuming and scaling included, ever runs a VM again.\<close>

theorem pool_runs_dry:
  "\<exists>s. reach (pool_init (solo_pool n r m) [k]) (pool_step (solo_pool n r m)) s \<and>
     \<not> ps_paused s \<and> \<not> ps_cancelled s \<and> ps_min s = 1 \<and> ps_free s = [k] \<and>
     Collect (steps (pool_step (solo_pool n r m)) s) \<subseteq> {t. ps_tasks t = {#} \<and> ps_active t = 0}"
proof -
  let ?pc = "solo_pool n r m"
  let ?R = "reach (pool_init ?pc [k]) (pool_step ?pc)"
  obtain s where s: "?R s" "ps_phase s = Delaying r" "ps_tasks s = {#}" "ps_chan s = []" "ps_free s = [k]"
    "ps_min s = 1" "\<not> ps_cancelled s"
    using solo_pool_completion by metis
  let ?a = "pool_after_delay r (pool_pause s)"
  let ?b = "pool_resume (pool_check_paused r ?a)"
  from s(1) have "?R (pool_pause s)" by (rule reach_step) (rule pool_step.api_pause)
  then have "?R ?a" by (rule reach_step, intro pool_step.after_delay) (simp add: s pool_pause_def)
  then have "?R (pool_check_paused r ?a)"
    by (rule reach_step, intro pool_step.check_paused) (simp add: s pool_pause_def pool_after_delay_def)
  then have R: "?R ?b" by (rule reach_step) (rule pool_step.api_resume)
  have "pool_dry ?b" by (simp add: pool_dry_def s pool_ops)
  then have "ps_tasks t = {#} \<and> ps_active t = 0" if "steps (pool_step ?pc) ?b t" for t
    using pool_dry_steps [OF that] pool.reach_inv [OF reach_steps [OF that R]]
    by (simp add: pool_dry_def pool_inv_def)
  then have "Collect (steps (pool_step ?pc) ?b) \<subseteq> {t. ps_tasks t = {#} \<and> ps_active t = 0}"
    by blast
  with R show ?thesis
    by (intro exI [of _ ?b]) (simp add: s pool_ops)
qed

text \<open>a completion is replaced when nothing stands in the way: unpaused, not shutting down and
  below the limit, the manager starts the next VM for the same repository, on the slot that has
  just come back.\<close>

theorem pool_replaces_completed:
  assumes "ps_phase s = Selecting" and "ps_chan s = (sl, r) # rest"
    and "\<not> ps_cancelled s" and "\<not> ps_paused s" and "ps_active s < ps_max s"
  shows "steps (pool_step pc) s
    (s\<lparr>ps_chan := rest, ps_tasks := add_mset (PoolTask sl r Spawned) (ps_tasks s), ps_phase := Selecting\<rparr>)"
proof -
  let ?a = "pool_recv sl r rest s"
  let ?b = "pool_after_delay r ?a"
  let ?c = "pool_check_paused r ?b"
  let ?d = "pool_check_limit r ?c"
  have 1: "pool_step pc s ?a" using assms(1,2) by (rule pool_step.recv)
  have 2: "pool_step pc ?a ?b" by (intro pool_step.after_delay) (simp add: pool_recv_def)
  have 3: "pool_step pc ?b ?c"
    by (intro pool_step.check_paused) (simp add: pool_after_delay_def pool_recv_def assms)
  have 4: "pool_step pc ?c ?d"
    by (intro pool_step.check_limit) (simp add: pool_ops assms)
  have 5: "pool_step pc ?d (pool_replace r ?d)"
    by (intro pool_step.replace) (use assms in \<open>simp add: pool_ops\<close>)
  note st = steps_step [of "pool_step pc"] and one = steps_one [of "pool_step pc"]
  have "steps (pool_step pc) s (pool_replace r ?d)"
    by (rule st [OF 1 st [OF 2 st [OF 3 st [OF 4 one [OF 5]]]]])
  moreover have "pool_replace r ?d =
      s\<lparr>ps_chan := rest, ps_tasks := add_mset (PoolTask sl r Spawned) (ps_tasks s), ps_phase := Selecting\<rparr>"
    using assms by (simp add: pool_ops)
  ultimately show ?thesis by (rule subst [rotated])
qed

theorem pool_replaces_completed_witness:
  "steps (pool_step (solo_pool ''p'' ''r'' 3))
     ((pool_new (solo_pool ''p'' ''r'' 3) [])\<lparr>ps_phase := Selecting, ps_chan := [(7, ''r'')]\<rparr>)
     ((pool_new (solo_pool ''p'' ''r'' 3) [])\<lparr>ps_phase := Selecting, ps_tasks := {#PoolTask 7 ''r'' Spawned#}\<rparr>)"
  using pool_replaces_completed [of "(pool_new (solo_pool ''p'' ''r'' 3) [])\<lparr>ps_phase := Selecting, ps_chan := [(7, ''r'')]\<rparr>"
      7 "''r''" "[]" "solo_pool ''p'' ''r'' 3"]
  by (simp add: pool_new_def solo_pool_def)
end
