(* ===== verification/Cache_Server.thy ===== *)
theory Cache_Server
  imports Config Json
begin

text \<open>
  The Actions cache service (\<open>src/src/api/cache_server.rs\<close>): the index of entries, the two APIs
  over it, the chunk files and the persisted index. A state holds the entries in order, the exact
  index by key and version, the next identifier, the chunk files and the saved index. The object
  store is another program: the record \<open>s3_ops\<close> gives its four operations over an abstract state.
  The outcome of the file operations that can fail and the clock come with each call
  (\<open>call_env\<close>). Each handler is one step; identifiers are unbounded integers (the counter of 64
  bits does not wrap in the life of a service).
\<close>

section \<open>State\<close>

record cache_entry =
  ce_id :: int
  ce_key :: string
  ce_version :: string
  ce_committed :: bool
  ce_size :: int
  ce_s3_key :: "string option"
  ce_created :: int

record 's s3_ops =
  s3_put :: "'s \<Rightarrow> string \<Rightarrow> string \<Rightarrow> 's option"
  s3_get :: "'s \<Rightarrow> string \<Rightarrow> string option"
  s3_presign_put :: "'s \<Rightarrow> string \<Rightarrow> string option"
  s3_presign_get :: "'s \<Rightarrow> string \<Rightarrow> string option"

record call_env =
  io_create :: bool
  io_open :: bool
  io_index :: bool
  io_now :: int

record 's cache_state =
  cs_entries :: "cache_entry list"
  cs_index :: "string \<times> string \<rightharpoonup> int"
  cs_next :: int
  cs_tmp :: "int \<rightharpoonup> string"
  cs_saved :: "cache_entry list option"
  cs_auth :: string
  cs_store :: 's

type_synonym headers = "string \<Rightarrow> string option"

text \<open>Errors are the HTTP status returned.\<close>

type_synonym status = nat

datatype cache_answer =
    Hit string string
  | Miss
  | Reserved int
  | NoContent
  | Artifact string
  | UploadUrl string
  | Finalized string
  | DownloadUrl bool string string

type_synonym 's handled = "(status, cache_answer) result \<times> 's cache_state"

definition s3_key :: "int \<Rightarrow> string" where
  "s3_key i = ''cache/'' @ show_int i"

text \<open>The index is written to a temporary file and renamed over the old one.\<close>

definition save_index :: "call_env \<Rightarrow> 's cache_state \<Rightarrow> (status, unit) result \<times> 's cache_state" where
  "save_index io s = (if io_index io then (Inr (), s\<lparr>cs_saved := Some (cs_entries s)\<rparr>) else (Inl 500, s))"

definition index_of_entries :: "cache_entry list \<Rightarrow> string \<times> string \<rightharpoonup> int" where
  "index_of_entries es =
     fold (\<lambda>e m. if ce_committed e then m((ce_key e, ce_version e) \<mapsto> ce_id e) else m) es Map.empty"

definition next_id_of :: "cache_entry list \<Rightarrow> int" where
  "next_id_of es = (if es = [] then 0 else Max (set (map ce_id es))) + 1"

text \<open>Chunk files without a reserved entry are removed.\<close>

definition cleanup_stale_temps :: "'s cache_state \<Rightarrow> 's cache_state" where
  "cleanup_stale_temps s =
     (let reserved = set (map ce_id (filter (\<lambda>e. \<not> ce_committed e) (cs_entries s))) in
      s\<lparr>cs_tmp := (\<lambda>i. if i \<in> reserved then cs_tmp s i else None)\<rparr>)"

text \<open>\<open>saved\<close> is the parsed index file, \<open>None\<close> when it is missing or does not parse.\<close>

definition cache_new ::
    "cache_entry list option \<Rightarrow> (int \<rightharpoonup> string) \<Rightarrow> string \<Rightarrow> 's \<Rightarrow> 's cache_state" where
  "cache_new saved tmp token store =
     (let es = (case saved of Some es \<Rightarrow> es | None \<Rightarrow> []) in
      cleanup_stale_temps
        \<lparr>cs_entries = es, cs_index = index_of_entries es, cs_next = next_id_of es, cs_tmp = tmp,
         cs_saved = saved, cs_auth = token, cs_store = store\<rparr>)"

section \<open>Authentication\<close>

definition check_bearer :: "'s cache_state \<Rightarrow> headers \<Rightarrow> bool" where
  "check_bearer s h =
     (let auth = (case h ''authorization'' of Some v \<Rightarrow> v | None \<Rightarrow> []) in
      strip_prefix ''Bearer '' auth = Some (cs_auth s))"

definition guarded :: "headers \<Rightarrow> ('s cache_state \<Rightarrow> 's handled) \<Rightarrow> 's cache_state \<Rightarrow> 's handled" where
  "guarded h f s = (if check_bearer s h then f s else (Inl 401, s))"

section \<open>Lookup\<close>

text \<open>\<open>max_by_key\<close>: the last of the greatest elements.\<close>

fun max_by_key :: "('a \<Rightarrow> int) \<Rightarrow> 'a list \<Rightarrow> 'a option" where
  "max_by_key f [] = None"
| "max_by_key f (x # xs) =
     (case max_by_key f xs of None \<Rightarrow> Some x | Some y \<Rightarrow> if f x \<le> f y then Some y else Some x)"

definition committed :: "'s cache_state \<Rightarrow> cache_entry list" where
  "committed s = filter ce_committed (cs_entries s)"

definition exact_match :: "string \<Rightarrow> cache_entry list \<Rightarrow> string \<Rightarrow> cache_entry option" where
  "exact_match v es k = find (\<lambda>e. ce_key e = k \<and> ce_version e = v) es"

definition prefix_match :: "string \<Rightarrow> cache_entry list \<Rightarrow> string \<Rightarrow> cache_entry option" where
  "prefix_match v es k = max_by_key ce_created (filter (\<lambda>e. starts_with (ce_key e) k \<and> ce_version e = v) es)"

fun first_some :: "('a \<Rightarrow> 'b option) \<Rightarrow> 'a list \<Rightarrow> 'b option" where
  "first_some f [] = None"
| "first_some f (x # xs) = (case f x of Some y \<Rightarrow> Some y | None \<Rightarrow> first_some f xs)"

text \<open>All keys are tried exactly before any is tried as a prefix.\<close>

definition find_entry :: "string list \<Rightarrow> string list \<Rightarrow> string \<Rightarrow> cache_entry list \<Rightarrow> cache_entry option" where
  "find_entry exact restores v es =
     (case first_some (exact_match v es) exact of
        Some e \<Rightarrow> Some e
      | None \<Rightarrow> first_some (prefix_match v es) restores)"

definition lookup_keys :: "string \<Rightarrow> string list" where
  "lookup_keys q = map trim (split_on (CHR '','') q)"

definition lookup_cache :: "headers \<Rightarrow> string \<Rightarrow> string \<Rightarrow> 's cache_state \<Rightarrow> 's handled" where
  "lookup_cache h keys v =
     guarded h (\<lambda>s.
       (let host = (case h ''host'' of Some x \<Rightarrow> x | None \<Rightarrow> ''localhost:9090'');
            ks = lookup_keys keys
        in case find_entry ks ks v (committed s) of
             Some e \<Rightarrow> (Inr (Hit (''http://'' @ host @ ''/_apis/artifactcache/artifacts/'' @ show_int (ce_id e)) (ce_key e)), s)
           | None \<Rightarrow> (Inr Miss, s)))"

section \<open>Saving, version 1\<close>

text \<open>A committed entry of the same key and version, as far as the index knows it, goes first.\<close>

definition drop_indexed :: "string \<Rightarrow> string \<Rightarrow> 's cache_state \<Rightarrow> 's cache_state" where
  "drop_indexed k v s =
     (case cs_index s (k, v) of
        None \<Rightarrow> s
      | Some old \<Rightarrow>
          s\<lparr>cs_index := (cs_index s)((k, v) := None), cs_entries := filter (\<lambda>e. ce_id e \<noteq> old) (cs_entries s)\<rparr>)"

definition new_entry :: "call_env \<Rightarrow> int \<Rightarrow> string \<Rightarrow> string \<Rightarrow> string option \<Rightarrow> cache_entry" where
  "new_entry io i k v sk =
     \<lparr>ce_id = i, ce_key = k, ce_version = v, ce_committed = False, ce_size = 0, ce_s3_key = sk, ce_created = io_now io\<rparr>"

definition reserve_cache :: "call_env \<Rightarrow> headers \<Rightarrow> string \<Rightarrow> string \<Rightarrow> 's cache_state \<Rightarrow> 's handled" where
  "reserve_cache io h k v =
     guarded h (\<lambda>s0.
       (let s1 = drop_indexed k v s0; i = cs_next s1; s2 = s1\<lparr>cs_next := i + 1\<rparr> in
        if io_create io then
          (let s3 = s2\<lparr>cs_tmp := (cs_tmp s2)(i \<mapsto> []), cs_entries := cs_entries s2 @ [new_entry io i k v None]\<rparr> in
           case save_index io s3 of
             (Inl e, s4) \<Rightarrow> (Inl e, s4)
           | (Inr _, s4) \<Rightarrow> (Inr (Reserved i), s4))
        else (Inl 500, s2)))"

text \<open>Writing at an offset: a gap is filled with zero bytes; writing nothing changes nothing.\<close>

definition write_at :: "nat \<Rightarrow> string \<Rightarrow> string \<Rightarrow> string" where
  "write_at start body c =
     (if body = [] then c
      else take start (c @ replicate (start - length c) (CHR 0x00)) @ body @ drop (start + length body) c)"

definition parse_content_range_start :: "string \<Rightarrow> nat option" where
  "parse_content_range_start r =
     obind (strip_prefix ''bytes '' r) (\<lambda>rest.
     obind (split_once (CHR ''-'') rest) (\<lambda>(a, b). parse_unsigned u64_max a))"

definition upload_chunk :: "call_env \<Rightarrow> headers \<Rightarrow> int \<Rightarrow> string \<Rightarrow> 's cache_state \<Rightarrow> 's handled" where
  "upload_chunk io h i body =
     guarded h (\<lambda>s.
       (case parse_content_range_start (case h ''content-range'' of Some r \<Rightarrow> r | None \<Rightarrow> []) of
          None \<Rightarrow> (Inl 400, s)
        | Some start \<Rightarrow>
            (case cs_tmp s i of
               None \<Rightarrow> (Inl 404, s)
             | Some c \<Rightarrow>
                 if io_open io then (Inr NoContent, s\<lparr>cs_tmp := (cs_tmp s)(i \<mapsto> write_at start body c)\<rparr>)
                 else (Inl 500, s))))"

text \<open>The first entry with the identifier is marked; there may be none any more.\<close>

fun mark_committed :: "int \<Rightarrow> (cache_entry \<Rightarrow> cache_entry) \<Rightarrow> cache_entry list \<Rightarrow> (cache_entry \<times> cache_entry list) option" where
  "mark_committed i f [] = None"
| "mark_committed i f (e # es) =
     (if ce_id e = i then Some (f e, f e # es)
      else map_option (\<lambda>(x, xs). (x, e # xs)) (mark_committed i f es))"

definition index_committed :: "call_env \<Rightarrow> cache_entry \<Rightarrow> cache_entry list \<Rightarrow> cache_answer \<Rightarrow> 's cache_state \<Rightarrow> 's handled" where
  "index_committed io e es ans s =
     (let s1 = s\<lparr>cs_entries := es, cs_index := (cs_index s)((ce_key e, ce_version e) \<mapsto> ce_id e)\<rparr> in
      case save_index io s1 of (Inl x, s2) \<Rightarrow> (Inl x, s2) | (Inr _, s2) \<Rightarrow> (Inr ans, s2))"

definition commit_cache :: "'s s3_ops \<Rightarrow> call_env \<Rightarrow> headers \<Rightarrow> int \<Rightarrow> int \<Rightarrow> 's cache_state \<Rightarrow> 's handled" where
  "commit_cache s3 io h i sz =
     guarded h (\<lambda>s.
       (case cs_tmp s i of
          None \<Rightarrow> (Inl 404, s)
        | Some c \<Rightarrow>
            (case s3_put s3 (cs_store s) (s3_key i) c of
               None \<Rightarrow> (Inl 500, s)
             | Some st \<Rightarrow>
                 (let s1 = s\<lparr>cs_store := st, cs_tmp := (cs_tmp s)(i := None)\<rparr> in
                  case mark_committed i
                    (\<lambda>e. e\<lparr>ce_committed := True, ce_size := sz, ce_s3_key := Some (s3_key i)\<rparr>) (cs_entries s1) of
                    None \<Rightarrow> (Inl 404, s1)
                  | Some (e, es) \<Rightarrow> index_committed io e es NoContent s1))))"

definition get_artifact :: "'s s3_ops \<Rightarrow> headers \<Rightarrow> int \<Rightarrow> 's cache_state \<Rightarrow> 's handled" where
  "get_artifact s3 h i =
     guarded h (\<lambda>s.
       (case s3_get s3 (cs_store s) (s3_key i) of
          None \<Rightarrow> (Inl 404, s)
        | Some c \<Rightarrow> (Inr (Artifact c), s)))"

section \<open>Version 2\<close>

definition twirp_create_cache_entry ::
    "'s s3_ops \<Rightarrow> call_env \<Rightarrow> headers \<Rightarrow> string \<Rightarrow> string \<Rightarrow> 's cache_state \<Rightarrow> 's handled" where
  "twirp_create_cache_entry s3 io h k v =
     guarded h (\<lambda>s0.
       (let s1 = drop_indexed k v s0; i = cs_next s1;
            s2 = s1\<lparr>cs_next := i + 1, cs_entries := cs_entries s1 @ [new_entry io i k v (Some (s3_key i))]\<rparr>
        in case save_index io s2 of
             (Inl e, s3') \<Rightarrow> (Inl e, s3')
           | (Inr _, s3') \<Rightarrow>
               (case s3_presign_put s3 (cs_store s3') (s3_key i) of
                  None \<Rightarrow> (Inl 500, s3')
                | Some url \<Rightarrow> (Inr (UploadUrl url), s3'))))"

text \<open>The first uncommitted entry of the key and version is taken for the one that was uploaded.\<close>

fun finalize_first :: "string \<Rightarrow> string \<Rightarrow> int \<Rightarrow> cache_entry list \<Rightarrow> (cache_entry \<times> cache_entry list) option" where
  "finalize_first k v sz [] = None"
| "finalize_first k v sz (e # es) =
     (if ce_key e = k \<and> ce_version e = v \<and> \<not> ce_committed e
      then (let e' = e\<lparr>ce_committed := True, ce_size := sz\<rparr> in Some (e', e' # es))
      else map_option (\<lambda>(x, xs). (x, e # xs)) (finalize_first k v sz es))"

definition twirp_finalize_cache_entry ::
    "call_env \<Rightarrow> headers \<Rightarrow> string \<Rightarrow> string \<Rightarrow> string \<Rightarrow> 's cache_state \<Rightarrow> 's handled" where
  "twirp_finalize_cache_entry io h k v size_bytes =
     guarded h (\<lambda>s.
       (let sz = (case parse_i64 size_bytes of Some n \<Rightarrow> n | None \<Rightarrow> 0) in
        case finalize_first k v sz (cs_entries s) of
          None \<Rightarrow> (Inl 404, s)
        | Some (e, es) \<Rightarrow> index_committed io e es (Finalized (show_int (ce_id e))) s))"

definition twirp_get_download_url ::
    "'s s3_ops \<Rightarrow> headers \<Rightarrow> string \<Rightarrow> string list \<Rightarrow> string \<Rightarrow> 's cache_state \<Rightarrow> 's handled" where
  "twirp_get_download_url s3 h k restore_keys v =
     guarded h (\<lambda>s.
       (case find_entry [k] restore_keys v (committed s) of
          None \<Rightarrow> (Inr (DownloadUrl False [] []), s)
        | Some e \<Rightarrow>
            (case s3_presign_get s3 (cs_store s) (s3_key (ce_id e)) of
               None \<Rightarrow> (Inl 500, s)
             | Some url \<Rightarrow> (Inr (DownloadUrl True url (ce_key e)), s))))"

section \<open>The service as a machine\<close>

datatype cache_call =
    Lookup headers string string
  | Reserve call_env headers string string
  | Chunk call_env headers int string
  | Commit call_env headers int int
  | Download headers int
  | Create2 call_env headers string string
  | Finalize2 call_env headers string string string
  | Url2 headers string "string list" string

definition serve :: "'s s3_ops \<Rightarrow> cache_call \<Rightarrow> 's cache_state \<Rightarrow> 's handled" where
  "serve s3 c s =
     (case c of
        Lookup h ks v \<Rightarrow> lookup_cache h ks v s
      | Reserve io h k v \<Rightarrow> reserve_cache io h k v s
      | Chunk io h i b \<Rightarrow> upload_chunk io h i b s
      | Commit io h i n \<Rightarrow> commit_cache s3 io h i n s
      | Download h i \<Rightarrow> get_artifact s3 h i s
      | Create2 io h k v \<Rightarrow> twirp_create_cache_entry s3 io h k v s
      | Finalize2 io h k v n \<Rightarrow> twirp_finalize_cache_entry io h k v n s
      | Url2 h k rs v \<Rightarrow> twirp_get_download_url s3 h k rs v s)"

fun call_headers :: "cache_call \<Rightarrow> headers" where
  "call_headers (Lookup h _ _) = h"
| "call_headers (Reserve _ h _ _) = h"
| "call_headers (Chunk _ h _ _) = h"
| "call_headers (Commit _ h _ _) = h"
| "call_headers (Download h _) = h"
| "call_headers (Create2 _ h _ _) = h"
| "call_headers (Finalize2 _ h _ _ _) = h"
| "call_headers (Url2 h _ _ _) = h"

lemmas cache_handlers =
  lookup_cache_def reserve_cache_def upload_chunk_def commit_cache_def get_artifact_def
  twirp_create_cache_entry_def twirp_finalize_cache_entry_def twirp_get_download_url_def

text \<open>A client may also change the store through a URL it was given.\<close>

inductive cache_step :: "'s s3_ops \<Rightarrow> 's cache_state \<Rightarrow> 's cache_state \<Rightarrow> bool" for s3 where
  call: "cache_step s3 s (snd (serve s3 c s))"
| direct: "cache_step s3 s (s\<lparr>cs_store := st\<rparr>)"

definition cache_init :: "'s cache_state \<Rightarrow> bool" where
  "cache_init s \<longleftrightarrow> (\<exists>saved tmp token store. s = cache_new saved tmp token store \<and>
     (\<forall>es. saved = Some es \<longrightarrow> distinct (map ce_id es)))"

text \<open>
  The invariant: identifiers are distinct and below the counter, and the index names, for a key
  and version, a committed entry with that key and version.
\<close>

definition cache_inv :: "'s cache_state \<Rightarrow> bool" where
  "cache_inv s \<longleftrightarrow>
     distinct (map ce_id (cs_entries s)) \<and>
     (\<forall>e \<in> set (cs_entries s). ce_id e < cs_next s) \<and>
     (\<forall>k v i. cs_index s (k, v) = Some i \<longrightarrow>
        (\<exists>e \<in> set (cs_entries s). ce_id e = i \<and> ce_key e = k \<and> ce_version e = v \<and> ce_committed e))"

lemma index_of_entries_in:
  "index_of_entries es (k, v) = Some i \<Longrightarrow>
     \<exists>e \<in> set es. ce_id e = i \<and> ce_key e = k \<and> ce_version e = v \<and> ce_committed e"
proof (induction es arbitrary: i rule: rev_induct)
  case Nil
  then show ?case by (simp add: index_of_entries_def)
next
  case (snoc e es)
  then show ?case by (auto simp: index_of_entries_def split: if_splits)
qed

lemma next_id_above: "e \<in> set es \<Longrightarrow> ce_id e < next_id_of es"
proof -
  assume e: "e \<in> set es"
  then have "ce_id e \<le> Max (set (map ce_id es))" by simp
  with e show ?thesis by (auto simp: next_id_of_def)
qed

lemma cache_inv_cong:
  "cs_entries t = cs_entries s \<Longrightarrow> cs_index t = cs_index s \<Longrightarrow> cs_next t = cs_next s \<Longrightarrow> cache_inv t = cache_inv s"
  by (simp add: cache_inv_def)

lemma cache_inv_cleanup [simp]: "cache_inv (cleanup_stale_temps s) = cache_inv s"
  by (rule cache_inv_cong) (simp_all add: cleanup_stale_temps_def Let_def)

lemma cache_inv_new:
  "distinct (map ce_id es) \<Longrightarrow>
     cache_inv \<lparr>cs_entries = es, cs_index = index_of_entries es, cs_next = next_id_of es, cs_tmp = tmp,
       cs_saved = saved, cs_auth = token, cs_store = store\<rparr>"
  unfolding cache_inv_def cache_state.simps
  using index_of_entries_in next_id_above by blast

lemma cache_inv_init: "cache_init s \<Longrightarrow> cache_inv s"
  by (auto simp: cache_init_def cache_new_def Let_def intro!: cache_inv_new split: option.splits)

lemma save_index_fields [simp]:
  "cs_entries (snd (save_index io s)) = cs_entries s"
  "cs_index (snd (save_index io s)) = cs_index s"
  "cs_next (snd (save_index io s)) = cs_next s"
  "cs_store (snd (save_index io s)) = cs_store s"
  "cs_tmp (snd (save_index io s)) = cs_tmp s"
  "cs_auth (snd (save_index io s)) = cs_auth s"
  by (simp_all add: save_index_def)

lemma cache_inv_save [simp]: "cache_inv (snd (save_index io s)) = cache_inv s"
  by (rule cache_inv_cong) simp_all

lemma distinct_entries_eq:
  "distinct (map ce_id es) \<Longrightarrow> e \<in> set es \<Longrightarrow> e' \<in> set es \<Longrightarrow> ce_id e = ce_id e' \<Longrightarrow> e = e'"
  by (metis distinct_map inj_onD)

lemma cache_inv_drop:
  assumes "cache_inv s"
  shows "cache_inv (drop_indexed k v s)"
proof (cases "cs_index s (k, v)")
  case None
  with assms show ?thesis by (simp add: drop_indexed_def)
next
  case (Some old)
  have keep: "\<exists>e \<in> set (cs_entries s). ce_id e \<noteq> old \<and> ce_id e = i \<and> ce_key e = k' \<and> ce_version e = v' \<and> ce_committed e"
    if idx: "cs_index s (k', v') = Some i" and other: "(k', v') \<noteq> (k, v)" for k' v' i
  proof -
    obtain e where e: "e \<in> set (cs_entries s)" "ce_id e = i" "ce_key e = k'" "ce_version e = v'" "ce_committed e"
      using assms idx unfolding cache_inv_def by blast
    obtain e0 where e0: "e0 \<in> set (cs_entries s)" "ce_id e0 = old" "ce_key e0 = k" "ce_version e0 = v"
      using assms Some unfolding cache_inv_def by blast
    have "e \<noteq> e0" using e e0 other by auto
    then have "ce_id e \<noteq> old"
      using distinct_entries_eq e(1) e0(1,2) assms by (metis cache_inv_def)
    with e show ?thesis by blast
  qed
  let ?t = "s\<lparr>cs_index := (cs_index s)((k, v) := None), cs_entries := filter (\<lambda>e. ce_id e \<noteq> old) (cs_entries s)\<rparr>"
  have "cache_inv ?t"
    unfolding cache_inv_def
  proof (intro conjI allI impI)
    fix k' v' i
    assume "cs_index ?t (k', v') = Some i"
    then have "cs_index s (k', v') = Some i" and "(k', v') \<noteq> (k, v)" by (auto split: if_splits)
    from keep [OF this] show "\<exists>e \<in> set (cs_entries ?t). ce_id e = i \<and> ce_key e = k' \<and> ce_version e = v' \<and> ce_committed e"
      by auto
  qed (use assms in \<open>auto simp: cache_inv_def distinct_map_filter_fst\<close>)
  with Some show ?thesis by (simp add: drop_indexed_def)
qed

lemma cache_inv_add:
  assumes "cache_inv s"
  shows "cache_inv (s\<lparr>cs_next := cs_next s + 1, cs_entries := cs_entries s @ [new_entry io (cs_next s) k v sk]\<rparr>)"
proof -
  have "cs_next s \<notin> ce_id ` set (cs_entries s)" using assms by (auto simp: cache_inv_def)
  with assms show ?thesis by (fastforce simp: cache_inv_def new_entry_def)
qed

lemma cache_inv_next: "cache_inv s \<Longrightarrow> cache_inv (s\<lparr>cs_next := cs_next s + 1\<rparr>)"
  by (fastforce simp: cache_inv_def)

lemma cache_inv_tmp [simp]: "cache_inv (s\<lparr>cs_tmp := x\<rparr>) = cache_inv s" "cache_inv (s\<lparr>cs_store := st\<rparr>) = cache_inv s"
  by (simp_all add: cache_inv_def)

text \<open>Marking an entry changes that entry only, and neither its identifier nor its key.\<close>

definition same_name :: "cache_entry \<Rightarrow> cache_entry \<Rightarrow> bool" where
  "same_name e e' \<longleftrightarrow> ce_id e' = ce_id e \<and> ce_key e' = ce_key e \<and> ce_version e' = ce_version e \<and> ce_committed e'"

lemma mark_committed_split:
  "mark_committed i f es = Some (x, xs) \<Longrightarrow> \<exists>a e b. es = a @ e # b \<and> x = f e \<and> xs = a @ x # b \<and> ce_id e = i"
proof (induction es arbitrary: xs)
  case (Cons d ds)
  show ?case
  proof (cases "ce_id d = i")
    case True
    with Cons.prems show ?thesis by (intro exI [of _ "[]"]) auto
  next
    case False
    with Cons obtain ys a e b where "xs = d # ys" "ds = a @ e # b" "x = f e" "ys = a @ x # b" "ce_id e = i"
      by auto
    then show ?thesis by (intro exI [of _ "d # a"]) auto
  qed
qed simp

lemma finalize_first_split:
  "finalize_first k v n es = Some (x, xs) \<Longrightarrow>
     \<exists>a e b. es = a @ e # b \<and> x = e\<lparr>ce_committed := True, ce_size := n\<rparr> \<and> xs = a @ x # b \<and>
       ce_key e = k \<and> ce_version e = v \<and> \<not> ce_committed e"
proof (induction es arbitrary: xs)
  case (Cons d ds)
  show ?case
  proof (cases "ce_key d = k \<and> ce_version d = v \<and> \<not> ce_committed d")
    case True
    with Cons.prems show ?thesis by (intro exI [of _ "[]"]) (auto simp: Let_def)
  next
    case False
    with Cons obtain ys a e b where "xs = d # ys" "ds = a @ e # b" "x = e\<lparr>ce_committed := True, ce_size := n\<rparr>"
      "ys = a @ x # b" "ce_key e = k" "ce_version e = v" "\<not> ce_committed e"
      by (auto simp: Let_def split: if_splits)
    then show ?thesis by (intro exI [of _ "d # a"]) auto
  qed
qed simp

lemma cache_inv_index:
  assumes "cache_inv s" and "cs_entries s = a @ e # b" and "same_name e x"
  shows "cache_inv (snd (index_committed io x (a @ x # b) ans s))"
proof -
  have "cache_inv (s\<lparr>cs_entries := a @ x # b, cs_index := (cs_index s)((ce_key x, ce_version x) \<mapsto> ce_id x)\<rparr>)"
    using assms by (fastforce simp: cache_inv_def same_name_def)
  then show ?thesis
    by (auto simp: index_committed_def save_index_def cache_inv_def Let_def)
qed

lemma guarded_inv: "cache_inv s \<Longrightarrow> (\<And>s. cache_inv s \<Longrightarrow> cache_inv (snd (f s))) \<Longrightarrow> cache_inv (snd (guarded h f s))"
  by (simp add: guarded_def)

lemma save_index_inv: "save_index io s = (r, t) \<Longrightarrow> cache_inv s \<Longrightarrow> cache_inv t"
  using cache_inv_save [of io s] by simp

lemma inv_reserve: "cache_inv s \<Longrightarrow> cache_inv (snd (reserve_cache io h k v s))"
  unfolding reserve_cache_def
proof (rule guarded_inv, assumption)
  fix s :: "'a cache_state"
  assume "cache_inv s"
  then have D: "cache_inv (drop_indexed k v s)" by (rule cache_inv_drop)
  have A: "cache_inv ((drop_indexed k v s)\<lparr>cs_next := cs_next (drop_indexed k v s) + 1, cs_tmp := T,
      cs_entries := cs_entries (drop_indexed k v s) @ [new_entry io (cs_next (drop_indexed k v s)) k v None]\<rparr>)" for T
    using cache_inv_add [OF D, of io k v None] by (simp add: cache_inv_def)
  show "cache_inv (snd (let s1 = drop_indexed k v s; i = cs_next s1; s2 = s1\<lparr>cs_next := i + 1\<rparr> in
        if io_create io then
          (let s3 = s2\<lparr>cs_tmp := (cs_tmp s2)(i \<mapsto> []), cs_entries := cs_entries s2 @ [new_entry io i k v None]\<rparr> in
           case save_index io s3 of (Inl e, s4) \<Rightarrow> (Inl e, s4) | (Inr _, s4) \<Rightarrow> (Inr (Reserved i), s4))
        else (Inl 500, s2)))"
    using A cache_inv_next [OF D] by (auto simp: Let_def split: prod.splits sum.splits dest: save_index_inv)
qed

lemma inv_create2: "cache_inv s \<Longrightarrow> cache_inv (snd (twirp_create_cache_entry s3 io h k v s))"
  unfolding twirp_create_cache_entry_def
proof (rule guarded_inv, assumption)
  fix s :: "'a cache_state"
  assume "cache_inv s"
  then have D: "cache_inv (drop_indexed k v s)" by (rule cache_inv_drop)
  show "cache_inv (snd (let s1 = drop_indexed k v s; i = cs_next s1;
            s2 = s1\<lparr>cs_next := i + 1, cs_entries := cs_entries s1 @ [new_entry io i k v (Some (s3_key i))]\<rparr>
        in case save_index io s2 of
             (Inl e, s3') \<Rightarrow> (Inl e, s3')
           | (Inr _, s3') \<Rightarrow>
               (case s3_presign_put s3 (cs_store s3') (s3_key i) of
                  None \<Rightarrow> (Inl 500, s3') | Some url \<Rightarrow> (Inr (UploadUrl url), s3'))))"
    using cache_inv_add [OF D, of io k v]
    by (auto simp: Let_def split: prod.splits sum.splits option.splits dest: save_index_inv)
qed

lemma inv_commit: "cache_inv s \<Longrightarrow> cache_inv (snd (commit_cache s3 io h i n s))"
  unfolding commit_cache_def
  by (rule guarded_inv)
     (auto simp: Let_def same_name_def split: option.splits prod.splits
       dest!: mark_committed_split intro!: cache_inv_index)

lemma inv_finalize2: "cache_inv s \<Longrightarrow> cache_inv (snd (twirp_finalize_cache_entry io h k v n s))"
  unfolding twirp_finalize_cache_entry_def
  by (rule guarded_inv)
     (auto simp: Let_def same_name_def split: option.splits prod.splits
       dest!: finalize_first_split intro!: cache_inv_index)

lemma inv_reads:
  "cache_inv s \<Longrightarrow> cache_inv (snd (lookup_cache h ks v s))"
  "cache_inv s \<Longrightarrow> cache_inv (snd (get_artifact s3 h i s))"
  "cache_inv s \<Longrightarrow> cache_inv (snd (twirp_get_download_url s3 h k rs v s))"
  "cache_inv s \<Longrightarrow> cache_inv (snd (upload_chunk io h i b s))"
  by (auto simp: lookup_cache_def get_artifact_def twirp_get_download_url_def upload_chunk_def guarded_def Let_def
      split: option.splits)

lemma cache_inv_serve: "cache_inv s \<Longrightarrow> cache_inv (snd (serve s3 c s))"
  by (cases c) (simp_all add: serve_def inv_reserve inv_create2 inv_commit inv_finalize2 inv_reads)

lemma cache_inv_step: "cache_step s3 s t \<Longrightarrow> cache_inv s \<Longrightarrow> cache_inv t"
  by (induction rule: cache_step.induct) (simp_all add: cache_inv_serve)

interpretation cache: inv_system cache_init "cache_step s3" cache_inv for s3
  by unfold_locales (blast intro: cache_inv_init cache_inv_step)+

section \<open>Chunks\<close>

text \<open>
  A chunk of a target: its bytes at its offset. After any sequence of chunks the file agrees with
  the target on every position that has been written.
\<close>

definition chunk_of :: "string \<Rightarrow> nat \<times> string \<Rightarrow> bool" where
  "chunk_of T c \<longleftrightarrow> fst c + length (snd c) \<le> length T \<and> snd c = take (length (snd c)) (drop (fst c) T)"

definition covers :: "nat \<times> string \<Rightarrow> nat \<Rightarrow> bool" where
  "covers c i \<longleftrightarrow> fst c \<le> i \<and> i < fst c + length (snd c)"

definition write_all :: "(nat \<times> string) list \<Rightarrow> string \<Rightarrow> string" where
  "write_all cs f = fold (\<lambda>(start, body). write_at start body) cs f"

lemma length_write_at: "body \<noteq> [] \<Longrightarrow> length (write_at start body f) = max (length f) (start + length body)"
  by (auto simp: write_at_def)

lemma nth_write_at:
  assumes "i < length (write_at start body f)"
  shows "write_at start body f ! i =
    (if start \<le> i \<and> i < start + length body then body ! (i - start)
     else if i < length f then f ! i else CHR 0x00)"
proof (cases "body = []")
  case True
  then show ?thesis using assms by (auto simp: write_at_def)
next
  case False
  then show ?thesis
    using assms by (auto simp: write_at_def nth_append min_def not_less)
qed

lemma write_all_agrees:
  assumes "\<And>c. c \<in> set cs \<Longrightarrow> chunk_of T c" and "length f \<le> length T"
    and "\<And>i. W i \<Longrightarrow> i < length f \<and> f ! i = T ! i"
  shows "length (write_all cs f) \<le> length T \<and>
    (\<forall>i. W i \<or> (\<exists>c \<in> set cs. covers c i) \<longrightarrow> i < length (write_all cs f) \<and> write_all cs f ! i = T ! i)"
  using assms
proof (induction cs arbitrary: f W)
  case Nil
  then show ?case by (simp add: write_all_def)
next
  case (Cons c cs)
  obtain start body where c: "c = (start, body)" by (cases c)
  have chunk: "start + length body \<le> length T" "body = take (length body) (drop start T)"
    using Cons.prems(1) [of c] by (auto simp: c chunk_of_def)
  let ?g = "write_at start body f"
  have len: "length ?g \<le> length T" "length f \<le> length ?g" "body \<noteq> [] \<Longrightarrow> start + length body \<le> length ?g"
    using chunk(1) Cons.prems(2) by (auto simp: write_at_def length_write_at)
  have body: "body ! (i - start) = T ! i" if "start \<le> i" "i < start + length body" for i
  proof -
    have "body ! (i - start) = take (length body) (drop start T) ! (i - start)" using chunk(2) by simp
    also have "\<dots> = T ! i" using that chunk(1) by simp
    finally show ?thesis .
  qed
  have "i < length ?g \<and> ?g ! i = T ! i" if "W i \<or> covers c i" for i
  proof -
    have "i < length ?g"
      using that len(2,3) Cons.prems(3) [of i] by (cases "body = []") (auto simp: covers_def c)
    then show ?thesis using that body Cons.prems(3) [of i] by (auto simp: nth_write_at covers_def c)
  qed
  then have "length (write_all cs ?g) \<le> length T \<and>
    (\<forall>i. (W i \<or> covers c i) \<or> (\<exists>c \<in> set cs. covers c i) \<longrightarrow> i < length (write_all cs ?g) \<and> write_all cs ?g ! i = T ! i)"
    using Cons.prems(1) len(1) by (intro Cons.IH) auto
  moreover have "write_all (c # cs) f = write_all cs ?g" by (simp add: write_all_def c)
  ultimately show ?case by auto
qed

lemma write_all_complete:
  assumes "\<And>c. c \<in> set cs \<Longrightarrow> chunk_of T c" and "\<And>i. i < length T \<Longrightarrow> \<exists>c \<in> set cs. covers c i"
  shows "write_all cs [] = T"
proof -
  note A = write_all_agrees [OF assms(1), of cs "[]" "\<lambda>_. False", simplified]
  show ?thesis
  proof (rule nth_equalityI)
    show "length (write_all cs []) = length T"
    proof (rule ccontr)
      assume "length (write_all cs []) \<noteq> length T"
      then have "length (write_all cs []) < length T" using A by simp
      then show False using A assms(2) by blast
    qed
  qed (use A assms(2) in auto)
qed

text \<open>Uploading the chunks of an archive, each with its own headers.\<close>

definition range_headers :: "string \<Rightarrow> nat \<Rightarrow> headers" where
  "range_headers tok start =
     [''authorization'' \<mapsto> ''Bearer '' @ tok, ''content-range'' \<mapsto> ''bytes '' @ show_nat start @ ''-/*'']"

fun upload_all :: "call_env \<Rightarrow> int \<Rightarrow> (nat \<times> string) list \<Rightarrow> 's cache_state \<Rightarrow> 's cache_state" where
  "upload_all io i [] s = s"
| "upload_all io i ((start, body) # cs) s =
     upload_all io i cs (snd (upload_chunk io (range_headers (cs_auth s) start) i body s))"

lemma range_start: "n \<le> u64_max \<Longrightarrow> parse_content_range_start (''bytes '' @ show_nat n @ ''-/*'') = Some n"
proof -
  assume n: "n \<le> u64_max"
  have "CHR ''-'' \<notin> set (show_nat n)" by (rule show_nat_avoids) (simp add: digit_val_def)
  then have "split_once (CHR ''-'') (show_nat n @ CHR ''-'' # ''/*'') = Some (show_nat n, ''/*'')"
    by (rule split_once_app)
  then show ?thesis
    using parse_show_nat [OF n] strip_prefix_append [of "''bytes ''" "show_nat n @ ''-/*''"]
    unfolding parse_content_range_start_def by (simp only: obind.simps append_Cons append_Nil prod.case)
qed

lemma upload_all_file:
  assumes "io_open io" and "cs_tmp s i = Some f" and "\<And>c. c \<in> set cs \<Longrightarrow> fst c \<le> u64_max"
  shows "upload_all io i cs s = s\<lparr>cs_tmp := (cs_tmp s)(i \<mapsto> write_all cs f)\<rparr>"
  using assms(2,3)
proof (induction cs arbitrary: s f)
  case Nil
  then have "(cs_tmp s)(i \<mapsto> f) = cs_tmp s" by (simp add: fun_upd_idem)
  then show ?case by (simp add: write_all_def)
next
  case (Cons c cs)
  obtain start body where c: "c = (start, body)" by (cases c)
  have start: "parse_content_range_start (''bytes '' @ show_nat start @ ''-/*'') = Some start"
    using Cons.prems(2) [of c] range_start by (simp add: c)
  let ?s = "s\<lparr>cs_tmp := (cs_tmp s)(i \<mapsto> write_at start body f)\<rparr>"
  have "range_headers (cs_auth s) start ''content-range'' = Some (''bytes '' @ show_nat start @ ''-/*'')"
    by (simp add: range_headers_def)
  moreover have "check_bearer s (range_headers (cs_auth s) start)"
    using strip_prefix_append [of "''Bearer ''" "cs_auth s"]
    by (simp add: check_bearer_def range_headers_def)
  ultimately have "snd (upload_chunk io (range_headers (cs_auth s) start) i body s) = ?s"
    using start assms(1) Cons.prems(1) by (simp add: upload_chunk_def guarded_def del: append_Cons)
  moreover have "upload_all io i cs ?s = ?s\<lparr>cs_tmp := (cs_tmp ?s)(i \<mapsto> write_all cs (write_at start body f))\<rparr>"
    using Cons.prems(2) by (intro Cons.IH) simp_all
  moreover have "?s\<lparr>cs_tmp := (cs_tmp ?s)(i \<mapsto> x)\<rparr> = s\<lparr>cs_tmp := (cs_tmp s)(i \<mapsto> x)\<rparr>" for x
    by simp
  moreover have "write_all (c # cs) f = write_all cs (write_at start body f)"
    by (simp add: write_all_def c)
  ultimately show ?case by (simp only: c upload_all.simps)
qed

lemma upload_all_keeps: "cs_auth (upload_all io i cs s) = cs_auth s" if "io_open io" "cs_tmp s i \<noteq> None"
    "\<And>c. c \<in> set cs \<Longrightarrow> fst c \<le> u64_max"
  using that upload_all_file by fastforce

section \<open>Lookups\<close>

lemma max_by_key_None [simp]: "max_by_key f xs = None \<longleftrightarrow> xs = []"
  by (cases xs) (auto split: option.splits)

lemma max_by_key_in: "max_by_key f xs = Some x \<Longrightarrow> x \<in> set xs \<and> (\<forall>y \<in> set xs. f y \<le> f x)"
proof (induction xs arbitrary: x)
  case (Cons a xs)
  then show ?case by (cases "max_by_key f xs") (fastforce split: if_splits)+
qed simp

lemma first_some_None: "first_some f xs = None \<longleftrightarrow> (\<forall>x \<in> set xs. f x = None)"
  by (induction xs) (auto split: option.splits)

lemma first_some_Some: "first_some f xs = Some y \<Longrightarrow> \<exists>x \<in> set xs. f x = Some y"
  by (induction xs) (auto split: option.splits)

lemma find_entry_None:
  "find_entry ks rs v es = None \<longleftrightarrow>
     (\<forall>e \<in> set es. ce_version e = v \<longrightarrow> ce_key e \<notin> set ks \<and> (\<forall>r \<in> set rs. \<not> starts_with (ce_key e) r))"
proof (cases "first_some (exact_match v es) ks")
  case None
  then have "\<forall>d \<in> set es. ce_version d = v \<longrightarrow> ce_key d \<notin> set ks"
    by (auto simp: first_some_None exact_match_def find_None_iff_all)
  moreover have "find_entry ks rs v es = first_some (prefix_match v es) rs" using None by (simp add: find_entry_def)
  ultimately show ?thesis
    by (auto simp: first_some_None prefix_match_def filter_empty_conv)
next
  case (Some e)
  then obtain k where "k \<in> set ks" "exact_match v es k = Some e"
    using first_some_Some by fastforce
  with Some show ?thesis by (auto simp: find_entry_def exact_match_def dest!: find_SomeD)
qed

lemma find_entry_Some:
  assumes "find_entry ks rs v es = Some e"
  shows "e \<in> set es \<and> ce_version e = v \<and>
    (ce_key e \<in> set ks \<or>
     (\<forall>d \<in> set es. ce_version d = v \<longrightarrow> ce_key d \<notin> set ks) \<and>
     (\<exists>r \<in> set rs. starts_with (ce_key e) r \<and>
        (\<forall>d \<in> set es. ce_version d = v \<and> starts_with (ce_key d) r \<longrightarrow> ce_created d \<le> ce_created e)))"
proof (cases "first_some (exact_match v es) ks")
  case None
  then have no: "\<forall>d \<in> set es. ce_version d = v \<longrightarrow> ce_key d \<notin> set ks"
    by (auto simp: first_some_None exact_match_def find_None_iff_all)
  obtain r where r: "r \<in> set rs" "prefix_match v es r = Some e"
    using assms None first_some_Some by (fastforce simp: find_entry_def)
  from max_by_key_in [OF r(2) [unfolded prefix_match_def]] no r(1) show ?thesis by auto
next
  case (Some d)
  with assms have d: "first_some (exact_match v es) ks = Some e" by (simp add: find_entry_def)
  obtain k where "k \<in> set ks" "exact_match v es k = Some e"
    using first_some_Some [OF d] by blast
  then show ?thesis by (auto simp: exact_match_def dest: find_SomeD)
qed

lemma set_committed: "e \<in> set (committed s) \<longleftrightarrow> e \<in> set (cs_entries s) \<and> ce_committed e"
  by (auto simp: committed_def)

definition artifact_url :: "headers \<Rightarrow> int \<Rightarrow> string" where
  "artifact_url h i =
     ''http://'' @ (case h ''host'' of Some x \<Rightarrow> x | None \<Rightarrow> ''localhost:9090'') @ ''/_apis/artifactcache/artifacts/'' @ show_int i"

lemma lookup_cache_eq:
  "check_bearer s h \<Longrightarrow> lookup_cache h keys v s =
     (Inr (case find_entry (lookup_keys keys) (lookup_keys keys) v (committed s) of
             Some e \<Rightarrow> Hit (artifact_url h (ce_id e)) (ce_key e) | None \<Rightarrow> Miss), s)"
  by (simp add: lookup_cache_def guarded_def Let_def artifact_url_def split: option.splits del: append_Cons)

section \<open>A whole upload\<close>

definition auth_headers :: "string \<Rightarrow> headers" where
  "auth_headers tok = [''authorization'' \<mapsto> ''Bearer '' @ tok]"

lemma check_bearer_auth: "check_bearer s (auth_headers tok) \<longleftrightarrow> tok = cs_auth s"
  by (auto simp: check_bearer_def auth_headers_def strip_prefix_Some_iff)

text \<open>What the client of version 1 does to save: reserve, send the chunks, commit.\<close>

definition save_archive ::
    "'s s3_ops \<Rightarrow> call_env \<Rightarrow> string \<Rightarrow> string \<Rightarrow> (nat \<times> string) list \<Rightarrow> int \<Rightarrow> 's cache_state \<Rightarrow> 's handled" where
  "save_archive s3 io k v cs n s =
     (let h = auth_headers (cs_auth s); i = cs_next s;
          s1 = snd (reserve_cache io h k v s);
          s2 = upload_all io i cs s1
      in commit_cache s3 io h i n s2)"

lemma mark_committed_snoc:
  "ce_id e = i \<Longrightarrow> i \<notin> ce_id ` set es \<Longrightarrow> mark_committed i f (es @ [e]) = Some (f e, es @ [f e])"
  by (induction es) auto

lemma save_index_ok: "io_index io \<Longrightarrow> save_index io s = (Inr (), s\<lparr>cs_saved := Some (cs_entries s)\<rparr>)"
  by (simp add: save_index_def)

lemma drop_indexed_fields [simp]:
  "cs_next (drop_indexed k v s) = cs_next s" "cs_tmp (drop_indexed k v s) = cs_tmp s"
  "cs_auth (drop_indexed k v s) = cs_auth s" "cs_store (drop_indexed k v s) = cs_store s"
  by (simp_all add: drop_indexed_def split: option.splits)

lemma reserve_ok:
  assumes "io_create io" "io_index io"
  shows "reserve_cache io (auth_headers (cs_auth s)) k v s =
    (Inr (Reserved (cs_next s)),
     (let d = drop_indexed k v s; es = cs_entries d @ [new_entry io (cs_next s) k v None] in
      d\<lparr>cs_next := cs_next s + 1, cs_tmp := (cs_tmp s)(cs_next s \<mapsto> []), cs_entries := es, cs_saved := Some es\<rparr>))"
  using assms by (simp add: reserve_cache_def guarded_def check_bearer_auth Let_def save_index_ok)

lemma find_append: "find P (xs @ ys) = (case find P xs of None \<Rightarrow> find P ys | Some x \<Rightarrow> Some x)"
  by (induction xs) auto

lemma save_archive_ok:
  assumes io: "io_create io" "io_open io" "io_index io" and inv: "cache_inv s"
    and put: "s3_put s3 (cs_store s) (s3_key (cs_next s)) T = Some st"
    and chunk: "\<And>c. c \<in> set cs \<Longrightarrow> chunk_of T c" and cover: "\<And>i. i < length T \<Longrightarrow> \<exists>c \<in> set cs. covers c i"
    and u64: "length T \<le> u64_max"
  shows "\<exists>t. save_archive s3 io k v cs n s = (Inr NoContent, t) \<and> cs_store t = st \<and> cs_auth t = cs_auth s \<and>
    cs_entries t = cs_entries (drop_indexed k v s) @
      [(new_entry io (cs_next s) k v None)\<lparr>ce_committed := True, ce_size := n, ce_s3_key := Some (s3_key (cs_next s))\<rparr>]"
proof -
  define i where "i = cs_next s"
  define d where "d = drop_indexed k v s"
  define es where "es = cs_entries d @ [new_entry io i k v None]"
  define s1 where "s1 = d\<lparr>cs_next := i + 1, cs_tmp := (cs_tmp s)(i \<mapsto> []), cs_entries := es, cs_saved := Some es\<rparr>"
  have D: "cache_inv d" unfolding d_def by (rule cache_inv_drop [OF inv])
  have new: "i \<notin> ce_id ` set (cs_entries d)" using D by (auto simp: cache_inv_def d_def i_def)
  have s1: "snd (reserve_cache io (auth_headers (cs_auth s)) k v s) = s1"
    using reserve_ok [OF io(1,3), of s k v] by (simp add: s1_def es_def d_def i_def Let_def)
  have starts: "fst c \<le> u64_max" if "c \<in> set cs" for c
    using chunk [OF that] u64 by (auto simp: chunk_of_def)
  have s2: "upload_all io i cs s1 = s1\<lparr>cs_tmp := (cs_tmp s1)(i \<mapsto> T)\<rparr>"
    using upload_all_file [of io s1 i "[]" cs] io(2) starts write_all_complete [of cs T, OF chunk cover]
    by (simp add: s1_def)
  have mark: "mark_committed i f es = Some (f (new_entry io i k v None), cs_entries d @ [f (new_entry io i k v None)])" for f
    unfolding es_def by (rule mark_committed_snoc) (use new in \<open>simp_all add: new_entry_def\<close>)
  have "s3_put s3 (cs_store s1) (s3_key i) T = Some st" using put by (simp add: s1_def d_def i_def)
  then have "\<exists>t. commit_cache s3 io (auth_headers (cs_auth s)) i n (s1\<lparr>cs_tmp := (cs_tmp s1)(i \<mapsto> T)\<rparr>) = (Inr NoContent, t) \<and>
     cs_store t = st \<and> cs_auth t = cs_auth s \<and>
     cs_entries t = cs_entries d @ [(new_entry io i k v None)\<lparr>ce_committed := True, ce_size := n, ce_s3_key := Some (s3_key i)\<rparr>]"
    using io(3) mark
    by (simp add: commit_cache_def guarded_def check_bearer_auth index_committed_def save_index_ok Let_def s1_def d_def)
  then show ?thesis
    unfolding save_archive_def Let_def i_def [symmetric] s1 s2 d_def [symmetric] .
qed

section \<open>Properties\<close>


text \<open>A store that is a map from names to contents.\<close>

definition map_s3 :: "(string \<Rightarrow> string option) s3_ops" where
  "map_s3 = \<lparr>s3_put = (\<lambda>st k c. Some (st(k \<mapsto> c))), s3_get = (\<lambda>st k. st k),
     s3_presign_put = (\<lambda>st k. Some (''put:'' @ k)), s3_presign_get = (\<lambda>st k. Some (''get:'' @ k))\<rparr>"

definition good_io :: call_env where
  "good_io = \<lparr>io_create = True, io_open = True, io_index = True, io_now = 0\<rparr>"

definition empty_cache :: "(string \<Rightarrow> string option) cache_state" where
  "empty_cache = cache_new None Map.empty ''tok'' Map.empty"

lemma cache_init_empty: "cache_init empty_cache"
  unfolding cache_init_def empty_cache_def by (intro exI conjI) (rule refl, simp)




text \<open>C32: A lookup with the right token answers a miss exactly when no committed entry of the version asked
  for has a key that begins with one of the keys given, and a hit otherwise names a committed entry of
  that version: one whose key is among the keys, or, when no committed entry has one of them, a newest
  entry among those that begin with one of them.\<close>

theorem lookup_cache_spec:
  assumes "check_bearer s h"
  shows "\<exists>ans. lookup_cache h keys v s = (Inr ans, s) \<and>
    (ans = Miss \<longleftrightarrow> (\<forall>e \<in> set (committed s). ce_version e = v \<longrightarrow>
       (\<forall>q \<in> set (lookup_keys keys). \<not> starts_with (ce_key e) q))) \<and>
    (ans \<noteq> Miss \<longrightarrow> (\<exists>e \<in> set (committed s). ans = Hit (artifact_url h (ce_id e)) (ce_key e) \<and> ce_version e = v \<and>
       (ce_key e \<in> set (lookup_keys keys) \<or>
        (\<forall>d \<in> set (committed s). ce_version d = v \<longrightarrow> ce_key d \<notin> set (lookup_keys keys)) \<and>
        (\<exists>q \<in> set (lookup_keys keys). starts_with (ce_key e) q \<and>
          (\<forall>d \<in> set (committed s). ce_version d = v \<and> starts_with (ce_key d) q \<longrightarrow> ce_created d \<le> ce_created e)))))"
proof (cases "find_entry (lookup_keys keys) (lookup_keys keys) v (committed s)")
  case None
  then have "lookup_cache h keys v s = (Inr Miss, s)" by (simp add: lookup_cache_eq [OF assms])
  with None show ?thesis by (intro exI [of _ Miss]) (simp add: find_entry_None)
next
  case (Some e)
  note S = find_entry_Some [OF Some]
  then have "\<exists>q \<in> set (lookup_keys keys). starts_with (ce_key e) q" using starts_with_self by blast
  moreover have "lookup_cache h keys v s = (Inr (Hit (artifact_url h (ce_id e)) (ce_key e)), s)"
    by (simp add: lookup_cache_eq [OF assms] Some)
  ultimately show ?thesis
    using S by (intro exI [of _ "Hit (artifact_url h (ce_id e)) (ce_key e)"]) (simp only:, blast)
qed

text \<open>C34: Every handler refuses a request whose authorization header is not exactly the scheme and the
  token of the service: the answer is 401 and nothing is changed.\<close>

theorem cache_requires_token:
  assumes "call_headers c ''authorization'' \<noteq> Some (''Bearer '' @ cs_auth s)"
  shows "serve s3 c s = (Inl 401, s)"
proof -
  have "\<not> check_bearer s (call_headers c)"
  proof (cases "call_headers c ''authorization''")
    case (Some a)
    with assms have "a \<noteq> ''Bearer '' @ cs_auth s" by (simp del: append_Cons)
    with Some show ?thesis by (simp add: check_bearer_def strip_prefix_Some_iff del: append_Cons)
  qed (simp add: check_bearer_def)
  then show ?thesis by (cases c) (simp_all add: serve_def cache_handlers guarded_def)
qed

theorem cache_requires_token_witness:
  "serve map_s3 (Commit good_io (auth_headers ''nope'') 1 5) empty_cache = (Inl 401, empty_cache)"
  by (rule cache_requires_token)
     (simp add: auth_headers_def empty_cache_def cache_new_def cleanup_stale_temps_def Let_def)

definition old_and_new :: "(string \<Rightarrow> string option) cache_state" where
  "old_and_new =
     (let mk = \<lambda>i k t. \<lparr>ce_id = i, ce_key = k, ce_version = ''v'', ce_committed = True, ce_size = 1,
        ce_s3_key = None, ce_created = t\<rparr>
      in cache_new (Some [mk 1 ''npm-a'' 10, mk 2 ''npm-b'' 20]) Map.empty ''tok'' Map.empty)"

theorem lookup_cache_spec_witness:
  "\<exists>ans. lookup_cache (auth_headers ''tok'') ''zig,npm-'' ''v'' old_and_new = (Inr ans, old_and_new) \<and> ans \<noteq> Miss \<and>
     (\<exists>e \<in> set (committed old_and_new). ans = Hit (artifact_url (auth_headers ''tok'') (ce_id e)) (ce_key e) \<and> ce_id e = 2)"
proof -
  let ?s = old_and_new
  have auth: "check_bearer ?s (auth_headers ''tok'')"
    by (simp add: check_bearer_auth old_and_new_def Let_def cache_new_def cleanup_stale_temps_def)
  have keys: "lookup_keys ''zig,npm-'' = [''zig'', ''npm-'']" by code_simp
  have com: "committed ?s = cs_entries ?s" and es: "map ce_id (cs_entries ?s) = [1, 2]"
    "map ce_key (cs_entries ?s) = [''npm-a'', ''npm-b'']" "map ce_created (cs_entries ?s) = [10, 20]"
    "map ce_version (cs_entries ?s) = [''v'', ''v'']"
    by (simp_all add: committed_def old_and_new_def Let_def cache_new_def cleanup_stale_temps_def)
  obtain a b where ab: "cs_entries ?s = [a, b]"
    using es(1) by (auto simp: map_eq_Cons_conv)
  have pre: "starts_with ''npm-a'' ''npm-''" "starts_with ''npm-b'' ''npm-''" "\<not> starts_with ''npm-a'' ''zig''"
    "\<not> starts_with ''npm-b'' ''zig''" by (simp_all add: starts_with_def)
  have a: "ce_id a = 1" "ce_key a = ''npm-a''" "ce_version a = ''v''" "ce_created a = 10"
    and b: "ce_id b = 2" "ce_key b = ''npm-b''" "ce_version b = ''v''" "ce_created b = 20"
    using es by (simp_all add: ab)
  obtain ans where L: "lookup_cache (auth_headers ''tok'') ''zig,npm-'' ''v'' ?s = (Inr ans, ?s)"
    and M: "ans = Miss \<longleftrightarrow> (\<forall>e \<in> set [a, b]. ce_version e = ''v'' \<longrightarrow>
       (\<forall>q \<in> set [''zig'', ''npm-'']. \<not> starts_with (ce_key e) q))"
    and S: "ans \<noteq> Miss \<longrightarrow> (\<exists>e \<in> set [a, b]. ans = Hit (artifact_url (auth_headers ''tok'') (ce_id e)) (ce_key e) \<and>
       ce_version e = ''v'' \<and> (ce_key e \<in> set [''zig'', ''npm-''] \<or>
        (\<forall>d \<in> set [a, b]. ce_version d = ''v'' \<longrightarrow> ce_key d \<notin> set [''zig'', ''npm-'']) \<and>
        (\<exists>q \<in> set [''zig'', ''npm-'']. starts_with (ce_key e) q \<and>
          (\<forall>d \<in> set [a, b]. ce_version d = ''v'' \<and> starts_with (ce_key d) q \<longrightarrow> ce_created d \<le> ce_created e))))"
    using lookup_cache_spec [OF auth, of "''zig,npm-''" "''v''"] unfolding keys com ab by blast
  have N: "ans \<noteq> Miss" using M pre b by simp
  with S obtain e where e: "e \<in> set [a, b]" "ans = Hit (artifact_url (auth_headers ''tok'') (ce_id e)) (ce_key e)"
    "ce_key e \<in> set [''zig'', ''npm-''] \<or> (\<exists>q \<in> set [''zig'', ''npm-'']. starts_with (ce_key e) q \<and>
      (\<forall>d \<in> set [a, b]. ce_version d = ''v'' \<and> starts_with (ce_key d) q \<longrightarrow> ce_created d \<le> ce_created e))"
    by blast
  have "e \<noteq> a"
  proof
    assume "e = a"
    with e(3) pre a b show False by simp
  qed
  with e L N b show ?thesis unfolding com ab by (intro exI [of _ ans]) simp
qed

definition run_cache_calls :: "'s s3_ops \<Rightarrow> cache_call list \<Rightarrow> 's cache_state \<Rightarrow> 's cache_state" where
  "run_cache_calls s3 cs s = fold (\<lambda>c s. snd (serve s3 c s)) cs s"

definition crossed_saves :: "string \<Rightarrow> string \<Rightarrow> cache_call list" where
  "crossed_saves k v =
     (let h = auth_headers ''tok'' in
      [Reserve good_io h k v, Reserve good_io h k v, Commit good_io h 1 0, Commit good_io h 2 0])"

text \<open>A second save of a key that was reserved twice before either save was committed leaves a stale
  entry for good: the lookup keeps returning the older archive, and a later save of the same key, which
  replaces only the entry the index names, does not change that.\<close>

theorem crossed_saves_serve_stale_entry:
  "let s = run_cache_calls map_s3 (crossed_saves k v) empty_cache;
       t = run_cache_calls map_s3 [Reserve good_io (auth_headers ''tok'') k v, Commit good_io (auth_headers ''tok'') 3 0] s
   in cs_index s (k, v) = Some 2 \<and> cs_index t (k, v) = Some 3 \<and>
      fst (twirp_get_download_url map_s3 (auth_headers ''tok'') k [] v s) = Inr (DownloadUrl True (''get:'' @ s3_key 1) k) \<and>
      fst (twirp_get_download_url map_s3 (auth_headers ''tok'') k [] v t) = Inr (DownloadUrl True (''get:'' @ s3_key 1) k)"
  by (simp add: run_cache_calls_def crossed_saves_def Let_def serve_def reserve_cache_def commit_cache_def guarded_def
      check_bearer_auth empty_cache_def cache_new_def cleanup_stale_temps_def next_id_of_def index_of_entries_def
      drop_indexed_def new_entry_def good_io_def save_index_def index_committed_def map_s3_def
      twirp_get_download_url_def find_entry_def exact_match_def committed_def)

definition crossed_uploads :: "string \<Rightarrow> string \<Rightarrow> (string \<Rightarrow> string option) cache_state" where
  "crossed_uploads k v =
     (let h = auth_headers ''tok'';
          s = run_cache_calls map_s3 [Create2 good_io h k v, Create2 good_io h k v] empty_cache;
          s' = s\<lparr>cs_store := (cs_store s)(s3_key 2 \<mapsto> ''archive'')\<rparr>
      in run_cache_calls map_s3 [Finalize2 good_io h k v ''7''] s')"

lemma s3_key_12 [simp]: "s3_key 1 \<noteq> s3_key 2"
  by code_simp

text \<open>When two uploads of the same key by the second API are in flight, finalizing the one whose archive
  arrived commits the entry created first, whose archive was never stored: the download address then
  names an object that does not exist.\<close>

theorem finalize_takes_first_entry:
  "fst (twirp_get_download_url map_s3 (auth_headers ''tok'') k [] v (crossed_uploads k v)) =
     Inr (DownloadUrl True (''get:'' @ s3_key 1) k) \<and>
   cs_store (crossed_uploads k v) (s3_key 1) = None \<and>
   fst (get_artifact map_s3 (auth_headers ''tok'') 1 (crossed_uploads k v)) = Inl 404"
  by (simp add: crossed_uploads_def run_cache_calls_def Let_def serve_def twirp_create_cache_entry_def
      twirp_finalize_cache_entry_def get_artifact_def guarded_def
      check_bearer_auth empty_cache_def cache_new_def cleanup_stale_temps_def next_id_of_def index_of_entries_def
      drop_indexed_def new_entry_def good_io_def save_index_def index_committed_def map_s3_def
      twirp_get_download_url_def find_entry_def exact_match_def committed_def)
end
