(* ===== verification/Api_Server.thy ===== *)
theory Api_Server
  imports Pool Github Cache_Server
begin

text \<open>
  The management API: the state the server shares with the orchestrator, the routes and handlers
  (\<open>src/src/api/server.rs\<close>), and the client behind the commands of the program
  (\<open>src/src/api/client.rs\<close>). A handler takes a request the framework has routed and decoded and
  gives a status, a body and the new state. The pools are an association list with distinct names,
  in the order in which the hash map happens to be read. Requests and answers carry JSON values;
  their text is the business of the packages on both sides.
\<close>

section \<open>State\<close>

record vm_info =
  vi_id :: string
  vi_job :: nat
  vi_repo :: string
  vi_slot :: nat
  vi_started :: string

record vm_log_event =
  le_vm :: string
  le_type :: string
  le_message :: string
  le_timestamp :: string

record server_state =
  sv_start :: nat
  sv_version :: string
  sv_key :: "string option"
  sv_vms :: "vm_info list"
  sv_mode :: string
  sv_pools :: "(string \<times> pool_config \<times> pool_state) list"

definition server_new :: "nat \<Rightarrow> string \<Rightarrow> server_config \<Rightarrow> server_state" where
  "server_new now ver cfg =
     \<lparr>sv_start = now, sv_version = ver, sv_key = sv_api_key cfg, sv_vms = [], sv_mode = ''starting'',
      sv_pools = []\<rparr>"

definition register_vm :: "vm_info \<Rightarrow> server_state \<Rightarrow> server_state" where
  "register_vm v s = s\<lparr>sv_vms := sv_vms s @ [v]\<rparr>"

definition unregister_vm :: "string \<Rightarrow> server_state \<Rightarrow> server_state" where
  "unregister_vm i s = s\<lparr>sv_vms := filter (\<lambda>v. vi_id v \<noteq> i) (sv_vms s)\<rparr>"

definition set_mode :: "string \<Rightarrow> server_state \<Rightarrow> server_state" where
  "set_mode m s = s\<lparr>sv_mode := m\<rparr>"

definition set_pools :: "(string \<times> pool_config \<times> pool_state) list \<Rightarrow> server_state \<Rightarrow> server_state" where
  "set_pools ps s = s\<lparr>sv_pools := ps\<rparr>"

section \<open>Answers\<close>

definition vm_info_json :: "vm_info \<Rightarrow> json" where
  "vm_info_json v = json_obj
     [(''vm_id'', JStr (vi_id v)), (''job_id'', JNum (int (vi_job v))), (''repo'', JStr (vi_repo v)),
      (''slot'', JNum (int (vi_slot v))), (''started_at'', JStr (vi_started v))]"

definition pool_status_json :: "pool_status \<Rightarrow> json" where
  "pool_status_json p = json_obj
     [(''name'', JStr (st_name p)), (''repos'', JArr (map JStr (st_repos p))),
      (''min_ready'', JNum (int (st_min_ready p))), (''max_ready'', JNum (int (st_max_ready p))),
      (''active'', JNum (int (st_active p))), (''idle_slots'', JNum (int (st_idle_slots p))),
      (''paused'', JBool (st_paused p))]"

definition event_json :: "vm_log_event \<Rightarrow> json" where
  "event_json e = json_obj
     [(''vm_id'', JStr (le_vm e)), (''event_type'', JStr (le_type e)), (''message'', JStr (le_message e)),
      (''timestamp'', JStr (le_timestamp e))]"

definition action_json :: "string \<Rightarrow> json" where
  "action_json m = json_obj [(''message'', JStr m)]"

text \<open>A stream carries the VM it is limited to and the event types it is limited to.\<close>

datatype api_body = Empty | Text string | Body json | Stream "string option" "string list option"

type_synonym api_answer = "nat \<times> api_body"

section \<open>Log streams\<close>

definition parse_type_filter :: "string option \<Rightarrow> string list option" where
  "parse_type_filter q = map_option (\<lambda>t. filter (\<lambda>s. s \<noteq> []) (map trim (split_on (CHR '','') t))) q"

definition matches_type_filter :: "vm_log_event \<Rightarrow> string list option \<Rightarrow> bool" where
  "matches_type_filter e f = (case f of None \<Rightarrow> True | Some ts \<Rightarrow> le_type e \<in> set ts)"

text \<open>What a stream sends of the events broadcast while it is open: the event's name and its data.\<close>

definition stream_event :: "string option \<Rightarrow> string list option \<Rightarrow> vm_log_event \<Rightarrow> (string \<times> json) option" where
  "stream_event vm f e =
     (if (case vm of None \<Rightarrow> True | Some i \<Rightarrow> le_vm e = i) \<and> matches_type_filter e f
      then Some (le_type e, event_json e) else None)"

definition stream_events ::
    "string option \<Rightarrow> string list option \<Rightarrow> vm_log_event list \<Rightarrow> (string \<times> json) list" where
  "stream_events vm f es = map the (filter (\<lambda>x. x \<noteq> None) (map (stream_event vm f) es))"

section \<open>Handlers\<close>

definition check_auth :: "server_state \<Rightarrow> headers \<Rightarrow> bool" where
  "check_auth s h =
     (case sv_key s of
        None \<Rightarrow> True
      | Some k \<Rightarrow> (case h ''x-api-key'' of Some v \<Rightarrow> v | None \<Rightarrow> []) = k)"

type_synonym handled_api = "api_answer \<times> server_state"

definition with_auth :: "headers \<Rightarrow> (server_state \<Rightarrow> handled_api) \<Rightarrow> server_state \<Rightarrow> handled_api" where
  "with_auth h f s = (if check_auth s h then f s else ((401, Empty), s))"

text \<open>The clock and the text of the metrics registry.\<close>

record api_env =
  ae_now :: nat
  ae_metrics :: string

definition metrics_handler :: "api_env \<Rightarrow> server_state \<Rightarrow> handled_api" where
  "metrics_handler env s = ((200, Text (ae_metrics env)), s)"

definition root_handler :: "api_env \<Rightarrow> server_state \<Rightarrow> handled_api" where
  "root_handler env s = ((200, Body (json_obj
     [(''service'', JStr ''fc-runner''), (''version'', JStr (sv_version s)),
      (''uptime_seconds'', JNum (int (ae_now env - sv_start s)))])), s)"

definition healthz_handler :: "server_state \<Rightarrow> handled_api" where
  "healthz_handler s = ((200, Text ''ok''), s)"

definition status_handler :: "api_env \<Rightarrow> server_state \<Rightarrow> handled_api" where
  "status_handler env s = ((200, Body (json_obj
     [(''version'', JStr (sv_version s)), (''uptime_seconds'', JNum (int (ae_now env - sv_start s))),
      (''mode'', JStr (sv_mode s)), (''active_vms'', JNum (int (length (sv_vms s))))])), s)"

definition list_vms_handler :: "headers \<Rightarrow> server_state \<Rightarrow> handled_api" where
  "list_vms_handler h = with_auth h (\<lambda>s. ((200, Body (JArr (map vm_info_json (sv_vms s)))), s))"

text \<open>Killing a VM is not implemented: 404 for an unknown VM, 501 for a known one.\<close>

definition delete_vm_handler :: "headers \<Rightarrow> string \<Rightarrow> server_state \<Rightarrow> handled_api" where
  "delete_vm_handler h i = with_auth h (\<lambda>s.
     if \<exists>v \<in> set (sv_vms s). vi_id v = i
     then ((501, Body (action_json (''VM '' @ i @ '' exists but kill is not yet implemented''))), s)
     else ((404, Empty), s))"

definition list_pools_handler :: "headers \<Rightarrow> server_state \<Rightarrow> handled_api" where
  "list_pools_handler h = with_auth h (\<lambda>s.
     ((200, Body (JArr (map pool_status_json
        (sort_key st_name (map (\<lambda>(_, pc, p). pool_status_of pc p) (sv_pools s)))))), s))"

definition get_pool_handler :: "headers \<Rightarrow> string \<Rightarrow> server_state \<Rightarrow> handled_api" where
  "get_pool_handler h n = with_auth h (\<lambda>s.
     case map_of (sv_pools s) n of
       None \<Rightarrow> ((404, Empty), s)
     | Some (pc, p) \<Rightarrow> ((200, Body (pool_status_json (pool_status_of pc p))), s))"

text \<open>An operation on one pool: the manager is shared, so its state changes in place.\<close>

definition update_pool :: "string \<Rightarrow> (pool_state \<Rightarrow> pool_state) \<Rightarrow> server_state \<Rightarrow> server_state" where
  "update_pool n f s =
     s\<lparr>sv_pools := map (\<lambda>(m, pc, p). (m, pc, if m = n then f p else p)) (sv_pools s)\<rparr>"

definition on_pool :: "string \<Rightarrow> (pool_state \<Rightarrow> pool_state) \<Rightarrow> string \<Rightarrow> server_state \<Rightarrow> handled_api" where
  "on_pool n f msg s =
     (case map_of (sv_pools s) n of
        None \<Rightarrow> ((404, Empty), s)
      | Some _ \<Rightarrow> ((200, Body (action_json msg)), update_pool n f s))"

definition show_opt :: "nat option \<Rightarrow> string" where
  "show_opt x = (case x of None \<Rightarrow> ''None'' | Some n \<Rightarrow> ''Some('' @ show_nat n @ '')'')"

definition scale_message :: "string \<Rightarrow> nat option \<Rightarrow> nat option \<Rightarrow> string" where
  "scale_message n mn mx = ''pool '' @ [CHR 0x27] @ n @ [CHR 0x27] @ '' scaled (min_ready: '' @ show_opt mn @
     '', max_ready: '' @ show_opt mx @ '')''"

definition scale_pool_handler ::
    "headers \<Rightarrow> string \<Rightarrow> nat option \<Rightarrow> nat option \<Rightarrow> server_state \<Rightarrow> handled_api" where
  "scale_pool_handler h n mn mx = with_auth h (on_pool n (pool_scale mn mx) (scale_message n mn mx))"

definition pause_pool_handler :: "headers \<Rightarrow> string \<Rightarrow> server_state \<Rightarrow> handled_api" where
  "pause_pool_handler h n = with_auth h (on_pool n pool_pause (''pool '' @ [CHR 0x27] @ n @ [CHR 0x27] @ '' paused''))"

definition resume_pool_handler :: "headers \<Rightarrow> string \<Rightarrow> server_state \<Rightarrow> handled_api" where
  "resume_pool_handler h n = with_auth h (on_pool n pool_resume (''pool '' @ [CHR 0x27] @ n @ [CHR 0x27] @ '' resumed''))"

definition logs_sse_handler :: "headers \<Rightarrow> string option \<Rightarrow> string option \<Rightarrow> server_state \<Rightarrow> handled_api" where
  "logs_sse_handler h vm q = with_auth h (\<lambda>s. ((200, Stream vm (parse_type_filter q)), s))"

section \<open>Routes\<close>

datatype api_call =
    Root | Metrics | Healthz | Status | ListVms | DeleteVm string
  | ListPools | GetPool string | ScalePool string | PausePool string | ResumePool string
  | Logs | VmLogs string

text \<open>A path parameter is a non-empty segment.\<close>

definition route :: "http_method \<Rightarrow> string list \<Rightarrow> api_call option" where
  "route m p =
     (if m = GET then
        (if p = [[]] then Some Root
         else if p = [''metrics''] then Some Metrics
         else if p = [''healthz''] then Some Healthz
         else if p = [''api'', ''v1'', ''status''] then Some Status
         else if p = [''api'', ''v1'', ''vms''] then Some ListVms
         else if p = [''api'', ''v1'', ''pools''] then Some ListPools
         else if p = [''api'', ''v1'', ''logs''] then Some Logs
         else if take 3 p = [''api'', ''v1'', ''pools''] \<and> length p = 4 \<and> p ! 3 \<noteq> [] then Some (GetPool (p ! 3))
         else if take 3 p = [''api'', ''v1'', ''vms''] \<and> length p = 5 \<and> p ! 3 \<noteq> [] \<and> p ! 4 = ''logs''
           then Some (VmLogs (p ! 3))
         else None)
      else if m = DELETE then
        (if take 3 p = [''api'', ''v1'', ''vms''] \<and> length p = 4 \<and> p ! 3 \<noteq> [] then Some (DeleteVm (p ! 3)) else None)
      else if m = POST then
        (if take 3 p = [''api'', ''v1'', ''pools''] \<and> length p = 5 \<and> p ! 3 \<noteq> [] then
           (if p ! 4 = ''scale'' then Some (ScalePool (p ! 3))
            else if p ! 4 = ''pause'' then Some (PausePool (p ! 3))
            else if p ! 4 = ''resume'' then Some (ResumePool (p ! 3)) else None)
         else None)
      else None)"

record api_request =
  aq_method :: http_method
  aq_path :: "string list"
  aq_type :: "string option"
  aq_headers :: headers
  aq_body :: "json option"

definition de_scale :: "json \<Rightarrow> (nat option \<times> nat option) option" where
  "de_scale j =
     (if is_obj j then
        obind (de_opt as_u64 ''min_ready'' j) (\<lambda>mn. obind (de_opt as_u64 ''max_ready'' j) (\<lambda>mx. Some (mn, mx)))
      else None)"

definition api_handle :: "api_env \<Rightarrow> api_request \<Rightarrow> api_call \<Rightarrow> server_state \<Rightarrow> handled_api" where
  "api_handle env r c s =
     (let h = aq_headers r in
      case c of
        Root \<Rightarrow> root_handler env s
      | Metrics \<Rightarrow> metrics_handler env s
      | Healthz \<Rightarrow> healthz_handler s
      | Status \<Rightarrow> status_handler env s
      | ListVms \<Rightarrow> list_vms_handler h s
      | DeleteVm i \<Rightarrow> delete_vm_handler h i s
      | ListPools \<Rightarrow> list_pools_handler h s
      | GetPool n \<Rightarrow> get_pool_handler h n s
      | ScalePool n \<Rightarrow>
          (case aq_body r of
             None \<Rightarrow> ((400, Empty), s)
           | Some j \<Rightarrow>
               (case de_scale j of
                  None \<Rightarrow> ((422, Empty), s)
                | Some (mn, mx) \<Rightarrow> scale_pool_handler h n mn mx s))
      | PausePool n \<Rightarrow> pause_pool_handler h n s
      | ResumePool n \<Rightarrow> resume_pool_handler h n s
      | Logs \<Rightarrow> logs_sse_handler h None (aq_type r) s
      | VmLogs i \<Rightarrow> logs_sse_handler h (Some i) (aq_type r) s)"

text \<open>A path without a route is 404, one with a route for another method 405.\<close>

definition api_serve :: "api_env \<Rightarrow> api_request \<Rightarrow> server_state \<Rightarrow> handled_api" where
  "api_serve env r s =
     (case route (aq_method r) (aq_path r) of
        Some c \<Rightarrow> api_handle env r c s
      | None \<Rightarrow>
          ((if list_ex (\<lambda>m. route m (aq_path r) \<noteq> None) [GET, POST, DELETE] then 405 else 404, Empty), s))"

fun public_call :: "api_call \<Rightarrow> bool" where
  "public_call Root = True"
| "public_call Metrics = True"
| "public_call Healthz = True"
| "public_call Status = True"
| "public_call _ = False"

lemmas api_handlers =
  list_vms_handler_def delete_vm_handler_def list_pools_handler_def get_pool_handler_def
  scale_pool_handler_def pause_pool_handler_def resume_pool_handler_def logs_sse_handler_def

section \<open>The client\<close>

definition client_base :: "string \<Rightarrow> string" where
  "client_base endpoint = rev (dropWhile (\<lambda>c. c = CHR ''/'') (rev endpoint))"

definition pools_url :: "string \<Rightarrow> string \<Rightarrow> string" where
  "pools_url base n = base @ ''/api/v1/pools/'' @ n"

definition logs_url :: "string \<Rightarrow> string option \<Rightarrow> string" where
  "logs_url base vm =
     (case vm of Some i \<Rightarrow> base @ ''/api/v1/vms/'' @ i @ ''/logs'' | None \<Rightarrow> base @ ''/api/v1/logs'')"

text \<open>A request as it leaves the client: method, URL and body. No key is ever sent.\<close>

record client_request =
  cq_method :: http_method
  cq_url :: string
  cq_body :: "json option"

definition scale_body :: "nat option \<Rightarrow> nat option \<Rightarrow> json" where
  "scale_body mn mx = json_obj
     ((case mn of None \<Rightarrow> [] | Some n \<Rightarrow> [(''min_ready'', JNum (int n))]) @
      (case mx of None \<Rightarrow> [] | Some n \<Rightarrow> [(''max_ready'', JNum (int n))]))"

definition get_url :: "string \<Rightarrow> client_request" where
  "get_url u = \<lparr>cq_method = GET, cq_url = u, cq_body = None\<rparr>"

definition scale_request :: "string \<Rightarrow> string \<Rightarrow> nat option \<Rightarrow> nat option \<Rightarrow> client_request" where
  "scale_request base n mn mx =
     \<lparr>cq_method = POST, cq_url = pools_url base n @ ''/scale'', cq_body = Some (scale_body mn mx)\<rparr>"

definition pause_request :: "string \<Rightarrow> string \<Rightarrow> client_request" where
  "pause_request base n = \<lparr>cq_method = POST, cq_url = pools_url base n @ ''/pause'', cq_body = None\<rparr>"

definition resume_request :: "string \<Rightarrow> string \<Rightarrow> client_request" where
  "resume_request base n = \<lparr>cq_method = POST, cq_url = pools_url base n @ ''/resume'', cq_body = None\<rparr>"

datatype client_error = NotConnected | Refused nat | BadResponse

text \<open>
  The way through the network: the URL below the server's address becomes the path, the
  answer's body is read by \<open>rd\<close>. A URL elsewhere does not connect.
\<close>

definition on_the_wire :: "string \<Rightarrow> client_request \<Rightarrow> api_request option" where
  "on_the_wire base q =
     map_option (\<lambda>p. \<lparr>aq_method = cq_method q, aq_path = split_on (CHR ''/'') p, aq_type = None,
        aq_headers = (\<lambda>_. None), aq_body = cq_body q\<rparr>)
       (strip_prefix (base @ ''/'') (cq_url q))"

definition read_answer :: "(json \<Rightarrow> 'a option) \<Rightarrow> api_answer \<Rightarrow> (client_error, 'a) result" where
  "read_answer rd a =
     (if 200 \<le> fst a \<and> fst a < 300
      then (case snd a of Body j \<Rightarrow> ok_or (rd j) BadResponse | _ \<Rightarrow> Inl BadResponse)
      else Inl (Refused (fst a)))"

definition client_send ::
    "api_env \<Rightarrow> string \<Rightarrow> client_request \<Rightarrow> (json \<Rightarrow> 'a option) \<Rightarrow> server_state
      \<Rightarrow> (client_error, 'a) result \<times> server_state" where
  "client_send env base q rd s =
     (case on_the_wire base q of
        None \<Rightarrow> (Inl NotConnected, s)
      | Some r \<Rightarrow> (let (a, s') = api_serve env r s in (read_answer rd a, s')))"

definition de_action :: "json \<Rightarrow> string option" where
  "de_action j = de_req as_str ''message'' j"

definition de_vm_info :: "json \<Rightarrow> vm_info option" where
  "de_vm_info j =
     obind (de_req as_str ''vm_id'' j) (\<lambda>i. obind (de_req as_u64 ''job_id'' j) (\<lambda>b.
     obind (de_req as_str ''repo'' j) (\<lambda>r. obind (de_req as_u64 ''slot'' j) (\<lambda>sl.
     obind (de_req as_str ''started_at'' j) (\<lambda>t.
     Some \<lparr>vi_id = i, vi_job = b, vi_repo = r, vi_slot = sl, vi_started = t\<rparr>)))))"

definition de_pool_status :: "json \<Rightarrow> pool_status option" where
  "de_pool_status j =
     obind (de_req as_str ''name'' j) (\<lambda>n.
     obind (de_req (\<lambda>v. obind (as_arr v) (all_some as_str)) ''repos'' j) (\<lambda>rs.
     obind (de_req as_u64 ''min_ready'' j) (\<lambda>mn. obind (de_req as_u64 ''max_ready'' j) (\<lambda>mx.
     obind (de_req as_u64 ''active'' j) (\<lambda>a. obind (de_req as_u64 ''idle_slots'' j) (\<lambda>i.
     obind (de_req as_bool ''paused'' j) (\<lambda>p.
     Some \<lparr>st_name = n, st_repos = rs, st_min_ready = mn, st_max_ready = mx, st_active = a,
           st_idle_slots = i, st_paused = p\<rparr>)))))))"

definition de_list :: "(json \<Rightarrow> 'a option) \<Rightarrow> json \<Rightarrow> 'a list option" where
  "de_list rd j = obind (as_arr j) (all_some rd)"

record status_info =
  si_version :: string
  si_uptime :: nat
  si_mode :: string
  si_active :: nat

definition de_status :: "json \<Rightarrow> status_info option" where
  "de_status j =
     obind (de_req as_str ''version'' j) (\<lambda>v. obind (de_req as_u64 ''uptime_seconds'' j) (\<lambda>u.
     obind (de_req as_str ''mode'' j) (\<lambda>m. obind (de_req as_u64 ''active_vms'' j) (\<lambda>a.
     Some \<lparr>si_version = v, si_uptime = u, si_mode = m, si_active = a\<rparr>))))"

definition client_status :: "api_env \<Rightarrow> string \<Rightarrow> server_state \<Rightarrow> (client_error, status_info) result \<times> server_state" where
  "client_status env base = client_send env base (get_url (base @ ''/api/v1/status'')) de_status"

definition client_list_vms :: "api_env \<Rightarrow> string \<Rightarrow> server_state \<Rightarrow> (client_error, vm_info list) result \<times> server_state" where
  "client_list_vms env base = client_send env base (get_url (base @ ''/api/v1/vms'')) (de_list de_vm_info)"

definition client_list_pools ::
    "api_env \<Rightarrow> string \<Rightarrow> server_state \<Rightarrow> (client_error, pool_status list) result \<times> server_state" where
  "client_list_pools env base = client_send env base (get_url (base @ ''/api/v1/pools'')) (de_list de_pool_status)"

definition client_get_pool ::
    "api_env \<Rightarrow> string \<Rightarrow> string \<Rightarrow> server_state \<Rightarrow> (client_error, pool_status) result \<times> server_state" where
  "client_get_pool env base n = client_send env base (get_url (pools_url base n)) de_pool_status"

definition client_scale_pool ::
    "api_env \<Rightarrow> string \<Rightarrow> string \<Rightarrow> nat option \<Rightarrow> nat option \<Rightarrow> server_state
      \<Rightarrow> (client_error, string) result \<times> server_state" where
  "client_scale_pool env base n mn mx = client_send env base (scale_request base n mn mx) de_action"

definition client_pause_pool ::
    "api_env \<Rightarrow> string \<Rightarrow> string \<Rightarrow> server_state \<Rightarrow> (client_error, string) result \<times> server_state" where
  "client_pause_pool env base n = client_send env base (pause_request base n) de_action"

definition client_resume_pool ::
    "api_env \<Rightarrow> string \<Rightarrow> string \<Rightarrow> server_state \<Rightarrow> (client_error, string) result \<times> server_state" where
  "client_resume_pool env base n = client_send env base (resume_request base n) de_action"

section \<open>From the client to the pool\<close>

text \<open>Names that a URL carries as they are.\<close>

definition url_chars :: string where
  "url_chars = ''ABCDEFGHIJKLMNOPQRSTUVWXYZabcdefghijklmnopqrstuvwxyz0123456789-_''"

definition plain_name :: "string \<Rightarrow> bool" where
  "plain_name n \<longleftrightarrow> n \<noteq> [] \<and> list_all (\<lambda>c. c \<in> set url_chars) n"

lemma slash_not_url: "CHR ''/'' \<notin> set url_chars"
  by code_simp

lemma plain_no_slash: "plain_name n \<Longrightarrow> CHR ''/'' \<notin> set n"
  using slash_not_url by (auto simp: plain_name_def list_all_iff)

lemma plain_not_Nil: "plain_name n \<Longrightarrow> n \<noteq> []"
  by (simp add: plain_name_def)

lemma strip_base: "strip_prefix (base @ ''/'') (base @ CHR ''/'' # p) = Some p"
  by (simp add: strip_prefix_Some_iff)

lemma wire_path:
  "cq_url q = base @ CHR ''/'' # p \<Longrightarrow> on_the_wire base q =
     Some \<lparr>aq_method = cq_method q, aq_path = split_on (CHR ''/'') p, aq_type = None,
        aq_headers = (\<lambda>_. None), aq_body = cq_body q\<rparr>"
  by (simp only: on_the_wire_def strip_base option.map)

lemma split_pool_path:
  assumes "plain_name n"
  shows "split_on (CHR ''/'') (''api/v1/pools/'' @ n) = [''api'', ''v1'', ''pools'', n]"
    and "CHR ''/'' \<notin> set w \<Longrightarrow>
      split_on (CHR ''/'') (''api/v1/pools/'' @ n @ CHR ''/'' # w) = [''api'', ''v1'', ''pools'', n, w]"
  using plain_no_slash [OF assms] by (simp_all add: split_on_append split_on_no_sep)

lemma route_pool [simp]:
  "n \<noteq> [] \<Longrightarrow> route GET [''api'', ''v1'', ''pools'', n] = Some (GetPool n)"
  "n \<noteq> [] \<Longrightarrow> route POST [''api'', ''v1'', ''pools'', n, ''scale''] = Some (ScalePool n)"
  "n \<noteq> [] \<Longrightarrow> route POST [''api'', ''v1'', ''pools'', n, ''pause''] = Some (PausePool n)"
  "n \<noteq> [] \<Longrightarrow> route POST [''api'', ''v1'', ''pools'', n, ''resume''] = Some (ResumePool n)"
  "route GET [''api'', ''v1'', ''pools''] = Some ListPools"
  "route GET [''api'', ''v1'', ''vms''] = Some ListVms"
  by (simp_all add: route_def)

lemma send_pool_command:
  assumes "plain_name n" and "w \<in> {''scale'', ''pause'', ''resume''}"
    and "cq_url q = pools_url base n @ CHR ''/'' # w" and "cq_method q = POST"
  shows "client_send env base q rd s =
    (let (a, s') = api_handle env \<lparr>aq_method = POST, aq_path = [''api'', ''v1'', ''pools'', n, w], aq_type = None,
        aq_headers = (\<lambda>_. None), aq_body = cq_body q\<rparr>
       (if w = ''scale'' then ScalePool n else if w = ''pause'' then PausePool n else ResumePool n) s
     in (read_answer rd a, s'))"
proof -
  have w: "CHR ''/'' \<notin> set w" using assms(2) by auto
  have "on_the_wire base q = Some \<lparr>aq_method = POST, aq_path = [''api'', ''v1'', ''pools'', n, w], aq_type = None,
        aq_headers = (\<lambda>_. None), aq_body = cq_body q\<rparr>"
    using wire_path [of q base "''api/v1/pools/'' @ n @ CHR ''/'' # w"] assms(3,4)
      split_pool_path(2) [OF assms(1) w] by (simp add: pools_url_def)
  moreover have "route POST [''api'', ''v1'', ''pools'', n, w] =
      Some (if w = ''scale'' then ScalePool n else if w = ''pause'' then PausePool n else ResumePool n)"
    using assms(2) plain_not_Nil [OF assms(1)] by auto
  ultimately show ?thesis by (simp add: client_send_def api_serve_def)
qed

lemma send_get_pool:
  assumes "plain_name n"
  shows "client_get_pool env base n s =
    (let (a, s') = get_pool_handler (\<lambda>_. None) n s in (read_answer de_pool_status a, s'))"
proof -
  have "on_the_wire base (get_url (pools_url base n)) = Some \<lparr>aq_method = GET,
      aq_path = [''api'', ''v1'', ''pools'', n], aq_type = None, aq_headers = (\<lambda>_. None), aq_body = None\<rparr>"
    using wire_path [of "get_url (pools_url base n)" base "''api/v1/pools/'' @ n"]
      split_pool_path(1) [OF assms] by (simp add: pools_url_def get_url_def)
  then show ?thesis
    using plain_not_Nil [OF assms]
    by (simp add: client_get_pool_def client_send_def api_serve_def api_handle_def)
qed

text \<open>Numbers of a status that the client's \<open>usize\<close> can hold.\<close>

definition status_fits :: "pool_status \<Rightarrow> bool" where
  "status_fits p \<longleftrightarrow> st_min_ready p \<le> u64_max \<and> st_max_ready p \<le> u64_max \<and> st_active p \<le> u64_max \<and>
     st_idle_slots p \<le> u64_max"

lemma all_some_JStr: "all_some as_str (map JStr xs) = Some xs"
  using all_some_map [of xs as_str JStr id] by simp

lemma de_pool_status_json: "status_fits p \<Longrightarrow> de_pool_status (pool_status_json p) = Some p"
  by (simp add: de_pool_status_def pool_status_json_def de_req_def status_fits_def all_some_JStr)

lemma de_vm_info_json: "vi_job v \<le> u64_max \<Longrightarrow> vi_slot v \<le> u64_max \<Longrightarrow> de_vm_info (vm_info_json v) = Some v"
  by (simp add: de_vm_info_def vm_info_json_def de_req_def)

lemma de_scale_body:
  "(\<And>n. mn = Some n \<Longrightarrow> n \<le> u64_max) \<Longrightarrow> (\<And>n. mx = Some n \<Longrightarrow> n \<le> u64_max) \<Longrightarrow>
     de_scale (scale_body mn mx) = Some (mn, mx)"
  by (simp add: de_scale_def scale_body_def de_opt_def split: option.splits)

section \<open>Properties\<close>

text \<open>C35: With an API key configured, a request without exactly that key in its header reaches no
  handler behind the key: nothing is changed, and every call other than the root, metrics, health
  and status pages is answered 401 (400 or 422 for a scale request whose body cannot be read).\<close>

theorem api_requires_key:
  assumes "sv_key s = Some k" and "k \<noteq> []" and "aq_headers r ''x-api-key'' \<noteq> Some k"
    and "route (aq_method r) (aq_path r) = Some c" and "\<not> public_call c"
  shows "api_serve env r s =
    ((case c of
        ScalePool n \<Rightarrow> (case aq_body r of None \<Rightarrow> 400 | Some j \<Rightarrow> if de_scale j = None then 422 else 401)
      | _ \<Rightarrow> 401, Empty), s)"
proof -
  have "\<not> check_auth s (aq_headers r)"
    using assms(1-3) by (auto simp: check_auth_def split: option.splits)
  then show ?thesis
    using assms(4,5)
    by (cases c) (auto simp: api_serve_def api_handle_def api_handlers with_auth_def split: option.splits)
qed

definition demo_server :: "string option \<Rightarrow> server_state" where
  "demo_server key = set_pools
     [(''ci'', \<lparr>pool_name = ''ci'', pool_repos = [''app''], min_ready = 1, max_ready = 2, pool_vcpu = None,
         pool_mem = None\<rparr>,
       pool_new \<lparr>pool_name = ''ci'', pool_repos = [''app''], min_ready = 1, max_ready = 2, pool_vcpu = None,
         pool_mem = None\<rparr> [0, 1])]
     (set_mode ''pools'' (server_new 0 ''1'' \<lparr>listen_addr = default_listen_addr, sv_enabled = True, sv_api_key = key\<rparr>))"

definition demo_api :: api_env where
  "demo_api = \<lparr>ae_now = 7, ae_metrics = []\<rparr>"

definition no_headers :: headers where
  "no_headers = (\<lambda>_. None)"

theorem api_requires_key_witness:
  "api_serve demo_api \<lparr>aq_method = POST, aq_path = [''api'', ''v1'', ''pools'', ''ci'', ''pause''], aq_type = None,
      aq_headers = no_headers, aq_body = None\<rparr> (demo_server (Some ''k'')) = ((401, Empty), demo_server (Some ''k''))"
proof -
  have "sv_key (demo_server (Some ''k'')) = Some ''k''"
    by (simp add: demo_server_def set_pools_def set_mode_def server_new_def)
  from api_requires_key [OF this, where c = "PausePool ''ci''" and env = demo_api and
      r = "\<lparr>aq_method = POST, aq_path = [''api'', ''v1'', ''pools'', ''ci'', ''pause''], aq_type = None,
      aq_headers = no_headers, aq_body = None\<rparr>"]
  show ?thesis by (simp add: no_headers_def)
qed

text \<open>The three commands on a pool, as the client gives them and as the pool takes them.\<close>

datatype pool_command = Scale "nat option" "nat option" | Pause | Resume

fun client_command ::
    "api_env \<Rightarrow> string \<Rightarrow> string \<Rightarrow> pool_command \<Rightarrow> server_state \<Rightarrow> (client_error, string) result \<times> server_state" where
  "client_command env base n (Scale mn mx) s = client_scale_pool env base n mn mx s"
| "client_command env base n Pause s = client_pause_pool env base n s"
| "client_command env base n Resume s = client_resume_pool env base n s"

fun pool_command_effect :: "pool_command \<Rightarrow> pool_state \<Rightarrow> pool_state" where
  "pool_command_effect (Scale mn mx) = pool_scale mn mx"
| "pool_command_effect Pause = pool_pause"
| "pool_command_effect Resume = pool_resume"

fun command_fits :: "pool_command \<Rightarrow> bool" where
  "command_fits (Scale mn mx) =
     (case (mn, mx) of
        (None, None) \<Rightarrow> True | (Some a, None) \<Rightarrow> a \<le> u64_max | (None, Some b) \<Rightarrow> b \<le> u64_max
      | (Some a, Some b) \<Rightarrow> a \<le> u64_max \<and> b \<le> u64_max)"
| "command_fits _ = True"

lemma map_of_update_pool:
  "map_of (sv_pools (update_pool n f s)) m =
     map_option (\<lambda>(pc, p). (pc, if m = n then f p else p)) (map_of (sv_pools s) m)"
proof -
  have "map_of (map (\<lambda>(m, pc, p). (m, pc, if m = n then f p else p)) ps) m =
      map_option (\<lambda>(pc, p). (pc, if m = n then f p else p)) (map_of ps m)" for ps
    by (induction ps) auto
  then show ?thesis by (simp add: update_pool_def)
qed

lemma de_action_json: "de_action (action_json m) = Some m"
  by (simp add: de_action_def action_json_def de_req_def)

lemma client_command_eq:
  assumes "plain_name n" and "command_fits cmd"
  shows "\<exists>msg. client_command env base n cmd s =
    (if check_auth s (\<lambda>_. None) then
       (case map_of (sv_pools s) n of
          None \<Rightarrow> (Inl (Refused 404), s)
        | Some _ \<Rightarrow> (Inr msg, update_pool n (pool_command_effect cmd) s))
     else (Inl (Refused 401), s))"
proof (cases cmd)
  case (Scale mn mx)
  have "de_scale (scale_body mn mx) = Some (mn, mx)"
    using assms(2) Scale by (intro de_scale_body) (auto split: option.splits)
  then show ?thesis
    using send_pool_command [OF assms(1), of "''scale''" "scale_request base n mn mx" base env de_action s] Scale
    by (intro exI [of _ "scale_message n mn mx"])
       (auto simp: client_scale_pool_def scale_request_def api_handle_def api_handlers with_auth_def on_pool_def
         read_answer_def de_action_json split: option.splits)
next
  case Pause
  then show ?thesis
    using send_pool_command [OF assms(1), of "''pause''" "pause_request base n" base env de_action s]
    by (intro exI [of _ "''pool '' @ [CHR 0x27] @ n @ [CHR 0x27] @ '' paused''"])
       (auto simp: client_pause_pool_def pause_request_def api_handle_def api_handlers with_auth_def on_pool_def
         read_answer_def de_action_json split: option.splits)
next
  case Resume
  then show ?thesis
    using send_pool_command [OF assms(1), of "''resume''" "resume_request base n" base env de_action s]
    by (intro exI [of _ "''pool '' @ [CHR 0x27] @ n @ [CHR 0x27] @ '' resumed''"])
       (auto simp: client_resume_pool_def resume_request_def api_handle_def api_handlers with_auth_def on_pool_def
         read_answer_def de_action_json split: option.splits)
qed

text \<open>The management commands reach the pool: on a server without a key, scaling, pausing or
  resuming a pool from the command line succeeds, does to exactly that pool what the pool's own
  operation does, and the status then read back by the client is that of the changed pool.\<close>

theorem client_controls_pool:
  assumes "sv_key s = None" and "plain_name n" and "map_of (sv_pools s) n = Some (pc, p)"
    and "command_fits cmd" and "status_fits (pool_status_of pc (pool_command_effect cmd p))"
  shows "\<exists>msg t. client_command env base n cmd s = (Inr msg, t) \<and>
    map_of (sv_pools t) n = Some (pc, pool_command_effect cmd p) \<and>
    (\<forall>m. m \<noteq> n \<longrightarrow> map_of (sv_pools t) m = map_of (sv_pools s) m) \<and>
    client_get_pool env base n t = (Inr (pool_status_of pc (pool_command_effect cmd p)), t)"
proof -
  let ?t = "update_pool n (pool_command_effect cmd) s"
  obtain msg where "client_command env base n cmd s = (Inr msg, ?t)"
    using client_command_eq [OF assms(2,4), of env base s] assms(1,3) by (auto simp: check_auth_def)
  moreover have "map_of (sv_pools ?t) n = Some (pc, pool_command_effect cmd p)"
    using assms(3) by (simp add: map_of_update_pool)
  moreover have "map_of (sv_pools ?t) m = map_of (sv_pools s) m" if "m \<noteq> n" for m
    using that by (simp add: map_of_update_pool option.map_ident case_prod_unfold)
  moreover have "check_auth ?t h" for h using assms(1) by (simp add: check_auth_def update_pool_def)
  ultimately show ?thesis
    using assms(5)
    by (intro exI [of _ msg] exI [of _ ?t])
       (simp add: send_get_pool [OF assms(2)] get_pool_handler_def with_auth_def read_answer_def de_pool_status_json)
qed

theorem client_controls_pool_witness:
  "\<exists>msg t p. client_command demo_api ''http://h'' ''ci'' (Scale (Some 5) (Some 2)) (demo_server None) = (Inr msg, t) \<and>
     map_option snd (map_of (sv_pools t) ''ci'') = Some p \<and> ps_min p = 5 \<and> ps_max p = 2"
proof -
  have "sv_key (demo_server None) = None" "plain_name ''ci''" "command_fits (Scale (Some 5) (Some 2))"
    by (simp_all add: demo_server_def set_pools_def set_mode_def server_new_def plain_name_def url_chars_def)
  then show ?thesis
    using client_controls_pool [where s = "demo_server None" and n = "''ci''" and cmd = "Scale (Some 5) (Some 2)"
        and env = demo_api and base = "''http://h''"]
    by (fastforce simp: demo_server_def set_pools_def status_fits_def pool_status_of_def pool_scale_def pool_new_def)
qed

text \<open>The client never sends a key, so on a server that has one every command of the client on a
  pool is refused and changes nothing.\<close>

theorem client_refused_by_key:
  assumes "sv_key s = Some k" and "k \<noteq> []" and "plain_name n" and "command_fits cmd"
  shows "client_command env base n cmd s = (Inl (Refused 401), s)"
  using client_command_eq [OF assms(3,4), of env base s] assms(1,2) by (auto simp: check_auth_def)

theorem client_refused_by_key_witness:
  "client_command demo_api ''http://h'' ''ci'' Pause (demo_server (Some ''k'')) = (Inl (Refused 401), demo_server (Some ''k''))"
  by (rule client_refused_by_key [of _ "''k''"])
     (simp_all add: demo_server_def set_pools_def set_mode_def server_new_def plain_name_def url_chars_def)

text \<open>The listing of the active VMs, read by the client, is the list the runs have left.\<close>

lemma client_lists_vms:
  assumes "sv_key s = None" and "\<And>v. v \<in> set (sv_vms s) \<Longrightarrow> vi_job v \<le> u64_max \<and> vi_slot v \<le> u64_max"
  shows "client_list_vms env base s = (Inr (sv_vms s), s)"
proof -
  have "on_the_wire base (get_url (base @ ''/api/v1/vms'')) = Some \<lparr>aq_method = GET,
      aq_path = [''api'', ''v1'', ''vms''], aq_type = None, aq_headers = (\<lambda>_. None), aq_body = None\<rparr>"
    using wire_path [of "get_url (base @ ''/api/v1/vms'')" base "''api/v1/vms''"] by (simp add: get_url_def)
  moreover have "all_some de_vm_info (map vm_info_json (sv_vms s)) = Some (sv_vms s)"
    using all_some_map [of "sv_vms s" de_vm_info vm_info_json id] assms(2) by (simp add: de_vm_info_json)
  ultimately show ?thesis
    using assms(1)
    by (simp add: client_list_vms_def client_send_def api_serve_def api_handle_def list_vms_handler_def with_auth_def
        check_auth_def read_answer_def de_list_def)
qed

text \<open>The status needs no key, and counts the active VMs.\<close>

lemma client_reads_status:
  assumes "length (sv_vms s) \<le> u64_max" and "ae_now env - sv_start s \<le> u64_max"
  shows "client_status env base s =
    (Inr \<lparr>si_version = sv_version s, si_uptime = ae_now env - sv_start s, si_mode = sv_mode s,
          si_active = length (sv_vms s)\<rparr>, s)"
proof -
  have "on_the_wire base (get_url (base @ ''/api/v1/status'')) = Some \<lparr>aq_method = GET,
      aq_path = [''api'', ''v1'', ''status''], aq_type = None, aq_headers = (\<lambda>_. None), aq_body = None\<rparr>"
    using wire_path [of "get_url (base @ ''/api/v1/status'')" base "''api/v1/status''"] by (simp add: get_url_def)
  moreover have "route GET [''api'', ''v1'', ''status''] = Some Status" by (simp add: route_def)
  ultimately show ?thesis
    using assms
    by (simp add: client_status_def client_send_def api_serve_def api_handle_def status_handler_def read_answer_def
        de_status_def de_req_def)
qed

text \<open>A stream passes on, in order, exactly the events of its VM and of its types.\<close>

lemma stream_events_eq:
  "stream_events vm f es =
     map (\<lambda>e. (le_type e, event_json e))
       (filter (\<lambda>e. (vm = None \<or> vm = Some (le_vm e)) \<and> matches_type_filter e f) es)"
  by (induction es) (auto simp: stream_events_def stream_event_def split: option.splits)
end
