(* ===== verification/Vsock.thy ===== *)
theory Vsock
  imports Agent Api_Server
begin

text \<open>
  The host's end of the guest agent's connection (\<open>src/src/vm/vsock.rs\<close>): the messages it reads, the
  log event each one becomes, the notification a completed job gives, and the loop over the lines
  of one connection. A line comes with the clock's text at its arrival and, when it is JSON, its
  value; how a line is parsed is the package's business. Of the two forms in which the package
  accepts a tagged message, an object and an array, the object is modelled; the agent sends no other.
\<close>

section \<open>Messages\<close>

datatype host_message =
    HostReady "string option" | HostJobStarted "nat option" | HostLog string | HostJobCompleted int | HostHeartbeat

text \<open>The tag selects the fields that are read; other fields are ignored.\<close>

definition de_host_message :: "json \<Rightarrow> host_message option" where
  "de_host_message j =
     obind (de_req as_str ''type'' j) (\<lambda>ty.
       if ty = ''ready'' then map_option HostReady (de_opt as_str ''timestamp'' j)
       else if ty = ''job_started'' then map_option HostJobStarted (de_opt as_u64 ''job_id'' j)
       else if ty = ''log'' then map_option HostLog (de_req as_str ''line'' j)
       else if ty = ''job_completed'' then map_option HostJobCompleted (de_req as_i32 ''exit_code'' j)
       else if ty = ''heartbeat'' then Some HostHeartbeat
       else None)"

section \<open>Events\<close>

record job_done =
  jd_vm :: string
  jd_exit :: int

definition or_empty :: "'a option \<Rightarrow> ('a \<Rightarrow> string) \<Rightarrow> string" where
  "or_empty x f = (case x of None \<Rightarrow> [] | Some v \<Rightarrow> f v)"

fun message_event :: "host_message \<Rightarrow> (string \<times> string) option" where
  "message_event (HostReady ts) =
     Some (''ready'', ''guest agent ready'' @ or_empty ts (\<lambda>t. '' (at '' @ t @ '')''))"
| "message_event (HostJobStarted i) =
     Some (''job_started'', ''job started'' @ or_empty i (\<lambda>n. '' (job_id: '' @ show_nat n @ '')''))"
| "message_event (HostLog l) = Some (''log'', l)"
| "message_event (HostJobCompleted c) =
     Some (''job_completed'', ''job completed (exit_code: '' @ show_int c @ '')'')"
| "message_event HostHeartbeat = None"

definition message_to_log_event :: "string \<Rightarrow> string \<Rightarrow> host_message \<Rightarrow> vm_log_event option" where
  "message_to_log_event now vm msg =
     map_option (\<lambda>(ty, m). \<lparr>le_vm = vm, le_type = ty, le_message = m, le_timestamp = now\<rparr>) (message_event msg)"

section \<open>The loop\<close>

text \<open>
  What one line adds to the broadcast channel and to the notifications; each channel may be
  absent. A line that is no message changes nothing.
\<close>

fun done_of :: "string \<Rightarrow> host_message \<Rightarrow> job_done list" where
  "done_of vm (HostJobCompleted c) = [\<lparr>jd_vm = vm, jd_exit = c\<rparr>]"
| "done_of vm _ = []"

definition handle_line ::
    "bool \<Rightarrow> bool \<Rightarrow> string \<Rightarrow> string \<times> json option \<Rightarrow> vm_log_event list \<times> job_done list" where
  "handle_line notify_tx log_tx vm line =
     (case obind (snd line) de_host_message of
        None \<Rightarrow> ([], [])
      | Some msg \<Rightarrow>
          ((if log_tx then (case message_to_log_event (fst line) vm msg of None \<Rightarrow> [] | Some e \<Rightarrow> [e]) else []),
           (if notify_tx then done_of vm msg else [])))"

text \<open>The lines of a connection until it ends or a read fails.\<close>

fun listen_loop ::
    "bool \<Rightarrow> bool \<Rightarrow> string \<Rightarrow> (string \<times> json option) list \<Rightarrow> vm_log_event list \<times> job_done list" where
  "listen_loop notify_tx log_tx vm [] = ([], [])"
| "listen_loop notify_tx log_tx vm (l # ls) =
     (let (es, ds) = handle_line notify_tx log_tx vm l;
          (es', ds') = listen_loop notify_tx log_tx vm ls
      in (es @ es', ds @ ds'))"

section \<open>Properties\<close>

text \<open>The host's reading of an agent's message.\<close>

fun host_view :: "agent_message \<Rightarrow> host_message" where
  "host_view (Ready ts) = HostReady (Some ts)"
| "host_view (JobStarted i) = HostJobStarted i"
| "host_view (LogLine l) = HostLog l"
| "host_view (JobCompleted c) = HostJobCompleted c"

text \<open>What the fields can carry: a job identifier is a 64-bit word, an exit code 32 bits with a sign.\<close>

fun message_fits :: "agent_message \<Rightarrow> bool" where
  "message_fits (JobStarted (Some n)) \<longleftrightarrow> n \<le> u64_max"
| "message_fits (JobCompleted c) \<longleftrightarrow> - (2 ^ 31) \<le> c \<and> c < 2 ^ 31"
| "message_fits _ = True"

lemma de_message_json: "message_fits m \<Longrightarrow> de_host_message (message_json m) = Some (host_view m)"
proof (cases m)
  case (JobStarted i)
  then show "message_fits m \<Longrightarrow> ?thesis"
    by (cases i) (simp_all add: de_host_message_def de_req_def de_opt_def)
qed (simp_all add: de_host_message_def de_req_def de_opt_def)

text \<open>The host reads back every message the agent writes, with all of its fields.\<close>

theorem agent_message_roundtrip:
  assumes "message_fits m"
  shows "de_host_message (message_json m) = Some (host_view m) \<and> inj host_view"
proof -
  have "host_view a = host_view b \<Longrightarrow> a = b" for a b by (cases a; cases b) auto
  then show ?thesis using de_message_json [OF assms] by (auto intro: injI)
qed

theorem agent_message_roundtrip_witness:
  "de_host_message (message_json (JobCompleted (- 7))) = Some (HostJobCompleted (- 7))"
  using agent_message_roundtrip [of "JobCompleted (- 7)"] by simp

lemma listen_loop_append:
  "listen_loop n b vm (xs @ ys) =
     (fst (listen_loop n b vm xs) @ fst (listen_loop n b vm ys), snd (listen_loop n b vm xs) @ snd (listen_loop n b vm ys))"
  by (induction xs) (auto simp: Let_def split: prod.splits)

lemma listen_loop_bad_lines:
  "(\<And>l. l \<in> set ls \<Longrightarrow> obind (snd l) de_host_message = None) \<Longrightarrow> listen_loop n b vm ls = ([], [])"
  by (induction ls) (auto simp: handle_line_def)

text \<open>The lines the agent's actions put on the connection, each with the clock's text at its arrival.\<close>

fun sent_lines :: "(nat \<Rightarrow> string) \<Rightarrow> nat \<Rightarrow> action list \<Rightarrow> (string \<times> json option) list" where
  "sent_lines clock k [] = []"
| "sent_lines clock k (Send m # acts) = (clock k, Some (message_json m)) # sent_lines clock (Suc k) acts"
| "sent_lines clock k (a # acts) = sent_lines clock k acts"

lemma sent_lines_append_exec: "sent_lines clock k (map Exec cs @ acts) = sent_lines clock k acts"
  by (induction cs) auto

lemma handle_sent:
  "message_fits m \<Longrightarrow> handle_line n b vm (now, Some (message_json m)) =
     ((if b then (case message_to_log_event now vm (host_view m) of None \<Rightarrow> [] | Some e \<Rightarrow> [e]) else []),
      (if n then done_of vm (host_view m) else []))"
  by (simp add: handle_line_def de_message_json)

lemma run_with_reporting_acts:
  "\<exists>cmds. fst (run_with_reporting exec True ts m) =
     Send (Ready ts) # Send (JobStarted None) # map Exec cmds @ [Send (JobCompleted (snd (run_runner exec m)))]"
proof -
  obtain acts code where r: "run_runner exec m = (acts, code)" by (metis surj_pair)
  then show ?thesis using run_runner_cmds [of exec m] by (auto simp: run_with_reporting_def report_def)
qed

lemma listen_loop_reporting:
  assumes "- (2 ^ 31) \<le> snd (run_runner exec m)" and "snd (run_runner exec m) < 2 ^ 31"
  shows "listen_loop True True vm (sent_lines clock 0 (fst (run_with_reporting exec True ts m))) =
    ([\<lparr>le_vm = vm, le_type = ''ready'', le_message = ''guest agent ready (at '' @ ts @ '')'', le_timestamp = clock 0\<rparr>,
      \<lparr>le_vm = vm, le_type = ''job_started'', le_message = ''job started'', le_timestamp = clock 1\<rparr>,
      \<lparr>le_vm = vm, le_type = ''job_completed'',
       le_message = ''job completed (exit_code: '' @ show_int (snd (run_runner exec m)) @ '')'', le_timestamp = clock 2\<rparr>],
     [\<lparr>jd_vm = vm, jd_exit = snd (run_runner exec m)\<rparr>])"
proof -
  obtain cmds where acts: "fst (run_with_reporting exec True ts m) =
     Send (Ready ts) # Send (JobStarted None) # map Exec cmds @ [Send (JobCompleted (snd (run_runner exec m)))]"
    using run_with_reporting_acts by blast
  have fits: "message_fits (JobCompleted (snd (run_runner exec m)))" using assms by simp
  show ?thesis
    unfolding acts
    by (simp add: sent_lines_append_exec handle_sent [OF fits] handle_sent message_to_log_event_def or_empty_def Let_def
        numeral_2_eq_2 del: message_json.simps)
qed

text \<open>C30: With both channels open the messages of one guest run become exactly the events ready, job
  started and job completed, in this order, and exactly one notification, which carries the exit
  code the agent ends with; a client of the API that follows this VM, for these event types or for
  all, is sent the three, and one that follows another VM none of them.\<close>

theorem guest_run_reported:
  assumes "- (2 ^ 31) \<le> snd (run_runner exec m)" and "snd (run_runner exec m) < 2 ^ 31"
  shows "\<exists>es. listen_loop True True vm (sent_lines clock 0 (fst (run_with_reporting exec True ts m))) =
      (es, [\<lparr>jd_vm = vm, jd_exit = snd (run_runner exec m)\<rparr>]) \<and>
    map le_type es = [''ready'', ''job_started'', ''job_completed''] \<and>
    stream_events (Some vm) None es = map (\<lambda>e. (le_type e, event_json e)) es \<and>
    stream_events None (Some [''ready'', ''job_started'', ''job_completed'']) es = map (\<lambda>e. (le_type e, event_json e)) es \<and>
    (other \<noteq> vm \<longrightarrow> stream_events (Some other) f es = [])"
  using listen_loop_reporting [OF assms, of vm clock ts]
  by (intro exI conjI, assumption) (simp_all add: stream_events_def stream_event_def matches_type_filter_def)

definition demo_metadata :: metadata where
  "demo_metadata = \<lparr>md_jit_config = Some ''jc'', md_token = None, md_mode = None, md_repo_url = None,
     md_runner_name = None, md_hostname = ''h'', md_shutdown = True, md_ephemeral = True, md_cache_url = None,
     md_cache_token = None, md_s3_endpoint = None, md_s3_bucket = None, md_s3_access_key = None,
     md_s3_secret_key = None, md_s3_region = None\<rparr>"

theorem guest_run_reported_witness:
  "snd (listen_loop True True ''fc-1'' (sent_lines (\<lambda>k. []) 0
     (fst (run_with_reporting (\<lambda>c. ExitCode 3) True ''t'' demo_metadata)))) = [\<lparr>jd_vm = ''fc-1'', jd_exit = 3\<rparr>]"
proof -
  have "snd (run_runner (\<lambda>c. ExitCode 3) demo_metadata) = 3"
    by (simp add: demo_metadata_def run_runner_def run_runner_jit_def Let_def)
  moreover from this obtain es where "listen_loop True True ''fc-1'' (sent_lines (\<lambda>k. []) 0
      (fst (run_with_reporting (\<lambda>c. ExitCode 3) True ''t'' demo_metadata))) =
      (es, [\<lparr>jd_vm = ''fc-1'', jd_exit = snd (run_runner (\<lambda>c. ExitCode 3) demo_metadata)\<rparr>])"
    using guest_run_reported [of "\<lambda>c. ExitCode 3" demo_metadata "''fc-1''" "\<lambda>k. []" "''t''" "[]" None] by auto
  ultimately show ?thesis by simp
qed

text \<open>Lines that are not messages, before, between and after the agent's, change nothing.\<close>

lemma listen_loop_filter:
  "listen_loop n b vm ls = listen_loop n b vm (filter (\<lambda>l. obind (snd l) de_host_message \<noteq> None) ls)"
proof (induction ls)
  case (Cons l ls)
  have "handle_line n b vm l = ([], [])" if "obind (snd l) de_host_message = None"
    using that by (simp add: handle_line_def)
  then show ?case using Cons by (cases "obind (snd l) de_host_message = None") (simp_all add: Let_def)
qed simp

end
