(* ===== verification/Lifecycle.thy ===== *)
theory Lifecycle
  imports Host
begin

text \<open>
  One VM from its disk to its removal (\<open>src/src/vm/firecracker/lifecycle.rs\<close>): the preparation, the
  start of Firecracker in its two forms, the wait for its end, the dump of the guest's log and the
  clean-up that always follows. How the process ends, whether a configuration call is accepted and
  which calls fail come from the environment. The SDK's instance, when it goes out of scope, sends
  the process a signal that may or may not end it. A panic of the code is the error \<open>Panicked\<close>.
\<close>

section \<open>The guest's log\<close>

definition ascii_alpha :: "char \<Rightarrow> bool" where
  "ascii_alpha c = (let n = of_char c :: nat in (65 \<le> n \<and> n \<le> 90) \<or> (97 \<le> n \<and> n \<le> 122))"

text \<open>From an escape character up to the next letter everything is dropped.\<close>

fun strip_ansi :: "bool \<Rightarrow> string \<Rightarrow> string" where
  "strip_ansi in_escape [] = []"
| "strip_ansi in_escape (c # cs) =
     (if in_escape then strip_ansi (\<not> ascii_alpha c) cs
      else if c = CHR 0x1B then strip_ansi True cs
      else c # strip_ansi False cs)"

definition guest_log_lines :: "string \<Rightarrow> string list" where
  "guest_log_lines text =
     (let ls = str_lines text in
      filter (\<lambda>l. l \<noteq> []) (map (\<lambda>l. trim (strip_ansi False l)) (take 50 ls))
      @ (if 50 < length ls then [''... (truncated)''] else []))"

definition dump_image :: "micro_vm \<Rightarrow> (path_error, string) result" where
  "dump_image vm =
     (if use_overlay vm then Inr (overlay_path vm)
      else if use_jailer vm then bindE (filename_str (rootfs_path vm)) (\<lambda>n. Inr (path_join (jailer_root_dir vm) n))
      else Inr (rootfs_path vm))"

definition add_log :: "string list \<Rightarrow> host \<Rightarrow> host" where
  "add_log ls s = s\<lparr>h_log := h_log s @ ls\<rparr>"

definition dump_guest_log :: "host_env \<Rightarrow> micro_vm \<Rightarrow> unit host_op" where
  "dump_guest_log env vm =
     (case dump_image vm of
        Inl _ \<Rightarrow> op_ret ()
      | Inr img \<Rightarrow>
          op_bind (sys_try env always (put_dir (mount_point vm))) (\<lambda>made.
          if \<not> made then op_ret ()
          else op_bind (mount_loop_ext4_ro env img (mount_point vm)) (\<lambda>mounted.
            if \<not> mounted then op_ignore (remove_dir env (mount_point vm))
            else op_all
              [op_modify (add_log (case e_guest_log env of None \<Rightarrow> [] | Some text \<Rightarrow> guest_log_lines text)),
               op_ignore (try_umount env (mount_point vm)),
               op_ignore (remove_dir env (mount_point vm))])))"

section \<open>The listener's socket\<close>

definition listen_path :: "micro_vm \<Rightarrow> string" where
  "listen_path vm = vsock_socket_path vm @ ''_1024''"

definition spawn_listener :: "host_env \<Rightarrow> micro_vm \<Rightarrow> unit host_op" where
  "spawn_listener env vm =
     (if vsock_enabled (fc_config vm)
      then op_all [op_ignore (remove_file env (listen_path vm)),
                   op_ignore (sys_try env (\<lambda>s. \<not> has_file (listen_path vm) s) (put_file (listen_path vm) Socket))]
      else op_ret ())"

text \<open>
  The listener removes its socket when the guest disconnects; an abort that comes first (the call
  fails) leaves it. One that is aborted before the launch, when no guest can have connected, always does.
\<close>

definition end_listener :: "host_env \<Rightarrow> micro_vm \<Rightarrow> unit host_op" where
  "end_listener env vm =
     (if vsock_enabled (fc_config vm) then op_ignore (remove_file env (listen_path vm)) else op_ret ())"

section \<open>Running\<close>

definition set_alive :: "string \<Rightarrow> host \<Rightarrow> host" where
  "set_alive i s = s\<lparr>h_alive := insert i (h_alive s)\<rparr>"

definition set_dead :: "string \<Rightarrow> host \<Rightarrow> host" where
  "set_dead i s = s\<lparr>h_alive := h_alive s - {i}\<rparr>"

definition need_ids :: "micro_vm \<Rightarrow> unit host_op" where
  "need_ids vm =
     (if use_jailer vm \<and> (jailer_uid (fc_config vm) = None \<or> jailer_gid (fc_config vm) = None)
      then op_fail Panicked else op_ret ())"

text \<open>The exit status of the child, as \<open>prepare_and_run\<close> judges it: a signal is the normal end.\<close>

fun judge_exit :: "exit_how \<Rightarrow> unit host_op" where
  "judge_exit (Exits c) = (if c = 0 then op_ret () else op_fail (ExitStatus c))"
| "judge_exit BySignal = op_ret ()"
| "judge_exit WaitFails = op_fail (Failed ''waiting for firecracker'')"

definition ended :: "exit_how \<Rightarrow> micro_vm \<Rightarrow> unit host_op" where
  "ended how vm = op_seq (if how = WaitFails then op_ret () else op_modify (set_dead (vm_id vm))) (judge_exit how)"

text \<open>
  The child of the no-API mode. A timeout only ends the wait; a shutdown kills the child, whatever
  comes of the signal, and waits for it once more.
\<close>

definition run_no_api :: "host_env \<Rightarrow> micro_vm \<Rightarrow> unit host_op" where
  "run_no_api env vm =
     op_seq (need_ids vm)
    (op_seq (sys_op env (Failed ''spawning'') always (set_alive (vm_id vm)))
      (case e_end env of
         Ends how \<Rightarrow> ended how vm
       | TimesOut \<Rightarrow> op_fail TimedOut
       | Cancelled how \<Rightarrow> op_seq (op_ignore (sys_try env always (set_dead (vm_id vm)))) (ended how vm)))"

text \<open>
  The polled process of the SDK. At a shutdown it is sent a signal whose failure only makes a
  warning; its exit status is not looked at.
\<close>

definition wait_for_exit :: "host_env \<Rightarrow> micro_vm \<Rightarrow> unit host_op" where
  "wait_for_exit env vm =
     op_seq (sys_op env NoPid always id)
      (case e_end env of
         TimesOut \<Rightarrow> op_fail TimedOut
       | Ends how \<Rightarrow> op_modify (set_dead (vm_id vm))
       | Cancelled how \<Rightarrow> op_ignore (sys_try env always (set_dead (vm_id vm))))"

definition drop_instance :: "host_env \<Rightarrow> micro_vm \<Rightarrow> host \<Rightarrow> host" where
  "drop_instance env vm s = snd (sys_try env always (set_dead (vm_id vm)) s)"

definition build_sdk_instance :: "host_env \<Rightarrow> micro_vm \<Rightarrow> unit host_op" where
  "build_sdk_instance env vm = op_seq (need_ids vm) (sys_op env (Failed ''building instance'') always id)"

definition sdk_session :: "host_env \<Rightarrow> micro_vm \<Rightarrow> string \<Rightarrow> unit host_op" where
  "sdk_session env vm env_content =
     op_seq (write_file env (log_path vm) (TextFile [] None))
    (op_seq (sys_op env (Failed ''start_vmm'') always (set_alive (vm_id vm)))
    (op_seq
      (if is_ok (snd (configure_instance (e_accepts env) vm env_content)) then op_ret ()
       else op_seq (op_ignore (sys_try env always (set_dead (vm_id vm)))) (op_fail Rejected))
    (op_seq (sys_op env (Failed ''instance start'') always id)
            (wait_for_exit env vm))))"

definition run_with_sdk :: "host_env \<Rightarrow> micro_vm \<Rightarrow> string \<Rightarrow> unit host_op" where
  "run_with_sdk env vm env_content =
     op_seq (build_sdk_instance env vm)
       (\<lambda>s. case sdk_session env vm env_content s of (r, t) \<Rightarrow> (r, drop_instance env vm t))"

section \<open>Preparation\<close>

fun run_fs_op :: "host_env \<Rightarrow> fs_op \<Rightarrow> unit host_op" where
  "run_fs_op env (MakeDirs d) = make_dirs env d"
| "run_fs_op env (LinkOrCopy a b) =
     op_bind (sys_try env (\<lambda>s. has_file a s \<and> \<not> has_file b s) (copy_file a b)) (\<lambda>linked.
       if linked then op_ret () else sys_op env (Failed a) (has_file a) (copy_file a b))"
| "run_fs_op env (WriteText p t) = write_file env p (TextFile t None)"
| "run_fs_op env (WriteJson p j) = write_file env p (JsonFile j)"
| "run_fs_op env (ChownAll d u g) = sys_op env (Failed d) always id"

definition run_fs_ops :: "host_env \<Rightarrow> (path_error, fs_op list) result \<Rightarrow> unit host_op" where
  "run_fs_ops env r = (case r of Inl e \<Rightarrow> op_fail (BadPath e) | Inr ops \<Rightarrow> op_all (map (run_fs_op env) ops))"

text \<open>In the metadata mode there is nothing to prepare: the jail is not filled there either.\<close>

definition pre_launch :: "host_env \<Rightarrow> micro_vm \<Rightarrow> unit host_op" where
  "pre_launch env vm =
     (if use_mmds vm then op_ret ()
      else if use_jailer vm then run_fs_ops env (setup_jailer_chroot vm)
      else op_seq (run_fs_ops env (write_vm_config vm)) (write_file env (log_path vm) (TextFile [] None)))"

definition launch :: "host_env \<Rightarrow> micro_vm \<Rightarrow> string \<Rightarrow> unit host_op" where
  "launch env vm env_content = (if use_mmds vm then run_with_sdk env vm env_content else run_no_api env vm)"

text \<open>
  An error of the preparation returns at once. Once launched, the listener ends and the log is
  dumped however the run ended; a panic skips both.
\<close>

definition run_vm :: "host_env \<Rightarrow> micro_vm \<Rightarrow> string \<Rightarrow> unit host_op" where
  "run_vm env vm env_content s =
     (case pre_launch env vm s of
        (Inl e, t) \<Rightarrow> (Inl e, t)
      | (Inr _, t) \<Rightarrow>
          (case launch env vm env_content t of (r, u) \<Rightarrow>
             if r = Inl Panicked then (r, u)
             else (r, snd (dump_guest_log env vm (snd (end_listener env vm u))))))"

definition make_disk :: "host_env \<Rightarrow> micro_vm \<Rightarrow> unit host_op" where
  "make_disk env vm = (if use_overlay vm then create_overlay env vm else copy_rootfs env vm)"

definition prepare_and_run :: "host_env \<Rightarrow> micro_vm \<Rightarrow> string \<Rightarrow> unit host_op" where
  "prepare_and_run env vm env_content =
     op_seq (make_disk env vm)
    (op_seq (ensure_cache_image env vm)
    (op_seq (inject env vm env_content)
    (op_seq (create_tap env vm)
    (op_seq (spawn_listener env vm)
            (run_vm env vm env_content)))))"

section \<open>Clean-up\<close>

definition chroot_dir :: "micro_vm \<Rightarrow> string" where
  "chroot_dir vm = path_join (path_join (jailer_chroot_base (fc_config vm)) ''firecracker'') (vm_id vm)"

definition below :: "string \<Rightarrow> string \<Rightarrow> bool" where
  "below d p \<longleftrightarrow> p = d \<or> starts_with p (dir_prefix d)"

definition has_tree :: "string \<Rightarrow> host \<Rightarrow> bool" where
  "has_tree d s \<longleftrightarrow> (\<exists>p. below d p \<and> (h_files s p \<noteq> None \<or> p \<in> h_dirs s))"

definition del_tree :: "string \<Rightarrow> host \<Rightarrow> host" where
  "del_tree d s =
     s\<lparr>h_files := (\<lambda>p. if below d p then None else h_files s p), h_dirs := {p \<in> h_dirs s. \<not> below d p}\<rparr>"

definition remove_dir_all :: "host_env \<Rightarrow> string \<Rightarrow> bool host_op" where
  "remove_dir_all env d = sys_try env (has_tree d) (del_tree d)"

text \<open>A second attempt is made unless the first succeeded or found nothing.\<close>

definition cleanup :: "host_env \<Rightarrow> micro_vm \<Rightarrow> unit host_op" where
  "cleanup env vm =
     op_all ([destroy_tap env vm]
       @ map (\<lambda>p. op_ignore (remove_file env p)) (vm_files vm)
       @ [op_ignore (remove_dir env (mount_point vm))]
       @ (if use_jailer vm then
            [op_bind (remove_dir_all env (chroot_dir vm)) (\<lambda>gone s.
               if gone \<or> \<not> has_tree (chroot_dir vm) s then (Inr (), s)
               else op_ignore (remove_dir_all env (chroot_dir vm)) s)]
          else []))"

definition execute :: "host_env \<Rightarrow> micro_vm \<Rightarrow> string \<Rightarrow> unit host_op" where
  "execute env vm env_content s =
     (case prepare_and_run env vm env_content s of (r, t) \<Rightarrow>
        if r = Inl Panicked then (r, t) else (r, snd (cleanup env vm t)))"

section \<open>What clean-up does\<close>

lemma del_file_absent: "\<not> has_file p s \<Longrightarrow> del_file p s = s"
  by (simp add: del_file_def has_file_def fun_upd_idem)

lemma op_ignore_bool: "m s = (Inr b, t) \<Longrightarrow> op_ignore m s = (Inr (), t)"
  by (simp add: op_ignore_def op_simps)

lemma destroy_tap_ok: "e_ok env (h_tick s) \<Longrightarrow> destroy_tap env vm s = (Inr (), tick (del_link (tap_name vm) s))"
  by (simp add: destroy_tap_def delete_link_def op_ignore_def op_simps sys_try_def always_def)

lemma remove_file_ok: "e_ok env (h_tick s) \<Longrightarrow> op_ignore (remove_file env p) s = (Inr (), tick (del_file p s))"
  by (simp add: remove_file_def op_ignore_def op_simps sys_try_def del_file_absent)

text \<open>Whatever fails, the removal of a list of files succeeds and touches no other file.\<close>

lemma remove_files_run:
  "\<exists>t. op_all (map (\<lambda>p. op_ignore (remove_file env p)) ps) s = (Inr (), t) \<and>
     h_tick t = h_tick s + length ps \<and> h_links t = h_links s \<and> h_dirs t = h_dirs s \<and>
     h_mounts t = h_mounts s \<and> h_alive t = h_alive s \<and>
     (\<forall>q. q \<notin> set ps \<longrightarrow> h_files t q = h_files s q) \<and>
     ((\<forall>k \<ge> h_tick s. e_ok env k) \<longrightarrow> (\<forall>p \<in> set ps. h_files t p = None))"
proof (induction ps arbitrary: s)
  case (Cons p ps)
  define u where "u = snd (op_ignore (remove_file env p) s)"
  have u: "op_ignore (remove_file env p) s = (Inr (), u)" "h_tick u = Suc (h_tick s)" "h_links u = h_links s"
    "h_dirs u = h_dirs s" "h_mounts u = h_mounts s" "h_alive u = h_alive s"
    "\<forall>q. q \<noteq> p \<longrightarrow> h_files u q = h_files s q" "e_ok env (h_tick s) \<Longrightarrow> h_files u p = None"
    by (auto simp: u_def op_ignore_def op_simps remove_file_def sys_try_def del_file_def has_file_def)
  obtain t where t: "op_all (map (\<lambda>p. op_ignore (remove_file env p)) ps) u = (Inr (), t)"
    "h_tick t = h_tick u + length ps" "h_links t = h_links u" "h_dirs t = h_dirs u" "h_mounts t = h_mounts u"
    "h_alive t = h_alive u" "\<forall>q. q \<notin> set ps \<longrightarrow> h_files t q = h_files u q"
    "(\<forall>k \<ge> h_tick u. e_ok env k) \<longrightarrow> (\<forall>p \<in> set ps. h_files t p = None)"
    using Cons.IH [of u] by blast
  have "h_files t p = None" if "\<forall>k \<ge> h_tick s. e_ok env k"
    using that t(7,8) u(2,8) by (cases "p \<in> set ps") auto
  then show ?case
    using t u by (intro exI [of _ t]) (auto simp: op_seq_apply)
qed (simp add: op_ret_def)

definition jail_removal :: "host_env \<Rightarrow> micro_vm \<Rightarrow> unit host_op list" where
  "jail_removal env vm =
     (if use_jailer vm then
        [op_bind (remove_dir_all env (chroot_dir vm)) (\<lambda>gone s.
           if gone \<or> \<not> has_tree (chroot_dir vm) s then (Inr (), s)
           else op_ignore (remove_dir_all env (chroot_dir vm)) s)]
      else [])"

lemma cleanup_parts:
  "cleanup env vm = op_all (destroy_tap env vm # map (\<lambda>p. op_ignore (remove_file env p)) (vm_files vm)
     @ op_ignore (remove_dir env (mount_point vm)) # jail_removal env vm)"
  by (simp add: cleanup_def jail_removal_def del: op_all.simps)

lemma jail_removal_run:
  "\<exists>t. op_all (jail_removal env vm) s = (Inr (), t) \<and> h_links t = h_links s \<and> h_mounts t = h_mounts s \<and>
     h_alive t = h_alive s \<and>
     (\<forall>p. \<not> (use_jailer vm \<and> below (chroot_dir vm) p) \<longrightarrow> h_files t p = h_files s p \<and> (p \<in> h_dirs t \<longleftrightarrow> p \<in> h_dirs s)) \<and>
     (\<forall>p. h_files s p = None \<longrightarrow> h_files t p = None) \<and> h_dirs t \<subseteq> h_dirs s \<and>
     ((\<forall>k \<ge> h_tick s. e_ok env k) \<longrightarrow> use_jailer vm \<longrightarrow> \<not> has_tree (chroot_dir vm) t)"
proof (cases "use_jailer vm")
  case True
  have del: "\<not> has_tree d (del_tree d u)" for d u by (auto simp: has_tree_def del_tree_def)
  have sel: "h_links (del_tree d u) = h_links u" "h_mounts (del_tree d u) = h_mounts u" "h_alive (del_tree d u) = h_alive u"
    "h_files (del_tree d u) p = (if below d p then None else h_files u p)" "h_dirs (del_tree d u) = {p \<in> h_dirs u. \<not> below d p}"
    for d u p by (simp_all add: del_tree_def)
  have tk: "has_tree d (tick u) = has_tree d u" for d u by (simp add: has_tree_def)
  show ?thesis
    using True
    by (auto simp: jail_removal_def op_seq_apply op_ret_def op_bind_apply op_ignore_def remove_dir_all_def sys_try_def
        del tk sel)
qed (simp add: jail_removal_def op_ret_def)

text \<open>Clean-up never fails, and what it removes and leaves alone.\<close>

lemma cleanup_run:
  "\<exists>t. cleanup env vm s = (Inr (), t) \<and> h_alive t = h_alive s \<and> h_mounts t = h_mounts s \<and>
     (\<forall>n. n \<noteq> tap_name vm \<longrightarrow> h_links t n = h_links s n) \<and>
     (\<forall>p. p \<notin> set (vm_files vm) \<and> \<not> (use_jailer vm \<and> below (chroot_dir vm) p) \<longrightarrow> h_files t p = h_files s p) \<and>
     (\<forall>d. d \<noteq> mount_point vm \<and> \<not> (use_jailer vm \<and> below (chroot_dir vm) d) \<longrightarrow> d \<in> h_dirs t \<longleftrightarrow> d \<in> h_dirs s) \<and>
     (is_mounted (mount_point vm) s \<and> \<not> (use_jailer vm \<and> below (chroot_dir vm) (mount_point vm)) \<longrightarrow>
        mount_point vm \<in> h_dirs t \<longleftrightarrow> mount_point vm \<in> h_dirs s) \<and>
     ((\<forall>k \<ge> h_tick s. e_ok env k) \<longrightarrow>
        h_links t (tap_name vm) = None \<and> (\<forall>p \<in> set (vm_files vm). h_files t p = None) \<and>
        (use_jailer vm \<longrightarrow> \<not> has_tree (chroot_dir vm) t) \<and>
        (is_mounted (mount_point vm) s \<or> mount_point vm \<notin> h_dirs t))"
proof -
  define a where "a = snd (destroy_tap env vm s)"
  have a: "destroy_tap env vm s = (Inr (), a)" "h_tick a = Suc (h_tick s)" "h_files a = h_files s" "h_dirs a = h_dirs s"
    "h_mounts a = h_mounts s" "h_alive a = h_alive s" "\<forall>n. n \<noteq> tap_name vm \<longrightarrow> h_links a n = h_links s n"
    "e_ok env (h_tick s) \<Longrightarrow> h_links a (tap_name vm) = None"
    by (auto simp: a_def destroy_tap_def delete_link_def op_ignore_def op_simps sys_try_def always_def del_link_def)
  obtain b where b: "op_all (map (\<lambda>p. op_ignore (remove_file env p)) (vm_files vm)) a = (Inr (), b)"
    "h_tick b = h_tick a + length (vm_files vm)" "h_links b = h_links a" "h_dirs b = h_dirs a"
    "h_mounts b = h_mounts a" "h_alive b = h_alive a" "\<forall>q. q \<notin> set (vm_files vm) \<longrightarrow> h_files b q = h_files a q"
    "(\<forall>k \<ge> h_tick a. e_ok env k) \<longrightarrow> (\<forall>p \<in> set (vm_files vm). h_files b p = None)"
    using remove_files_run [of env "vm_files vm" a] by blast
  define c where "c = snd (op_ignore (remove_dir env (mount_point vm)) b)"
  have c: "op_ignore (remove_dir env (mount_point vm)) b = (Inr (), c)" "h_tick c = Suc (h_tick b)"
    "h_files c = h_files b" "h_links c = h_links b" "h_mounts c = h_mounts b" "h_alive c = h_alive b"
    "\<forall>d. d \<noteq> mount_point vm \<longrightarrow> (d \<in> h_dirs c \<longleftrightarrow> d \<in> h_dirs b)"
    "is_mounted (mount_point vm) b \<Longrightarrow> h_dirs c = h_dirs b"
    "e_ok env (h_tick b) \<Longrightarrow> \<not> is_mounted (mount_point vm) b \<Longrightarrow> mount_point vm \<notin> h_dirs c"
    by (auto simp: c_def op_ignore_def op_simps remove_dir_def sys_try_def can_remove_dir_def del_dir_def
        is_mounted_def map_of_eq_None_iff)
  obtain t where t: "op_all (jail_removal env vm) c = (Inr (), t)" "h_links t = h_links c" "h_mounts t = h_mounts c"
    "h_alive t = h_alive c"
    "\<forall>p. \<not> (use_jailer vm \<and> below (chroot_dir vm) p) \<longrightarrow> h_files t p = h_files c p \<and> (p \<in> h_dirs t \<longleftrightarrow> p \<in> h_dirs c)"
    "\<forall>p. h_files c p = None \<longrightarrow> h_files t p = None" "h_dirs t \<subseteq> h_dirs c"
    "(\<forall>k \<ge> h_tick c. e_ok env k) \<longrightarrow> use_jailer vm \<longrightarrow> \<not> has_tree (chroot_dir vm) t"
    using jail_removal_run [of env vm c] by blast
  have run: "cleanup env vm s = (Inr (), t)"
    by (simp add: cleanup_parts op_seq_apply op_all_append a(1) b(1) c(1) t(1))
  have m: "is_mounted (mount_point vm) b = is_mounted (mount_point vm) s"
    using a(5) b(5) by (simp add: is_mounted_def)
  show ?thesis
  proof (intro exI [of _ t] conjI allI impI)
    show "cleanup env vm s = (Inr (), t)" by (rule run)
    show "h_alive t = h_alive s" "h_mounts t = h_mounts s" using a b c t by simp_all
  next
    fix n assume "n \<noteq> tap_name vm"
    then show "h_links t n = h_links s n" using a b c t by simp
  next
    fix p assume "p \<notin> set (vm_files vm) \<and> \<not> (use_jailer vm \<and> below (chroot_dir vm) p)"
    then show "h_files t p = h_files s p" using a b c t by simp
  next
    fix d assume "d \<noteq> mount_point vm \<and> \<not> (use_jailer vm \<and> below (chroot_dir vm) d)"
    then show "d \<in> h_dirs t \<longleftrightarrow> d \<in> h_dirs s" using a b c t by simp
  next
    assume "is_mounted (mount_point vm) s \<and> \<not> (use_jailer vm \<and> below (chroot_dir vm) (mount_point vm))"
    then show "mount_point vm \<in> h_dirs t \<longleftrightarrow> mount_point vm \<in> h_dirs s" using a b c t m by simp
  next
    assume ok: "\<forall>k \<ge> h_tick s. e_ok env k"
    then show "h_links t (tap_name vm) = None" using a(8) b c t by simp
    have "\<forall>k \<ge> h_tick a. e_ok env k" using ok a(2) by simp
    then show "\<forall>p \<in> set (vm_files vm). h_files t p = None" using b(8) c(3) t(6) by simp
    show "\<not> has_tree (chroot_dir vm) t" if "use_jailer vm" using ok that t(8) a(2) b(2) c(2) by simp
    show "is_mounted (mount_point vm) s \<or> mount_point vm \<notin> h_dirs t"
      using ok c(9) t(7) a(2) b(2) m by auto
  qed
qed

section \<open>What a whole run may change\<close>

text \<open>What belongs to one VM: its files, the listener's socket, the cache image of its slot, its jail.\<close>

definition own_file :: "micro_vm \<Rightarrow> string \<Rightarrow> bool" where
  "own_file vm p \<longleftrightarrow> p \<in> set (vm_files vm) \<or> p = listen_path vm \<or> cache_path vm = Some p \<or>
     use_jailer vm \<and> below (chroot_dir vm) p"

definition own_dir :: "micro_vm \<Rightarrow> string \<Rightarrow> bool" where
  "own_dir vm d \<longleftrightarrow> d = mount_point vm \<or> cache_path vm \<noteq> None \<and> d = cache_dir (fc_config vm) \<or>
     use_jailer vm \<and> below (chroot_dir vm) d"

definition own_mounts :: "micro_vm \<Rightarrow> host \<Rightarrow> bool" where
  "own_mounts vm s \<longleftrightarrow> (\<forall>(m, img) \<in> set (h_mounts s). m = mount_point vm \<longrightarrow> own_file vm img)"

definition others_same :: "micro_vm \<Rightarrow> host \<Rightarrow> host \<Rightarrow> bool" where
  "others_same vm s t \<longleftrightarrow>
     (\<forall>p. \<not> own_file vm p \<longrightarrow> h_files t p = h_files s p \<and> h_trees t p = h_trees s p) \<and>
     (\<forall>d. \<not> own_dir vm d \<longrightarrow> (d \<in> h_dirs t \<longleftrightarrow> d \<in> h_dirs s)) \<and>
     (\<forall>n. n \<noteq> tap_name vm \<longrightarrow> h_links t n = h_links s n) \<and>
     filter (\<lambda>m. fst m \<noteq> mount_point vm) (h_mounts t) = filter (\<lambda>m. fst m \<noteq> mount_point vm) (h_mounts s) \<and>
     h_alive t - {vm_id vm} = h_alive s - {vm_id vm}"

definition only_own :: "micro_vm \<Rightarrow> host \<Rightarrow> host \<Rightarrow> bool" where
  "only_own vm s t \<longleftrightarrow> (own_mounts vm s \<longrightarrow> own_mounts vm t \<and> others_same vm s t)"

lemma others_same_refl: "others_same vm s s"
  by (simp add: others_same_def)

lemma others_same_trans: "others_same vm s t \<Longrightarrow> others_same vm t u \<Longrightarrow> others_same vm s u"
  by (simp add: others_same_def)

lemma others_same_tick: "others_same vm s (tick t) = others_same vm s t" "own_mounts vm (tick t) = own_mounts vm t"
  by (simp_all add: others_same_def own_mounts_def)

interpretation ow: host_bound "only_own vm" for vm
proof unfold_locales
  show "only_own vm s s" for s by (simp add: only_own_def others_same_refl)
  show "only_own vm s u" if "only_own vm s t" "only_own vm t u" for s t u
    using that others_same_trans [of vm s t u] by (auto simp: only_own_def)
  show "only_own vm s (tick t)" if "only_own vm s t" for s t
    using that by (simp add: only_own_def others_same_tick)
qed

lemma drop_mount_filter: "filter (\<lambda>m. fst m \<noteq> t) (drop_mount t ms) = filter (\<lambda>m. fst m \<noteq> t) ms"
  by (induction ms) auto

lemma set_drop_mount: "set (drop_mount t ms) \<subseteq> set ms"
  by (induction ms) auto

lemma own_files_vm [simp]:
  "own_file vm (overlay_path vm)" "own_file vm (rootfs_path vm)" "own_file vm (log_path vm)"
  "own_file vm (config_path vm)" "own_file vm (listen_path vm)" "own_dir vm (mount_point vm)"
  "own_file vm (image_to_mount vm)" "p \<in> set (vm_files vm) \<Longrightarrow> own_file vm p"
  by (auto simp: own_file_def own_dir_def vm_files_def image_to_mount_def)

text \<open>The single changes that stay within the VM's own things.\<close>

lemma own_file_changes:
  assumes "own_file vm p"
  shows "only_own vm s (put_file p n s)" "only_own vm s (del_file p s)" "only_own vm s (format_image p k s)"
    "only_own vm s (copy_file q p s)" "only_own vm s (add_mount p (mount_point vm) s)"
  using assms
  by (simp_all add: only_own_def others_same_def own_mounts_def put_file_def del_file_def format_image_def copy_file_def
      add_mount_def split: option.split)

lemma own_dir_changes:
  assumes "own_dir vm d"
  shows "only_own vm s (put_dir d s)" "only_own vm s (del_dir d s)"
  using assms by (auto simp: only_own_def others_same_def own_mounts_def put_dir_def del_dir_def)

lemma own_link_changes:
  "only_own vm s (add_tap (tap_name vm) s)" "only_own vm s (del_link (tap_name vm) s)"
  "only_own vm s (change_link (tap_name vm) f s)"
  by (simp_all add: only_own_def others_same_def own_mounts_def add_tap_def del_link_def change_link_def split: option.split)

lemma own_other_changes:
  "only_own vm s (set_alive (vm_id vm) s)" "only_own vm s (set_dead (vm_id vm) s)"
  "only_own vm s (add_log ls s)" "only_own vm s (id s)" "only_own vm s s"
  by (auto simp: only_own_def others_same_def own_mounts_def set_alive_def set_dead_def add_log_def)

lemma own_del_mount: "only_own vm s (del_mount (mount_point vm) s)"
  using set_drop_mount [of "mount_point vm" "h_mounts s"]
  by (auto simp: only_own_def others_same_def own_mounts_def del_mount_def drop_mount_filter)

lemma own_del_tree: "use_jailer vm \<Longrightarrow> only_own vm s (del_tree (chroot_dir vm) s)"
  by (simp add: only_own_def others_same_def own_mounts_def del_tree_def own_file_def own_dir_def)

lemma own_guest_changes:
  "only_own vm s (put_guest (mount_point vm) r n s)" "only_own vm s (del_guest (mount_point vm) r s)"
proof -
  have "own_file vm img" if "own_mounts vm s" "map_of (h_mounts s) (mount_point vm) = Some img" for img
    using that map_of_SomeD [OF that(2)] by (auto simp: own_mounts_def)
  then show "only_own vm s (put_guest (mount_point vm) r n s)" "only_own vm s (del_guest (mount_point vm) r s)"
    by (auto simp: only_own_def others_same_def own_mounts_def put_guest_def del_guest_def split: option.splits)
qed

lemmas own_rules = own_file_changes own_dir_changes own_link_changes own_other_changes own_del_mount own_del_tree
  own_guest_changes

text \<open>The guest's files.\<close>

lemma own_guest_ops:
  "ow.keeps vm (guest_dir env vm r)" "ow.keeps vm (guest_write env vm r n)" "ow.keeps vm (guest_link_once env vm r l)"
  "ow.keeps vm (guest_remove env vm r)" "ow.keeps vm (guest_symlink env vm r l)"
  unfolding guest_dir_def guest_write_def guest_link_once_def guest_remove_def guest_symlink_def
  by (intro ow.keeps_rules own_rules)+

lemma own_guest_configs:
  "ow.keeps vm (write_network_config env vm)" "ow.keeps vm (write_cache_service_config env vm)"
  "ow.keeps vm (write_overlay_fstab env vm)" "ow.keeps vm (mask_overlay_services env vm)"
  "ow.keeps vm (write_mount_mode_entrypoint env vm)"
  unfolding write_network_config_def write_cache_service_config_def write_overlay_fstab_def
    mask_overlay_services_def write_mount_mode_entrypoint_def
  by (auto intro!: ow.keeps_all own_guest_ops ow.keeps_pure simp del: op_all.simps split: option.splits)

lemma own_umount: "ow.keeps vm (umount_with_retry env vm)"
proof -
  have "ow.keeps vm (umount_tries env (mount_point vm) n)" for n
  proof (induction n)
    case 0
    show ?case unfolding umount_tries.simps lazy_umount_sync_def by (intro ow.keeps_rules own_rules)
  next
    case (Suc n)
    then show ?case unfolding umount_tries.simps try_umount_def by (intro ow.keeps_rules own_rules)
  qed
  then show ?thesis by (simp add: umount_with_retry_def)
qed

text \<open>The preparation of the disks and of the device.\<close>

lemma own_basic_ops:
  "own_file vm p \<Longrightarrow> ow.keeps vm (write_file env p n)" "own_file vm p \<Longrightarrow> ow.keeps vm (remove_file env p)"
  "own_dir vm d \<Longrightarrow> ow.keeps vm (make_dirs env d)" "own_dir vm d \<Longrightarrow> ow.keeps vm (remove_dir env d)"
  "own_file vm p \<Longrightarrow> ow.keeps vm (mount_loop_ext4 env p (mount_point vm))"
  "own_file vm p \<Longrightarrow> ow.keeps vm (mount_loop_ext4_ro env p (mount_point vm))"
  "own_file vm p \<Longrightarrow> ow.keeps vm (new_image env p k)"
  "ow.keeps vm (delete_link env (tap_name vm))"
  unfolding write_file_def remove_file_def make_dirs_def remove_dir_def mount_loop_ext4_def mount_loop_ext4_ro_def
    new_image_def delete_link_def
  by (intro ow.keeps_rules own_rules; assumption)+

lemma own_disks:
  "ow.keeps vm (make_disk env vm)" "ow.keeps vm (ensure_cache_image env vm)" "ow.keeps vm (inject env vm c)"
proof -
  show "ow.keeps vm (make_disk env vm)"
    unfolding make_disk_def create_overlay_def copy_rootfs_def
    by (intro ow.keeps_rules own_rules own_basic_ops own_files_vm)
  show "ow.keeps vm (ensure_cache_image env vm)"
  proof (cases "cache_path vm")
    case None
    then show ?thesis by (simp add: ensure_cache_image_def ow.keeps_pure)
  next
    case (Some p)
    then have o: "own_file vm p" "own_dir vm (cache_dir (fc_config vm))" by (simp_all add: own_file_def own_dir_def)
    have "ow.keeps vm (op_seq (make_dirs env (cache_dir (fc_config vm))) (new_image env p n))" for n
      by (intro ow.keeps_seq own_basic_ops o)
    moreover from this have "ow.keeps vm (op_seq (sys_op env e always id) (if b then op_ret ()
        else op_seq (sys_op env e' (has_file p) (del_file p))
               (op_seq (make_dirs env (cache_dir (fc_config vm))) (new_image env p n))))" for b n e e'
      by (intro ow.keeps_rules own_rules own_basic_ops o)
    ultimately show ?thesis
      unfolding ensure_cache_image_def Some option.case Let_def ow.keeps_def by (simp split: option.split)
  qed
  show "ow.keeps vm (inject env vm c)"
    unfolding inject_def inject_env_mount_def inject_network_config_def
    by (auto intro!: ow.keeps_if ow.keeps_all ow.keeps_ignore own_basic_ops own_guest_configs own_guest_ops own_umount
        simp del: op_all.simps split: if_splits)
qed

lemma own_devices:
  "ow.keeps vm (create_tap env vm)" "ow.keeps vm (spawn_listener env vm)" "ow.keeps vm (end_listener env vm)"
proof -
  show "ow.keeps vm (create_tap env vm)"
    unfolding create_tap_def Let_def nl_create_tap_def add_address_v4_def set_link_up_def
    by (intro ow.keeps_rules own_basic_ops own_rules)
  show "ow.keeps vm (spawn_listener env vm)" "ow.keeps vm (end_listener env vm)"
    unfolding spawn_listener_def end_listener_def
    by (auto intro!: ow.keeps_if ow.keeps_all ow.keeps_ignore own_basic_ops ow.keeps_sys_try own_rules ow.keeps_pure
        simp del: op_all.simps)
qed

text \<open>The chroot: every file put into it lies below its directory.\<close>

fun fs_op_within :: "string \<Rightarrow> fs_op \<Rightarrow> bool" where
  "fs_op_within d (MakeDirs p) = below d p"
| "fs_op_within d (ChownAll p u g) = True"
| "fs_op_within d op = list_all (below d) (op_target op)"

lemma path_join_prefix: "\<not> starts_with x ''/'' \<Longrightarrow> path_join d x = dir_prefix d @ x"
  by (simp add: path_join_def dir_prefix_def)

lemma below_jail_root:
  assumes "\<not> starts_with x ''/''"
  shows "below (chroot_dir vm) (path_join (jailer_root_dir vm) x)"
proof -
  have "jailer_root_dir vm = dir_prefix (chroot_dir vm) @ ''root''"
    unfolding jailer_root_dir_def chroot_dir_def by (rule path_join_prefix) (simp add: starts_with_iff)
  then show ?thesis using assms by (simp add: below_def path_join_prefix dir_prefix_def [of "_ @ _"])
qed

lemma below_jail_root_self: "below (chroot_dir vm) (jailer_root_dir vm)"
proof -
  have "jailer_root_dir vm = dir_prefix (chroot_dir vm) @ ''root''"
    unfolding jailer_root_dir_def chroot_dir_def by (rule path_join_prefix) (simp add: starts_with_iff)
  then show ?thesis by (simp add: below_def)
qed

lemma set_replace_all: "set (replace_all pat b s) \<subseteq> set s \<union> set b"
proof (induction pat b s rule: replace_all.induct)
  case (1 pat b s)
  show ?case
  proof (cases "pat = [] \<or> s = []")
    case True
    then show ?thesis by (subst replace_all.simps) auto
  next
    case False
    then obtain x xs where s: "s = x # xs" by (cases s) auto
    show ?thesis
    proof (cases "strip_prefix pat s")
      case None
      then have "set (replace_all pat b xs) \<subseteq> set xs \<union> set b" using 1 False s by blast
      then show ?thesis using None False s by (subst replace_all.simps) auto
    next
      case (Some r)
      then have "set (replace_all pat b r) \<subseteq> set r \<union> set b" using 1 False s by blast
      moreover have "s = pat @ r" using Some by (simp add: strip_prefix_Some_iff)
      ultimately show ?thesis using Some False s by (subst replace_all.simps) auto
    qed
  qed
qed

lemma file_name_no_slash: "file_name p = Some n \<Longrightarrow> CHR ''/'' \<notin> set n"
  using split_on_parts_no_sep [of n "CHR ''/''" p] last_in_set [of "path_components p"]
  by (auto simp: file_name_def path_components_def Let_def split: if_splits)

lemma no_slash_rel: "CHR ''/'' \<notin> set n \<Longrightarrow> \<not> starts_with n ''/''"
  by (auto simp: starts_with_iff)

lemma jail_names_rel:
  assumes "file_name p = Some n" and "CHR ''/'' \<notin> set b"
  shows "\<not> starts_with n ''/''" "\<not> starts_with (replace_all pat b n) ''/''"
  using file_name_no_slash [OF assms(1)] assms(2) set_replace_all [of pat b n] no_slash_rel by blast+

lemma jail_ops_within:
  assumes "setup_jailer_chroot vm = Inr ops" and "op \<in> set ops"
  shows "fs_op_within (chroot_dir vm) op"
proof -
  obtain n l c where n: "file_name (rootfs_path vm) = Some n" and l: "file_name (log_path vm) = Some l"
    and c: "file_name (config_path vm) = Some c"
    using assms(1) by (auto simp: setup_jailer_chroot_def jail_kernel_def filename_str_def Let_def)
  have k: "\<not> starts_with (jail_cache vm) ''/''" by (simp add: jail_cache_def starts_with_iff)
  note rel = jail_names_rel(1) [OF n, of "[]"] jail_names_rel(1) [OF l, of "[]"] jail_names_rel(1) [OF c, of "[]"]
    jail_names_rel(2) [OF n, of "''-kernel''" "''.ext4''"] jail_names_rel(2) [OF n, of "''-rootfs.squashfs''" "''.ext4''"]
  show ?thesis
  proof (cases "use_overlay vm")
    case True
    obtain ov where ov: "file_name (overlay_path vm) = Some ov"
      using assms(1) True by (auto simp: setup_jailer_chroot_def filename_str_def Let_def)
    show ?thesis
      using assms True n l c ov rel jail_names_rel(1) [OF ov, of "[]"] k
      by (auto simp: setup_jailer_chroot_def jail_kernel_def jail_squashfs_def filename_str_def Let_def below_jail_root
          below_jail_root_self split: option.splits)
  next
    case False
    show ?thesis
      using assms False n l c rel k
      by (auto simp: setup_jailer_chroot_def jail_kernel_def filename_str_def Let_def below_jail_root
          below_jail_root_self split: option.splits)
  qed
qed

lemma own_fs_op:
  assumes "fs_op_within d op" and "\<And>p. below d p \<Longrightarrow> own_file vm p \<and> own_dir vm p"
  shows "ow.keeps vm (run_fs_op env op)"
  using assms
  by (cases op) (auto intro!: own_basic_ops ow.keeps_bind ow.keeps_if ow.keeps_sys_op ow.keeps_sys_try own_rules ow.keeps_pure)

lemma own_pre_launch: "ow.keeps vm (pre_launch env vm)"
proof -
  have jail: "ow.keeps vm (run_fs_ops env (setup_jailer_chroot vm))" if "use_jailer vm"
  proof (cases "setup_jailer_chroot vm")
    case (Inr ops)
    have "ow.keeps vm (run_fs_op env op)" if "op \<in> set ops" for op
      using \<open>use_jailer vm\<close>
      by (intro own_fs_op [OF jail_ops_within [OF Inr that]]) (simp add: own_file_def own_dir_def)
    then show ?thesis by (auto simp: run_fs_ops_def Inr intro!: ow.keeps_all)
  qed (simp add: run_fs_ops_def ow.keeps_pure)
  have config: "ow.keeps vm (run_fs_ops env (write_vm_config vm))"
    by (cases "build_vm_config (use_jailer vm) vm")
       (auto simp: write_vm_config_def run_fs_ops_def intro!: ow.keeps_seq ow.keeps_pure own_basic_ops)
  show ?thesis
    unfolding pre_launch_def
    by (intro ow.keeps_if ow.keeps_seq ow.keeps_pure own_basic_ops own_files_vm jail config)
qed

text \<open>The process and the log.\<close>

lemma own_step: "ow.keeps vm m \<Longrightarrow> only_own vm s t \<Longrightarrow> only_own vm s (snd (m t))"
  using ow.R_trans ow.keepsD by blast

lemma own_judge: "ow.keeps vm (judge_exit how)"
  by (cases how) (auto intro!: ow.keeps_if ow.keeps_pure)

lemma keeps_modify: "(\<And>s. only_own vm s (f s)) \<Longrightarrow> ow.keeps vm (op_modify f)"
  by (simp add: ow.keeps_def op_simps)

lemma own_ended: "ow.keeps vm (ended how vm)"
  unfolding ended_def by (intro ow.keeps_seq ow.keeps_if ow.keeps_pure keeps_modify own_judge own_rules)

lemma own_need_ids: "ow.keeps vm (need_ids vm)"
  unfolding need_ids_def by (intro ow.keeps_if ow.keeps_pure)

lemma own_drop: "only_own vm s (drop_instance env vm s)"
  unfolding drop_instance_def by (rule ow.keepsD) (intro ow.keeps_sys_try own_rules)

lemma own_launch: "ow.keeps vm (launch env vm c)"
proof -
  have no_api: "ow.keeps vm (run_no_api env vm)"
    unfolding run_no_api_def
    by (cases "e_end env")
       (auto intro!: ow.keeps_seq ow.keeps_sys_op ow.keeps_pure ow.keeps_ignore ow.keeps_sys_try own_need_ids own_ended own_rules)
  have wait: "ow.keeps vm (wait_for_exit env vm)"
    unfolding wait_for_exit_def
    by (cases "e_end env")
       (auto intro!: ow.keeps_seq ow.keeps_sys_op ow.keeps_pure ow.keeps_ignore ow.keeps_sys_try keeps_modify own_rules)
  have session: "ow.keeps vm (sdk_session env vm c)"
    unfolding sdk_session_def
    by (intro ow.keeps_seq ow.keeps_if ow.keeps_sys_op ow.keeps_sys_try ow.keeps_ignore ow.keeps_pure own_basic_ops wait
        own_rules own_files_vm)
  have "ow.keeps vm (\<lambda>s. case sdk_session env vm c s of (r, t) \<Rightarrow> (r, drop_instance env vm t))"
    unfolding ow.keeps_def
    using ow.R_trans [OF ow.keepsD [OF session] own_drop] by (simp add: case_prod_unfold)
  then have "ow.keeps vm (run_with_sdk env vm c)"
    unfolding run_with_sdk_def build_sdk_instance_def
    by (intro ow.keeps_seq ow.keeps_sys_op own_need_ids own_rules)
  then show ?thesis using no_api by (simp add: launch_def)
qed

lemma own_dump: "ow.keeps vm (dump_guest_log env vm)"
proof (cases "dump_image vm")
  case (Inr img)
  have img: "own_file vm img"
  proof (cases "use_overlay vm \<or> \<not> use_jailer vm")
    case True
    then show ?thesis using Inr by (auto simp: dump_image_def split: if_splits)
  next
    case False
    then obtain n where n: "file_name (rootfs_path vm) = Some n" "img = path_join (jailer_root_dir vm) n"
      using Inr by (auto simp: dump_image_def filename_str_def)
    then show ?thesis
      using False below_jail_root [OF jail_names_rel(1) [OF n(1), of "[]"]] by (simp add: own_file_def)
  qed
  show ?thesis
    unfolding dump_guest_log_def Inr sum.case op_all.simps
    by (intro ow.keeps_bind ow.keeps_if ow.keeps_seq ow.keeps_ignore ow.keeps_pure ow.keeps_sys_try keeps_modify
        own_basic_ops own_rules own_files_vm(6) img) (auto simp: try_umount_def intro!: ow.keeps_sys_try own_rules)
qed (simp add: dump_guest_log_def ow.keeps_pure)

lemma own_run_vm: "ow.keeps vm (run_vm env vm c)"
  unfolding ow.keeps_def
proof
  fix s
  obtain r t where t: "pre_launch env vm s = (r, t)" by (cases "pre_launch env vm s")
  obtain r' u where u: "launch env vm c t = (r', u)" by (cases "launch env vm c t")
  have 1: "only_own vm s t" using ow.keepsD [OF own_pre_launch, of vm s env] t by simp
  have 2: "only_own vm s u" using own_step [OF own_launch 1, of env c] u by simp
  have 3: "only_own vm s (snd (dump_guest_log env vm (snd (end_listener env vm u))))"
    by (intro own_step [OF own_dump] own_step [OF own_devices(3)] 2)
  show "only_own vm s (snd (run_vm env vm c s))"
    using 1 2 3 by (simp add: run_vm_def t u split: sum.split)
qed

lemma own_prepare_and_run: "ow.keeps vm (prepare_and_run env vm c)"
  unfolding prepare_and_run_def by (intro ow.keeps_seq own_disks own_devices own_run_vm)

lemma own_cleanup: "ow.keeps vm (cleanup env vm)"
proof -
  have "ow.keeps vm m" if "m \<in> set (jail_removal env vm)" for m
  proof (cases "use_jailer vm")
    case True
    have r: "ow.keeps vm (remove_dir_all env (chroot_dir vm))"
      unfolding remove_dir_all_def using True by (intro ow.keeps_sys_try own_rules)
    have "ow.keeps vm (\<lambda>s. if gone \<or> \<not> has_tree (chroot_dir vm) s then (Inr (), s)
        else op_ignore (remove_dir_all env (chroot_dir vm)) s)" for gone
      using ow.keepsD [OF ow.keeps_ignore [OF r]] ow.R_refl by (simp add: ow.keeps_def)
    then show ?thesis using that True r by (auto simp: jail_removal_def intro!: ow.keeps_bind)
  qed (use that in \<open>simp add: jail_removal_def\<close>)
  then show ?thesis
    unfolding cleanup_parts destroy_tap_def
    by (auto intro!: ow.keeps_all own_basic_ops ow.keeps_ignore simp del: op_all.simps)
qed

lemma own_execute: "ow.keeps vm (execute env vm c)"
  unfolding ow.keeps_def
proof
  fix s
  obtain r t where t: "prepare_and_run env vm c s = (r, t)" by (cases "prepare_and_run env vm c s")
  have "only_own vm s t" using ow.keepsD [OF own_prepare_and_run, of vm s env c] t by simp
  then show "only_own vm s (snd (execute env vm c s))"
    using own_step [OF own_cleanup, of vm s t env] by (simp add: execute_def t)
qed

section \<open>Which errors an operation can end with\<close>

definition raises_only :: "('e \<Rightarrow> bool) \<Rightarrow> ('s, 'e, 'a) op \<Rightarrow> bool" where
  "raises_only E m \<longleftrightarrow> (\<forall>s e t. m s = (Inl e, t) \<longrightarrow> E e)"

lemma raises_onlyD: "raises_only E m \<Longrightarrow> m s = (Inl e, t) \<Longrightarrow> E e"
  unfolding raises_only_def by blast

lemma raises_pure [intro]: "raises_only E (op_ret x)" "E e \<Longrightarrow> raises_only E (op_fail e)"
  "raises_only E (op_modify f)" "(\<And>e. r = Inl e \<Longrightarrow> E e) \<Longrightarrow> raises_only E (op_lift r)"
  by (simp_all add: raises_only_def op_simps)

lemma raises_bind [intro]:
  "raises_only E m \<Longrightarrow> (\<And>x. raises_only E (f x)) \<Longrightarrow> raises_only E (op_bind m f)"
  by (fastforce simp: raises_only_def op_bind_apply split: prod.splits sum.splits)

lemma raises_seq [intro]: "raises_only E m \<Longrightarrow> raises_only E n \<Longrightarrow> raises_only E (op_seq m n)"
  unfolding op_seq_def by (rule raises_bind)

lemma raises_if [intro]:
  "(c \<Longrightarrow> raises_only E m) \<Longrightarrow> (\<not> c \<Longrightarrow> raises_only E n) \<Longrightarrow> raises_only E (if c then m else n)"
  by simp

lemma raises_sys [intro]: "E e \<Longrightarrow> raises_only E (sys_op env e g f)" "raises_only E (sys_try env g f)"
  by (auto simp: raises_only_def sys_op_def sys_try_def)

lemma raises_ignore [intro]: "raises_only E m \<Longrightarrow> raises_only E (op_ignore m)"
  unfolding op_ignore_def by (intro raises_bind raises_pure)

lemma raises_all [intro]: "(\<And>m. m \<in> set ms \<Longrightarrow> raises_only E m) \<Longrightarrow> raises_only E (op_all ms)"
  by (induction ms) (auto intro: raises_seq)

lemmas raises_rules = raises_bind raises_seq raises_pure raises_if raises_sys raises_ignore raises_all

text \<open>An error of the host or of its data, as every step before the launch raises.\<close>

fun host_failure :: "vm_error \<Rightarrow> bool" where
  "host_failure (Failed w) = True"
| "host_failure (BadPath e) = True"
| "host_failure BadHostIp = True"
| "host_failure e = False"

lemma raises_basic:
  "raises_only host_failure (write_file env p n)" "raises_only host_failure (make_dirs env d)"
  "raises_only host_failure (mount_loop_ext4 env p m)" "raises_only host_failure (new_image env p k)"
  "raises_only host_failure (delete_link env l)"
  "raises_only host_failure (guest_dir env vm r)" "raises_only host_failure (guest_write env vm r n)"
  "raises_only host_failure (guest_link_once env vm r x)" "raises_only host_failure (guest_remove env vm r)"
  "raises_only host_failure (guest_symlink env vm r x)" "raises_only host_failure (umount_tries env m j)"
  "raises_only host_failure (remove_dir env d)" "raises_only host_failure (remove_file env p)"
proof -
  show "raises_only host_failure (umount_tries env m j)"
    by (induction j) (auto simp: lazy_umount_sync_def try_umount_def intro!: raises_rules)
qed (unfold write_file_def make_dirs_def mount_loop_ext4_def new_image_def delete_link_def guest_dir_def guest_write_def
    guest_link_once_def guest_remove_def guest_symlink_def remove_dir_def remove_file_def;
    intro raises_rules; simp)+

lemma raises_configs:
  "raises_only host_failure (write_network_config env vm)" "raises_only host_failure (write_cache_service_config env vm)"
  "raises_only host_failure (write_overlay_fstab env vm)" "raises_only host_failure (mask_overlay_services env vm)"
  "raises_only host_failure (write_mount_mode_entrypoint env vm)"
  unfolding write_network_config_def write_cache_service_config_def write_overlay_fstab_def
    mask_overlay_services_def write_mount_mode_entrypoint_def
  by (auto intro!: raises_all raises_basic raises_pure simp del: op_all.simps split: option.splits)

lemma raises_steps:
  "raises_only host_failure (make_disk env vm)" "raises_only host_failure (ensure_cache_image env vm)"
  "raises_only host_failure (inject env vm c)" "raises_only host_failure (create_tap env vm)"
  "raises_only host_failure (spawn_listener env vm)" "raises_only host_failure (pre_launch env vm)"
proof -
  show "raises_only host_failure (make_disk env vm)"
    unfolding make_disk_def create_overlay_def copy_rootfs_def by (intro raises_if raises_basic raises_sys) simp
  show "raises_only host_failure (ensure_cache_image env vm)"
  proof (cases "cache_path vm")
    case (Some p)
    have "raises_only host_failure (op_seq (make_dirs env (cache_dir (fc_config vm))) (new_image env p n))" for n
      by (intro raises_seq raises_basic)
    moreover from this have "raises_only host_failure (op_seq (sys_op env (Failed w) always id) (if b then op_ret ()
        else op_seq (sys_op env (Failed x) (has_file p) (del_file p))
               (op_seq (make_dirs env (cache_dir (fc_config vm))) (new_image env p n))))" for b n w x
      by (intro raises_rules raises_basic) simp_all
    ultimately show ?thesis
      unfolding ensure_cache_image_def Some option.case Let_def raises_only_def by (simp split: option.split)
  qed (simp add: ensure_cache_image_def raises_pure)
  show "raises_only host_failure (inject env vm c)"
    unfolding inject_def inject_env_mount_def inject_network_config_def umount_with_retry_def
    by (auto intro!: raises_if raises_all raises_ignore raises_basic raises_configs simp del: op_all.simps split: if_splits)
  show "raises_only host_failure (create_tap env vm)"
    unfolding create_tap_def Let_def nl_create_tap_def add_address_v4_def set_link_up_def
    by (intro raises_rules raises_basic) (auto elim: ok_or.elims)
  show "raises_only host_failure (spawn_listener env vm)"
    unfolding spawn_listener_def
    by (intro raises_if raises_pure raises_all) (auto intro!: raises_ignore raises_basic raises_sys)
  show "raises_only host_failure (pre_launch env vm)"
  proof -
    have "raises_only host_failure (run_fs_op env op)" for op
      by (cases op) (auto intro!: raises_bind raises_if raises_sys raises_basic raises_pure)
    then have "raises_only host_failure (run_fs_ops env x)" for x
      by (cases x) (auto simp: run_fs_ops_def intro!: raises_pure raises_all)
    then show ?thesis unfolding pre_launch_def by (intro raises_if raises_seq raises_pure raises_basic)
  qed
qed

text \<open>So a result that is no such failure comes from the run itself.\<close>

lemma prepare_and_run_late:
  assumes "prepare_and_run env vm c s = (r, t)" and "\<And>e. r = Inl e \<Longrightarrow> \<not> host_failure e"
  shows "\<exists>u v w. pre_launch env vm u = (Inr (), v) \<and> launch env vm c v = (r, w) \<and>
    t = (if r = Inl Panicked then w else snd (dump_guest_log env vm (snd (end_listener env vm w))))"
proof -
  have step: "\<exists>x u. m s = (Inr x, u) \<and> n u = (r, t)"
    if "op_seq m n s = (r, t)" "raises_only host_failure m" for m :: "unit host_op" and n s
    using that assms(2) raises_onlyD [OF that(2)] by (auto simp: op_seq_apply split: prod.splits sum.splits)
  from assms(1) obtain u where u: "run_vm env vm c u = (r, t)"
    unfolding prepare_and_run_def using step raises_steps by (metis (no_types, lifting))
  obtain v where v: "pre_launch env vm u = (Inr (), v)"
    using u assms(2) raises_onlyD [OF raises_steps(6), of env vm u]
    by (cases "pre_launch env vm u") (auto simp: run_vm_def split: sum.splits)
  obtain r' w where w: "launch env vm c v = (r', w)" by (cases "launch env vm c v")
  have "r' = r \<and> t = (if r = Inl Panicked then w else snd (dump_guest_log env vm (snd (end_listener env vm w))))"
    using u by (auto simp: run_vm_def v w split: if_splits)
  then show ?thesis using v w by blast
qed

lemma raises_launch:
  "raises_only (\<lambda>e. e = Panicked \<longrightarrow> use_jailer vm \<and> (jailer_uid (fc_config vm) = None \<or> jailer_gid (fc_config vm) = None))
     (launch env vm c)" (is "raises_only ?E _")
proof -
  have ids: "raises_only ?E (need_ids vm)"
    unfolding need_ids_def by (intro raises_if raises_pure) auto
  have judge: "raises_only ?E (judge_exit how)" for how
    by (cases how) (auto intro!: raises_if raises_pure)
  have ended: "raises_only ?E (ended how vm)" for how
    unfolding ended_def by (intro raises_seq raises_if raises_pure judge)
  have no_api: "raises_only ?E (run_no_api env vm)"
    unfolding run_no_api_def
    by (cases "e_end env") (auto intro!: raises_seq raises_pure raises_sys raises_ignore ids ended)
  have wait: "raises_only ?E (wait_for_exit env vm)"
    unfolding wait_for_exit_def
    by (cases "e_end env") (auto intro!: raises_seq raises_pure raises_sys raises_ignore)
  have session: "raises_only ?E (sdk_session env vm c)"
    unfolding sdk_session_def write_file_def by (intro raises_rules wait) simp_all
  then have "raises_only ?E (\<lambda>s. case sdk_session env vm c s of (r, t) \<Rightarrow> (r, drop_instance env vm t))"
    unfolding raises_only_def by (fastforce split: prod.splits)
  then show ?thesis
    using no_api unfolding launch_def run_with_sdk_def build_sdk_instance_def
    by (auto intro!: raises_if raises_seq raises_sys ids)
qed

text \<open>A validated configuration, which has both identifiers of the jail, never panics.\<close>

lemma prepare_and_run_no_panic:
  assumes "\<not> use_jailer vm \<or> jailer_uid (fc_config vm) \<noteq> None \<and> jailer_gid (fc_config vm) \<noteq> None"
  shows "fst (prepare_and_run env vm c s) \<noteq> Inl Panicked"
proof
  assume "fst (prepare_and_run env vm c s) = Inl Panicked"
  then obtain t where "prepare_and_run env vm c s = (Inl Panicked, t)"
    by (cases "prepare_and_run env vm c s") auto
  from prepare_and_run_late [OF this] obtain v t' where "launch env vm c v = (Inl Panicked, t')" by auto
  from raises_onlyD [OF raises_launch this] show False using assms by auto
qed

section \<open>Properties\<close>




lemma run_calls_all: "(\<And>x. accepts x) \<Longrightarrow> run_calls accepts cs = (cs, Inr ())"
  by (induction cs) auto


text \<open>The process of one VM.\<close>

definition same_process :: "string \<Rightarrow> host \<Rightarrow> host \<Rightarrow> bool" where
  "same_process i s t \<longleftrightarrow> (i \<in> h_alive t \<longleftrightarrow> i \<in> h_alive s)"

interpretation pr: host_bound "same_process i" for i
  by unfold_locales (auto simp: same_process_def)

lemma process_end_listener: "pr.keeps i (end_listener env vm)"
  unfolding end_listener_def remove_file_def
  by (intro pr.keeps_if pr.keeps_ignore pr.keeps_sys_try pr.keeps_pure) (simp add: same_process_def del_file_def)

lemma process_dump: "pr.keeps i (dump_guest_log env vm)"
proof (cases "dump_image vm")
  case (Inr img)
  have "pr.keeps i (op_modify (add_log ls))" for ls
    by (simp add: pr.keeps_def op_simps same_process_def add_log_def)
  then show ?thesis
    unfolding dump_guest_log_def Inr sum.case op_all.simps mount_loop_ext4_ro_def try_umount_def remove_dir_def
    by (intro pr.keeps_bind pr.keeps_if pr.keeps_seq pr.keeps_ignore pr.keeps_pure pr.keeps_sys_try)
       (auto simp: same_process_def put_dir_def add_mount_def del_mount_def del_dir_def)
qed (simp add: dump_guest_log_def pr.keeps_pure)

lemma op_seq_TimedOut:
  assumes "op_seq m n s = (Inl TimedOut, t)" and "raises_only (\<lambda>e. e \<noteq> TimedOut) m"
  shows "\<exists>x u. m s = (Inr x, u) \<and> n u = (Inl TimedOut, t)"
  using assms(1) raises_onlyD [OF assms(2)] by (auto simp: op_seq_apply split: prod.splits sum.splits)

lemma raises_not_timeout:
  "raises_only (\<lambda>e. e \<noteq> TimedOut) (need_ids vm)" "raises_only (\<lambda>e. e \<noteq> TimedOut) (ended how vm)"
  "raises_only (\<lambda>e. e \<noteq> TimedOut) (write_file env p n)"
proof -
  show "raises_only (\<lambda>e. e \<noteq> TimedOut) (need_ids vm)"
    unfolding need_ids_def by (intro raises_if raises_pure) simp
  have "raises_only (\<lambda>e. e \<noteq> TimedOut) (judge_exit how)"
    by (cases how) (auto intro!: raises_if raises_pure)
  then show "raises_only (\<lambda>e. e \<noteq> TimedOut) (ended how vm)"
    unfolding ended_def by (intro raises_seq raises_if raises_pure)
  show "raises_only (\<lambda>e. e \<noteq> TimedOut) (write_file env p n)"
    unfolding write_file_def by (intro raises_sys) simp
qed

lemma no_api_timeout:
  assumes "run_no_api env vm s = (Inl TimedOut, t)"
  shows "vm_id vm \<in> h_alive t"
proof -
  obtain u where "op_seq (sys_op env (Failed ''spawning'') always (set_alive (vm_id vm)))
     (case e_end env of Ends how \<Rightarrow> ended how vm | TimesOut \<Rightarrow> op_fail TimedOut
      | Cancelled how \<Rightarrow> op_seq (op_ignore (sys_try env always (set_dead (vm_id vm)))) (ended how vm)) u = (Inl TimedOut, t)"
    using op_seq_TimedOut [OF assms [unfolded run_no_api_def] raises_not_timeout(1)] by blast
  from op_seq_TimedOut [OF this raises_sys(1)] obtain v where
    u: "sys_op env (Failed ''spawning'') always (set_alive (vm_id vm)) u = (Inr (), v)" and
    v: "(case e_end env of Ends how \<Rightarrow> ended how vm | TimesOut \<Rightarrow> op_fail TimedOut
      | Cancelled how \<Rightarrow> op_seq (op_ignore (sys_try env always (set_dead (vm_id vm)))) (ended how vm)) v = (Inl TimedOut, t)"
    by auto
  have "raises_only (\<lambda>e. e \<noteq> TimedOut) (op_seq (op_ignore (sys_try env always (set_dead (vm_id vm)))) (ended how vm))" for how
    by (intro raises_seq raises_ignore raises_sys raises_not_timeout)
  then have "e_end env = TimesOut"
    using v raises_onlyD raises_not_timeout(2) by (cases "e_end env") fastforce+
  then show ?thesis using u v by (auto simp: op_simps sys_op_Inr set_alive_def)
qed

lemma sdk_gone:
  assumes "no_failures env" and "run_with_sdk env vm c s = (Inl TimedOut, t)"
  shows "vm_id vm \<notin> h_alive t"
proof -
  have "raises_only (\<lambda>e. e \<noteq> TimedOut) (build_sdk_instance env vm)"
    unfolding build_sdk_instance_def by (intro raises_seq raises_sys raises_not_timeout) simp
  from op_seq_TimedOut [OF assms(2) [unfolded run_with_sdk_def] this] obtain u where
    "(case sdk_session env vm c u of (r, w) \<Rightarrow> (r, drop_instance env vm w)) = (Inl TimedOut, t)" by blast
  then obtain w where "t = drop_instance env vm w" by (auto split: prod.splits)
  then show ?thesis
    using assms(1) by (simp add: drop_instance_def sys_try_def no_failures_def always_def set_dead_def)
qed

text \<open>A run that exceeds its time limit in the mode without the API leaves its Firecracker process
  running although the VM's device and files are removed; in metadata mode the process is ended.\<close>

theorem timeout_leaves_process:
  assumes "execute env vm c s = (Inl TimedOut, t)"
  shows "(\<not> use_mmds vm \<longrightarrow> vm_id vm \<in> h_alive t) \<and> (use_mmds vm \<and> no_failures env \<longrightarrow> vm_id vm \<notin> h_alive t)"
proof -
  obtain u where u: "prepare_and_run env vm c s = (Inl TimedOut, u)" "t = snd (cleanup env vm u)"
    using assms by (auto simp: execute_def split: prod.splits if_splits)
  obtain x v w where w: "launch env vm c v = (Inl TimedOut, w)"
    "u = snd (dump_guest_log env vm (snd (end_listener env vm w)))"
    using prepare_and_run_late [OF u(1)] by auto
  have "vm_id vm \<in> h_alive t \<longleftrightarrow> vm_id vm \<in> h_alive u"
    using cleanup_run [of env vm u] u(2) by auto
  also have "\<dots> \<longleftrightarrow> vm_id vm \<in> h_alive w"
    using pr.keepsD [OF process_dump, of "vm_id vm" "snd (end_listener env vm w)" env vm]
      pr.keepsD [OF process_end_listener, of "vm_id vm" w env vm] w(2) by (simp add: same_process_def)
  finally show ?thesis
    using w(1) no_api_timeout [of env vm v w] sdk_gone [of env vm c v w] by (auto simp: launch_def split: if_splits)
qed

section \<open>Runs in which no call fails\<close>

lemma vm_paths_new:
  fixes wd :: string
  shows "overlay_path (micro_vm_new u j fc nw wd tm sl) = dir_prefix wd @ make_vm_id j u @ ''.overlay.ext4''"
    "rootfs_path (micro_vm_new u j fc nw wd tm sl) = dir_prefix wd @ make_vm_id j u @ ''.ext4''"
    "mount_point (micro_vm_new u j fc nw wd tm sl) = dir_prefix wd @ make_vm_id j u @ ''.mnt''"
    "listen_path (micro_vm_new u j fc nw wd tm sl) = dir_prefix wd @ make_vm_id j u @ ''.vsock_1024''"
    "cache_path (micro_vm_new u j fc nw wd tm sl) =
       (if cache_enabled fc then Some (dir_prefix (cache_dir fc) @ ''slot-'' @ show_nat sl @ ''.ext4'') else None)"
  using path_join_prefix [OF cache_file_rel, of "cache_dir fc" "show_nat sl @ ''.ext4''"]
  by (simp_all add: micro_vm_new_def path_join_vm_file listen_path_def Let_def)

lemma cache_file_differs:
  assumes "uuid_ok u" and "CHR ''/'' \<notin> set x"
  shows "dir_prefix d @ ''slot-'' @ show_nat sl @ ''.ext4'' \<noteq> dir_prefix wd @ make_vm_id j u @ x"
proof
  assume E: "dir_prefix d @ ''slot-'' @ show_nat sl @ ''.ext4'' = dir_prefix wd @ make_vm_id j u @ x"
  have "CHR ''/'' \<notin> set (''slot-'' @ show_nat sl @ ''.ext4'')"
    using show_nat_avoids [of "CHR ''/''" sl] by (auto simp: digit_val_def)
  from after_last_dir_prefix [OF this, of d]
  have "after_last (CHR ''/'') (dir_prefix d @ ''slot-'' @ show_nat sl @ ''.ext4'') = ''slot-'' @ show_nat sl @ ''.ext4''" .
  moreover have "after_last (CHR ''/'') (dir_prefix wd @ make_vm_id j u @ x) = make_vm_id j u @ x"
    using make_vm_id_chars(2) [OF assms(1)] assms(2) by (intro after_last_dir_prefix) auto
  ultimately show False using E by (simp add: make_vm_id_def)
qed

lemma create_tap_succeeds:
  assumes "no_failures env" and "parse_ipv4 (vm_host_ip vm) = Some ip" and "length (tap_name vm) < 16"
  shows "\<exists>t. create_tap env vm s = (Inr (), t)"
  using assms
  by (simp add: create_tap_def Let_def op_simps delete_link_def op_ignore_def sys_try_def nl_create_tap_def always_def
      del_link_def add_tap_def tap_name_ok_def add_address_v4_def set_link_up_def sys_op_def can_add_address_def
      change_link_def no_failures_def)

lemma new_image_run:
  "no_failures env \<Longrightarrow> \<exists>t. new_image env p n s = (Inr (), t) \<and> h_files t = (h_files s)(p \<mapsto> DiskImage n True)"
  by (simp add: new_image_def write_file_def op_simps sys_op_def no_failures_def always_def has_file_def put_file_def
      format_image_def)

lemma make_disk_run:
  assumes "no_failures env"
    and "use_overlay vm \<or> h_files s (rootfs_golden (fc_config vm)) = Some (DiskImage n True)"
  shows "\<exists>t k. make_disk env vm s = (Inr (), t) \<and> h_files t (image_to_mount vm) = Some (DiskImage k True)"
  using assms new_image_run [of env "overlay_path vm" "mib (overlay_size_mib (fc_config vm))" s]
  by (auto simp: make_disk_def create_overlay_def copy_rootfs_def image_to_mount_def op_simps sys_op_def no_failures_def
      has_file_def copy_file_def put_file_def)

lemma ensure_cache_image_run:
  assumes "no_failures env" and "cache_path vm \<noteq> Some q"
  shows "\<exists>t. ensure_cache_image env vm s = (Inr (), t) \<and> h_files t q = h_files s q"
proof (cases "cache_path vm")
  case (Some p)
  then have "p \<noteq> q" using assms(2) by auto
  let ?n = "mib (cache_size_mib (fc_config vm))"
  have fresh: "\<exists>t. op_seq (make_dirs env (cache_dir (fc_config vm))) (new_image env p ?n) u = (Inr (), t) \<and>
      h_files t q = h_files u q" for u
    using new_image_run [of env p ?n "tick (put_dir (cache_dir (fc_config vm)) u)"] assms(1) \<open>p \<noteq> q\<close>
    by (auto simp: op_simps make_dirs_def sys_op_def no_failures_def always_def put_dir_def)
  show ?thesis
  proof (cases "h_files s p")
    case None
    then show ?thesis using fresh by (simp add: ensure_cache_image_def Some Let_def)
  next
    case (Some f)
    have "del_file p u = u\<lparr>h_files := (h_files u)(p := None)\<rparr>" for u by (simp add: del_file_def)
    then show ?thesis
      using fresh [of "tick (del_file p (tick s))"] assms(1) \<open>p \<noteq> q\<close> Some
      by (auto simp: ensure_cache_image_def \<open>cache_path vm = Some p\<close> Let_def op_simps sys_op_def no_failures_def always_def
          has_file_def)
  qed
qed (simp add: ensure_cache_image_def op_ret_def)

lemma pre_launch_run:
  assumes "no_failures env" and "\<not> use_jailer vm"
  shows "\<exists>t. pre_launch env vm s = (Inr (), t)"
proof -
  obtain j where "build_vm_config False vm = Inr j" using machine_of_config by blast
  then show ?thesis
    using assms
    by (simp add: pre_launch_def write_vm_config_def run_fs_ops_def write_file_def op_simps sys_op_def no_failures_def
        always_def)
qed

fun exit_result :: "exit_how \<Rightarrow> (vm_error, unit) result" where
  "exit_result (Exits n) = (if n = 0 then Inr () else Inl (ExitStatus n))"
| "exit_result BySignal = Inr ()"
| "exit_result WaitFails = Inl (Failed ''waiting for firecracker'')"

definition run_result :: "host_env \<Rightarrow> micro_vm \<Rightarrow> string \<Rightarrow> (vm_error, unit) result" where
  "run_result env vm c =
     (if use_mmds vm then
        (if is_ok (snd (configure_instance (e_accepts env) vm c))
         then (if e_end env = TimesOut then Inl TimedOut else Inr ()) else Inl Rejected)
      else (case e_end env of TimesOut \<Rightarrow> Inl TimedOut | Ends how \<Rightarrow> exit_result how | Cancelled how \<Rightarrow> exit_result how))"

lemma ended_result: "fst (ended how vm s) = exit_result how"
  by (cases how) (simp_all add: ended_def op_simps)

lemma launch_result:
  assumes "no_failures env" and "\<not> use_jailer vm"
  shows "fst (launch env vm c s) = run_result env vm c"
proof -
  note S = op_simps sys_op_def sys_try_def no_failures_def always_def op_ignore_def need_ids_def
  show ?thesis
  proof (cases "use_mmds vm")
    case True
    then show ?thesis
      using assms
      by (cases "e_end env")
         (simp_all add: launch_def run_result_def run_with_sdk_def build_sdk_instance_def sdk_session_def wait_for_exit_def
           write_file_def S)
  next
    case False
    then show ?thesis
      using assms
      by (cases "e_end env") (simp_all add: launch_def run_result_def run_no_api_def ended_result S)
  qed
qed

lemma prepare_and_run_result:
  assumes "no_failures env" and "\<not> use_jailer vm"
    and "use_overlay vm \<or> h_files s (rootfs_golden (fc_config vm)) = Some (DiskImage n True)"
    and "parse_ipv4 (vm_host_ip vm) = Some ip" and "length (tap_name vm) < 16"
    and "cache_path vm \<noteq> Some (image_to_mount vm)"
  shows "fst (prepare_and_run env vm c s) = run_result env vm c"
proof -
  obtain s1 k where 1: "make_disk env vm s = (Inr (), s1)" "h_files s1 (image_to_mount vm) = Some (DiskImage k True)"
    using make_disk_run [OF assms(1,3)] by blast
  obtain s2 where 2: "ensure_cache_image env vm s1 = (Inr (), s2)" "h_files s2 (image_to_mount vm) = Some (DiskImage k True)"
    using ensure_cache_image_run [OF assms(1,6), of s1] 1(2) by auto
  obtain s3 where 3: "inject env vm c s2 = (Inr (), s3)"
    using inject_succeeds [where vm = vm and s = s2, OF assms(1) 2(2)] by blast
  obtain s4 where 4: "create_tap env vm s3 = (Inr (), s4)"
    using create_tap_succeeds [OF assms(1,4,5)] by blast
  have "fst (spawn_listener env vm s4) = Inr ()"
    by (simp add: spawn_listener_def op_simps op_ignore_def remove_file_def sys_try_def)
  then obtain s5 where 5: "spawn_listener env vm s4 = (Inr (), s5)" by (cases "spawn_listener env vm s4") auto
  obtain s6 where 6: "pre_launch env vm s5 = (Inr (), s6)"
    using pre_launch_run [OF assms(1,2)] by blast
  obtain r s7 where 7: "launch env vm c s6 = (r, s7)" by (cases "launch env vm c s6")
  then have "r = run_result env vm c" using launch_result [OF assms(1,2), of c s6] by simp
  then show ?thesis
    by (simp add: prepare_and_run_def op_seq_apply 1(1) 2(1) 3 4 5 run_vm_def 6 7)
qed

text \<open>The conditions, for a VM as \<open>MicroVm::new\<close> makes it.\<close>

lemma new_vm_ready:
  assumes "vm = micro_vm_new u j fc nw wd tm sl" and "uuid_ok u" and "sl \<le> 255"
  shows "parse_ipv4 (vm_host_ip vm) = Some [172, 16, sl, 1]" and "length (tap_name vm) < 16"
    and "cache_path vm \<noteq> Some (image_to_mount vm)"
proof -
  show "parse_ipv4 (vm_host_ip vm) = Some [172, 16, sl, 1]" using assms by (simp only: vm_ip_octets if_True)
  show "length (tap_name vm) < 16" using assms tap_name_short [of sl] by (simp add: tap_name_ok_def)
  have "dir_prefix (cache_dir fc) @ ''slot-'' @ show_nat sl @ ''.ext4'' \<noteq> dir_prefix wd @ make_vm_id j u @ x"
    if "x \<in> {''.ext4'', ''.overlay.ext4''}" for x
    using that by (intro cache_file_differs [OF assms(2)]) auto
  then show "cache_path vm \<noteq> Some (image_to_mount vm)"
    using assms(1) by (auto simp: image_to_mount_def vm_paths_new simp del: micro_vm_new_sel)
qed



theorem timeout_leaves_process_witness:
  "\<exists>t. execute (calm_env\<lparr>e_end := TimesOut\<rparr>) (demo_vm ''mount'') ''A=1'' demo_host = (Inl TimedOut, t) \<and>
     vm_id (demo_vm ''mount'') \<in> h_alive t"
proof -
  let ?env = "calm_env\<lparr>e_end := TimesOut\<rparr>" and ?vm = "demo_vm ''mount''"
  have m: "\<not> use_mmds ?vm" "\<not> use_jailer ?vm" "use_overlay ?vm" "no_failures ?env"
    by (simp_all add: demo_vm_def use_mmds_def use_jailer_def use_overlay_def default_firecracker_config_def calm_env_def
        no_failures_def)
  have "fst (prepare_and_run ?env ?vm ''A=1'' demo_host) = Inl TimedOut"
    using prepare_and_run_result [OF m(4,2) _ new_vm_ready [OF demo_vm_def], of demo_host 0 "''A=1''"] m
    by (simp add: run_result_def uuid_ok_def)
  then obtain t where "execute ?env ?vm ''A=1'' demo_host = (Inl TimedOut, t)"
    by (cases "prepare_and_run ?env ?vm ''A=1'' demo_host") (auto simp: execute_def)
  with timeout_leaves_process [OF this] m show ?thesis by blast
qed

section \<open>Two VMs\<close>

lemma with_dir_prefix: "starts_with (dir_prefix d @ x) (dir_prefix d)"
  by simp

lemma prefixes_comparable:
  "starts_with p x \<Longrightarrow> starts_with p y \<Longrightarrow> starts_with x y \<or> starts_with y x"
  by (auto simp: starts_with_iff append_eq_append_conv2)

definition apart :: "string \<Rightarrow> string \<Rightarrow> bool" where
  "apart d e \<longleftrightarrow> \<not> starts_with (dir_prefix d) (dir_prefix e) \<and> \<not> starts_with (dir_prefix e) (dir_prefix d)"

lemma apart_neq: "apart d e \<Longrightarrow> starts_with p (dir_prefix d) \<Longrightarrow> \<not> starts_with p (dir_prefix e)"
  using prefixes_comparable by (auto simp: apart_def)

lemma vm_id_rel: "\<not> starts_with (make_vm_id j u @ x) ''/''"
  by (simp add: make_vm_id_def starts_with_iff)

definition jail_parent :: "firecracker_config \<Rightarrow> string" where
  "jail_parent fc = dir_prefix (dir_prefix (jailer_chroot_base fc) @ ''firecracker'')"

lemma jail_parent_eq: "jail_parent fc = dir_prefix (jailer_chroot_base fc) @ ''firecracker/''"
  by (simp add: jail_parent_def dir_prefix_def)

lemma chroot_dir_new: "chroot_dir (micro_vm_new u j fc nw wd tm sl) = jail_parent fc @ make_vm_id j u"
proof -
  have "path_join (jailer_chroot_base fc) ''firecracker'' = dir_prefix (jailer_chroot_base fc) @ ''firecracker''"
    by (rule path_join_prefix) (simp add: starts_with_iff)
  then show ?thesis
    using vm_id_rel [of j u "[]"] by (simp add: chroot_dir_def path_join_prefix jail_parent_def)
qed

text \<open>A path in the jail of a VM names the VM between two slashes.\<close>

lemma below_chroot:
  assumes "uuid_ok u" and "below (jail_parent fc @ make_vm_id j u) p"
  shows "starts_with p (dir_prefix (jailer_chroot_base fc)) \<and>
    (\<exists>r. p = jail_parent fc @ make_vm_id j u @ r \<and> (r = [] \<or> hd r = CHR ''/''))"
proof -
  have "last (make_vm_id j u) \<noteq> CHR ''/''" "make_vm_id j u \<noteq> []"
    using make_vm_id_chars(2) [OF assms(1)] last_in_set [of "make_vm_id j u"] by (auto simp: make_vm_id_def)
  then have "dir_prefix (jail_parent fc @ make_vm_id j u) = jail_parent fc @ make_vm_id j u @ ''/''"
    by (simp add: dir_prefix_def)
  then show ?thesis
    using assms(2) by (auto simp: below_def starts_with_iff jail_parent_eq)
qed

lemma until_slash: "CHR ''/'' \<notin> set a \<Longrightarrow> CHR ''/'' \<notin> set b \<Longrightarrow> a @ r = b @ r' \<Longrightarrow>
   r = [] \<or> hd r = CHR ''/'' \<Longrightarrow> r' = [] \<or> hd r' = CHR ''/'' \<Longrightarrow> a = b"
proof (induction a arbitrary: b)
  case Nil
  then show ?case by (cases b) (auto split: if_splits)
next
  case (Cons x a)
  then show ?case by (cases b) auto
qed

text \<open>The files of a VM, by kind.\<close>

lemma own_file_new:
  assumes "uuid_ok u" and "own_file (micro_vm_new u j fc nw wd tm sl) p"
  shows "(\<exists>x. CHR ''/'' \<notin> set x \<and> p = dir_prefix wd @ make_vm_id j u @ CHR ''.'' # x) \<or>
    p = dir_prefix (cache_dir fc) @ ''slot-'' @ show_nat sl @ ''.ext4'' \<or>
    jailer_path fc \<noteq> None \<and> below (jail_parent fc @ make_vm_id j u) p"
proof -
  have "\<exists>x. CHR ''/'' \<notin> set x \<and> p = dir_prefix wd @ make_vm_id j u @ CHR ''.'' # x"
    if "p \<in> set (vm_files (micro_vm_new u j fc nw wd tm sl))"
    using that unfolding vm_files_new [OF assms(1)] by auto
  moreover have "\<exists>x. CHR ''/'' \<notin> set x \<and> p = dir_prefix wd @ make_vm_id j u @ CHR ''.'' # x"
    if "p = dir_prefix wd @ make_vm_id j u @ ''.vsock_1024''"
    using that by (intro exI [of _ "''vsock_1024''"]) simp
  ultimately show ?thesis
    using assms(2) unfolding own_file_def vm_paths_new chroot_dir_new
    by (auto simp: use_jailer_def split: if_splits)
qed

lemma own_files_disjoint:
  assumes "uuid_ok u" and "uuid_ok u'" and "(j, u) \<noteq> (j', u')" and "sl \<noteq> sl'"
    and "jailer_path fc = None \<or> apart wd (jailer_chroot_base fc) \<and> apart (cache_dir fc) (jailer_chroot_base fc)"
    and "own_file (micro_vm_new u j fc nw wd tm sl) p" and "own_file (micro_vm_new u' j' fc nw wd tm sl') p"
  shows False
proof -
  let ?w = "\<lambda>j u. \<exists>x. CHR ''/'' \<notin> set x \<and> p = dir_prefix wd @ make_vm_id j u @ CHR ''.'' # x"
  let ?c = "\<lambda>n. p = dir_prefix (cache_dir fc) @ ''slot-'' @ show_nat n @ ''.ext4''"
  let ?b = "\<lambda>j u. jailer_path fc \<noteq> None \<and> below (jail_parent fc @ make_vm_id j u) p"
  have wc: "\<not> (?w j u \<and> ?c n)" if "uuid_ok u" for j u n
    using cache_file_differs [OF that, of "CHR ''.'' # _"] by fastforce
  have outside: "\<not> starts_with p (dir_prefix (jailer_chroot_base fc))"
    if "jailer_path fc \<noteq> None" "starts_with p (dir_prefix wd) \<or> starts_with p (dir_prefix (cache_dir fc))"
    using that assms(5) apart_neq [of wd "jailer_chroot_base fc" p] apart_neq [of "cache_dir fc" "jailer_chroot_base fc" p]
    by auto
  have jail: "\<not> (?b j u \<and> (starts_with p (dir_prefix wd) \<or> starts_with p (dir_prefix (cache_dir fc))))" if "uuid_ok u" for j u
    using below_chroot [OF that, of fc j p] outside by blast
  have ww: "\<not> (?w j u \<and> ?w j' u')" using vm_file_inject [OF assms(1,2)] assms(3) by blast
  have cc: "\<not> (?c sl \<and> ?c sl')" using assms(4) by simp
  have bb: "\<not> (?b j u \<and> ?b j' u')"
  proof
    assume "?b j u \<and> ?b j' u'"
    then obtain r r' where "make_vm_id j u @ r = make_vm_id j' u' @ r'" "r = [] \<or> hd r = CHR ''/''" "r' = [] \<or> hd r' = CHR ''/''"
      using below_chroot [OF assms(1)] below_chroot [OF assms(2)] by (metis append_same_eq same_append_eq)
    then have "make_vm_id j u = make_vm_id j' u'"
      using until_slash make_vm_id_chars(2) assms(1,2) by blast
    then show False using assms(3) by (simp add: make_vm_id_inject)
  qed
  have w: "starts_with p (dir_prefix wd)" if "?w j u" for j u using that by auto
  have c: "starts_with p (dir_prefix (cache_dir fc))" if "?c n" for n using that by auto
  show False
    using own_file_new [OF assms(1,6)] own_file_new [OF assms(2,7)] ww cc bb wc [OF assms(1)] wc [OF assms(2)]
      jail [OF assms(1)] jail [OF assms(2)] w c by blast
qed

lemma mounts_elsewhere:
  "filter (\<lambda>m. fst m \<noteq> x) ms = filter (\<lambda>m. fst m \<noteq> x) ns \<Longrightarrow> y \<noteq> x \<Longrightarrow> map_of ms y = map_of ns y"
proof -
  have "map_of (filter (\<lambda>m. fst m \<noteq> x) ks) y = map_of ks y" if "y \<noteq> x" for ks :: "('a \<times> 'b) list"
    using that by (induction ks) auto
  then show "filter (\<lambda>m. fst m \<noteq> x) ms = filter (\<lambda>m. fst m \<noteq> x) ns \<Longrightarrow> y \<noteq> x \<Longrightarrow> map_of ms y = map_of ns y"
    by metis
qed



section \<open>What is left behind\<close>

text \<open>An injection that fails after its mount leaves the image mounted: the clean-up removes the image
  file and cannot remove the mount point, and neither is ever unmounted.\<close>

theorem failed_injection_leaks_mount:
  assumes "use_mmds vm" and "use_overlay vm" and "cache_path vm = None" and "\<not> use_jailer vm"
    and "\<And>k. e_ok env k \<longleftrightarrow> k \<noteq> h_tick s + 5"
  shows "\<exists>t e. execute env vm c s = (Inl e, t) \<and> h_mounts t = (mount_point vm, overlay_path vm) # h_mounts s \<and>
    mount_point vm \<in> h_dirs t \<and> h_files t (overlay_path vm) = None"
proof -
  define u where "u = snd (prepare_and_run env vm c s)"
  have u: "prepare_and_run env vm c s = (Inl (Failed ''etc/systemd/network''), u)"
    "h_mounts u = (mount_point vm, overlay_path vm) # h_mounts s" "mount_point vm \<in> h_dirs u" "h_tick u = h_tick s + 6"
    using assms
    by (simp_all add: u_def prepare_and_run_def make_disk_def create_overlay_def new_image_def write_file_def op_seq_apply
        sys_op_def always_def has_file_def put_file_def ensure_cache_image_def op_ret_def inject_def inject_network_config_def
        make_dirs_def mount_loop_ext4_def can_mount_def image_to_mount_def format_image_def put_dir_def add_mount_def
        write_network_config_def guest_dir_def is_mounted_def)
  have m: "is_mounted (mount_point vm) u" using u(2) by (simp add: is_mounted_def)
  have ok: "\<forall>k \<ge> h_tick u. e_ok env k" using assms(5) u(4) by auto
  have o: "overlay_path vm \<in> set (vm_files vm)" by (simp add: vm_files_def)
  obtain t where "cleanup env vm u = (Inr (), t)" "h_mounts t = h_mounts u"
    "mount_point vm \<in> h_dirs t \<longleftrightarrow> mount_point vm \<in> h_dirs u" "h_files t (overlay_path vm) = None"
    using cleanup_run [of env vm u] m ok o assms(4) by auto
  then show ?thesis using u by (auto simp: execute_def)
qed

theorem failed_injection_leaks_mount_witness:
  "\<exists>t e. execute (calm_env\<lparr>e_ok := (\<lambda>k. k \<noteq> 5)\<rparr>) (demo_vm ''mmds'') ''A=1'' demo_host = (Inl e, t) \<and>
     h_mounts t = [(mount_point (demo_vm ''mmds''), overlay_path (demo_vm ''mmds''))]"
  using failed_injection_leaks_mount [of "demo_vm ''mmds''" "calm_env\<lparr>e_ok := (\<lambda>k. k \<noteq> 5)\<rparr>" demo_host "''A=1''"]
  by (fastforce simp: demo_vm_def use_mmds_def use_overlay_def use_jailer_def default_firecracker_config_def demo_host_def)

text \<open>The listener's socket is not among the files clean-up removes.\<close>

lemma cleanup_keeps_listener_socket:
  assumes "uuid_ok u" and "vm = micro_vm_new u j fc nw wd tm sl" and "jailer_path fc = None"
  shows "h_files (snd (cleanup env vm s)) (listen_path vm) = h_files s (listen_path vm)"
proof -
  have "listen_path vm \<notin> set (vm_files vm)"
    unfolding assms(2) vm_files_new [OF assms(1)] vm_paths_new by simp
  then show ?thesis using cleanup_run [of env vm s] assms(2,3) by (auto simp: use_jailer_def)
qed

section \<open>The dumped log\<close>

lemma strip_ansi_no_escape: "CHR 0x1B \<notin> set (strip_ansi b cs)"
  by (induction b cs rule: strip_ansi.induct) auto

lemma strip_ansi_plain: "CHR 0x1B \<notin> set cs \<Longrightarrow> strip_ansi False cs = cs"
  by (induction cs) auto

text \<open>No escape character reaches the host's log, and at most 51 lines of a guest's log do.\<close>

lemma guest_log_lines_clean:
  "length (guest_log_lines text) \<le> 51 \<and> (\<forall>l \<in> set (guest_log_lines text). l \<noteq> [] \<and> CHR 0x1B \<notin> set l)"
proof -
  have "CHR 0x1B \<notin> set (trim (strip_ansi False l))" for l
    using strip_ansi_no_escape [of False l] set_trim by blast
  moreover have "length (filter P (map f (take 50 ls)) @ (if b then [x] else [])) \<le> 51" for P b x ls and f :: "string \<Rightarrow> string"
    using length_filter_le [of P "map f (take 50 ls)"] by (simp only: length_append) simp
  ultimately show ?thesis by (simp only: guest_log_lines_def Let_def) auto
qed

end
