(* ===== verification/Vm_Runs.thy ===== *)
theory Vm_Runs
  imports Vsock Lifecycle
begin

text \<open>
  From a job or a free slot to the end of its VM: \<open>run_jit_job\<close>, \<open>run_warm_vm\<close> and
  \<open>append_cache_env\<close> (\<open>src/src/scheduler/orchestrator.rs\<close>) and \<open>run_pool_vm\<close>
  (\<open>src/src/scheduler/pool.rs\<close>). They join the GitHub client, the management server's list of VMs, the
  environment text the guest is given and the life of the VM on the host; the state is the three of
  them. The random identifiers and the clock's reading are parameters of a run.
\<close>

section \<open>State\<close>

record 'w run_state =
  ru_gh :: "'w gh_state"
  ru_server :: server_state
  ru_host :: host

record run_seed =
  rs_uuid :: string
  rs_short :: string
  rs_time :: nat

datatype run_error = GhError gh_error | VmError vm_error

section \<open>The environment text\<close>

definition show_bool :: "bool \<Rightarrow> string" where
  "show_bool b = (if b then ''true'' else ''false'')"

definition jit_env :: "string \<Rightarrow> string \<Rightarrow> string \<Rightarrow> bool \<Rightarrow> (string \<times> string) list" where
  "jit_env tok url i eph =
     [(''RUNNER_MODE'', ''jit''), (''RUNNER_TOKEN'', tok), (''REPO_URL'', url), (''VM_ID'', i),
      (''RUNNER_JIT_CONFIG'', tok), (''HOSTNAME'', i), (''SHUTDOWN_ON_EXIT'', ''true''), (''EPHEMERAL'', show_bool eph)]"

definition register_env :: "string \<Rightarrow> string \<Rightarrow> string \<Rightarrow> string \<Rightarrow> bool \<Rightarrow> (string \<times> string) list" where
  "register_env tok url name i eph =
     [(''RUNNER_MODE'', ''register''), (''RUNNER_TOKEN'', tok), (''REPO_URL'', url), (''RUNNER_NAME'', name),
      (''VM_ID'', i), (''HOSTNAME'', i), (''SHUTDOWN_ON_EXIT'', ''true''), (''EPHEMERAL'', show_bool eph)]"

definition listen_port :: "app_config \<Rightarrow> nat option" where
  "listen_port cfg = parse_unsigned 65535 (after_last (CHR '':'') (listen_addr (server cfg)))"

text \<open>Token and port of the cache service, when it is enabled and both are there.\<close>

definition cache_access :: "app_config \<Rightarrow> (string \<times> nat) option" where
  "cache_access cfg =
     (if cs_enabled (cache_service cfg)
      then (case (cs_token (cache_service cfg), listen_port cfg) of (Some t, Some p) \<Rightarrow> Some (t, p) | _ \<Rightarrow> None)
      else None)"

definition with_cache_service :: "app_config \<Rightarrow> micro_vm \<Rightarrow> micro_vm" where
  "with_cache_service cfg vm =
     (if cs_enabled (cache_service cfg)
      then vm\<lparr>cache_service_token := cs_token (cache_service cfg), cache_service_port := listen_port cfg\<rparr>
      else vm)"

definition cache_url :: "micro_vm \<Rightarrow> nat \<Rightarrow> string" where
  "cache_url vm port = ''http://'' @ vm_host_ip vm @ '':'' @ show_nat port @ ''/''"

definition cache_url_env :: "micro_vm \<Rightarrow> string \<Rightarrow> nat \<Rightarrow> (string \<times> string) list" where
  "cache_url_env vm token port =
     [(''CACHE_URL'', cache_url vm port), (''CACHE_TOKEN'', token)]"

definition guest_s3_endpoint :: "app_config \<Rightarrow> micro_vm \<Rightarrow> string" where
  "guest_s3_endpoint cfg vm =
     replace_all ''127.0.0.1'' (vm_host_ip vm) (replace_all ''localhost'' (vm_host_ip vm) (s3_endpoint (cache_service cfg)))"

definition key_env :: "string \<Rightarrow> string option \<Rightarrow> (string \<times> string) list" where
  "key_env k x = (case x of None \<Rightarrow> [] | Some v \<Rightarrow> [(k, v)])"

definition s3_env :: "app_config \<Rightarrow> micro_vm \<Rightarrow> (string \<times> string) list" where
  "s3_env cfg vm =
     [(''S3_ENDPOINT'', guest_s3_endpoint cfg vm), (''S3_BUCKET'', s3_bucket (cache_service cfg)),
      (''S3_REGION'', s3_region (cache_service cfg))]
     @ key_env ''S3_ACCESS_KEY'' (s3_access_key (cache_service cfg))
     @ key_env ''S3_SECRET_KEY'' (s3_secret_key (cache_service cfg))"

definition s3_guest :: "app_config \<Rightarrow> micro_vm \<Rightarrow> s3_guest_config option" where
  "s3_guest cfg vm =
     (case (s3_access_key (cache_service cfg), s3_secret_key (cache_service cfg)) of
        (Some ak, Some sk) \<Rightarrow> Some
          \<lparr>g_endpoint = guest_s3_endpoint cfg vm, g_bucket = s3_bucket (cache_service cfg), g_access_key = ak,
           g_secret_key = sk, g_region = s3_region (cache_service cfg)\<rparr>
      | _ \<Rightarrow> None)"

text \<open>The lines are appended to the text, and the S3 access is set on the VM when both keys are there.\<close>

definition append_cache_env :: "app_config \<Rightarrow> micro_vm \<Rightarrow> string \<Rightarrow> micro_vm \<times> string" where
  "append_cache_env cfg vm env_content =
     (case cache_access cfg of
        None \<Rightarrow> (vm, env_content)
      | Some (token, port) \<Rightarrow>
          ((case s3_guest cfg vm of None \<Rightarrow> vm | Some g \<Rightarrow> vm\<lparr>s3_config := Some g\<rparr>),
           env_content @ env_text (cache_url_env vm token port) @ env_text (s3_env cfg vm)))"

section \<open>Runs\<close>

definition repo_page :: "app_config \<Rightarrow> string \<Rightarrow> string" where
  "repo_page cfg repo = ''https://github.com/'' @ gh_owner (github cfg) @ ''/'' @ repo"

definition jit_text :: "app_config \<Rightarrow> string \<Rightarrow> micro_vm \<Rightarrow> string \<Rightarrow> string" where
  "jit_text cfg repo vm tok = env_text (jit_env tok (repo_page cfg repo) (vm_id vm) (ephemeral (runner cfg)))"

definition new_vm :: "run_ctx \<Rightarrow> firecracker_config \<Rightarrow> run_seed \<Rightarrow> nat \<Rightarrow> micro_vm" where
  "new_vm ctx fc seed job =
     with_cache_service (ctx_config ctx)
       (micro_vm_new (rs_uuid seed) job fc (network (ctx_config ctx)) (work_dir (runner (ctx_config ctx)))
          (vm_timeout_secs (runner (ctx_config ctx))) (ctx_slot ctx))"

definition run_info :: "run_ctx \<Rightarrow> run_seed \<Rightarrow> nat \<Rightarrow> string \<Rightarrow> micro_vm \<Rightarrow> vm_info" where
  "run_info ctx seed job repo vm =
     \<lparr>vi_id = vm_id vm, vi_job = job, vi_repo = repo, vi_slot = ctx_slot ctx, vi_started = show_nat (rs_time seed)\<rparr>"

text \<open>Registered, executed, unregistered whatever came of it; a panic ends the task before the last step.\<close>

definition run_registered ::
    "host_env \<Rightarrow> vm_info \<Rightarrow> micro_vm \<Rightarrow> string \<Rightarrow> 'w run_state \<Rightarrow> (run_error, unit) result \<times> 'w run_state" where
  "run_registered henv info vm env_content s =
     (case execute henv vm env_content (ru_host s) of (r, h) \<Rightarrow>
        let s1 = s\<lparr>ru_server := register_vm info (ru_server s), ru_host := h\<rparr> in
        case r of
          Inr _ \<Rightarrow> (Inr (), s1\<lparr>ru_server := unregister_vm (vm_id vm) (ru_server s1)\<rparr>)
        | Inl e \<Rightarrow>
            (Inl (VmError e),
             if e = Panicked then s1 else s1\<lparr>ru_server := unregister_vm (vm_id vm) (ru_server s1)\<rparr>))"

text \<open>A job that failed is named after its slot, because its VM's identifier is lost with the error.\<close>

definition run_jit_job ::
    "'w http_env \<Rightarrow> gh_client \<Rightarrow> host_env \<Rightarrow> run_seed \<Rightarrow> run_ctx \<Rightarrow> nat \<Rightarrow> string \<Rightarrow> 'w run_state
       \<Rightarrow> ((run_error, unit) result \<times> string) \<times> 'w run_state" where
  "run_jit_job genv c henv seed ctx job repo s =
     (let cfg = ctx_config ctx; label = ''fc-'' @ show_nat job @ ''-slot'' @ show_nat (ctx_slot ctx) in
      case generate_jit_config genv c repo job (ru_gh s) of
        (Inl e, g) \<Rightarrow> ((Inl (GhError e), label), s\<lparr>ru_gh := g\<rparr>)
      | (Inr tok, g) \<Rightarrow>
          let vm = new_vm ctx (firecracker cfg) seed job;
              (vm2, text) = append_cache_env cfg vm (jit_text cfg repo vm tok);
              (r, t) = run_registered henv (run_info ctx seed job repo vm) vm2 text (s\<lparr>ru_gh := g\<rparr>)
          in ((r, if is_ok r then vm_id vm else label), t))"

text \<open>\<open>expect("org mode checked by caller")\<close> cannot fail in the branch it is in.\<close>

definition registration ::
    "'w http_env \<Rightarrow> gh_client \<Rightarrow> app_config \<Rightarrow> string \<Rightarrow> ('w, string \<times> string) gh" where
  "registration genv c cfg repo =
     (case org_url c of
        Some ourl \<Rightarrow>
          op_bind (generate_org_registration_token genv c ourl) (\<lambda>t.
            op_ret (t, ''https://github.com/'' @ (case organization (github cfg) of Some o' \<Rightarrow> o' | None \<Rightarrow> ''unknown'')))
      | None \<Rightarrow>
          op_bind (generate_registration_token genv c repo) (\<lambda>t.
            op_ret (t, repo_page cfg repo)))"

definition run_warm_vm ::
    "'w http_env \<Rightarrow> gh_client \<Rightarrow> host_env \<Rightarrow> run_seed \<Rightarrow> run_ctx \<Rightarrow> string \<Rightarrow> 'w run_state
       \<Rightarrow> (run_error, string) result \<times> 'w run_state" where
  "run_warm_vm genv c henv seed ctx repo s =
     (let cfg = ctx_config ctx in
      case registration genv c cfg repo (ru_gh s) of
        (Inl e, g) \<Rightarrow> (Inl (GhError e), s\<lparr>ru_gh := g\<rparr>)
      | (Inr (tok, url), g) \<Rightarrow>
          let name = ''fc-warm-'' @ show_nat (ctx_slot ctx) @ ''-'' @ rs_short seed;
              vm = new_vm ctx (firecracker cfg) seed 0;
              (vm2, text) = append_cache_env cfg vm
                 (env_text (register_env tok url name (vm_id vm) (ephemeral (runner cfg))));
              (r, t) = run_registered henv (run_info ctx seed 0 repo vm) vm2 text (s\<lparr>ru_gh := g\<rparr>)
          in (bindE r (\<lambda>_. Inr name), t))"

definition pool_fc_config :: "run_ctx \<Rightarrow> firecracker_config" where
  "pool_fc_config ctx =
     (let fc = firecracker (ctx_config ctx);
          fc1 = (case vcpu_override ctx of None \<Rightarrow> fc | Some v \<Rightarrow> fc\<lparr>vcpu_count := v\<rparr>)
      in case mem_override ctx of None \<Rightarrow> fc1 | Some m \<Rightarrow> fc1\<lparr>mem_size_mib := m\<rparr>)"

text \<open>A pool's VM is not registered with the server, and its text has the cache address only.\<close>

definition pool_env_text :: "app_config \<Rightarrow> micro_vm \<Rightarrow> string \<Rightarrow> string" where
  "pool_env_text cfg vm base =
     (case cache_access cfg of None \<Rightarrow> base | Some (token, port) \<Rightarrow> base @ env_text (cache_url_env vm token port))"

definition run_pool_vm ::
    "'w http_env \<Rightarrow> gh_client \<Rightarrow> host_env \<Rightarrow> run_seed \<Rightarrow> run_ctx \<Rightarrow> string \<Rightarrow> 'w run_state
       \<Rightarrow> (run_error, unit) result \<times> 'w run_state" where
  "run_pool_vm genv c henv seed ctx repo s =
     (let cfg = ctx_config ctx in
      case registration genv c cfg repo (ru_gh s) of
        (Inl e, g) \<Rightarrow> (Inl (GhError e), s\<lparr>ru_gh := g\<rparr>)
      | (Inr (tok, url), g) \<Rightarrow>
          let name = ''fc-pool-'' @ show_nat (ctx_slot ctx) @ ''-'' @ rs_short seed;
              vm = new_vm ctx (pool_fc_config ctx) seed 0;
              text = pool_env_text cfg vm (env_text (register_env tok url name (vm_id vm) (ephemeral (runner cfg))));
              (r, h) = execute henv vm text (ru_host s)
          in (case r of Inl e \<Rightarrow> Inl (VmError e) | Inr x \<Rightarrow> Inr (), s\<lparr>ru_gh := g, ru_host := h\<rparr>))"

section \<open>What the guest reads\<close>

text \<open>The lines of the cache service, as \<open>append_cache_env\<close> appends them.\<close>

definition cache_env :: "app_config \<Rightarrow> micro_vm \<Rightarrow> (string \<times> string) list" where
  "cache_env cfg vm =
     (case cache_access cfg of None \<Rightarrow> [] | Some (token, port) \<Rightarrow> cache_url_env vm token port @ s3_env cfg vm)"

lemma env_text_append: "env_text a @ env_text b = env_text (a @ b)"
  by (simp add: env_text_def unlines_append)

lemma append_cache_env_text: "snd (append_cache_env cfg vm (env_text kvs)) = env_text (kvs @ cache_env cfg vm)"
  by (auto simp: append_cache_env_def cache_env_def env_text_append split: option.splits)

lemma pool_env_text_eq:
  "pool_env_text cfg vm (env_text kvs) =
     env_text (kvs @ (case cache_access cfg of None \<Rightarrow> [] | Some (t, p) \<Rightarrow> cache_url_env vm t p))"
  by (auto simp: pool_env_text_def env_text_append split: option.splits)

lemma append_cache_env_vm: "fst (append_cache_env cfg vm t) = vm\<lparr>s3_config := s3_config (fst (append_cache_env cfg vm t))\<rparr>"
  by (auto simp: append_cache_env_def split: option.splits)

text \<open>The keys the program writes, and their lower-case forms.\<close>

lemma env_keys_lower:
  "to_lower ''RUNNER_MODE'' = ''runner_mode''" "to_lower ''RUNNER_TOKEN'' = ''runner_token''"
  "to_lower ''REPO_URL'' = ''repo_url''" "to_lower ''VM_ID'' = ''vm_id''"
  "to_lower ''RUNNER_JIT_CONFIG'' = ''runner_jit_config''" "to_lower ''HOSTNAME'' = ''hostname''"
  "to_lower ''SHUTDOWN_ON_EXIT'' = ''shutdown_on_exit''" "to_lower ''EPHEMERAL'' = ''ephemeral''"
  "to_lower ''RUNNER_NAME'' = ''runner_name''" "to_lower ''CACHE_URL'' = ''cache_url''"
  "to_lower ''CACHE_TOKEN'' = ''cache_token''" "to_lower ''S3_ENDPOINT'' = ''s3_endpoint''"
  "to_lower ''S3_BUCKET'' = ''s3_bucket''" "to_lower ''S3_REGION'' = ''s3_region''"
  "to_lower ''S3_ACCESS_KEY'' = ''s3_access_key''" "to_lower ''S3_SECRET_KEY'' = ''s3_secret_key''"
  by (simp_all add: to_lower_def lower_char_def char_of_eq_iff)

definition env_keys :: "string list" where
  "env_keys = [''RUNNER_MODE'', ''RUNNER_TOKEN'', ''REPO_URL'', ''VM_ID'', ''RUNNER_JIT_CONFIG'', ''HOSTNAME'',
     ''SHUTDOWN_ON_EXIT'', ''EPHEMERAL'', ''RUNNER_NAME'', ''CACHE_URL'', ''CACHE_TOKEN'', ''S3_ENDPOINT'',
     ''S3_BUCKET'', ''S3_REGION'', ''S3_ACCESS_KEY'', ''S3_SECRET_KEY'']"

lemma env_keys_clean: "k \<in> set env_keys \<Longrightarrow> clean_key k"
proof -
  have "list_all (\<lambda>k. CHR ''='' \<notin> set k \<and> plain_line k \<and> (\<forall>c \<in> set k. \<not> is_ws c)) env_keys"
    by (simp add: env_keys_def plain_line_def is_ws_def)
  then show "k \<in> set env_keys \<Longrightarrow> clean_key k"
    by (auto simp: list_all_iff clean_key_def intro: trim_no_ws)
qed

text \<open>Values that survive the text form: strings by \<open>clean_value\<close>, and the two booleans.\<close>

definition value_ok :: "string \<Rightarrow> bool" where
  "value_ok v \<longleftrightarrow> clean_value v \<or> v = ''true'' \<or> v = ''false''"

lemma value_ok_trim: "value_ok v \<Longrightarrow> trim v = v \<and> plain_line v"
  by (auto simp: value_ok_def clean_value_def plain_line_def trim_def is_ws_def)

text \<open>The value the guest finds under a key.\<close>

definition env_get :: "(string \<times> string) list \<Rightarrow> string \<Rightarrow> json option" where
  "env_get kvs k = map_of (rev (map (\<lambda>(k, v). (to_lower k, mmds_value v)) kvs)) k"

lemma env_get_simps:
  "env_get [] k = None"
  "env_get ((a, v) # kvs) k =
     (case env_get kvs k of Some x \<Rightarrow> Some x | None \<Rightarrow> if to_lower a = k then Some (mmds_value v) else None)"
  by (auto simp: env_get_def map_add_def split: option.splits)

lemma env_get_append: "env_get (a @ b) k = (case env_get b k of Some x \<Rightarrow> Some x | None \<Rightarrow> env_get a k)"
  unfolding env_get_def by (simp add: map_add_def)

lemma guest_reads_env:
  assumes "\<And>k v. (k, v) \<in> set kvs \<Longrightarrow> k \<in> set env_keys \<and> value_ok v"
  shows "\<exists>j. guest_view (build_mmds_payload (env_text kvs)) = Some j \<and> json_get j = env_get kvs"
proof -
  have ok: "clean_key k \<and> trim v = v \<and> plain_line v" if "(k, v) \<in> set kvs" for k v
    using assms [OF that] env_keys_clean value_ok_trim by blast
  show ?thesis using payload_lookup [OF ok] by (auto simp: env_entries_def env_get_def)
qed

lemma mmds_values [simp]: "clean_value v \<Longrightarrow> mmds_value v = JStr v" "mmds_value (show_bool b) = JBool b"
  by (auto simp: mmds_value_def clean_value_def show_bool_def)

lemma value_okI: "clean_value v \<Longrightarrow> value_ok v" "value_ok (show_bool b)" "value_ok ''true''"
  by (auto simp: value_ok_def show_bool_def)

text \<open>The cache service's strings, which come from the configuration.\<close>

definition cache_values_clean :: "app_config \<Rightarrow> micro_vm \<Rightarrow> bool" where
  "cache_values_clean cfg vm \<longleftrightarrow>
     (\<forall>x \<in> set_option (cs_token (cache_service cfg)) \<union> set_option (s3_access_key (cache_service cfg))
        \<union> set_option (s3_secret_key (cache_service cfg))
        \<union> {guest_s3_endpoint cfg vm, s3_bucket (cache_service cfg), s3_region (cache_service cfg)}. clean_value x)"

lemma no_ws_clean:
  "(\<And>c. c \<in> set v \<Longrightarrow> \<not> is_ws c) \<Longrightarrow> v \<noteq> ''true'' \<Longrightarrow> v \<noteq> ''false'' \<Longrightarrow> clean_value v"
proof -
  assume ws: "\<And>c. c \<in> set v \<Longrightarrow> \<not> is_ws c" and "v \<noteq> ''true''" "v \<noteq> ''false''"
  have "plain_line v" using ws [of "CHR 0x0A"] ws [of "CHR 0x0D"] by (auto simp: plain_line_def is_ws_def)
  then show "clean_value v" using trim_no_ws [OF ws] \<open>v \<noteq> ''true''\<close> \<open>v \<noteq> ''false''\<close> by (simp add: clean_value_def)
qed

lemma show_nat_no_ws: "c \<in> set (show_nat n) \<Longrightarrow> \<not> is_ws c"
  using show_nat_avoids [of c n] by (auto simp: is_ws_def digit_val_def)

lemma cache_url_clean:
  assumes "vm_host_ip vm = ''172.16.'' @ show_nat sl @ ''.1''"
  shows "clean_value (cache_url vm port)"
proof (rule no_ws_clean)
  fix c
  assume c: "c \<in> set (cache_url vm port)"
  have "set (cache_url vm port) = set (show_nat sl) \<union> set (show_nat port) \<union> set ''http://172.16..1:/''"
    by (auto simp: cache_url_def assms)
  then consider "c \<in> set (show_nat sl)" | "c \<in> set (show_nat port)" | "c \<in> set ''http://172.16..1:/''" using c by blast
  then show "\<not> is_ws c" by cases (auto simp: is_ws_def dest: show_nat_no_ws)
qed (simp_all add: cache_url_def)

text \<open>The metadata a run means its guest to have.\<close>

definition with_cache_metadata :: "app_config \<Rightarrow> micro_vm \<Rightarrow> bool \<Rightarrow> metadata \<Rightarrow> metadata" where
  "with_cache_metadata cfg vm s3 m =
     (case cache_access cfg of
        None \<Rightarrow> m
      | Some (token, port) \<Rightarrow>
          let m1 = m\<lparr>md_cache_url := Some (cache_url vm port), md_cache_token := Some token\<rparr> in
          if s3 then
            m1\<lparr>md_s3_endpoint := Some (guest_s3_endpoint cfg vm), md_s3_bucket := Some (s3_bucket (cache_service cfg)),
               md_s3_region := Some (s3_region (cache_service cfg)), md_s3_access_key := s3_access_key (cache_service cfg),
               md_s3_secret_key := s3_secret_key (cache_service cfg)\<rparr>
          else m1)"

definition jit_metadata :: "string \<Rightarrow> string \<Rightarrow> string \<Rightarrow> bool \<Rightarrow> metadata" where
  "jit_metadata tok url i eph =
     \<lparr>md_jit_config = Some tok, md_token = Some tok, md_mode = Some ''jit'', md_repo_url = Some url,
      md_runner_name = None, md_hostname = i, md_shutdown = True, md_ephemeral = eph,
      md_cache_url = None, md_cache_token = None, md_s3_endpoint = None, md_s3_bucket = None,
      md_s3_access_key = None, md_s3_secret_key = None, md_s3_region = None\<rparr>"

definition register_metadata :: "string \<Rightarrow> string \<Rightarrow> string \<Rightarrow> string \<Rightarrow> bool \<Rightarrow> metadata" where
  "register_metadata tok url name i eph =
     \<lparr>md_jit_config = None, md_token = Some tok, md_mode = Some ''register'', md_repo_url = Some url,
      md_runner_name = Some name, md_hostname = i, md_shutdown = True, md_ephemeral = eph,
      md_cache_url = None, md_cache_token = None, md_s3_endpoint = None, md_s3_bucket = None,
      md_s3_access_key = None, md_s3_secret_key = None, md_s3_region = None\<rparr>"

lemma cache_access_Some: "cache_access cfg = Some (t, p) \<Longrightarrow> cs_token (cache_service cfg) = Some t"
  by (auto simp: cache_access_def split: if_splits option.splits)

text \<open>Metadata from the values under its keys.\<close>

lemma de_opt_str: "json_get j k = map_option JStr x \<Longrightarrow> de_opt as_str k j = Some x"
  by (cases x) (simp_all add: de_opt_def)

lemma de_metadata_fields:
  assumes "json_get j ''runner_jit_config'' = map_option JStr (md_jit_config m)"
    and "json_get j ''runner_token'' = map_option JStr (md_token m)"
    and "json_get j ''runner_mode'' = map_option JStr (md_mode m)"
    and "json_get j ''repo_url'' = map_option JStr (md_repo_url m)"
    and "json_get j ''runner_name'' = map_option JStr (md_runner_name m)"
    and "json_get j ''hostname'' = Some (JStr (md_hostname m))"
    and "json_get j ''shutdown_on_exit'' = Some (JBool (md_shutdown m))"
    and "json_get j ''ephemeral'' = Some (JBool (md_ephemeral m))"
    and "json_get j ''cache_url'' = map_option JStr (md_cache_url m)"
    and "json_get j ''cache_token'' = map_option JStr (md_cache_token m)"
    and "json_get j ''s3_endpoint'' = map_option JStr (md_s3_endpoint m)"
    and "json_get j ''s3_bucket'' = map_option JStr (md_s3_bucket m)"
    and "json_get j ''s3_access_key'' = map_option JStr (md_s3_access_key m)"
    and "json_get j ''s3_secret_key'' = map_option JStr (md_s3_secret_key m)"
    and "json_get j ''s3_region'' = map_option JStr (md_s3_region m)"
  shows "de_metadata j = Some m"
  using assms(6-8) by (simp add: de_metadata_def de_opt_str [OF assms(1)] de_opt_str [OF assms(2)] de_opt_str [OF assms(3)]
    de_opt_str [OF assms(4)] de_opt_str [OF assms(5)] de_opt_str [OF assms(9)] de_opt_str [OF assms(10)]
    de_opt_str [OF assms(11)] de_opt_str [OF assms(12)] de_opt_str [OF assms(13)] de_opt_str [OF assms(14)]
    de_opt_str [OF assms(15)] de_req_def de_default_def)

text \<open>The lookups in the parts of the text.\<close>

lemma env_get_key: "env_get (key_env a x) k = (if to_lower a = k then map_option mmds_value x else None)"
  by (cases x) (simp_all add: key_env_def env_get_simps)

lemma env_get_none: "k \<notin> to_lower ` fst ` set kvs \<Longrightarrow> env_get kvs k = None"
  by (induction kvs) (auto simp: env_get_simps)

definition cache_keys :: "string list" where
  "cache_keys = [''cache_url'', ''cache_token'', ''s3_endpoint'', ''s3_bucket'', ''s3_region'', ''s3_access_key'',
     ''s3_secret_key'']"

lemma keys_of_cache_env: "to_lower ` fst ` set (cache_env cfg vm) \<subseteq> set cache_keys"
  by (auto simp: cache_env_def cache_url_env_def s3_env_def key_env_def cache_keys_def env_keys_lower split: option.splits)

lemma jit_lookups:
  "env_get (jit_env tok url i eph) ''runner_jit_config'' = Some (mmds_value tok)"
  "env_get (jit_env tok url i eph) ''runner_token'' = Some (mmds_value tok)"
  "env_get (jit_env tok url i eph) ''runner_mode'' = Some (JStr ''jit'')"
  "env_get (jit_env tok url i eph) ''repo_url'' = Some (mmds_value url)"
  "env_get (jit_env tok url i eph) ''runner_name'' = None"
  "env_get (jit_env tok url i eph) ''hostname'' = Some (mmds_value i)"
  "env_get (jit_env tok url i eph) ''shutdown_on_exit'' = Some (JBool True)"
  "env_get (jit_env tok url i eph) ''ephemeral'' = Some (mmds_value (show_bool eph))"
  unfolding jit_env_def env_get_simps env_keys_lower by (simp_all add: mmds_value_def)

lemma register_lookups:
  "env_get (register_env tok url name i eph) ''runner_jit_config'' = None"
  "env_get (register_env tok url name i eph) ''runner_token'' = Some (mmds_value tok)"
  "env_get (register_env tok url name i eph) ''runner_mode'' = Some (JStr ''register'')"
  "env_get (register_env tok url name i eph) ''repo_url'' = Some (mmds_value url)"
  "env_get (register_env tok url name i eph) ''runner_name'' = Some (mmds_value name)"
  "env_get (register_env tok url name i eph) ''hostname'' = Some (mmds_value i)"
  "env_get (register_env tok url name i eph) ''shutdown_on_exit'' = Some (JBool True)"
  "env_get (register_env tok url name i eph) ''ephemeral'' = Some (mmds_value (show_bool eph))"
  unfolding register_env_def env_get_simps env_keys_lower by (simp_all add: mmds_value_def)

text \<open>The lookups of the cache service's keys.\<close>

lemma cache_url_lookups:
  "env_get (cache_url_env vm t p) ''cache_url'' = Some (mmds_value (cache_url vm p))"
  "env_get (cache_url_env vm t p) ''cache_token'' = Some (mmds_value t)"
  "k \<notin> {''cache_url'', ''cache_token''} \<Longrightarrow> env_get (cache_url_env vm t p) k = None"
  unfolding cache_url_env_def env_get_simps env_keys_lower by auto

lemma s3_lookups:
  "env_get (s3_env cfg vm) ''s3_endpoint'' = Some (mmds_value (guest_s3_endpoint cfg vm))"
  "env_get (s3_env cfg vm) ''s3_bucket'' = Some (mmds_value (s3_bucket (cache_service cfg)))"
  "env_get (s3_env cfg vm) ''s3_region'' = Some (mmds_value (s3_region (cache_service cfg)))"
  "env_get (s3_env cfg vm) ''s3_access_key'' = map_option mmds_value (s3_access_key (cache_service cfg))"
  "env_get (s3_env cfg vm) ''s3_secret_key'' = map_option mmds_value (s3_secret_key (cache_service cfg))"
  "env_get (s3_env cfg vm) ''cache_url'' = None" "env_get (s3_env cfg vm) ''cache_token'' = None"
  unfolding s3_env_def env_get_append env_get_key env_get_simps env_keys_lower by (simp_all split: option.split)

lemma jit_env_no_cache_keys: "k \<in> set cache_keys \<Longrightarrow> env_get (jit_env tok url i eph) k = None"
  by (rule env_get_none) (auto simp: jit_env_def env_keys_lower cache_keys_def)

lemma register_env_no_cache_keys: "k \<in> set cache_keys \<Longrightarrow> env_get (register_env tok url name i eph) k = None"
  by (rule env_get_none) (auto simp: register_env_def env_keys_lower cache_keys_def)

lemma cache_keys_in:
  "''cache_url'' \<in> set cache_keys" "''cache_token'' \<in> set cache_keys" "''s3_endpoint'' \<in> set cache_keys"
  "''s3_bucket'' \<in> set cache_keys" "''s3_region'' \<in> set cache_keys" "''s3_access_key'' \<in> set cache_keys"
  "''s3_secret_key'' \<in> set cache_keys"
  by (simp_all add: cache_keys_def)

lemma base_keys_out:
  "''runner_jit_config'' \<notin> set cache_keys" "''runner_token'' \<notin> set cache_keys" "''runner_mode'' \<notin> set cache_keys"
  "''repo_url'' \<notin> set cache_keys" "''runner_name'' \<notin> set cache_keys" "''hostname'' \<notin> set cache_keys"
  "''shutdown_on_exit'' \<notin> set cache_keys" "''ephemeral'' \<notin> set cache_keys"
  by (simp_all add: cache_keys_def)

text \<open>The base part decides its own keys, the cache part the others.\<close>

lemma lookup_base:
  "k \<notin> set cache_keys \<Longrightarrow> to_lower ` fst ` set b \<subseteq> set cache_keys \<Longrightarrow> env_get (a @ b) k = env_get a k"
  by (subst env_get_append) (simp add: env_get_none subsetD contra_subsetD)

lemma lookup_cache:
  "k \<in> set cache_keys \<Longrightarrow> (\<And>k. k \<in> set cache_keys \<Longrightarrow> env_get a k = None) \<Longrightarrow> env_get (a @ b) k = env_get b k"
  by (simp add: env_get_append split: option.split)

lemma clean_map_option: "(\<And>v. x = Some v \<Longrightarrow> clean_value v) \<Longrightarrow> map_option mmds_value x = map_option JStr x"
  by (cases x) auto

definition no_cache_metadata :: "metadata \<Rightarrow> bool" where
  "no_cache_metadata m \<longleftrightarrow> md_cache_url m = None \<and> md_cache_token m = None \<and> md_s3_endpoint m = None \<and>
     md_s3_bucket m = None \<and> md_s3_access_key m = None \<and> md_s3_secret_key m = None \<and> md_s3_region m = None"

text \<open>The values of the cache keys are the metadata's.\<close>

lemma cache_fields:
  assumes "cache_values_clean cfg vm" and "vm_host_ip vm = ''172.16.'' @ show_nat sl @ ''.1''" and "no_cache_metadata m"
    and "cs = (case cache_access cfg of None \<Rightarrow> [] | Some (t, p) \<Rightarrow> cache_url_env vm t p @ (if s3 then s3_env cfg vm else []))"
  defines "m' \<equiv> with_cache_metadata cfg vm s3 m"
  shows "env_get cs ''cache_url'' = map_option JStr (md_cache_url m')"
    "env_get cs ''cache_token'' = map_option JStr (md_cache_token m')"
    "env_get cs ''s3_endpoint'' = map_option JStr (md_s3_endpoint m')"
    "env_get cs ''s3_bucket'' = map_option JStr (md_s3_bucket m')"
    "env_get cs ''s3_access_key'' = map_option JStr (md_s3_access_key m')"
    "env_get cs ''s3_secret_key'' = map_option JStr (md_s3_secret_key m')"
    "env_get cs ''s3_region'' = map_option JStr (md_s3_region m')"
proof -
  have c: "clean_value (guest_s3_endpoint cfg vm)" "clean_value (s3_bucket (cache_service cfg))"
    "clean_value (s3_region (cache_service cfg))"
    "map_option mmds_value (s3_access_key (cache_service cfg)) = map_option JStr (s3_access_key (cache_service cfg))"
    "map_option mmds_value (s3_secret_key (cache_service cfg)) = map_option JStr (s3_secret_key (cache_service cfg))"
    "cs_token (cache_service cfg) = Some t \<Longrightarrow> clean_value t" for t
    using assms(1) by (auto simp: cache_values_clean_def intro!: clean_map_option)
  note L = env_get_append cache_url_lookups s3_lookups c(1-5) cache_url_clean [OF assms(2)]
  show "env_get cs ''cache_url'' = map_option JStr (md_cache_url m')"
    "env_get cs ''cache_token'' = map_option JStr (md_cache_token m')"
    "env_get cs ''s3_endpoint'' = map_option JStr (md_s3_endpoint m')"
    "env_get cs ''s3_bucket'' = map_option JStr (md_s3_bucket m')"
    "env_get cs ''s3_access_key'' = map_option JStr (md_s3_access_key m')"
    "env_get cs ''s3_secret_key'' = map_option JStr (md_s3_secret_key m')"
    "env_get cs ''s3_region'' = map_option JStr (md_s3_region m')"
    using assms(3) cache_access_Some [of cfg] c(6)
    by (cases "cache_access cfg"; cases s3;
        force simp: assms(4) m'_def with_cache_metadata_def no_cache_metadata_def L env_get_simps split: option.split)+
qed

lemma base_values_ok:
  assumes "clean_value tok" "clean_value url" "clean_value name" "clean_value i"
    and "(k, v) \<in> set (jit_env tok url i eph) \<or> (k, v) \<in> set (register_env tok url name i eph)"
  shows "k \<in> set env_keys \<and> value_ok v"
  using assms by (auto simp: jit_env_def register_env_def env_keys_def value_okI) (auto simp: value_ok_def clean_value_def
    plain_line_def trim_def is_ws_def)

lemma cache_values_ok:
  assumes "cache_values_clean cfg vm" and "vm_host_ip vm = ''172.16.'' @ show_nat sl @ ''.1''"
    and "cache_access cfg = Some (t, p)" and "(k, v) \<in> set (cache_url_env vm t p) \<or> (k, v) \<in> set (s3_env cfg vm)"
  shows "k \<in> set env_keys \<and> value_ok v"
proof
  have "clean_value v"
    using assms(1,4) cache_url_clean [OF assms(2)] cache_access_Some [OF assms(3)]
    by (auto simp: cache_values_clean_def cache_url_env_def s3_env_def key_env_def split: option.splits)
  then show "value_ok v" by (rule value_okI)
  show "k \<in> set env_keys"
    using assms(4) by (auto simp: cache_url_env_def s3_env_def key_env_def env_keys_def split: option.splits)
qed

text \<open>Both kinds of text, with and without the S3 lines.\<close>

lemma metadata_read_back:
  assumes clean: "clean_value tok" "clean_value url" "clean_value name" "clean_value i"
    and "cache_values_clean cfg vm" and "vm_host_ip vm = ''172.16.'' @ show_nat sl @ ''.1''"
    and base: "kvs = jit_env tok url i eph \<and> m = jit_metadata tok url i eph \<or>
      kvs = register_env tok url name i eph \<and> m = register_metadata tok url name i eph"
    and cs: "cs = (case cache_access cfg of None \<Rightarrow> [] | Some (t, p) \<Rightarrow> cache_url_env vm t p @ (if s3 then s3_env cfg vm else []))"
  shows "obind (guest_view (build_mmds_payload (env_text (kvs @ cs)))) de_metadata = Some (with_cache_metadata cfg vm s3 m)"
proof -
  have ok: "k \<in> set env_keys \<and> value_ok v" if kv: "(k, v) \<in> set (kvs @ cs)" for k v
  proof (cases "(k, v) \<in> set kvs")
    case True
    then show ?thesis using base base_values_ok [OF clean, of k v eph] by auto
  next
    case False
    then obtain t p where "cache_access cfg = Some (t, p)" "(k, v) \<in> set (cache_url_env vm t p) \<or> (k, v) \<in> set (s3_env cfg vm)"
      using kv by (cases "cache_access cfg") (auto simp: cs split: if_splits)
    then show ?thesis by (rule cache_values_ok [OF assms(5,6)])
  qed
  obtain j where j: "guest_view (build_mmds_payload (env_text (kvs @ cs))) = Some j" "json_get j = env_get (kvs @ cs)"
    using guest_reads_env [OF ok] by blast
  have sub: "to_lower ` fst ` set cs \<subseteq> set cache_keys"
  proof -
    have "set cs \<subseteq> set (cache_env cfg vm)" by (cases "cache_access cfg") (auto simp: cs cache_env_def)
    then show ?thesis using keys_of_cache_env [of cfg vm] by blast
  qed
  have none: "env_get kvs k = None" if "k \<in> set cache_keys" for k
    using base jit_env_no_cache_keys [OF that] register_env_no_cache_keys [OF that] by auto
  have m: "no_cache_metadata m" using base by (auto simp: no_cache_metadata_def jit_metadata_def register_metadata_def)
  have same: "md_jit_config (with_cache_metadata cfg vm s3 m) = md_jit_config m"
    "md_token (with_cache_metadata cfg vm s3 m) = md_token m" "md_mode (with_cache_metadata cfg vm s3 m) = md_mode m"
    "md_repo_url (with_cache_metadata cfg vm s3 m) = md_repo_url m"
    "md_runner_name (with_cache_metadata cfg vm s3 m) = md_runner_name m"
    "md_hostname (with_cache_metadata cfg vm s3 m) = md_hostname m"
    "md_shutdown (with_cache_metadata cfg vm s3 m) = md_shutdown m"
    "md_ephemeral (with_cache_metadata cfg vm s3 m) = md_ephemeral m"
    by (simp_all add: with_cache_metadata_def Let_def split: option.split)
  note C = cache_fields [OF assms(5,6) m cs]
  have base_fields: "env_get kvs ''runner_jit_config'' = map_option JStr (md_jit_config m)"
    "env_get kvs ''runner_token'' = map_option JStr (md_token m)" "env_get kvs ''runner_mode'' = map_option JStr (md_mode m)"
    "env_get kvs ''repo_url'' = map_option JStr (md_repo_url m)"
    "env_get kvs ''runner_name'' = map_option JStr (md_runner_name m)"
    "env_get kvs ''hostname'' = Some (JStr (md_hostname m))" "env_get kvs ''shutdown_on_exit'' = Some (JBool (md_shutdown m))"
    "env_get kvs ''ephemeral'' = Some (JBool (md_ephemeral m))"
    using base clean by (auto simp: jit_lookups register_lookups jit_metadata_def register_metadata_def)
  have "json_get j k = env_get kvs k" if "k \<notin> set cache_keys" for k
    unfolding j(2) by (rule lookup_base [OF that sub])
  moreover have "json_get j k = env_get cs k" if "k \<in> set cache_keys" for k
    unfolding j(2) by (rule lookup_cache [OF that none])
  ultimately have "de_metadata j = Some (with_cache_metadata cfg vm s3 m)"
    by (intro de_metadata_fields) (simp_all only: base_keys_out cache_keys_in same base_fields C simp_thms)
  then show ?thesis using j(1) by simp
qed

section \<open>Properties\<close>

definition guest_metadata :: "string \<Rightarrow> metadata option" where
  "guest_metadata text = obind (guest_view (build_mmds_payload text)) de_metadata"

lemma new_vm_ip: "vm_host_ip (new_vm ctx fc seed job) = ''172.16.'' @ show_nat (ctx_slot ctx) @ ''.1''"
  by (simp add: new_vm_def with_cache_service_def)

text \<open>C1: What the orchestrator writes for a run is what the agent in the VM reads, through the text, the
  metadata payload and the agent's decoding of it, field by field: in all three kinds of run the
  token and the mode, the address, the VM's identifier, the ephemeral flag and the access to the
  cache service, for values that are one line without blanks at the ends and not spelt like a
  boolean. So the agent starts the runner with the token GitHub issued for this run.\<close>

theorem guest_reads_what_the_run_wrote:
  fixes eph :: bool
  assumes "vm = new_vm ctx fc seed job" and "cache_values_clean cfg vm"
    and "clean_value tok" "clean_value url" "clean_value name" "clean_value (vm_id vm)"
  defines "jit \<equiv> with_cache_metadata cfg vm True (jit_metadata tok url (vm_id vm) eph)"
    and "reg \<equiv> register_metadata tok url name (vm_id vm) eph"
  shows "guest_metadata (snd (append_cache_env cfg vm (env_text (jit_env tok url (vm_id vm) eph)))) = Some jit \<and>
    guest_metadata (snd (append_cache_env cfg vm (env_text (register_env tok url name (vm_id vm) eph)))) =
      Some (with_cache_metadata cfg vm True reg) \<and>
    guest_metadata (pool_env_text cfg vm (env_text (register_env tok url name (vm_id vm) eph))) =
      Some (with_cache_metadata cfg vm False reg) \<and>
    fst (run_runner exec jit) = [Exec (run_sh jit [''--jitconfig'', tok])] \<and>
    hd (fst (run_runner exec (with_cache_metadata cfg vm s3 reg))) =
      Exec (config_sh (with_cache_metadata cfg vm s3 reg) url tok)"
proof -
  note R = metadata_read_back [OF assms(3-6,2) new_vm_ip [of ctx fc seed job, folded assms(1)]]
  have J: "md_mode jit = Some ''jit''" "md_jit_config jit = Some tok"
    by (simp_all add: jit_def with_cache_metadata_def jit_metadata_def Let_def split: option.split)
  have G: "md_mode (with_cache_metadata cfg vm b reg) = Some ''register''"
    "md_token (with_cache_metadata cfg vm b reg) = Some tok" "md_repo_url (with_cache_metadata cfg vm b reg) = Some url" for b
    by (simp_all add: reg_def with_cache_metadata_def register_metadata_def Let_def split: option.split)
  have cs: "cache_env cfg vm = (case cache_access cfg of None \<Rightarrow> []
      | Some (t, p) \<Rightarrow> cache_url_env vm t p @ (if True then s3_env cfg vm else []))"
    by (simp add: cache_env_def)
  have pool: "(case cache_access cfg of None \<Rightarrow> [] | Some (t, p) \<Rightarrow> cache_url_env vm t p) =
      (case cache_access cfg of None \<Rightarrow> [] | Some (t, p) \<Rightarrow> cache_url_env vm t p @ (if False then s3_env cfg vm else []))"
    by (simp split: option.split)
  show ?thesis
  proof (intro conjI)
    show "guest_metadata (snd (append_cache_env cfg vm (env_text (jit_env tok url (vm_id vm) eph)))) = Some jit"
      unfolding guest_metadata_def append_cache_env_text jit_def by (rule R [where eph = eph, OF _ cs]) simp
    show "guest_metadata (snd (append_cache_env cfg vm (env_text (register_env tok url name (vm_id vm) eph)))) =
        Some (with_cache_metadata cfg vm True reg)"
      unfolding guest_metadata_def append_cache_env_text reg_def by (rule R [where eph = eph, OF _ cs]) simp
    show "guest_metadata (pool_env_text cfg vm (env_text (register_env tok url name (vm_id vm) eph))) =
        Some (with_cache_metadata cfg vm False reg)"
      unfolding guest_metadata_def pool_env_text_eq reg_def by (rule R [where eph = eph, OF _ pool]) simp
    show "fst (run_runner exec jit) = [Exec (run_sh jit [''--jitconfig'', tok])]"
      by (simp add: run_runner_def run_runner_jit_def J Let_def)
    show "hd (fst (run_runner exec (with_cache_metadata cfg vm s3 reg))) =
        Exec (config_sh (with_cache_metadata cfg vm s3 reg) url tok)"
      by (simp add: run_runner_def run_runner_registered_def G Let_def)
  qed
qed

text \<open>A configuration with the cache service on.\<close>

definition demo_cfg :: app_config where
  "demo_cfg = (minimal_config ''/w'')\<lparr>server := default_server_config\<lparr>listen_addr := ''0.0.0.0:'' @ show_nat 9090\<rparr>, cache_service := default_cache_config\<lparr>cs_enabled := True, cs_token := Some ''ct'',
     s3_endpoint := ''http://s3:9000'', s3_access_key := Some ''ak'', s3_secret_key := Some ''sk''\<rparr>\<rparr>"

definition demo_seed :: run_seed where
  "demo_seed = \<lparr>rs_uuid = ''u'', rs_short = ''abcd'', rs_time = 5\<rparr>"

definition demo_run_vm :: micro_vm where
  "demo_run_vm = new_vm (run_ctx_new demo_cfg 3) (firecracker demo_cfg) demo_seed 7"

lemma demo_cache_values: "cache_values_clean demo_cfg demo_run_vm"
proof -
  have "\<not> contains_str ''http://s3:9000'' ''localhost''" "\<not> contains_str ''http://s3:9000'' ''127.0.0.1''" by code_simp+
  then have "guest_s3_endpoint demo_cfg demo_run_vm = ''http://s3:9000''"
    by (simp add: guest_s3_endpoint_def demo_cfg_def replace_all_absent)
  then show ?thesis
    by (simp add: cache_values_clean_def demo_cfg_def default_cache_config_def default_s3_bucket_def default_s3_region_def
        clean_value_def plain_line_def trim_def is_ws_def)
qed

lemma demo_vm_id: "vm_id demo_run_vm = make_vm_id 7 ''u''" "clean_value (make_vm_id 7 ''u'')"
proof -
  show "vm_id demo_run_vm = make_vm_id 7 ''u''"
    by (simp add: demo_run_vm_def new_vm_def with_cache_service_def demo_seed_def)
  show "clean_value (make_vm_id 7 ''u'')" by code_simp
qed

theorem guest_reads_what_the_run_wrote_witness:
  "map_option md_jit_config (guest_metadata
     (snd (append_cache_env demo_cfg demo_run_vm (env_text (jit_env ''t1'' ''url'' (vm_id demo_run_vm) True))))) = Some (Some ''t1'')"
proof -
  have c: "clean_value ''t1''" "clean_value ''url''" "clean_value ''n''" "clean_value (vm_id demo_run_vm)"
    by (simp_all add: demo_vm_id clean_value_def [of "''t1''"] clean_value_def [of "''url''"] clean_value_def [of "''n''"]
        plain_line_def trim_def is_ws_def)
  from guest_reads_what_the_run_wrote [OF demo_run_vm_def demo_cache_values c, of True "\<lambda>c. ExitCode 0" True] show ?thesis
    by (simp add: with_cache_metadata_def jit_metadata_def Let_def split: option.split)
qed

text \<open>A pool's VM is given the address of the cache service and not the S3 access that the same
  configuration gives a warm VM and a job's VM; nor is it given it as the guest file of the mount mode.\<close>

theorem pool_vm_has_no_s3_access:
  assumes "vm = new_vm ctx fc seed job" and "cache_values_clean cfg vm" and "cache_access cfg = Some (ct, port)"
    and "clean_value tok" "clean_value url" "clean_value name" "clean_value (vm_id vm)"
    and "s3_access_key (cache_service cfg) = Some ak" and "s3_secret_key (cache_service cfg) = Some sk"
  shows "\<exists>w p. guest_metadata (snd (append_cache_env cfg vm (env_text (register_env tok url name (vm_id vm) eph)))) = Some w \<and>
    guest_metadata (pool_env_text cfg vm (env_text (register_env tok url name (vm_id vm) eph))) = Some p \<and>
    md_cache_url p = md_cache_url w \<and> md_cache_token p = md_cache_token w \<and>
    md_s3_access_key w = Some ak \<and> md_s3_secret_key w = Some sk \<and>
    md_s3_endpoint p = None \<and> md_s3_access_key p = None \<and> md_s3_secret_key p = None \<and>
    s3_config (fst (append_cache_env cfg vm text)) \<noteq> None \<and> s3_config vm = None"
proof -
  note R = metadata_read_back [OF assms(4-7,2) new_vm_ip [of ctx fc seed job, folded assms(1)]]
  let ?m = "register_metadata tok url name (vm_id vm) eph" and ?kvs = "register_env tok url name (vm_id vm) eph"
  have w: "guest_metadata (snd (append_cache_env cfg vm (env_text ?kvs))) = Some (with_cache_metadata cfg vm True ?m)"
    unfolding guest_metadata_def append_cache_env_text by (rule R [where eph = eph]) (simp_all add: cache_env_def)
  have p: "guest_metadata (pool_env_text cfg vm (env_text ?kvs)) = Some (with_cache_metadata cfg vm False ?m)"
    unfolding guest_metadata_def pool_env_text_eq by (rule R [where eph = eph]) (simp_all split: option.split)
  have "s3_config vm = None" by (simp add: assms(1) new_vm_def with_cache_service_def micro_vm_new_def Let_def)
  then show ?thesis
    using w p assms(3,8,9)
    by (auto simp: with_cache_metadata_def register_metadata_def Let_def append_cache_env_def s3_guest_def)
qed

theorem pool_vm_has_no_s3_access_witness:
  "\<exists>p. guest_metadata (pool_env_text demo_cfg demo_run_vm
      (env_text (register_env ''t1'' ''url'' ''n'' (vm_id demo_run_vm) True))) = Some p \<and> md_s3_endpoint p = None"
proof -
  have c: "clean_value ''t1''" "clean_value ''url''" "clean_value ''n''" "clean_value (vm_id demo_run_vm)"
    by (simp_all add: demo_vm_id clean_value_def [of "''t1''"] clean_value_def [of "''url''"] clean_value_def [of "''n''"]
        plain_line_def trim_def is_ws_def)
  have "listen_addr (server demo_cfg) = ''0.0.0.0'' @ CHR '':'' # show_nat 9090" by (simp add: demo_cfg_def)
  moreover have "CHR '':'' \<notin> set (show_nat 9090)" by (rule show_nat_avoids) (simp add: digit_val_def)
  ultimately have "listen_port demo_cfg = parse_unsigned 65535 (show_nat 9090)"
    using after_last_app [of "CHR '':''" "show_nat 9090" "''0.0.0.0''"] by (simp only: listen_port_def not_False_eq_True)
  then have "listen_port demo_cfg = Some 9090" using parse_show_nat [of 9090 65535] by simp
  then have "cache_access demo_cfg = Some (''ct'', 9090)" by (simp add: cache_access_def demo_cfg_def)
  from pool_vm_has_no_s3_access [OF demo_run_vm_def demo_cache_values this c, of "''ak''" "''sk''" True "[]"] show ?thesis
    by (auto simp: demo_cfg_def)
qed

text \<open>The result of a job's run, and what it leaves of the list of VMs.\<close>

lemma unregister_register:
  "\<forall>v \<in> set (sv_vms sv). vi_id v \<noteq> vi_id info \<Longrightarrow> unregister_vm (vi_id info) (register_vm info sv) = sv"
  by (auto simp: unregister_vm_def register_vm_def filter_id_conv)

lemma run_registered_result:
  assumes "vi_id info = vm_id vm" and "\<forall>v \<in> set (sv_vms (ru_server s)). vi_id v \<noteq> vm_id vm"
    and "execute henv vm text (ru_host s) = (r, h)" and "r \<noteq> Inl Panicked"
  shows "run_registered henv info vm text s = (case r of Inl e \<Rightarrow> Inl (VmError e) | Inr _ \<Rightarrow> Inr (), s\<lparr>ru_host := h\<rparr>)"
proof -
  have "unregister_vm (vm_id vm) (register_vm info (ru_server s)) = ru_server s"
    using unregister_register [of "ru_server s" info] assms(1,2) by simp
  then show ?thesis
    using assms(3,4) by (auto simp: run_registered_def Let_def split: sum.split)
qed

lemma execute_no_panic:
  assumes "\<not> use_jailer vm \<or> jailer_uid (fc_config vm) \<noteq> None \<and> jailer_gid (fc_config vm) \<noteq> None"
  shows "fst (execute henv vm text h) \<noteq> Inl Panicked"
  using prepare_and_run_no_panic [OF assms, of henv "text" h] by (auto simp: execute_def split: prod.splits)

lemma new_vm_sel:
  "vm_id (new_vm ctx fc seed job) = make_vm_id job (rs_uuid seed)" "fc_config (new_vm ctx fc seed job) = fc"
  by (simp_all add: new_vm_def with_cache_service_def)

lemma append_cache_env_sel:
  "vm_id (fst (append_cache_env cfg vm t)) = vm_id vm" "fc_config (fst (append_cache_env cfg vm t)) = fc_config vm"
  by (subst append_cache_env_vm, simp)+

text \<open>A run ends in a panic only when its VM does.\<close>

lemma run_registered_panics:
  "fst (run_registered henv info vm text s) = Inl (VmError Panicked) \<longleftrightarrow>
     fst (execute henv vm text (ru_host s)) = Inl Panicked"
  by (auto simp: run_registered_def Let_def split: prod.splits sum.splits)

lemma wf_config_ids:
  "wf_config fs cfg \<Longrightarrow> jailer_path (firecracker cfg) = None \<or>
     jailer_uid (firecracker cfg) \<noteq> None \<and> jailer_gid (firecracker cfg) \<noteq> None"
  by (auto simp: wf_config_def)

lemma pool_fc_config_ids:
  "jailer_path (pool_fc_config ctx) = jailer_path (firecracker (ctx_config ctx))"
  "jailer_uid (pool_fc_config ctx) = jailer_uid (firecracker (ctx_config ctx))"
  "jailer_gid (pool_fc_config ctx) = jailer_gid (firecracker (ctx_config ctx))"
  by (simp_all add: pool_fc_config_def Let_def split: option.split)

text \<open>C4: Type soundness of the configuration: no configuration the loader accepts makes a run panic. In all
  three modes, with any answers of GitHub and any failures of the host, a run ends with success
  or with an error value; the unchecked \<open>expect("validated in config")\<close> of the code never fires.\<close>

theorem accepted_config_never_panics:
  assumes "snd (load_config toml fs path) = Inr (ctx_config ctx)"
  shows "fst (fst (run_jit_job genv c henv seed ctx job repo s)) \<noteq> Inl (VmError Panicked) \<and>
    fst (run_warm_vm genv c henv seed ctx repo s) \<noteq> Inl (VmError Panicked) \<and>
    fst (run_pool_vm genv c henv seed ctx repo s) \<noteq> Inl (VmError Panicked)"
proof -
  have "wf_config fs (ctx_config ctx)" using assms by (simp add: load_config_ok_iff)
  from wf_config_ids [OF this] pool_fc_config_ids [of ctx]
  have no: "fst (execute henv vm text h) \<noteq> Inl Panicked"
    if "fc_config vm = firecracker (ctx_config ctx) \<or> fc_config vm = pool_fc_config ctx" for vm "text" h
    using that by (intro execute_no_panic) (auto simp: use_jailer_def)
  have reg: "fst (run_registered henv info (fst (append_cache_env (ctx_config ctx) (new_vm ctx (firecracker (ctx_config ctx)) seed j) t)) t' s')
      \<noteq> Inl (VmError Panicked)" for info j t t' and s' :: "'a run_state"
    by (simp add: run_registered_panics no append_cache_env_sel new_vm_sel)
  show ?thesis
  proof (intro conjI)
    show "fst (fst (run_jit_job genv c henv seed ctx job repo s)) \<noteq> Inl (VmError Panicked)"
      using reg by (simp add: run_jit_job_def Let_def case_prod_unfold split: sum.split)
    show "fst (run_warm_vm genv c henv seed ctx repo s) \<noteq> Inl (VmError Panicked)"
      using reg by (auto simp: run_warm_vm_def Let_def case_prod_unfold bindE_Inl_iff split: sum.split)
    show "fst (run_pool_vm genv c henv seed ctx repo s) \<noteq> Inl (VmError Panicked)"
      using no [of "new_vm ctx (pool_fc_config ctx) seed 0"]
      by (auto simp: run_pool_vm_def Let_def case_prod_unfold new_vm_sel split: sum.split)
  qed
qed

theorem accepted_config_never_panics_witness:
  "fst (run_pool_vm demo_env demo_client calm_env demo_seed (run_ctx_new (minimal_config ''app'') 3) ''app''
      \<lparr>ru_gh = demo_state, ru_server = server_new 0 ''v'' default_server_config, ru_host = demo_host\<rparr>) \<noteq> Inl (VmError Panicked)"
proof -
  have "snd (load_config (\<lambda>t. Some (minimal_config ''app'')) plain_host ''c.toml'') = Inr (minimal_config ''app'')"
    using wf_minimal_config [of "''app''"] by (simp add: load_config_ok_iff check_mode_def plain_host_def)
  then have "snd (load_config (\<lambda>t. Some (minimal_config ''app'')) plain_host ''c.toml'') =
      Inr (ctx_config (run_ctx_new (minimal_config ''app'') 3))"
    by (simp add: run_ctx_new_def)
  from accepted_config_never_panics [OF this] show ?thesis by blast
qed

text \<open>A pool's run leaves the server's list of VMs as it is, at every moment.\<close>

lemma run_pool_vm_server: "ru_server (snd (run_pool_vm genv c henv seed ctx repo s)) = ru_server s"
  by (simp add: run_pool_vm_def Let_def case_prod_unfold split: sum.split)

text \<open>C20: A job's run has exactly two outcomes. Without a token from GitHub no VM is made: the host and the
  list of VMs are untouched. With one, the result is the VM's, whose life is one \<open>execute\<close> on the host; the
  list of VMs the API shows is afterwards the one before, whether the VM succeeded or failed. The
  job is named after its VM exactly when it succeeded.\<close>

theorem jit_job_outcome:
  assumes "jailer_path fc = None \<or> jailer_uid fc \<noteq> None \<and> jailer_gid fc \<noteq> None" and "fc = firecracker (ctx_config ctx)"
    and "\<forall>v \<in> set (sv_vms (ru_server s)). vi_id v \<noteq> make_vm_id job (rs_uuid seed)"
    and "run_jit_job genv c henv seed ctx job repo s = ((r, label), t)"
  shows "case generate_jit_config genv c repo job (ru_gh s) of
      (Inl e, g) \<Rightarrow> r = Inl (GhError e) \<and> t = s\<lparr>ru_gh := g\<rparr> \<and> label = ''fc-'' @ show_nat job @ ''-slot'' @ show_nat (ctx_slot ctx)
    | (Inr tok, g) \<Rightarrow>
        (let vm = new_vm ctx fc seed job;
             run = append_cache_env (ctx_config ctx) vm (jit_text (ctx_config ctx) repo vm tok);
             ended = execute henv (fst run) (snd run) (ru_host s)
         in r = (case fst ended of Inl e \<Rightarrow> Inl (VmError e) | Inr _ \<Rightarrow> Inr ()) \<and>
            t = s\<lparr>ru_gh := g, ru_host := snd ended\<rparr> \<and>
            label = (if is_ok r then make_vm_id job (rs_uuid seed)
                     else ''fc-'' @ show_nat job @ ''-slot'' @ show_nat (ctx_slot ctx)))"
proof -
  obtain x g where g: "generate_jit_config genv c repo job (ru_gh s) = (x, g)"
    by (cases "generate_jit_config genv c repo job (ru_gh s)")
  show ?thesis
  proof (cases x)
    case (Inl e)
    then show ?thesis using assms(4) g by (simp add: run_jit_job_def Let_def)
  next
    case (Inr tok)
    define vm where "vm = new_vm ctx fc seed job"
    define a where "a = append_cache_env (ctx_config ctx) vm (jit_text (ctx_config ctx) repo vm tok)"
    have id: "vm_id (fst a) = make_vm_id job (rs_uuid seed)" "vm_id vm = make_vm_id job (rs_uuid seed)" "fc_config (fst a) = fc"
      by (simp_all add: a_def vm_def append_cache_env_sel new_vm_sel)
    let ?s = "s\<lparr>ru_gh := g\<rparr>"
    have "fst (execute henv (fst a) (snd a) (ru_host s)) \<noteq> Inl Panicked"
      using assms(1) id(3) by (intro execute_no_panic) (auto simp: use_jailer_def)
    then have "run_registered henv (run_info ctx seed job repo vm) (fst a) (snd a) ?s =
        (case fst (execute henv (fst a) (snd a) (ru_host s)) of Inl e \<Rightarrow> Inl (VmError e) | Inr _ \<Rightarrow> Inr (),
         ?s\<lparr>ru_host := snd (execute henv (fst a) (snd a) (ru_host s))\<rparr>)"
      using assms(3) id
      by (intro run_registered_result) (simp_all add: run_info_def)
    moreover have "run_jit_job genv c henv seed ctx job repo s =
        (let (r, t) = run_registered henv (run_info ctx seed job repo vm) (fst a) (snd a) ?s
         in ((r, if is_ok r then vm_id vm else ''fc-'' @ show_nat job @ ''-slot'' @ show_nat (ctx_slot ctx)), t))"
      using g Inr by (simp add: run_jit_job_def Let_def a_def vm_def assms(2) case_prod_unfold)
    ultimately show ?thesis
      using assms(4) g Inr id(2) by (simp add: Let_def a_def vm_def)
  qed
qed

theorem jit_job_outcome_witness:
  "\<exists>r label t. run_jit_job demo_env demo_client calm_env demo_seed (run_ctx_new demo_cfg 3) 7 ''app''
       \<lparr>ru_gh = demo_state, ru_server = server_new 0 ''v'' default_server_config, ru_host = demo_host\<rparr> = ((r, label), t) \<and>
     r = Inl (GhError (BadStatus 500)) \<and> ru_host t = demo_host"
proof -
  let ?s = "\<lparr>ru_gh = demo_state, ru_server = server_new 0 ''v'' default_server_config, ru_host = demo_host\<rparr>"
  obtain r label t where run: "run_jit_job demo_env demo_client calm_env demo_seed (run_ctx_new demo_cfg 3) 7 ''app'' ?s =
      ((r, label), t)" by (metis surj_pair)
  have "fst (generate_jit_config demo_env demo_client ''app'' 7 demo_state) = Inl (BadStatus 500)"
    by (simp add: generate_jit_config_def org_url_def demo_client_def demo_github_def generate_repo_jit_config_def
        fresh_uuid8_def gh_post_def gh_request_def get_token_def gh_send_def op_simps demo_env_def is_success_def Let_def)
  then obtain g where g: "generate_jit_config demo_env demo_client ''app'' 7 demo_state = (Inl (BadStatus 500), g)"
    by (cases "generate_jit_config demo_env demo_client ''app'' 7 demo_state") auto
  have j: "jailer_path (firecracker demo_cfg) = None"
    and v: "\<forall>v \<in> set (sv_vms (ru_server ?s)). vi_id v \<noteq> make_vm_id 7 (rs_uuid demo_seed)"
    by (simp_all add: demo_cfg_def minimal_config_def default_firecracker_config_def server_new_def)
  have c: "firecracker demo_cfg = firecracker (ctx_config (run_ctx_new demo_cfg 3))" by (simp add: run_ctx_new_def)
  have "r = Inl (GhError (BadStatus 500)) \<and> t = ?s\<lparr>ru_gh := g\<rparr>"
    using jit_job_outcome [OF disjI1 [OF j] c v run] by (simp only: run_state.select_convs g prod.case sum.case)
  then show ?thesis using run by auto
qed

end
