(* ===== verification/Warm.thy ===== *)
theory Warm
  imports Github
begin

text \<open>
  The warm pool of the orchestrator (\<open>src/src/scheduler/orchestrator.rs\<close>): the initial spawn,
  the ephemeral and the auto-scaling loops, and the task of one VM with its VSOCK listener. The
  listener may announce the end of the job early; it and the task's own end race for one atomic
  flag, and the winner sends the slot back. Only the manager's loop touches the free slots, so its
  spawn loops are single steps; everything else interleaves.
\<close>

section \<open>State\<close>

text \<open>
  The VM task: \<open>Exited\<close> covers the wait for the listener and the deletion of the runner,
  \<open>Counted\<close> comes after the active count went down, \<open>Sending\<close> after it won the flag. An ended
  task stays in the bag as \<open>Gone\<close>. The listener: \<open>Notified\<close> before and \<open>Early\<close> after it won.
\<close>

datatype warm_stage = Spawned | Running | Exited | Counted | Sending | Gone

datatype listener = Listening | Notified | Early | Closed

datatype warm_task =
  WarmTask (wt_slot: nat) (wt_repo: string) (wt_stage: warm_stage) (wt_listener: listener) (wt_signaled: bool)

datatype warm_phase =
    NotStarted | Selecting | Delaying string | AtPop string | Draining | Stopped | NoReposError | SlotPanic

record warm_state =
  ws_free :: "nat list"
  ws_active :: nat
  ws_tasks :: "warm_task multiset"
  ws_chan :: "(nat \<times> string) list"
  ws_cap :: nat
  ws_phase :: warm_phase
  ws_cancelled :: bool
  ws_dropped :: "(nat \<times> string) multiset"

record warm_cfg =
  wc_size :: nat
  wc_max :: nat
  wc_ephemeral :: bool
  wc_repos :: "string list"
  wc_org :: bool
  wc_vsock :: bool

definition warm_cfg_of :: "app_config \<Rightarrow> warm_cfg" where
  "warm_cfg_of c =
     \<lparr>wc_size = warm_pool_size (runner c), wc_max = max_concurrent_jobs (runner c),
      wc_ephemeral = ephemeral (runner c), wc_repos = all_repos (github c),
      wc_org = (organization (github c) \<noteq> None), wc_vsock = vsock_enabled (firecracker c)\<rparr>"

definition warm_new :: "warm_cfg \<Rightarrow> warm_state" where
  "warm_new c =
     \<lparr>ws_free = [0..<wc_max c], ws_active = 0, ws_tasks = {#}, ws_chan = [], ws_cap = 0,
      ws_phase = NotStarted, ws_cancelled = False, ws_dropped = {#}\<rparr>"

section \<open>The manager\<close>

definition spawn_warm_vm :: "nat \<Rightarrow> string \<Rightarrow> warm_state \<Rightarrow> warm_state" where
  "spawn_warm_vm sl r s = s\<lparr>ws_tasks := add_mset (WarmTask sl r Spawned Listening False) (ws_tasks s)\<rparr>"

definition warm_repo :: "warm_cfg \<Rightarrow> nat \<Rightarrow> string" where
  "warm_repo c i = (if wc_org c then [] else wc_repos c ! (i mod length (wc_repos c)))"

text \<open>The initial loop: popping from an empty pool is the \<open>expect\<close> that panics.\<close>

fun warm_spawn_initial :: "warm_cfg \<Rightarrow> nat \<Rightarrow> nat \<Rightarrow> warm_state \<Rightarrow> warm_state" where
  "warm_spawn_initial c i 0 s = s\<lparr>ws_phase := Selecting\<rparr>"
| "warm_spawn_initial c i (Suc k) s =
     (case vec_pop (ws_free s) of
        None \<Rightarrow> s\<lparr>ws_phase := SlotPanic\<rparr>
      | Some (sl, rest) \<Rightarrow>
          warm_spawn_initial c (Suc i) k (spawn_warm_vm sl (warm_repo c i) (s\<lparr>ws_free := rest\<rparr>)))"

definition run_warm_pool :: "warm_cfg \<Rightarrow> warm_state \<Rightarrow> warm_state" where
  "run_warm_pool c s =
     (if wc_repos c = [] \<and> \<not> wc_org c then s\<lparr>ws_phase := NoReposError\<rparr>
      else warm_spawn_initial c 0 (wc_size c) (s\<lparr>ws_cap := wc_max c * 2\<rparr>))"

definition warm_recv :: "nat \<Rightarrow> string \<Rightarrow> (nat \<times> string) list \<Rightarrow> warm_state \<Rightarrow> warm_state" where
  "warm_recv sl r rest s =
     s\<lparr>ws_chan := rest, ws_free := vec_push (ws_free s) sl, ws_phase := Delaying r\<rparr>"

definition warm_after_delay :: "string \<Rightarrow> warm_state \<Rightarrow> warm_state" where
  "warm_after_delay r s = s\<lparr>ws_phase := (if ws_cancelled s then Stopped else AtPop r)\<rparr>"

text \<open>The auto-scaling loop drops the repository in org mode; the ephemeral loop passes it on.\<close>

definition warm_replace :: "warm_cfg \<Rightarrow> string \<Rightarrow> warm_state \<Rightarrow> warm_state" where
  "warm_replace c r s =
     (case vec_pop (ws_free s) of
        None \<Rightarrow> s\<lparr>ws_phase := Selecting\<rparr>
      | Some (sl, rest) \<Rightarrow>
          spawn_warm_vm sl (if \<not> wc_ephemeral c \<and> wc_org c then [] else r)
            (s\<lparr>ws_free := rest, ws_phase := Selecting\<rparr>))"

section \<open>Auto-scaling\<close>

definition our_runners :: "gh_runner list \<Rightarrow> gh_runner list" where
  "our_runners rs = filter (\<lambda>r. starts_with (rn_name r) ''fc-'' \<and> rn_status r = ''online'') rs"

definition idle_count :: "gh_runner list \<Rightarrow> nat" where
  "idle_count rs = length (our_runners rs) - length (filter rn_busy (our_runners rs))"

text \<open>\<open>saturating_sub\<close> is the subtraction on naturals.\<close>

definition standbys_wanted :: "nat \<Rightarrow> nat \<Rightarrow> nat \<Rightarrow> nat \<Rightarrow> nat" where
  "standbys_wanted target_idle max_vms idle active =
     (if idle < target_idle then min (target_idle - idle) (max_vms - active) else 0)"

fun warm_spawn_standbys :: "warm_cfg \<Rightarrow> nat \<Rightarrow> nat \<Rightarrow> warm_state \<Rightarrow> warm_state" where
  "warm_spawn_standbys c i 0 s = s"
| "warm_spawn_standbys c i (Suc k) s =
     (case vec_pop (ws_free s) of
        None \<Rightarrow> s
      | Some (sl, rest) \<Rightarrow>
          warm_spawn_standbys c (Suc i) k (spawn_warm_vm sl (warm_repo c i) (s\<lparr>ws_free := rest\<rparr>)))"

text \<open>
  One check: in repository mode only the first repository's runners are listed. A failing query
  leaves the state alone.
\<close>

definition autoscale_check :: "warm_cfg \<Rightarrow> gh_runner list option \<Rightarrow> warm_state \<Rightarrow> warm_state" where
  "autoscale_check c listing s =
     (case listing of
        None \<Rightarrow> s
      | Some rs \<Rightarrow>
          if \<not> wc_org c \<and> wc_repos c = [] then s
          else warm_spawn_standbys c 0 (standbys_wanted (wc_size c) (wc_max c) (idle_count rs) (ws_active s)) s)"

section \<open>The VM task and its listener\<close>

definition warm_task_start :: "nat \<Rightarrow> string \<Rightarrow> listener \<Rightarrow> bool \<Rightarrow> warm_task multiset \<Rightarrow> warm_state \<Rightarrow> warm_state" where
  "warm_task_start sl r l b M s =
     s\<lparr>ws_active := Suc (ws_active s), ws_tasks := add_mset (WarmTask sl r Running l b) M\<rparr>"

definition warm_set_task :: "warm_task \<Rightarrow> warm_task multiset \<Rightarrow> warm_state \<Rightarrow> warm_state" where
  "warm_set_task t M s = s\<lparr>ws_tasks := add_mset t M\<rparr>"

definition warm_early_swap :: "nat \<Rightarrow> string \<Rightarrow> warm_stage \<Rightarrow> bool \<Rightarrow> warm_task multiset \<Rightarrow> warm_state \<Rightarrow> warm_state" where
  "warm_early_swap sl r st b M s =
     warm_set_task (WarmTask sl r st (if b then Closed else Early) True) M s"

definition warm_stopped :: "warm_state \<Rightarrow> bool" where
  "warm_stopped s \<longleftrightarrow> ws_phase s \<in> {Stopped, NoReposError, SlotPanic}"

definition warm_can_send :: "warm_state \<Rightarrow> bool" where
  "warm_can_send s \<longleftrightarrow> warm_stopped s \<or> length (ws_chan s) < ws_cap s"

definition warm_send :: "nat \<Rightarrow> string \<Rightarrow> warm_state \<Rightarrow> warm_state" where
  "warm_send sl r s =
     (if warm_stopped s then s\<lparr>ws_dropped := add_mset (sl, r) (ws_dropped s)\<rparr>
      else s\<lparr>ws_chan := ws_chan s @ [(sl, r)]\<rparr>)"

definition warm_count_down :: "nat \<Rightarrow> string \<Rightarrow> listener \<Rightarrow> bool \<Rightarrow> warm_task multiset \<Rightarrow> warm_state \<Rightarrow> warm_state" where
  "warm_count_down sl r l b M s =
     s\<lparr>ws_active := ws_active s - 1, ws_tasks := add_mset (WarmTask sl r Counted l b) M\<rparr>"

definition warm_final_swap :: "nat \<Rightarrow> string \<Rightarrow> listener \<Rightarrow> bool \<Rightarrow> warm_task multiset \<Rightarrow> warm_state \<Rightarrow> warm_state" where
  "warm_final_swap sl r l b M s = warm_set_task (WarmTask sl r (if b then Gone else Sending) l True) M s"

section \<open>Steps\<close>

inductive warm_step :: "warm_cfg \<Rightarrow> warm_state \<Rightarrow> warm_state \<Rightarrow> bool" for c where
  run: "ws_phase s = NotStarted \<Longrightarrow> warm_step c s (run_warm_pool c s)"
| recv: "ws_phase s = Selecting \<Longrightarrow> ws_chan s = (sl, r) # rest \<Longrightarrow> warm_step c s (warm_recv sl r rest s)"
| shutdown: "ws_phase s = Selecting \<Longrightarrow> ws_cancelled s \<Longrightarrow> warm_step c s (s\<lparr>ws_phase := Draining\<rparr>)"
| drained: "ws_phase s = Draining \<Longrightarrow> warm_step c s (s\<lparr>ws_phase := Stopped\<rparr>)"
| after_delay: "ws_phase s = Delaying r \<Longrightarrow> warm_step c s (warm_after_delay r s)"
| replace: "ws_phase s = AtPop r \<Longrightarrow> warm_step c s (warm_replace c r s)"
| tick: "ws_phase s = Selecting \<Longrightarrow> \<not> wc_ephemeral c \<Longrightarrow> warm_step c s (autoscale_check c listing s)"
| task_start: "ws_tasks s = add_mset (WarmTask sl r Spawned l b) M \<Longrightarrow>
    warm_step c s (warm_task_start sl r l b M s)"
| notify: "ws_tasks s = add_mset (WarmTask sl r Running Listening b) M \<Longrightarrow> wc_vsock c \<Longrightarrow>
    warm_step c s (warm_set_task (WarmTask sl r Running Notified b) M s)"
| close: "ws_tasks s = add_mset (WarmTask sl r st Listening b) M \<Longrightarrow> st \<notin> {Spawned, Running} \<Longrightarrow>
    warm_step c s (warm_set_task (WarmTask sl r st Closed b) M s)"
| early_swap: "ws_tasks s = add_mset (WarmTask sl r st Notified b) M \<Longrightarrow>
    warm_step c s (warm_early_swap sl r st b M s)"
| early_send: "ws_tasks s = add_mset (WarmTask sl r st Early b) M \<Longrightarrow> warm_can_send s \<Longrightarrow>
    warm_step c s (warm_send sl r (warm_set_task (WarmTask sl r st Closed b) M s))"
| exit: "ws_tasks s = add_mset (WarmTask sl r Running l b) M \<Longrightarrow>
    warm_step c s (warm_set_task (WarmTask sl r Exited l b) M s)"
| count_down: "ws_tasks s = add_mset (WarmTask sl r Exited l b) M \<Longrightarrow>
    warm_step c s (warm_count_down sl r l b M s)"
| final_swap: "ws_tasks s = add_mset (WarmTask sl r Counted l b) M \<Longrightarrow>
    warm_step c s (warm_final_swap sl r l b M s)"
| final_send: "ws_tasks s = add_mset (WarmTask sl r Sending l b) M \<Longrightarrow> warm_can_send s \<Longrightarrow>
    warm_step c s (warm_send sl r (warm_set_task (WarmTask sl r Gone l b) M s))"
| cancel: "warm_step c s (s\<lparr>ws_cancelled := True\<rparr>)"

definition warm_init :: "warm_cfg \<Rightarrow> warm_state \<Rightarrow> bool" where
  "warm_init c s \<longleftrightarrow> s = warm_new c"

lemmas warm_ops =
  warm_recv_def warm_after_delay_def warm_replace_def spawn_warm_vm_def warm_task_start_def
  warm_set_task_def warm_early_swap_def warm_send_def warm_count_down_def warm_final_swap_def

section \<open>Slots\<close>

text \<open>
  A task owns its slot's token until it, or its listener, has won the flag and sent it. What the
  machine conserves is the tokens, not the VMs.
\<close>

definition token :: "warm_task \<Rightarrow> nat multiset" where
  "token t = (if \<not> wt_signaled t \<or> wt_listener t = Early \<or> wt_stage t = Sending then {#wt_slot t#} else {#})"

definition task_ok :: "bool \<Rightarrow> warm_task \<Rightarrow> bool" where
  "task_ok vsock t \<longleftrightarrow>
     (wt_listener t = Early \<longrightarrow> wt_signaled t) \<and>
     (wt_stage t = Sending \<longrightarrow> wt_signaled t \<and> wt_listener t \<noteq> Early) \<and>
     (wt_stage t = Gone \<longrightarrow> wt_signaled t) \<and>
     (\<not> vsock \<longrightarrow> wt_listener t \<in> {Listening, Closed} \<and>
        (wt_signaled t \<longrightarrow> wt_stage t \<in> {Sending, Gone}))"

definition warm_counted :: "warm_task \<Rightarrow> bool" where
  "warm_counted t \<longleftrightarrow> wt_stage t \<in> {Running, Exited}"

definition warm_free :: "warm_state \<Rightarrow> nat multiset" where
  "warm_free s = mset (ws_free s)"

definition warm_lent :: "warm_state \<Rightarrow> nat multiset" where
  "warm_lent s = held token (ws_tasks s) + mset (map fst (ws_chan s)) + image_mset fst (ws_dropped s)"

definition warm_inv :: "warm_cfg \<Rightarrow> warm_state \<Rightarrow> bool" where
  "warm_inv c s \<longleftrightarrow>
     ws_active s = tally warm_counted (ws_tasks s) \<and>
     length (ws_chan s) \<le> ws_cap s \<and>
     (ws_phase s = NotStarted \<longrightarrow> ws_cap s = 0) \<and>
     (\<forall>t \<in># ws_tasks s. task_ok (wc_vsock c) t)"

lemma task_simps [simp]:
  "token (WarmTask sl r st l b) = (if \<not> b \<or> l = Early \<or> st = Sending then {#sl#} else {#})"
  "warm_counted (WarmTask sl r st l b) = (st = Running \<or> st = Exited)"
  "task_ok v (WarmTask sl r st l b) =
     ((l = Early \<longrightarrow> b) \<and> (st = Sending \<longrightarrow> b \<and> l \<noteq> Early) \<and> (st = Gone \<longrightarrow> b) \<and>
      (\<not> v \<longrightarrow> (l = Listening \<or> l = Closed) \<and> (b \<longrightarrow> st = Sending \<or> st = Gone)))"
  by (auto simp: token_def warm_counted_def task_ok_def)

text \<open>Spawning moves slots from the pool to new tasks, one after the other.\<close>

definition spawn_ok :: "warm_cfg \<Rightarrow> warm_state \<Rightarrow> warm_state \<Rightarrow> bool" where
  "spawn_ok c s t \<longleftrightarrow>
     ws_active t = ws_active s \<and> ws_chan t = ws_chan s \<and> ws_cap t = ws_cap s \<and> ws_dropped t = ws_dropped s \<and>
     tally warm_counted (ws_tasks t) = tally warm_counted (ws_tasks s) \<and>
     ((\<forall>x \<in># ws_tasks s. task_ok (wc_vsock c) x) \<longrightarrow> (\<forall>x \<in># ws_tasks t. task_ok (wc_vsock c) x)) \<and>
     warm_free t + warm_lent t = warm_free s + warm_lent s"

lemma spawn_ok_refl: "spawn_ok c s (s\<lparr>ws_phase := p\<rparr>)" "spawn_ok c s s"
  by (simp_all add: spawn_ok_def warm_free_def warm_lent_def)

lemma spawn_ok_trans: "spawn_ok c s t \<Longrightarrow> spawn_ok c t u \<Longrightarrow> spawn_ok c s u"
  by (simp add: spawn_ok_def)

lemma spawn_ok_one:
  "vec_pop (ws_free s) = Some (sl, rest) \<Longrightarrow> spawn_ok c s (spawn_warm_vm sl r (s\<lparr>ws_free := rest, ws_phase := p\<rparr>))"
  "vec_pop (ws_free s) = Some (sl, rest) \<Longrightarrow> spawn_ok c s (spawn_warm_vm sl r (s\<lparr>ws_free := rest\<rparr>))"
  by (simp_all add: spawn_ok_def spawn_warm_vm_def warm_free_def warm_lent_def vec_pop_Some)

lemma warm_stopped_tasks [simp]: "warm_stopped (s\<lparr>ws_tasks := X\<rparr>) = warm_stopped s"
  by (simp add: warm_stopped_def)

lemma spawn_ok_initial: "spawn_ok c s (warm_spawn_initial c i k s)"
  by (induction k arbitrary: i s)
     (auto intro: spawn_ok_refl spawn_ok_trans [OF spawn_ok_one(2)] split: option.splits)

lemma spawn_ok_standbys: "spawn_ok c s (warm_spawn_standbys c i k s)"
  by (induction k arbitrary: i s)
     (auto intro: spawn_ok_refl spawn_ok_trans [OF spawn_ok_one(2)] split: option.splits)

lemma phase_initial: "ws_phase (warm_spawn_initial c i k s) \<in> {Selecting, SlotPanic}"
  by (induction k arbitrary: i s) (auto split: option.splits)

lemma phase_standbys: "ws_phase (warm_spawn_standbys c i k s) = ws_phase s"
  by (induction k arbitrary: i s) (auto simp: spawn_warm_vm_def split: option.splits)

lemma run_spawn_ok:
  "\<exists>u. u \<in> {s, s\<lparr>ws_cap := wc_max c * 2\<rparr>} \<and> spawn_ok c u (run_warm_pool c s) \<and> ws_phase (run_warm_pool c s) \<noteq> NotStarted"
  using phase_initial [of c 0 "wc_size c" "s\<lparr>ws_cap := wc_max c * 2\<rparr>"]
  by (auto simp: run_warm_pool_def intro: spawn_ok_refl spawn_ok_initial)

lemma check_spawn_ok: "spawn_ok c s (autoscale_check c listing s)"
  by (auto simp: autoscale_check_def intro: spawn_ok_refl spawn_ok_standbys split: option.splits)

lemma replace_spawn_ok: "spawn_ok c s (warm_replace c r s)"
  by (auto simp: warm_replace_def intro: spawn_ok_refl spawn_ok_one split: option.splits)

lemma warm_inv_init: "warm_init c s \<Longrightarrow> warm_inv c s"
  by (simp add: warm_init_def warm_new_def warm_inv_def)

lemma warm_inv_spawn:
  "spawn_ok c s t \<Longrightarrow> warm_inv c s \<Longrightarrow> (ws_phase t = NotStarted \<longrightarrow> ws_cap t = 0) \<Longrightarrow> warm_inv c t"
  by (simp add: spawn_ok_def warm_inv_def)

lemma warm_inv_step: "warm_step c s t \<Longrightarrow> warm_inv c s \<Longrightarrow> warm_inv c t"
proof (induction rule: warm_step.induct)
  case (run s)
  obtain u where u: "u \<in> {s, s\<lparr>ws_cap := wc_max c * 2\<rparr>}" "spawn_ok c u (run_warm_pool c s)"
    "ws_phase (run_warm_pool c s) \<noteq> NotStarted"
    using run_spawn_ok by blast
  then show ?case using run by (auto simp: spawn_ok_def warm_inv_def)
next
  case (replace s r)
  then show ?case
    by (intro warm_inv_spawn [OF replace_spawn_ok]) (auto simp: warm_replace_def spawn_warm_vm_def split: option.splits)
next
  case (tick s listing)
  then show ?case
    by (intro warm_inv_spawn [OF check_spawn_ok])
       (auto simp: autoscale_check_def phase_standbys split: option.splits)
qed (auto simp: warm_inv_def warm_ops warm_can_send_def split: if_splits)

lemma lent_send [simp]:
  "warm_free (warm_send sl r s) = warm_free s"
  "warm_lent (warm_send sl r s) = add_mset sl (warm_lent s)"
  by (simp_all add: warm_send_def warm_free_def warm_lent_def)

lemma lent_tasks:
  "warm_free (s\<lparr>ws_tasks := X\<rparr>) = warm_free s"
  "warm_lent (s\<lparr>ws_tasks := X\<rparr>) = held token X + mset (map fst (ws_chan s)) + image_mset fst (ws_dropped s)"
  by (simp_all add: warm_free_def warm_lent_def)

lemma lent_bag:
  "ws_tasks s = add_mset t M \<Longrightarrow>
     warm_lent s = token t + (held token M + mset (map fst (ws_chan s)) + image_mset fst (ws_dropped s))"
  by (simp add: warm_lent_def add.assoc)

lemma lent_set_task:
  "warm_free (warm_set_task t' M s) = warm_free s"
  "warm_lent (warm_set_task t' M s) = token t' + (held token M + mset (map fst (ws_chan s)) + image_mset fst (ws_dropped s))"
  by (simp_all add: warm_set_task_def lent_tasks add.assoc)

lemma lent_active [simp]:
  "warm_free (s\<lparr>ws_active := n\<rparr>) = warm_free s"
  "warm_lent (s\<lparr>ws_active := n\<rparr>) = warm_lent s"
  by (simp_all add: warm_free_def warm_lent_def)

lemma warm_slots_step: "warm_step c s t \<Longrightarrow> warm_inv c s \<Longrightarrow> warm_free t + warm_lent t = warm_free s + warm_lent s"
proof (induction rule: warm_step.induct)
  case (run s)
  then show ?case using run_spawn_ok [of s c] by (auto simp: spawn_ok_def warm_free_def warm_lent_def)
next
  case (replace s r)
  then show ?case using replace_spawn_ok [of c s r] by (simp add: spawn_ok_def)
next
  case (tick s listing)
  then show ?case using check_spawn_ok [of c s listing] by (simp add: spawn_ok_def)
next
  case (early_send s sl r st b M)
  then have "b" "st \<noteq> Sending" by (auto simp: warm_inv_def)
  then show ?case using lent_bag [OF early_send(1)] by (simp add: lent_set_task)
next
  case (final_send s sl r l b M)
  then have "b" "l \<noteq> Early" by (auto simp: warm_inv_def)
  then show ?case using lent_bag [OF final_send(1)] by (simp add: lent_set_task)
next
  case (final_swap s sl r l b M)
  then have "l = Early \<longrightarrow> b" by (auto simp: warm_inv_def)
  then show ?case
    using lent_bag [OF final_swap(1)] by (cases b) (auto simp: lent_set_task warm_final_swap_def)
next
  case (early_swap s sl r st b M)
  then have "st = Sending \<longrightarrow> b" by (auto simp: warm_inv_def)
  then show ?case
    using lent_bag [OF early_swap(1)] by (cases b) (auto simp: lent_set_task warm_early_swap_def)
next
  case (task_start s sl r l b M)
  then show ?case using lent_bag [OF task_start(1)] by (simp add: warm_task_start_def lent_tasks add.assoc)
next
  case (count_down s sl r l b M)
  then show ?case using lent_bag [OF count_down(1)] by (simp add: warm_count_down_def lent_tasks add.assoc)
next
  case (notify s sl r b M)
  then show ?case using lent_bag [OF notify(1)] by (simp add: lent_set_task)
next
  case (close s sl r st b M)
  then show ?case using lent_bag [OF close(1)] by (simp add: lent_set_task)
next
  case (exit s sl r l b M)
  then show ?case using lent_bag [OF exit(1)] by (simp add: lent_set_task)
qed (simp_all add: warm_recv_def warm_after_delay_def warm_free_def warm_lent_def slot_simps)

lemma warm_slots_init: "warm_init c s \<Longrightarrow> warm_free s + warm_lent s = mset [0..<wc_max c]"
  by (simp add: warm_init_def warm_new_def warm_free_def warm_lent_def)

interpretation warm: slot_system "warm_init c" "warm_step c" "warm_inv c" warm_free warm_lent "[0..<wc_max c]"
  for c
  by unfold_locales (blast intro: warm_inv_init warm_inv_step warm_slots_init warm_slots_step)+

section \<open>Properties\<close>

definition running_slots :: "warm_state \<Rightarrow> nat multiset" where
  "running_slots s = held (\<lambda>t. if wt_stage t = Running then {#wt_slot t#} else {#}) (ws_tasks s)"

lemma running_tokens:
  assumes "warm_inv c s" and "\<not> wc_vsock c"
  shows "running_slots s \<subseteq># warm_lent s"
proof -
  have "(if wt_stage t = Running then {#wt_slot t#} else {#}) \<subseteq># token t" if "t \<in># ws_tasks s" for t
    using assms that by (cases t) (auto simp: warm_inv_def dest!: bspec)
  then have "running_slots s \<subseteq># held token (ws_tasks s)"
    unfolding running_slots_def by (rule held_mono)
  also have "held token (ws_tasks s) \<subseteq># warm_lent s"
    by (simp add: warm_lent_def add.assoc)
  finally show ?thesis .
qed

text \<open>C27: in the warm pool each slot's token is at all times in exactly one place (the pool, a VM task
  or its listener, a completion), so every VM task causes exactly one replacement, by its listener or
  at its end, and no slot is lost or doubled by the race between the two.\<close>

theorem warm_tokens_conserved:
  assumes "reach (warm_init c) (warm_step c) s"
  shows "warm_free s + warm_lent s = mset [0..<wc_max c] \<and> mset_distinct (warm_free s + warm_lent s) \<and>
    {t. t \<in># ws_tasks s \<and> wt_stage t = Gone \<and> \<not> wt_signaled t} = {}"
proof (intro conjI)
  show "warm_free s + warm_lent s = mset [0..<wc_max c]" by (rule warm.conserved [OF assms])
  show "mset_distinct (warm_free s + warm_lent s)" by (rule warm.exclusive [OF _ assms]) simp
  show "{t. t \<in># ws_tasks s \<and> wt_stage t = Gone \<and> \<not> wt_signaled t} = {}"
    using warm.reach_inv [OF assms] by (auto simp: warm_inv_def task_ok_def)
qed

definition demo_warm :: "bool \<Rightarrow> warm_cfg" where
  "demo_warm v = \<lparr>wc_size = 1, wc_max = 1, wc_ephemeral = True, wc_repos = [''r''], wc_org = False, wc_vsock = v\<rparr>"

theorem warm_tokens_conserved_witness:
  "warm_free (run_warm_pool (demo_warm True) (warm_new (demo_warm True)))
     + warm_lent (run_warm_pool (demo_warm True) (warm_new (demo_warm True))) = {#0#}"
proof -
  have "reach (warm_init (demo_warm True)) (warm_step (demo_warm True))
      (run_warm_pool (demo_warm True) (warm_new (demo_warm True)))"
    by (rule reach_step [OF reach_init], simp add: warm_init_def)
       (rule warm_step.run, simp add: warm_new_def)
  from warm_tokens_conserved [OF this] show ?thesis by (simp add: demo_warm_def)
qed

text \<open>without VSOCK, running warm VMs are on pairwise different slots, at most
  \<open>max_concurrent_jobs\<close> of them.\<close>

theorem warm_running_exclusive:
  assumes "reach (warm_init c) (warm_step c) s" and "\<not> wc_vsock c"
  shows "mset_distinct (running_slots s) \<and> size (running_slots s) \<le> wc_max c"
proof
  have R: "running_slots s \<subseteq># warm_lent s" by (rule running_tokens [OF warm.reach_inv [OF assms(1)] assms(2)])
  show "mset_distinct (running_slots s)"
    using mset_distinct_subset [OF R] warm.lent_distinct [OF _ assms(1)] by simp
  show "size (running_slots s) \<le> wc_max c"
    using size_mset_mono [OF R] warm.lent_bound [OF assms(1)] by simp
qed

theorem warm_running_exclusive_witness:
  "mset_distinct (running_slots (run_warm_pool (demo_warm False) (warm_new (demo_warm False))))"
proof -
  have "reach (warm_init (demo_warm False)) (warm_step (demo_warm False))
      (run_warm_pool (demo_warm False) (warm_new (demo_warm False)))"
    by (rule reach_step [OF reach_init], simp add: warm_init_def)
       (rule warm_step.run, simp add: warm_new_def)
  from warm_running_exclusive [OF this] show ?thesis by (simp add: demo_warm_def)
qed

text \<open>with VSOCK the exclusion is lost. The listener's early signal gives the slot back while the
  VM that reported its job is still running, so a state is reachable in which two VMs run on the one
  slot there is, and with it share TAP device, addresses and cache image.\<close>

theorem warm_slot_shared:
  "\<exists>s. reach (warm_init (demo_warm True)) (warm_step (demo_warm True)) s \<and> running_slots s = {#0, 0#}"
proof -
  let ?c = "demo_warm True"
  let ?R = "reach (warm_init ?c) (warm_step ?c)"
  let ?s1 = "run_warm_pool ?c (warm_new ?c)"
  let ?s2 = "warm_task_start 0 ''r'' Listening False {#} ?s1"
  let ?s3 = "warm_set_task (WarmTask 0 ''r'' Running Notified False) {#} ?s2"
  let ?s4 = "warm_early_swap 0 ''r'' Running False {#} ?s3"
  let ?t1 = "WarmTask 0 ''r'' Running Closed True"
  let ?s5 = "warm_send 0 ''r'' (warm_set_task ?t1 {#} ?s4)"
  let ?s6 = "warm_recv 0 ''r'' [] ?s5"
  let ?s7 = "warm_after_delay ''r'' ?s6"
  let ?s8 = "warm_replace ?c ''r'' ?s7"
  let ?s9 = "warm_task_start 0 ''r'' Listening False {#?t1#} ?s8"
  note ops = warm_ops run_warm_pool_def warm_new_def demo_warm_def warm_repo_def vec_pop_def vec_push_def
    warm_stopped_def warm_can_send_def
  have "?R (warm_new ?c)" by (rule reach_init) (simp add: warm_init_def)
  then have "?R ?s1" by (rule reach_step, intro warm_step.run) (simp add: warm_new_def)
  then have "?R ?s2" by (rule reach_step, intro warm_step.task_start) (simp add: ops)
  then have "?R ?s3" by (rule reach_step, intro warm_step.notify) (simp_all add: ops)
  then have "?R ?s4" by (rule reach_step, intro warm_step.early_swap) (simp add: ops)
  then have "?R ?s5" by (rule reach_step, intro warm_step.early_send [where b = True and st = Running]) (simp_all add: ops)
  then have "?R ?s6" by (rule reach_step, intro warm_step.recv) (simp_all add: ops)
  then have "?R ?s7" by (rule reach_step, intro warm_step.after_delay) (simp add: ops)
  then have "?R ?s8" by (rule reach_step, intro warm_step.replace) (simp add: ops)
  then have "?R ?s9" by (rule reach_step, intro warm_step.task_start) (simp add: ops add_mset_commute)
  moreover have "running_slots ?s9 = {#0, 0#}" by (simp add: running_slots_def ops)
  ultimately show ?thesis by blast
qed

lemma warm_initial_phase:
  "ws_phase (warm_spawn_initial c i k s) = (if length (ws_free s) < k then SlotPanic else Selecting)"
proof (induction k arbitrary: i s)
  case (Suc k)
  then show ?case
    by (cases "ws_free s" rule: rev_cases) (simp_all add: vec_pop_def spawn_warm_vm_def)
qed simp

text \<open>the start of the warm pool panics exactly when \<open>warm_pool_size\<close> exceeds
  \<open>max_concurrent_jobs\<close> (and there is something to register with), and the validation lets such a
  configuration through.\<close>

theorem warm_start_panics_iff:
  "(ws_phase (run_warm_pool c (warm_new c)) = SlotPanic
     \<longleftrightarrow> wc_max c < wc_size c \<and> \<not> (wc_repos c = [] \<and> \<not> wc_org c)) \<and>
   (\<exists>cfg. wf_config plain_host cfg \<and> wc_max (warm_cfg_of cfg) < wc_size (warm_cfg_of cfg) \<and>
      wc_repos (warm_cfg_of cfg) \<noteq> [])"
proof
  show "ws_phase (run_warm_pool c (warm_new c)) = SlotPanic
     \<longleftrightarrow> wc_max c < wc_size c \<and> \<not> (wc_repos c = [] \<and> \<not> wc_org c)"
    by (auto simp: run_warm_pool_def warm_initial_phase warm_new_def)
  let ?cfg = "(minimal_config ''app'')\<lparr>runner := default_runner_config\<lparr>warm_pool_size := 5\<rparr>\<rparr>"
  have "wf_config plain_host ?cfg"
    using wf_minimal_config [of "''app''"]
    by (simp add: wf_config_def minimal_config_def plain_host_def default_runner_config_def)
  moreover have "wc_max (warm_cfg_of ?cfg) < wc_size (warm_cfg_of ?cfg) \<and> wc_repos (warm_cfg_of ?cfg) \<noteq> []"
    by (simp add: warm_cfg_of_def minimal_config_def default_runner_config_def all_repos_def)
  ultimately show "\<exists>cfg. wf_config plain_host cfg \<and> wc_max (warm_cfg_of cfg) < wc_size (warm_cfg_of cfg) \<and>
      wc_repos (warm_cfg_of cfg) \<noteq> []" by blast
qed

lemma standbys_count:
  "\<exists>n. n = min k (length (ws_free s)) \<and> size (ws_tasks (warm_spawn_standbys c i k s)) = size (ws_tasks s) + n
     \<and> length (ws_free (warm_spawn_standbys c i k s)) = length (ws_free s) - n"
proof (induction k arbitrary: i s)
  case (Suc k)
  show ?case
  proof (cases "ws_free s" rule: rev_cases)
    case Nil
    then show ?thesis by (simp add: vec_pop_def)
  next
    case (snoc xs x)
    then show ?thesis
      using Suc.IH [where i = "Suc i" and s = "spawn_warm_vm x (warm_repo c i) (s\<lparr>ws_free := xs\<rparr>)"]
      by (auto simp: vec_pop_def spawn_warm_vm_def)
  qed
qed simp

text \<open>one auto-scaling check starts exactly as many standby VMs as idle runners are missing from
  the target, cut to the capacity \<open>max_concurrent_jobs\<close> leaves beside the active VMs and to the free
  slots; each of them takes one free slot.\<close>

theorem autoscale_spawns:
  fixes s :: warm_state and rs :: "gh_runner list"
  assumes "wc_org c \<or> wc_repos c \<noteq> []"
  defines "n \<equiv> min (min (wc_size c - idle_count rs) (wc_max c - ws_active s)) (length (ws_free s))"
  shows "size (ws_tasks (autoscale_check c (Some rs) s)) = size (ws_tasks s) + n \<and>
    length (ws_free (autoscale_check c (Some rs) s)) = length (ws_free s) - n"
  using standbys_count [of "standbys_wanted (wc_size c) (wc_max c) (idle_count rs) (ws_active s)" s c 0] assms(1)
  by (auto simp: autoscale_check_def n_def standbys_wanted_def split: if_splits)

theorem autoscale_spawns_witness:
  "size (ws_tasks (autoscale_check ((demo_warm False)\<lparr>wc_max := 3\<rparr>)
      (Some [\<lparr>rn_id = 1, rn_name = ''fc-warm-0-x'', rn_status = ''online'', rn_busy = True\<rparr>])
      ((warm_new (demo_warm False))\<lparr>ws_free := [1, 2], ws_active := 1\<rparr>))) = 1"
  using autoscale_spawns [of "(demo_warm False)\<lparr>wc_max := 3\<rparr>"
      "[\<lparr>rn_id = 1, rn_name = ''fc-warm-0-x'', rn_status = ''online'', rn_busy = True\<rparr>]"
      "(warm_new (demo_warm False))\<lparr>ws_free := [1, 2], ws_active := 1\<rparr>"]
  by (simp add: demo_warm_def warm_new_def idle_count_def our_runners_def starts_with_def)
end
