(* ===== verification/Orchestrator.thy ===== *)
theory Orchestrator
  imports Pool Jit Warm
begin

text \<open>
  What is above the three modes in \<open>src/src/scheduler/orchestrator.rs\<close>: which mode runs, how the
  named pools get their slots, the clean-up before the start and the bounded wait at shutdown
  (shared in form with the pool manager's).
\<close>

section \<open>The mode\<close>

datatype sched_mode = NamedPools | WarmPool | Reactive

definition select_mode :: "app_config \<Rightarrow> sched_mode" where
  "select_mode c =
     (if pools c \<noteq> [] then NamedPools
      else if 0 < warm_pool_size (runner c) then WarmPool
      else Reactive)"

text \<open>Stale runners are removed first: once for an organization, else repository by repository.\<close>

definition cleanup_stale_runners :: "'w http_env \<Rightarrow> gh_client \<Rightarrow> 'w gh_state \<Rightarrow> 'w gh_state" where
  "cleanup_stale_runners env c s =
     (if is_org_mode c then remove_org_offline_runners env c s
      else fold (remove_offline_runners env c) (client_repos c) s)"

section \<open>Slots of the named pools\<close>

text \<open>\<open>(0..n).filter_map(|_| all_slots.pop())\<close>.\<close>

fun take_slots :: "nat \<Rightarrow> nat list \<Rightarrow> nat list \<times> nat list" where
  "take_slots 0 all = ([], all)"
| "take_slots (Suc n) all =
     (case vec_pop all of
        None \<Rightarrow> take_slots n all
      | Some (x, rest) \<Rightarrow> (let (xs, left) = take_slots n rest in (x # xs, left)))"

text \<open>The managers in configuration order; a pool left without slots gets none.\<close>

fun allocate :: "pool_config list \<Rightarrow> nat list \<Rightarrow> (string \<times> pool_config \<times> nat list) list" where
  "allocate [] all = []"
| "allocate (p # ps) all =
     (let (xs, left) = take_slots (max_ready p) all in
      if xs = [] then allocate ps left
      else (pool_name p, p, xs) # allocate ps left)"

text \<open>They are kept by name in a \<open>HashMap\<close>: a later pool of the same name replaces an earlier one.\<close>

definition pool_managers :: "app_config \<Rightarrow> string \<rightharpoonup> pool_config \<times> nat list" where
  "pool_managers c =
     fold (\<lambda>(n, v) m. m(n \<mapsto> v))
       (allocate (pools c) [0..<max_concurrent_jobs (runner c)]) Map.empty"

lemma take_slots_eq: "take_slots n all = (take n (rev all), take (length all - n) all)"
proof (induction n arbitrary: all)
  case (Suc n)
  show ?case by (cases all rule: rev_cases) (simp_all add: Suc vec_pop_def)
qed simp

lemma pool_managers_map_of:
  "pool_managers c n = map_of (rev (allocate (pools c) [0..<max_concurrent_jobs (runner c)])) n"
  using hash_map.get_insert_all_empty [of "allocate (pools c) [0..<max_concurrent_jobs (runner c)]" n]
  by (simp add: pool_managers_def hash_map.insert_all_def)

lemma allocate_slots_sub:
  "(n, pc, xs) \<in> set (allocate ps all) \<Longrightarrow>
     set xs \<subseteq> set all \<and> xs \<noteq> [] \<and> length xs \<le> max_ready pc \<and> n = pool_name pc \<and> pc \<in> set ps"
proof (induction ps arbitrary: all)
  case (Cons p ps)
  consider "(n, pc, xs) \<in> set (allocate ps (take (length all - max_ready p) all))"
    | "n = pool_name p" "pc = p" "xs = take (max_ready p) (rev all)" "xs \<noteq> []"
    using Cons.prems by (auto simp: take_slots_eq split: if_splits)
  then show ?case
  proof cases
    case 1
    from Cons.IH [OF 1] show ?thesis by (auto dest: in_set_takeD)
  next
    case 2
    then show ?thesis by (auto dest: in_set_takeD)
  qed
qed simp

lemma allocate_distinct:
  "distinct all \<Longrightarrow> distinct (concat (map (snd \<circ> snd) (allocate ps all)))"
proof (induction ps arbitrary: all)
  case (Cons p ps)
  let ?xs = "take (max_ready p) (rev all)" and ?left = "take (length all - max_ready p) all"
  have left: "set (concat (map (snd \<circ> snd) (allocate ps ?left))) \<subseteq> set ?left"
    using allocate_slots_sub by fastforce
  have "distinct (?left @ drop (length all - max_ready p) all)" using Cons.prems by simp
  then have "set ?left \<inter> set (drop (length all - max_ready p) all) = {}" by (simp only: distinct_append)
  moreover have "set ?xs = set (drop (length all - max_ready p) all)" by (simp add: take_rev)
  ultimately have "set ?xs \<inter> set (concat (map (snd \<circ> snd) (allocate ps ?left))) = {}" using left by blast
  then show ?case using Cons by (simp add: take_slots_eq)
qed simp

lemma distinct_concat_in: "distinct (concat (map f xs)) \<Longrightarrow> x \<in> set xs \<Longrightarrow> distinct (f x)"
  by (induction xs) auto

lemma distinct_concat_pair:
  "distinct (concat (map f xs)) \<Longrightarrow> x \<in> set xs \<Longrightarrow> y \<in> set xs \<Longrightarrow> x \<noteq> y \<Longrightarrow> set (f x) \<inter> set (f y) = {}"
  by (induction xs) auto

section \<open>Waiting for active jobs\<close>

text \<open>
  The count is read every two seconds until it is 0 or the deadline has passed; \<open>obs\<close> gives the
  count at each second. The result tells whether all jobs had completed, and when.
\<close>

function wait_for_active :: "(nat \<Rightarrow> nat) \<Rightarrow> nat \<Rightarrow> nat \<Rightarrow> bool \<times> nat" where
  "wait_for_active obs deadline now =
     (if obs now = 0 then (True, now)
      else if deadline \<le> now then (False, now)
      else wait_for_active obs deadline (now + 2))"
  by pat_completeness auto
termination by (relation "measure (\<lambda>(obs, d, now). d - now)") auto

declare wait_for_active.simps [simp del]

definition shutdown_wait_secs :: "sched_mode \<Rightarrow> nat" where
  "shutdown_wait_secs m = (case m of NamedPools \<Rightarrow> 300 | WarmPool \<Rightarrow> 10 | Reactive \<Rightarrow> 10)"

section \<open>Properties\<close>

text \<open>the named pools' managers never share a slot: whatever the configured sizes, the slots of two
  managers are disjoint, without repetition, below \<open>max_concurrent_jobs\<close>, and no manager has more
  than its \<open>max_ready\<close>.\<close>

theorem pool_slots_partition:
  assumes "pool_managers c n = Some (pc, xs)" and "pool_managers c m = Some (qc, ys)" and "n \<noteq> m"
  shows "set xs \<inter> set ys = {} \<and> distinct xs \<and> set xs \<subseteq> {..<max_concurrent_jobs (runner c)} \<and>
    length xs \<le> max_ready pc \<and> pool_name pc = n \<and> pc \<in> set (pools c)"
proof -
  let ?all = "[0..<max_concurrent_jobs (runner c)]"
  have in1: "(n, pc, xs) \<in> set (allocate (pools c) ?all)" and in2: "(m, qc, ys) \<in> set (allocate (pools c) ?all)"
    using assms(1,2) by (auto simp: pool_managers_map_of dest!: map_of_SomeD)
  have D: "distinct (concat (map (snd \<circ> snd) (allocate (pools c) ?all)))"
    by (rule allocate_distinct) simp
  have "set xs \<inter> set ys = {}"
    using distinct_concat_pair [OF D in1 in2] assms(3) by simp
  moreover have "distinct xs" using distinct_concat_in [OF D in1] by simp
  ultimately show ?thesis using allocate_slots_sub [OF in1] by auto
qed

definition two_pools :: "nat \<Rightarrow> nat \<Rightarrow> nat \<Rightarrow> app_config" where
  "two_pools m a b =
     (minimal_config ''r'')
       \<lparr>runner := default_runner_config\<lparr>max_concurrent_jobs := m\<rparr>,
        pools := [(solo_pool ''a'' ''r'' 0)\<lparr>max_ready := a\<rparr>, (solo_pool ''b'' ''r'' 0)\<lparr>max_ready := b\<rparr>]\<rparr>"

lemma two_pools_managers:
  "allocate (pools (two_pools 4 2 2)) [0..<4] =
     [(''a'', (solo_pool ''a'' ''r'' 0)\<lparr>max_ready := 2\<rparr>, [3, 2]),
      (''b'', (solo_pool ''b'' ''r'' 0)\<lparr>max_ready := 2\<rparr>, [1, 0])]"
  by (simp add: two_pools_def take_slots_eq upt_rec solo_pool_def)

theorem pool_slots_partition_witness:
  "set [3, 2] \<inter> set [1, 0 :: nat] = {} \<and> length [3, 2 :: nat] \<le> 2"
proof -
  have m: "max_concurrent_jobs (runner (two_pools 4 2 2)) = 4" by (simp add: two_pools_def)
  have "pool_managers (two_pools 4 2 2) ''a'' = Some ((solo_pool ''a'' ''r'' 0)\<lparr>max_ready := 2\<rparr>, [3, 2])"
    and "pool_managers (two_pools 4 2 2) ''b'' = Some ((solo_pool ''b'' ''r'' 0)\<lparr>max_ready := 2\<rparr>, [1, 0])"
    by (simp_all only: pool_managers_map_of m two_pools_managers) simp_all
  from pool_slots_partition [OF this] show ?thesis by simp
qed

text \<open>slots are handed out greedily in configuration order, not in proportion to \<open>max_ready\<close>: of
  two pools the first gets all it asks for, up to \<open>max_concurrent_jobs\<close>, and the second only what is
  left, possibly nothing, in which case it has no manager and is never run.\<close>

theorem pool_slots_greedy:
  "map_option (length \<circ> snd) (pool_managers (two_pools m (Suc a) (Suc b)) ''b'') =
     (if m \<le> Suc a then None else Some (min (Suc b) (m - Suc a))) \<and>
   map_option (length \<circ> snd) (pool_managers (two_pools m (Suc a) (Suc b)) ''a'') =
     (if m = 0 then None else Some (min (Suc a) m))"
proof -
  have m: "max_concurrent_jobs (runner (two_pools m (Suc a) (Suc b))) = m" by (simp add: two_pools_def)
  have p: "pools (two_pools m (Suc a) (Suc b)) =
      [(solo_pool ''a'' ''r'' 0)\<lparr>max_ready := Suc a\<rparr>, (solo_pool ''b'' ''r'' 0)\<lparr>max_ready := Suc b\<rparr>]"
    by (simp add: two_pools_def)
  show ?thesis
    unfolding pool_managers_map_of m p
    by (auto simp: take_slots_eq solo_pool_def Let_def min_def)
qed

text \<open>the wait at shutdown returns, at most one interval past its deadline, and it reports that the
  jobs completed exactly when it returned at a moment the count was 0.\<close>

theorem wait_for_active_returns:
  "snd (wait_for_active obs deadline now) \<le> max now (Suc deadline) \<and>
   fst (wait_for_active obs deadline now) = (obs (snd (wait_for_active obs deadline now)) = 0)"
proof (induction obs deadline now rule: wait_for_active.induct)
  case (1 obs deadline now)
  then show ?case by (subst (1 2 3) wait_for_active.simps) auto
qed

text \<open>an organization without a repository list, which the validation accepts, leaves the default
  (reactive) mode idle for good: a poll asks GitHub nothing and dispatches nothing.\<close>

theorem org_only_never_polls:
  "\<exists>cfg. wf_config plain_host cfg \<and> select_mode cfg = Reactive \<and> organization (github cfg) \<noteq> None \<and>
     poll_once runs_of jobs_of (gh_labels (github cfg)) (all_repos (github cfg)) = (\<lambda>s. s)"
proof -
  let ?cfg = "(minimal_config [])\<lparr>github := (github (minimal_config []))\<lparr>organization := Some ''acme''\<rparr>\<rparr>"
  have "wf_config plain_host ?cfg"
    using wf_minimal_config [of "''app''"] by (simp add: wf_config_def minimal_config_def)
  moreover have "all_repos (github ?cfg) = []" by (simp add: minimal_config_def all_repos_def)
  moreover have "select_mode ?cfg = Reactive"
    by (simp add: select_mode_def minimal_config_def default_runner_config_def)
  ultimately show ?thesis by (intro exI [of _ ?cfg]) (simp add: fun_eq_iff)
qed

text \<open>C13: two named pools never run VMs on the same slot, whatever each of them goes through: the
  slots active in one manager's reachable states are disjoint from those active in the other's.\<close>

theorem pools_never_collide:
  assumes "pool_managers c n = Some (pc, xs)" and "pool_managers c m = Some (qc, ys)" and "n \<noteq> m"
    and "reach (pool_init pc xs) (pool_step pc) s" and "reach (pool_init qc ys) (pool_step qc) t"
  shows "set_mset (active_slots s) \<inter> set_mset (active_slots t) = {}"
proof -
  have "set_mset (active_slots s) \<subseteq> set xs"
    using pool.lent_owned [OF assms(4)] active_slots_sub [of s] by (auto dest: mset_subset_eqD)
  moreover have "set_mset (active_slots t) \<subseteq> set ys"
    using pool.lent_owned [OF assms(5)] active_slots_sub [of t] by (auto dest: mset_subset_eqD)
  moreover have "set xs \<inter> set ys = {}"
  proof -
    let ?all = "[0..<max_concurrent_jobs (runner c)]"
    have "(n, pc, xs) \<in> set (allocate (pools c) ?all)" and "(m, qc, ys) \<in> set (allocate (pools c) ?all)"
      using assms(1,2) by (auto simp: pool_managers_map_of dest!: map_of_SomeD)
    from distinct_concat_pair [OF allocate_distinct this] assms(3) show ?thesis by simp
  qed
  ultimately show ?thesis by blast
qed

theorem pools_never_collide_witness:
  "set_mset (active_slots (pool_new ((solo_pool ''a'' ''r'' 0)\<lparr>max_ready := 2\<rparr>) [3, 2])) \<inter>
   set_mset (active_slots (pool_new ((solo_pool ''b'' ''r'' 0)\<lparr>max_ready := 2\<rparr>) [1, 0])) = {}"
proof -
  have m: "max_concurrent_jobs (runner (two_pools 4 2 2)) = 4" by (simp add: two_pools_def)
  have a: "pool_managers (two_pools 4 2 2) ''a'' = Some ((solo_pool ''a'' ''r'' 0)\<lparr>max_ready := 2\<rparr>, [3, 2])"
    and b: "pool_managers (two_pools 4 2 2) ''b'' = Some ((solo_pool ''b'' ''r'' 0)\<lparr>max_ready := 2\<rparr>, [1, 0])"
    by (simp_all only: pool_managers_map_of m two_pools_managers) simp_all
  show ?thesis
    by (rule pools_never_collide [OF a b]) (auto intro!: reach_init simp: pool_init_def)
qed
end
