(* ===== verification/Cache_Start.thy ===== *)
theory Cache_Start
  imports Cache_Server Config
begin

text \<open>
  The start of the cache service (\<open>CacheState::new\<close> of \<open>src/src/api/cache_server.rs\<close>): its directory and
  index file, the client of the object store, the test that the store answers, its bucket. The
  store's operations and the reading of the index's JSON are parameters.
\<close>

record s3_client =
  sc_endpoint :: string
  sc_region :: string
  sc_access :: string
  sc_secret :: string
  sc_path_style :: bool

datatype index_file = NoIndex | IndexLocked | IndexText string

datatype cache_start_error = CacheDirFailed | IndexUnreadable | S3Unreachable string | BucketFailed string string

record 's cache_host =
  ch_mkdirs :: bool
  ch_index :: index_file
  ch_parse :: "string \<Rightarrow> cache_entry list option"
  ch_tmp :: "int \<rightharpoonup> string"
  ch_list_buckets :: "s3_client \<Rightarrow> 's \<Rightarrow> bool"
  ch_head_bucket :: "s3_client \<Rightarrow> string \<Rightarrow> 's \<Rightarrow> bool"
  ch_create_bucket :: "s3_client \<Rightarrow> string \<Rightarrow> 's \<Rightarrow> 's option"

definition build_s3_client :: "cache_config \<Rightarrow> s3_client" where
  "build_s3_client c =
     \<lparr>sc_endpoint = s3_endpoint c, sc_region = s3_region c,
      sc_access = (case s3_access_key c of Some k \<Rightarrow> k | None \<Rightarrow> ''minioadmin''),
      sc_secret = (case s3_secret_key c of Some k \<Rightarrow> k | None \<Rightarrow> ''minioadmin''), sc_path_style = True\<rparr>"

definition check_s3_connectivity :: "'s cache_host \<Rightarrow> s3_client \<Rightarrow> string \<Rightarrow> ('s, cache_start_error, unit) op" where
  "check_s3_connectivity h s3 endpoint st =
     (if ch_list_buckets h s3 st then op_ret () st else op_fail (S3Unreachable endpoint) st)"

text \<open>A bucket that cannot be asked for is made.\<close>

definition ensure_bucket :: "'s cache_host \<Rightarrow> s3_client \<Rightarrow> string \<Rightarrow> string \<Rightarrow> ('s, cache_start_error, unit) op" where
  "ensure_bucket h s3 endpoint bucket st =
     (if ch_head_bucket h s3 bucket st then op_ret () st
      else (case ch_create_bucket h s3 bucket st of
              Some u \<Rightarrow> (Inr (), u) | None \<Rightarrow> op_fail (BucketFailed bucket endpoint) st))"

text \<open>A missing or corrupted index is an empty one; one that cannot be read stops the start.\<close>

definition read_index :: "'s cache_host \<Rightarrow> (cache_start_error, cache_entry list option) result" where
  "read_index h =
     (case ch_index h of
        NoIndex \<Rightarrow> Inr None
      | IndexLocked \<Rightarrow> Inl IndexUnreadable
      | IndexText t \<Rightarrow> Inr (ch_parse h t))"

definition cache_open :: "'s cache_host \<Rightarrow> cache_config \<Rightarrow> string \<Rightarrow> ('s, cache_start_error, 's cache_state) op" where
  "cache_open h c token =
     (let s3 = build_s3_client c in
      op_bind (op_lift (ensure (ch_mkdirs h) CacheDirFailed)) (\<lambda>_.
      op_bind (op_lift (read_index h)) (\<lambda>saved.
      op_bind (check_s3_connectivity h s3 (s3_endpoint c)) (\<lambda>_.
      op_bind (ensure_bucket h s3 (s3_endpoint c) (s3_bucket c)) (\<lambda>_ st.
        (Inr (cache_new saved (ch_tmp h) token st), st))))))"

text \<open>A service that has started has the token it was given, entries only of its index file, and a bucket.\<close>

lemma cache_open_Inr:
  "cache_open h c token st = (Inr s, u) \<Longrightarrow>
     ch_mkdirs h \<and> ch_list_buckets h (build_s3_client c) st \<and> cs_store s = u \<and>
     (\<exists>saved. read_index h = Inr saved \<and> s = cache_new saved (ch_tmp h) token u) \<and>
     (u = st \<and> ch_head_bucket h (build_s3_client c) (s3_bucket c) st \<or>
      ch_create_bucket h (build_s3_client c) (s3_bucket c) st = Some u)"
  by (auto simp: cache_open_def Let_def op_simps ensure_def check_s3_connectivity_def ensure_bucket_def cache_new_def
      cleanup_stale_temps_def split: sum.splits prod.splits if_splits option.splits)

lemma cache_new_auth: "cs_auth (cache_new saved tmp token st) = token"
  by (simp add: cache_new_def cleanup_stale_temps_def Let_def)

text \<open>A failing start changes nothing in the store.\<close>

lemma cache_open_Inl: "cache_open h c token st = (Inl e, u) \<Longrightarrow> u = st"
  by (auto simp: cache_open_def Let_def op_simps ensure_def check_s3_connectivity_def ensure_bucket_def
      split: sum.splits prod.splits if_splits option.splits)

text \<open>
  After a corrupted index the counter starts again at one, so the next archive is put under a name
  that an archive of before may still have in the store.
\<close>

lemma corrupted_index_reuses_names:
  "ch_index h = IndexText t \<Longrightarrow> ch_parse h t = None \<Longrightarrow> cache_open h c token st = (Inr s, u) \<Longrightarrow>
     cs_entries s = [] \<and> cs_next s = 1 \<and> cs_store s = u"
  by (drule cache_open_Inr) (auto simp: read_index_def cache_new_def cleanup_stale_temps_def Let_def next_id_of_def)

end
