(* ===== verification/Telemetry.thy ===== *)
theory Telemetry
  imports Rust_Strings
begin

text \<open>
  The metrics of \<open>src/src/metrics.rs\<close>: ten metrics that enter the registry when they are first used, and
  the two gauges of running jobs and free slots with the places of the scheduler that move them.
  The registry's package refuses a name that is not well formed or already there, a histogram whose
  bounds do not rise, and then the program stops (\<open>unwrap\<close>). The text format is the package's.
\<close>

section \<open>The metrics\<close>

datatype metric =
    JobsDispatched | JobsCompleted | JobsFailed | JobsActive | VmBootDuration | GithubApiCalls
  | GithubRateLimitRemaining | PoolSlotsAvailable | PollCycles | UptimeSeconds

datatype metric_kind = Counter | Gauge | Histogram "nat list"

record metric_desc =
  mt_name :: string
  mt_help :: string
  mt_kind :: metric_kind
  mt_labels :: "string list"

fun describe :: "metric \<Rightarrow> metric_desc" where
  "describe JobsDispatched = \<lparr>mt_name = ''fc_jobs_dispatched_total'', mt_help = ''Total jobs dispatched'',
     mt_kind = Counter, mt_labels = [''repo'']\<rparr>"
| "describe JobsCompleted = \<lparr>mt_name = ''fc_jobs_completed_total'', mt_help = ''Total jobs completed successfully'',
     mt_kind = Counter, mt_labels = [''repo'']\<rparr>"
| "describe JobsFailed = \<lparr>mt_name = ''fc_jobs_failed_total'', mt_help = ''Total jobs failed'',
     mt_kind = Counter, mt_labels = [''repo'']\<rparr>"
| "describe JobsActive = \<lparr>mt_name = ''fc_jobs_active'', mt_help = ''Currently active jobs'',
     mt_kind = Gauge, mt_labels = []\<rparr>"
| "describe VmBootDuration = \<lparr>mt_name = ''fc_vm_boot_duration_seconds'',
     mt_help = ''VM boot + job execution duration in seconds'',
     mt_kind = Histogram [1, 5, 10, 30, 60, 120, 300, 600, 1800, 3600], mt_labels = [''repo'']\<rparr>"
| "describe GithubApiCalls = \<lparr>mt_name = ''fc_github_api_calls_total'', mt_help = ''Total GitHub API calls'',
     mt_kind = Counter, mt_labels = [''endpoint'']\<rparr>"
| "describe GithubRateLimitRemaining = \<lparr>mt_name = ''fc_github_rate_limit_remaining'',
     mt_help = ''GitHub API rate limit remaining'', mt_kind = Gauge, mt_labels = []\<rparr>"
| "describe PoolSlotsAvailable = \<lparr>mt_name = ''fc_pool_slots_available'', mt_help = ''Available VM slots'',
     mt_kind = Gauge, mt_labels = []\<rparr>"
| "describe PollCycles = \<lparr>mt_name = ''fc_poll_cycles_total'', mt_help = ''Total poll cycles'',
     mt_kind = Counter, mt_labels = [''status'']\<rparr>"
| "describe UptimeSeconds = \<lparr>mt_name = ''fc_uptime_seconds'', mt_help = ''Process uptime in seconds'',
     mt_kind = Gauge, mt_labels = [''version'']\<rparr>"

section \<open>The registry\<close>

definition name_start :: "char \<Rightarrow> bool" where
  "name_start c \<longleftrightarrow> c \<in> set ''ABCDEFGHIJKLMNOPQRSTUVWXYZabcdefghijklmnopqrstuvwxyz_:''"

definition valid_metric_name :: "string \<Rightarrow> bool" where
  "valid_metric_name s = (case s of [] \<Rightarrow> False
     | c # cs \<Rightarrow> name_start c \<and> list_all (\<lambda>d. name_start d \<or> digit_val d \<noteq> None) cs)"

fun valid_kind :: "metric_kind \<Rightarrow> bool" where
  "valid_kind (Histogram bs) = (bs \<noteq> [] \<and> sorted bs \<and> distinct bs)"
| "valid_kind _ = True"

text \<open>First use of a metric: made and registered, or already there. \<open>None\<close> is a panic.\<close>

definition touch :: "metric \<Rightarrow> metric list \<Rightarrow> metric list option" where
  "touch m r =
     (if m \<in> set r then Some r
      else if valid_metric_name (mt_name (describe m)) \<and> list_all valid_metric_name (mt_labels (describe m)) \<and>
              valid_kind (mt_kind (describe m)) \<and> mt_name (describe m) \<notin> set (map (mt_name \<circ> describe) r)
      then Some (r @ [m]) else None)"

primrec touch_all :: "metric list \<Rightarrow> metric list \<Rightarrow> metric list option" where
  "touch_all [] r = Some r"
| "touch_all (m # ms) r = (case touch m r of None \<Rightarrow> None | Some q \<Rightarrow> touch_all ms q)"

text \<open>What the page of metrics is made from: the descriptions of the registered metrics.\<close>

definition gather :: "(metric_desc list \<Rightarrow> string) \<Rightarrow> metric list \<Rightarrow> string" where
  "gather encode r = encode (map describe r)"

lemma describe_inj: "mt_name (describe m) = mt_name (describe n) \<longleftrightarrow> m = n"
  by (cases m; cases n) simp_all

lemma describe_valid:
  "valid_metric_name (mt_name (describe m))" "list_all valid_metric_name (mt_labels (describe m))" "valid_kind (mt_kind (describe m))"
  by (cases m; simp add: valid_metric_name_def name_start_def)+

lemma touch_eq: "touch m r = Some (if m \<in> set r then r else r @ [m])"
  by (auto simp: touch_def describe_valid describe_inj)

text \<open>However the uses come, no metric stops the program, and each used one is registered once.\<close>

theorem metrics_never_collide:
  "\<exists>r. touch_all ms [] = Some r \<and> distinct r \<and> set r = set ms"
proof -
  have "\<exists>r. touch_all ms q = Some r \<and> distinct r \<and> set r = set q \<union> set ms" if "distinct q" for q
    using that
  proof (induction ms arbitrary: q)
    case (Cons m ms)
    have "distinct (if m \<in> set q then q else q @ [m])" using Cons.prems by simp
    from Cons.IH [OF this] show ?case by (simp add: touch_eq insert_absorb split: if_splits)
  qed simp
  from this [of "[]"] show ?thesis by simp
qed

section \<open>The gauges of jobs and slots\<close>

record gauges =
  jobs_active :: int
  slots_available :: int

definition gauges_at_start :: "nat \<Rightarrow> gauges" where
  "gauges_at_start n = \<lparr>jobs_active = 0, slots_available = int n\<rparr>"

definition job_begins :: "gauges \<Rightarrow> gauges" where
  "job_begins g = g\<lparr>jobs_active := jobs_active g + 1, slots_available := slots_available g - 1\<rparr>"

definition job_ends :: "gauges \<Rightarrow> gauges" where
  "job_ends g = g\<lparr>jobs_active := jobs_active g - 1, slots_available := slots_available g + 1\<rparr>"

text \<open>In every order of begins (\<open>True\<close>) and ends the gauges count the jobs and the slots left.\<close>

lemma gauges_count:
  "fold (\<lambda>b. if b then job_begins else job_ends) bs (gauges_at_start n) =
     (let a = int (length (filter id bs)) - int (length (filter Not bs)) in
      \<lparr>jobs_active = a, slots_available = int n - a\<rparr>)"
  by (induction bs rule: rev_induct) (simp_all add: gauges_at_start_def Let_def job_begins_def job_ends_def)

text \<open>A VM whose end was announced early is counted until it is gone: with its replacement running too,
  the gauge of free slots falls below zero.\<close>

lemma early_replacement_counts_twice: "slots_available (job_begins (job_begins (gauges_at_start 1))) < 0"
  by (simp add: job_begins_def gauges_at_start_def)

end
