(* ===== verification/Utf8.thy ===== *)
theory Utf8
  imports Rust_Strings
begin

text \<open>
  UTF-8 as the standard library reads it: bytes are characters of HOL. \<open>from_utf8\<close> refuses bytes that are not
  well formed; \<open>from_utf8_lossy\<close> replaces each longest well-formed beginning of a broken character by the
  replacement character.
\<close>

section \<open>One character\<close>

definition byte_in :: "nat \<Rightarrow> nat \<Rightarrow> string \<Rightarrow> nat \<Rightarrow> bool" where
  "byte_in lo hi s i \<longleftrightarrow> i < length s \<and> lo \<le> of_char (s ! i) \<and> of_char (s ! i) \<le> hi"

abbreviation cont_byte :: "string \<Rightarrow> nat \<Rightarrow> bool" where
  "cont_byte \<equiv> byte_in 0x80 0xBF"

text \<open>The bounds of the second byte, which depend on the first.\<close>

definition second_byte :: "nat \<Rightarrow> string \<Rightarrow> bool" where
  "second_byte a s =
     byte_in (if a = 0xE0 then 0xA0 else if a = 0xF0 then 0x90 else 0x80)
             (if a = 0xED then 0x9F else if a = 0xF4 then 0x8F else 0xBF) s 1"

text \<open>Whether the text begins with a whole character, and how many bytes that is or how many its broken
  beginning takes.\<close>

definition utf8_step :: "string \<Rightarrow> bool \<times> nat" where
  "utf8_step s =
     (let a = of_char (hd s) in
      if a < 0x80 then (True, 1)
      else if 0xC2 \<le> a \<and> a \<le> 0xDF then (if cont_byte s 1 then (True, 2) else (False, 1))
      else if 0xE0 \<le> a \<and> a \<le> 0xEF then
        (if \<not> second_byte a s then (False, 1) else if \<not> cont_byte s 2 then (False, 2) else (True, 3))
      else if 0xF0 \<le> a \<and> a \<le> 0xF4 then
        (if \<not> second_byte a s then (False, 1) else if \<not> cont_byte s 2 then (False, 2)
         else if \<not> cont_byte s 3 then (False, 3) else (True, 4))
      else (False, 1))"

lemma utf8_step_pos: "0 < snd (utf8_step s)"
  by (simp add: utf8_step_def Let_def)

lemma byte_in_length: "byte_in lo hi s i \<Longrightarrow> i < length s"
  by (simp add: byte_in_def)

lemma second_byte_length: "second_byte a s \<Longrightarrow> 1 < length s"
  unfolding second_byte_def by (rule byte_in_length)

lemma utf8_step_le: "s \<noteq> [] \<Longrightarrow> snd (utf8_step s) \<le> length s"
proof -
  assume "s \<noteq> []"
  then have one: "1 \<le> length s" by (simp add: Suc_le_eq)
  have two: "second_byte a s \<Longrightarrow> 2 \<le> length s" "cont_byte s 1 \<Longrightarrow> 2 \<le> length s" for a
    using second_byte_length [of a s] byte_in_length [of "0x80" "0xBF" s 1] by simp_all
  have more: "cont_byte s 2 \<Longrightarrow> 3 \<le> length s" "cont_byte s 3 \<Longrightarrow> 4 \<le> length s"
    using byte_in_length [of "0x80" "0xBF" s 2] byte_in_length [of "0x80" "0xBF" s 3] by simp_all
  show ?thesis using one two more by (simp add: utf8_step_def Let_def)
qed

section \<open>Texts\<close>

definition replacement :: string where
  "replacement = [CHR 0xEF, CHR 0xBF, CHR 0xBD]"

function utf8_pieces :: "string \<Rightarrow> (bool \<times> string) list" where
  "utf8_pieces s =
     (if s = [] then [] else (fst (utf8_step s), take (snd (utf8_step s)) s) # utf8_pieces (drop (snd (utf8_step s)) s))"
  by auto
termination by (relation "measure length") (auto simp: utf8_step_pos)

declare utf8_pieces.simps [simp del]

lemma utf8_pieces_Nil [simp]: "utf8_pieces [] = []"
  by (subst utf8_pieces.simps) simp

definition from_utf8 :: "string \<Rightarrow> string option" where
  "from_utf8 s = (if list_all fst (utf8_pieces s) then Some s else None)"

definition from_utf8_lossy :: "string \<Rightarrow> string" where
  "from_utf8_lossy s = concat (map (\<lambda>(ok, p). if ok then p else replacement) (utf8_pieces s))"

lemma concat_pieces: "concat (map snd (utf8_pieces s)) = s"
proof (induction s rule: utf8_pieces.induct)
  case (1 s)
  then show ?case by (cases "s = []") (subst utf8_pieces.simps, simp)+
qed

lemma from_utf8_lossy_valid: "from_utf8 s = Some t \<Longrightarrow> t = s \<and> from_utf8_lossy s = s"
proof -
  assume a: "from_utf8 s = Some t"
  then have ok: "list_all fst (utf8_pieces s)" "t = s" by (auto simp: from_utf8_def split: if_splits)
  then have "map (\<lambda>(ok, p). if ok then p else replacement) (utf8_pieces s) = map snd (utf8_pieces s)"
    by (auto simp: list_all_iff)
  then have "from_utf8_lossy s = s" unfolding from_utf8_lossy_def by (simp only: concat_pieces)
  with ok show ?thesis by simp
qed

section \<open>Cutting at the end of a line\<close>

text \<open>A newline belongs to no longer character, so nothing is broken by a cut after it.\<close>

lemma byte_in_before:
  "i < length a \<Longrightarrow> byte_in lo hi (a @ b) i = byte_in lo hi a i"
  by (simp add: byte_in_def nth_append)

lemma byte_in_newline: "0x80 \<le> lo \<Longrightarrow> \<not> byte_in lo hi (a @ CHR 0x0A # b) (length a)"
  by (simp add: byte_in_def)

lemma utf8_step_newline:
  assumes "a \<noteq> []"
  shows "utf8_step (a @ CHR 0x0A # b) = utf8_step a \<and> snd (utf8_step a) \<le> length a"
proof -
  have pos: "0 < length a" using assms by simp
  have hd: "hd (a @ CHR 0x0A # b) = hd a" using assms by simp
  have eq: "byte_in lo hi (a @ CHR 0x0A # b) i = byte_in lo hi a i" if "i \<le> length a" "0x80 \<le> lo" for lo hi i
    using byte_in_newline [OF that(2), of hi a b] byte_in_before [of i a] that
    by (cases "i = length a") (auto simp: byte_in_def)
  have one: "second_byte n (a @ CHR 0x0A # b) = second_byte n a" for n
    unfolding second_byte_def by (intro eq) (use pos in \<open>auto simp: Suc_le_eq\<close>)
  have len: "second_byte n a \<Longrightarrow> 2 \<le> length a" "cont_byte a 1 \<Longrightarrow> 2 \<le> length a" "cont_byte a 2 \<Longrightarrow> 3 \<le> length a" for n
    by (auto simp: second_byte_def byte_in_def)
  have "utf8_step (a @ CHR 0x0A # b) = utf8_step a"
    unfolding utf8_step_def hd one
    using eq [of 1 "0x80" "0xBF"] eq [of 2 "0x80" "0xBF"] eq [of 3 "0x80" "0xBF"] pos len
    by (auto simp: Let_def)
  then show ?thesis using utf8_step_le [OF assms] by simp
qed

lemma utf8_pieces_cut: "utf8_pieces (a @ CHR 0x0A # b) = utf8_pieces (a @ [CHR 0x0A]) @ utf8_pieces b"
proof (induction a rule: length_induct)
  case (1 a)
  show ?case
  proof (cases "a = []")
    case True
    have "utf8_step (CHR 0x0A # x) = (True, 1)" for x by (simp add: utf8_step_def)
    with True show ?thesis
      by (simp add: utf8_pieces.simps [of "CHR 0x0A # b"] utf8_pieces.simps [of "[CHR 0x0A]"])
  next
    case False
    let ?n = "snd (utf8_step a)"
    have n: "?n \<le> length a" "0 < ?n" using utf8_step_newline [OF False] utf8_step_pos by auto
    have step: "utf8_step (a @ CHR 0x0A # x) = utf8_step a" for x using utf8_step_newline [OF False] by blast
    have "length (drop ?n a) < length a" using n False by simp
    then have "utf8_pieces (drop ?n a @ CHR 0x0A # b) = utf8_pieces (drop ?n a @ [CHR 0x0A]) @ utf8_pieces b"
      using 1 by blast
    then show ?thesis
      using n by (simp add: utf8_pieces.simps [of "a @ CHR 0x0A # b"] utf8_pieces.simps [of "a @ [CHR 0x0A]"] step)
  qed
qed

lemma from_utf8_lossy_cut:
  "from_utf8_lossy (a @ CHR 0x0A # b) = from_utf8_lossy (a @ [CHR 0x0A]) @ from_utf8_lossy b"
  by (simp add: from_utf8_lossy_def utf8_pieces_cut [of a b])

lemma from_utf8_lossy_Nil [simp]: "from_utf8_lossy [] = []"
  by (simp add: from_utf8_lossy_def)

text \<open>The decoded line still ends with its newline.\<close>

lemma from_utf8_lossy_newline: "\<exists>c. from_utf8_lossy (a @ [CHR 0x0A]) = c @ [CHR 0x0A]"
proof (induction a rule: length_induct)
  case (1 a)
  show ?case
  proof (cases "a = []")
    case True
    have "utf8_step [CHR 0x0A] = (True, 1)" by (simp add: utf8_step_def)
    then show ?thesis
      using True by (simp add: from_utf8_lossy_def utf8_pieces.simps [of "[CHR 0x0A]"])
  next
    case False
    let ?n = "snd (utf8_step a)"
    have n: "?n \<le> length a" "0 < ?n" using utf8_step_newline [OF False] utf8_step_pos by auto
    have step: "utf8_step (a @ [CHR 0x0A]) = utf8_step a" using utf8_step_newline [OF False] by blast
    have "length (drop ?n a) < length a" using n False by simp
    then obtain c where "from_utf8_lossy (drop ?n a @ [CHR 0x0A]) = c @ [CHR 0x0A]" using 1 by blast
    then show ?thesis
      using n by (simp add: from_utf8_lossy_def utf8_pieces.simps [of "a @ [CHR 0x0A]"] step)
  qed
qed

text \<open>ASCII text is well formed.\<close>

lemma from_utf8_ascii: "list_all (\<lambda>c. (of_char c :: nat) < 0x80) s \<Longrightarrow> from_utf8 s = Some s"
proof -
  assume "list_all (\<lambda>c. (of_char c :: nat) < 0x80) s"
  then have "list_all fst (utf8_pieces s)"
  proof (induction s)
    case (Cons c s)
    then have "utf8_step (c # s) = (True, 1)" by (simp add: utf8_step_def)
    with Cons show ?case by (simp add: utf8_pieces.simps [of "c # s"])
  qed simp
  then show ?thesis by (simp add: from_utf8_def)
qed

end
