(* ===== verification/Cli.thy ===== *)
theory Cli
  imports Utf8 Api_Server
begin

text \<open>
  The command line (\<open>src/src/cli.rs\<close>) and the commands that talk to a running server
  (\<open>run_ps\<close>, \<open>run_pools\<close> and \<open>run_logs\<close> of \<open>src/src/main.rs\<close>). The declarations of the arguments are data; the
  package that matches the words of the command line against them is a parameter, which gives the path of
  subcommands and the values that were given. A command prints lines and ends well or with an error.
\<close>

section \<open>Commands and their arguments\<close>

datatype pool_action =
    PoolList string
  | PoolScale string "nat option" "nat option" string
  | PoolPause string string
  | PoolResume string string

datatype commands =
    CmdServer string
  | CmdAgent string
  | CmdValidate string
  | CmdPs string
  | CmdPools pool_action
  | CmdLogs string "string option"

record arg_spec =
  ar_id :: string
  ar_short :: "char option"
  ar_long :: "string option"
  ar_default :: "string option"
  ar_required :: bool

definition config_arg :: arg_spec where
  "config_arg = \<lparr>ar_id = ''config'', ar_short = Some (CHR ''f''), ar_long = Some ''config'',
     ar_default = Some ''/etc/fc-runner/config.toml'', ar_required = False\<rparr>"

definition log_level_arg :: arg_spec where
  "log_level_arg = \<lparr>ar_id = ''log_level'', ar_short = Some (CHR ''l''), ar_long = Some ''log-level'',
     ar_default = Some ''info'', ar_required = False\<rparr>"

definition endpoint_arg :: arg_spec where
  "endpoint_arg = \<lparr>ar_id = ''endpoint'', ar_short = Some (CHR ''e''), ar_long = Some ''endpoint'',
     ar_default = Some ''http://localhost:9090'', ar_required = False\<rparr>"

definition long_arg :: "string \<Rightarrow> string \<Rightarrow> arg_spec" where
  "long_arg i l = \<lparr>ar_id = i, ar_short = None, ar_long = Some l, ar_default = None, ar_required = False\<rparr>"

definition name_arg :: arg_spec where
  "name_arg = \<lparr>ar_id = ''name'', ar_short = None, ar_long = None, ar_default = None, ar_required = True\<rparr>"

definition arg_specs :: "(string list \<times> arg_spec list) list" where
  "arg_specs =
     [([''server''], [config_arg]),
      ([''agent''], [log_level_arg]),
      ([''validate''], [config_arg]),
      ([''ps''], [endpoint_arg]),
      ([''pools'', ''list''], [endpoint_arg]),
      ([''pools'', ''scale''],
        [name_arg, long_arg ''min_ready'' ''min-ready'', long_arg ''max_ready'' ''max-ready'', endpoint_arg]),
      ([''pools'', ''pause''], [name_arg, endpoint_arg]),
      ([''pools'', ''resume''], [name_arg, endpoint_arg]),
      ([''logs''], [endpoint_arg, long_arg ''vm_id'' ''vm-id''])]"

text \<open>The value of an argument: as given, or the declared default.\<close>

definition arg_value :: "string list \<Rightarrow> (string \<rightharpoonup> string) \<Rightarrow> string \<Rightarrow> string option" where
  "arg_value path given i =
     (case given i of
        Some v \<Rightarrow> Some v
      | None \<Rightarrow> obind (map_of arg_specs path) (\<lambda>as. obind (find (\<lambda>a. ar_id a = i) as) ar_default))"

text \<open>An \<open>Option<usize>\<close>: absent, or a number that fits.\<close>

definition arg_number :: "string option \<Rightarrow> nat option option" where
  "arg_number v = (case v of None \<Rightarrow> Some None | Some s \<Rightarrow> map_option Some (parse_unsigned u64_max s))"

definition command_of :: "string list \<Rightarrow> (string \<rightharpoonup> string) \<Rightarrow> commands option" where
  "command_of path given =
     (let v = arg_value path given in
      if path = [''server''] then map_option CmdServer (v ''config'')
      else if path = [''agent''] then map_option CmdAgent (v ''log_level'')
      else if path = [''validate''] then map_option CmdValidate (v ''config'')
      else if path = [''ps''] then map_option CmdPs (v ''endpoint'')
      else if path = [''pools'', ''list''] then map_option (\<lambda>e. CmdPools (PoolList e)) (v ''endpoint'')
      else if path = [''pools'', ''scale''] then
        obind (v ''name'') (\<lambda>n. obind (arg_number (v ''min_ready'')) (\<lambda>mn. obind (arg_number (v ''max_ready'')) (\<lambda>mx.
          map_option (\<lambda>e. CmdPools (PoolScale n mn mx e)) (v ''endpoint''))))
      else if path = [''pools'', ''pause''] then
        obind (v ''name'') (\<lambda>n. map_option (\<lambda>e. CmdPools (PoolPause n e)) (v ''endpoint''))
      else if path = [''pools'', ''resume''] then
        obind (v ''name'') (\<lambda>n. map_option (\<lambda>e. CmdPools (PoolResume n e)) (v ''endpoint''))
      else if path = [''logs''] then map_option (\<lambda>e. CmdLogs e (v ''vm_id'')) (v ''endpoint'')
      else None)"

definition parse_cli ::
    "((string list \<times> arg_spec list) list \<Rightarrow> string list \<Rightarrow> (string list \<times> (string \<rightharpoonup> string)) option)
      \<Rightarrow> string list \<Rightarrow> commands option" where
  "parse_cli clap argv = obind (clap arg_specs argv) (\<lambda>(path, given). command_of path given)"

section \<open>Printed text\<close>

text \<open>\<open>{:<n}\<close> counts characters: the bytes that begin one.\<close>

definition char_count :: "string \<Rightarrow> nat" where
  "char_count s = length (filter (\<lambda>c. \<not> (0x80 \<le> (of_char c :: nat) \<and> (of_char c :: nat) < 0xC0)) s)"

definition pad :: "nat \<Rightarrow> string \<Rightarrow> string" where
  "pad n s = s @ replicate (n - char_count s) (CHR '' '')"

text \<open>\<open>{:?}\<close> of a string. Characters outside ASCII are printed as they are, as \<open>Debug\<close> does for those that
  Unicode counts as printable.\<close>

definition debug_char :: "char \<Rightarrow> string" where
  "debug_char c =
     (let n = of_char c :: nat in
      if n = 0 then [CHR 0x5C, CHR ''0'']
      else if n = 9 then [CHR 0x5C, CHR ''t''] else if n = 10 then [CHR 0x5C, CHR ''n'']
      else if n = 13 then [CHR 0x5C, CHR ''r'']
      else if n = 0x22 \<or> n = 0x5C then [CHR 0x5C, c]
      else if n < 0x20 \<or> n = 0x7F then [CHR 0x5C] @ ''u{'' @ show_hex n @ ''}''
      else [c])"

definition debug_str :: "string \<Rightarrow> string" where
  "debug_str s = [CHR 0x22] @ concat (map debug_char s) @ [CHR 0x22]"

definition debug_list :: "string list \<Rightarrow> string" where
  "debug_list xs = ''['' @ join_with '', '' (map debug_str xs) @ '']''"

section \<open>The commands that talk to the server\<close>

datatype cli_error = ClientFailed client_error | NoBound | StreamBroken

type_synonym shown = "string list \<times> (cli_error, unit) result"

text \<open>Prints from the client's answer, or ends with its error.\<close>

definition print_answer :: "('a \<Rightarrow> string list) \<Rightarrow> (client_error, 'a) result \<times> server_state \<Rightarrow> shown \<times> server_state" where
  "print_answer f a = (case a of (Inl e, s) \<Rightarrow> (([], Inl (ClientFailed e)), s) | (Inr x, s) \<Rightarrow> ((f x, Inr ()), s))"

definition vm_row :: "vm_info \<Rightarrow> string" where
  "vm_row v = pad 38 (vi_id v) @ '' '' @ pad 12 (show_nat (vi_job v)) @ '' '' @ pad 30 (vi_repo v) @ '' '' @
     pad 6 (show_nat (vi_slot v)) @ '' '' @ vi_started v"

definition vm_header :: string where
  "vm_header = pad 38 ''VM ID'' @ '' '' @ pad 12 ''JOB ID'' @ '' '' @ pad 30 ''REPO'' @ '' '' @ pad 6 ''SLOT'' @ '' STARTED''"

definition run_ps :: "api_env \<Rightarrow> string \<Rightarrow> server_state \<Rightarrow> shown \<times> server_state" where
  "run_ps env endpoint s =
     print_answer (\<lambda>vms. if vms = [] then [''no running VMs''] else vm_header # map vm_row vms)
       (client_list_vms env (client_base endpoint) s)"

definition pool_row :: "pool_status \<Rightarrow> string" where
  "pool_row p = pad 20 (st_name p) @ '' '' @ pad 8 (if st_paused p then ''yes'' else ''no'') @ '' '' @
     pad 10 (show_nat (st_min_ready p)) @ '' '' @ pad 10 (show_nat (st_max_ready p)) @ '' '' @
     pad 8 (show_nat (st_active p)) @ '' '' @ pad 8 (show_nat (st_idle_slots p)) @ '' '' @ debug_list (st_repos p)"

definition pool_header :: string where
  "pool_header = pad 20 ''NAME'' @ '' '' @ pad 8 ''PAUSED'' @ '' '' @ pad 10 ''MIN_READY'' @ '' '' @ pad 10 ''MAX_READY'' @
     '' '' @ pad 8 ''ACTIVE'' @ '' '' @ pad 8 ''IDLE'' @ '' REPOS''"

fun run_pools :: "api_env \<Rightarrow> pool_action \<Rightarrow> server_state \<Rightarrow> shown \<times> server_state" where
  "run_pools env (PoolList endpoint) s =
     print_answer (\<lambda>ps. if ps = [] then [''no pools configured''] else pool_header # map pool_row ps)
       (client_list_pools env (client_base endpoint) s)"
| "run_pools env (PoolScale n mn mx endpoint) s =
     (if mn = None \<and> mx = None then (([], Inl NoBound), s)
      else print_answer (\<lambda>m. [m]) (client_scale_pool env (client_base endpoint) n mn mx s))"
| "run_pools env (PoolPause n endpoint) s = print_answer (\<lambda>m. [m]) (client_pause_pool env (client_base endpoint) n s)"
| "run_pools env (PoolResume n endpoint) s = print_answer (\<lambda>m. [m]) (client_resume_pool env (client_base endpoint) n s)"

section \<open>The stream of log events\<close>

text \<open>The answer to the request for a stream; its bytes come in pieces.\<close>

definition stream_logs ::
    "api_env \<Rightarrow> string \<Rightarrow> string option \<Rightarrow> server_state \<Rightarrow> (client_error, api_body) result \<times> server_state" where
  "stream_logs env base vm s =
     (case on_the_wire base (get_url (logs_url base vm)) of
        None \<Rightarrow> (Inl NotConnected, s)
      | Some r \<Rightarrow> (let (a, s') = api_serve env r s in
          (if 200 \<le> fst a \<and> fst a < 300 then Inr (snd a) else Inl (Refused (fst a)), s')))"

definition string_at :: "json \<Rightarrow> string \<Rightarrow> string \<Rightarrow> string" where
  "string_at e k d = (case obind (json_get e k) as_str of Some x \<Rightarrow> x | None \<Rightarrow> d)"

definition log_text :: "json \<Rightarrow> string" where
  "log_text e = ''['' @ string_at e ''timestamp'' '''' @ ''] '' @ string_at e ''vm_id'' ''?'' @ '' ['' @
     string_at e ''event_type'' ''?'' @ ''] '' @ string_at e ''message'' ''''"

text \<open>\<open>parse\<close> reads JSON text.\<close>

definition log_line :: "(string \<Rightarrow> json option) \<Rightarrow> string \<Rightarrow> string option" where
  "log_line parse l = obind (strip_prefix ''data: '' l) (\<lambda>d. map_option log_text (parse d))"

definition chunk_lines :: "(string \<Rightarrow> json option) \<Rightarrow> string \<Rightarrow> string list" where
  "chunk_lines parse c = List.map_filter (log_line parse) (str_lines (from_utf8_lossy c))"

text \<open>\<open>None\<close> is a piece that could not be read.\<close>

fun read_chunks :: "(string \<Rightarrow> json option) \<Rightarrow> string option list \<Rightarrow> shown" where
  "read_chunks parse [] = ([], Inr ())"
| "read_chunks parse (None # cs) = ([], Inl StreamBroken)"
| "read_chunks parse (Some c # cs) = (let (ls, r) = read_chunks parse cs in (chunk_lines parse c @ ls, r))"

definition logs_heading :: "string \<Rightarrow> string option \<Rightarrow> string" where
  "logs_heading endpoint vm = ''streaming logs'' @ (case vm of None \<Rightarrow> [] | Some i \<Rightarrow> '' for VM '' @ i) @ '' from '' @
     endpoint @ '' (Ctrl+C to stop)''"

definition run_logs ::
    "api_env \<Rightarrow> (string \<Rightarrow> json option) \<Rightarrow> (api_body \<Rightarrow> string option list) \<Rightarrow> string \<Rightarrow> string option
      \<Rightarrow> server_state \<Rightarrow> shown \<times> server_state" where
  "run_logs env parse wire endpoint vm s =
     (case stream_logs env (client_base endpoint) vm s of
        (Inl e, s') \<Rightarrow> (([logs_heading endpoint vm], Inl (ClientFailed e)), s')
      | (Inr b, s') \<Rightarrow> (let (ls, r) = read_chunks parse (wire b) in ((logs_heading endpoint vm # ls, r), s')))"

section \<open>Cutting a stream at the ends of its lines\<close>

lemma split_on_cut: "split_on c (a @ c # b) = split_on c a @ split_on c b"
  by (induction a) (auto split: list.splits)

lemma str_lines_cut: "str_lines (a @ CHR 0x0A # b) = str_lines (a @ [CHR 0x0A]) @ str_lines b"
proof -
  have "split_on (CHR 0x0A) (a @ [CHR 0x0A]) = split_on (CHR 0x0A) a @ [[]]" using split_on_cut [of "CHR 0x0A" a "[]"] by simp
  then show ?thesis by (simp add: str_lines_def Let_def split_on_cut butlast_append)
qed

definition ends_line :: "string \<Rightarrow> bool" where
  "ends_line c \<longleftrightarrow> c = [] \<or> last c = CHR 0x0A"

lemma ends_line_cases: "ends_line c \<Longrightarrow> c = [] \<or> (\<exists>a. c = a @ [CHR 0x0A])"
  by (metis append_butlast_last_id ends_line_def)

lemma map_filter_append: "List.map_filter f (xs @ ys) = List.map_filter f xs @ List.map_filter f ys"
  by (simp add: List.map_filter_def)

lemma chunk_lines_Nil [simp]: "chunk_lines parse [] = []"
  by (simp add: chunk_lines_def str_lines_def List.map_filter_def)

lemma chunk_lines_cut: "ends_line c \<Longrightarrow> chunk_lines parse (c @ d) = chunk_lines parse c @ chunk_lines parse d"
proof (drule ends_line_cases, elim disjE exE)
  fix a
  assume c: "c = a @ [CHR 0x0A]"
  obtain l where l: "from_utf8_lossy (a @ [CHR 0x0A]) = l @ [CHR 0x0A]" using from_utf8_lossy_newline by blast
  have "from_utf8_lossy (c @ d) = l @ CHR 0x0A # from_utf8_lossy d" using from_utf8_lossy_cut [of a d] l c by simp
  then show ?thesis by (simp add: chunk_lines_def str_lines_cut [of l "from_utf8_lossy d"] map_filter_append l c)
qed simp

text \<open>Pieces that end with lines print what the whole stream in one piece would.\<close>

lemma read_chunks_whole:
  "list_all ends_line cs \<Longrightarrow> read_chunks parse (map Some cs) = (chunk_lines parse (concat cs), Inr ())"
  by (induction cs) (simp_all add: chunk_lines_cut)

lemma chunk_lines_concat: "list_all ends_line cs \<Longrightarrow> chunk_lines parse (concat cs) = concat (map (chunk_lines parse) cs)"
  by (induction cs) (simp_all add: chunk_lines_cut)

text \<open>A line that comes in two pieces is read as two lines, and its event is not printed.\<close>

theorem split_line_is_lost:
  assumes "from_utf8 (''data: '' @ a) = Some (''data: '' @ a)" and "from_utf8 (b @ [CHR 0x0A]) = Some (b @ [CHR 0x0A])"
    and "plain_line a" "plain_line b" and "parse a = None" and "strip_prefix ''data: '' b = None"
  shows "read_chunks parse [Some (''data: '' @ a), Some (b @ [CHR 0x0A])] = ([], Inr ())"
proof -
  have l: "str_lines (unlines [b]) = [b]" using assms(4) by (intro str_lines_unlines) simp
  have "CHR 0x0A \<notin> set (''data: '' @ a)" using assms(3) by (simp add: plain_line_def)
  then have "str_lines (''data: '' @ a) = [''data: '' @ a]" by (simp add: str_lines_def split_on_no_sep)
  then show ?thesis
    using l assms(5,6) from_utf8_lossy_valid [OF assms(1)] from_utf8_lossy_valid [OF assms(2)]
    by (simp add: chunk_lines_def List.map_filter_def log_line_def)
qed

section \<open>What the commands show\<close>

text \<open>The number an operator's command carries.\<close>

fun action_of :: "string \<Rightarrow> string \<Rightarrow> pool_command \<Rightarrow> pool_action" where
  "action_of endpoint n (Scale mn mx) = PoolScale n mn mx endpoint"
| "action_of endpoint n Pause = PoolPause n endpoint"
| "action_of endpoint n Resume = PoolResume n endpoint"

lemma run_pools_action:
  "cmd \<noteq> Scale None None \<Longrightarrow>
     run_pools env (action_of endpoint n cmd) s = print_answer (\<lambda>m. [m]) (client_command env (client_base endpoint) n cmd s)"
  by (cases cmd) auto

lemma sort_key_empty: "sort_key f xs = [] \<longleftrightarrow> xs = []"
  by (metis length_0_conv length_sort)

lemma client_lists_pools:
  assumes "sv_key s = None" and "\<forall>(_, pc, p) \<in> set (sv_pools s). status_fits (pool_status_of pc p)"
  shows "client_list_pools env base s =
    (Inr (sort_key st_name (map (\<lambda>(_, pc, p). pool_status_of pc p) (sv_pools s))), s)"
proof -
  let ?l = "sort_key st_name (map (\<lambda>(_, pc, p). pool_status_of pc p) (sv_pools s))"
  have "on_the_wire base (get_url (base @ ''/api/v1/pools'')) = Some \<lparr>aq_method = GET,
      aq_path = [''api'', ''v1'', ''pools''], aq_type = None, aq_headers = (\<lambda>_. None), aq_body = None\<rparr>"
    using wire_path [of "get_url (base @ ''/api/v1/pools'')" base "''api/v1/pools''"] by (simp add: get_url_def)
  moreover have "status_fits x" if "x \<in> set ?l" for x using assms(2) that by auto
  then have "all_some de_pool_status (map pool_status_json ?l) = Some ?l"
    using all_some_map [of ?l de_pool_status pool_status_json id] by (simp add: de_pool_status_json)
  ultimately show ?thesis
    using assms(1)
    by (simp add: client_list_pools_def client_send_def api_serve_def api_handle_def list_pools_handler_def with_auth_def
        check_auth_def read_answer_def de_list_def)
qed

lemma stream_logs_open:
  assumes "sv_key s = None" and "\<And>i. vm = Some i \<Longrightarrow> plain_name i"
  shows "stream_logs env base vm s = (Inr (Stream vm None), s)"
proof -
  let ?p = "case vm of None \<Rightarrow> ''api/v1/logs'' | Some i \<Rightarrow> ''api/v1/vms/'' @ i @ ''/logs''"
  have "split_on (CHR ''/'') ?p = (case vm of None \<Rightarrow> [''api'', ''v1'', ''logs''] | Some i \<Rightarrow> [''api'', ''v1'', ''vms'', i, ''logs''])"
    using assms(2) plain_no_slash by (cases vm) (simp_all add: split_on_append split_on_no_sep)
  then have "on_the_wire base (get_url (logs_url base vm)) = Some \<lparr>aq_method = GET,
      aq_path = (case vm of None \<Rightarrow> [''api'', ''v1'', ''logs''] | Some i \<Rightarrow> [''api'', ''v1'', ''vms'', i, ''logs'']), aq_type = None,
      aq_headers = (\<lambda>_. None), aq_body = None\<rparr>"
    using wire_path [of "get_url (logs_url base vm)" base ?p] by (cases vm) (simp_all add: get_url_def logs_url_def)
  moreover have "route GET (case vm of None \<Rightarrow> [''api'', ''v1'', ''logs''] | Some i \<Rightarrow> [''api'', ''v1'', ''vms'', i, ''logs'']) =
      Some (case vm of None \<Rightarrow> Logs | Some i \<Rightarrow> VmLogs i)"
    using assms(2) plain_not_Nil by (cases vm) (simp_all add: route_def)
  ultimately show ?thesis
    using assms(1)
    by (cases vm) (simp_all add: stream_logs_def api_serve_def api_handle_def logs_sse_handler_def with_auth_def check_auth_def
        parse_type_filter_def)
qed

definition event_line :: "vm_log_event \<Rightarrow> string" where
  "event_line e = ''['' @ le_timestamp e @ ''] '' @ le_vm e @ '' ['' @ le_type e @ ''] '' @ le_message e"

lemma log_text_event: "log_text (event_json e) = event_line e"
  by (simp add: log_text_def string_at_def event_json_def event_line_def)

text \<open>One event on the wire: its name, its data, an empty line.\<close>

lemma chunk_lines_event:
  assumes "f = unlines [''event: '' @ le_type e, ''data: '' @ t, []]" and "from_utf8 f = Some f"
    and "plain_line (le_type e)" "plain_line t" and "parse t = Some (event_json e)"
  shows "chunk_lines parse f = [event_line e] \<and> ends_line f"
proof -
  have "str_lines f = [''event: '' @ le_type e, ''data: '' @ t, []]"
    unfolding assms(1) using assms(3,4) by (intro str_lines_unlines) (auto simp: plain_line_def)
  then show ?thesis
    using from_utf8_lossy_valid [OF assms(2)] assms(1,5)
    by (simp add: chunk_lines_def List.map_filter_def log_line_def log_text_event ends_line_def)
qed

text \<open>C39: The log command shows what the server broadcasts: on a server without a key, when every piece of the
  stream holds whole events, however many, in the format of server-sent events, and JSON text is
  read as it was written, it prints its heading and then, once each and in their order, the events of the VM
  asked for (of all VMs when none is named) with time, VM, type and message.\<close>

theorem log_stream_shows_events:
  assumes "sv_key s = None" and "\<And>i. vm = Some i \<Longrightarrow> plain_name i"
    and wire: "wire (Stream vm None) = map (\<lambda>g. Some (concat (map frame g))) gs" "concat gs = stream_events vm None es"
    and frame: "\<And>ty j. frame (ty, j) = unlines [''event: '' @ ty, ''data: '' @ enc j, []]"
    and events: "\<And>e. e \<in> set es \<Longrightarrow> plain_line (le_type e) \<and> plain_line (enc (event_json e)) \<and>
      parse (enc (event_json e)) = Some (event_json e) \<and> from_utf8 (frame (le_type e, event_json e)) \<noteq> None"
  shows "run_logs env parse wire endpoint vm s =
    ((logs_heading endpoint vm # map event_line (filter (\<lambda>e. vm = None \<or> vm = Some (le_vm e)) es), Inr ()), s)"
proof -
  let ?es = "filter (\<lambda>e. vm = None \<or> vm = Some (le_vm e)) es"
  have sent: "concat gs = map (\<lambda>e. (le_type e, event_json e)) ?es"
    unfolding wire(2) stream_events_eq by (simp add: matches_type_filter_def)
  have one: "chunk_lines parse (frame (le_type e, event_json e)) = [event_line e] \<and> ends_line (frame (le_type e, event_json e))"
    if "e \<in> set es" for e
  proof (rule chunk_lines_event)
    show "from_utf8 (frame (le_type e, event_json e)) = Some (frame (le_type e, event_json e))"
      using events [OF that] from_utf8_lossy_valid by auto
  qed (use events [OF that] frame in auto)
  have ends: "list_all ends_line (map frame (concat gs))" using one by (auto simp: list_all_iff sent)
  have piece: "chunk_lines parse (concat (map frame g)) = concat (map (chunk_lines parse) (map frame g)) \<and>
      ends_line (concat (map frame g))" if "g \<in> set gs" for g
  proof -
    have g: "list_all ends_line (map frame g)" using ends that by (auto simp: list_all_iff)
    have "ends_line (concat fs)" if "list_all ends_line fs" for fs
      using that by (induction fs) (auto simp: ends_line_def last_append)
    then show ?thesis using g chunk_lines_concat [OF g] by blast
  qed
  let ?cs = "map (\<lambda>g. concat (map frame g)) gs"
  have cs: "list_all ends_line ?cs" using piece by (simp add: list_all_iff)
  have "chunk_lines parse (concat ?cs) = concat (map (\<lambda>g. concat (map (chunk_lines parse) (map frame g))) gs)"
    unfolding chunk_lines_concat [OF cs] using piece by (simp add: comp_def cong: map_cong)
  also have "\<dots> = concat (map (\<lambda>x. chunk_lines parse (frame x)) (concat gs))"
    by (induction gs) (simp_all add: comp_def)
  also have "\<dots> = map event_line ?es"
    unfolding sent map_map using one by (induction es) auto
  finally have "read_chunks parse (wire (Stream vm None)) = (map event_line ?es, Inr ())"
    using read_chunks_whole [OF cs, of parse] wire(1) by (simp add: comp_def)
  then show ?thesis
    using stream_logs_open [OF assms(1,2)] by (simp add: run_logs_def)
qed

text \<open>C40: The pool commands of the command line: on a server without a key, scaling, pausing or resuming a pool
  prints one line, does to exactly that pool what the pool's own operation does, and the listing
  printed next shows every pool as it then is, sorted by name. Scaling without a bound is refused before
  anything is sent.\<close>

theorem pool_command_line:
  assumes "sv_key s = None" and "plain_name n" and "map_of (sv_pools s) n = Some (pc, p)"
    and "command_fits cmd" and "cmd \<noteq> Scale None None"
    and fits: "\<forall>(m, qc, q) \<in> set (sv_pools s). status_fits (pool_status_of qc (if m = n then pool_command_effect cmd q else q))"
  shows "run_pools env (PoolScale n None None endpoint) s = (([], Inl NoBound), s) \<and>
    (\<exists>msg t. run_pools env (action_of endpoint n cmd) s = (([msg], Inr ()), t) \<and>
      map_of (sv_pools t) n = Some (pc, pool_command_effect cmd p) \<and>
      (\<forall>m. m \<noteq> n \<longrightarrow> map_of (sv_pools t) m = map_of (sv_pools s) m) \<and>
      run_pools env (PoolList endpoint') t =
        ((pool_header # map pool_row (sort_key st_name (map (\<lambda>(_, qc, q). pool_status_of qc q) (sv_pools t))), Inr ()), t))"
proof -
  let ?t = "update_pool n (pool_command_effect cmd) s"
  obtain msg where "client_command env (client_base endpoint) n cmd s = (Inr msg, ?t)"
    using client_command_eq [OF assms(2,4), of env "client_base endpoint" s] assms(1,3) by (auto simp: check_auth_def)
  then have "run_pools env (action_of endpoint n cmd) s = (([msg], Inr ()), ?t)"
    by (simp add: run_pools_action [OF assms(5)] print_answer_def)
  moreover have "map_of (sv_pools ?t) n = Some (pc, pool_command_effect cmd p)"
    using assms(3) by (simp add: map_of_update_pool)
  moreover have "map_of (sv_pools ?t) m = map_of (sv_pools s) m" if "m \<noteq> n" for m
    using that by (simp add: map_of_update_pool option.map_ident case_prod_unfold)
  moreover have "run_pools env (PoolList endpoint') ?t =
      ((pool_header # map pool_row (sort_key st_name (map (\<lambda>(_, qc, q). pool_status_of qc q) (sv_pools ?t))), Inr ()), ?t)"
  proof -
    have key: "sv_key ?t = None" using assms(1) by (simp add: update_pool_def)
    have "\<forall>(_, qc, q) \<in> set (sv_pools ?t). status_fits (pool_status_of qc q)" using fits by (auto simp: update_pool_def)
    moreover have "sv_pools ?t \<noteq> []" using assms(3) by (auto simp: update_pool_def)
    ultimately show ?thesis
      using client_lists_pools [OF key, of env "client_base endpoint'"] by (simp add: print_answer_def sort_key_empty)
  qed
  ultimately show ?thesis by auto
qed

theorem pool_command_line_witness:
  "\<exists>msg t. run_pools demo_api (PoolScale ''ci'' (Some 5) (Some 2) ''http://h/'') (demo_server None) = (([msg], Inr ()), t) \<and>
     map_option (\<lambda>(_, p). (ps_min p, ps_max p)) (map_of (sv_pools t) ''ci'') = Some (5, 2) \<and>
     length (fst (fst (run_pools demo_api (PoolList ''http://h'') t))) = 2"
proof -
  have a: "sv_key (demo_server None) = None" "plain_name ''ci''" "command_fits (Scale (Some 5) (Some 2))"
    by (simp_all add: demo_server_def set_pools_def set_mode_def server_new_def plain_name_def url_chars_def)
  have "status_fits (pool_status_of (fst (snd (hd (sv_pools (demo_server None))))) (pool_scale (Some 5) (Some 2) (snd (snd (hd (sv_pools (demo_server None)))))))"
    by (simp add: demo_server_def set_pools_def set_mode_def server_new_def status_fits_def pool_status_of_def pool_scale_def pool_new_def)
  moreover have "sv_pools (demo_server None) = [(''ci'', snd (hd (sv_pools (demo_server None))))]"
    by (simp add: demo_server_def set_pools_def)
  ultimately obtain pc p where ps: "sv_pools (demo_server None) = [(''ci'', pc, p)]"
    and fit: "status_fits (pool_status_of pc (pool_scale (Some 5) (Some 2) p))" by (metis fst_conv list.sel(1) prod.collapse snd_conv)
  then have p: "map_of (sv_pools (demo_server None)) ''ci'' = Some (pc, p)" by simp
  have f: "\<forall>(m, qc, q) \<in> set (sv_pools (demo_server None)).
      status_fits (pool_status_of qc (if m = ''ci'' then pool_command_effect (Scale (Some 5) (Some 2)) q else q))"
    using fit unfolding ps by simp
  have "Scale (Some 5) (Some 2) \<noteq> Scale None None" by simp
  from pool_command_line [OF a(1,2) p a(3) this f, of demo_api "''http://h/''" "''http://h''"]
  obtain msg t where t: "run_pools demo_api (action_of ''http://h/'' ''ci'' (Scale (Some 5) (Some 2))) (demo_server None) = (([msg], Inr ()), t)"
    "map_of (sv_pools t) ''ci'' = Some (pc, pool_command_effect (Scale (Some 5) (Some 2)) p)"
    "run_pools demo_api (PoolList ''http://h'') t =
       ((pool_header # map pool_row (sort_key st_name (map (\<lambda>(_, qc, q). pool_status_of qc q) (sv_pools t))), Inr ()), t)"
    by blast
  have "length (sv_pools t) = 1"
    using client_command_eq [OF a(2,3), of demo_api "client_base ''http://h/''" "demo_server None"] ps t(1) a(1)
      run_pools_action [of "Scale (Some 5) (Some 2)" demo_api "''http://h/''" "''ci''" "demo_server None"]
    by (auto simp: check_auth_def print_answer_def update_pool_def)
  then show ?thesis using t by (intro exI [of _ msg] exI [of _ t]) (simp add: pool_scale_def)
qed

text \<open>The listing of the VMs.\<close>

lemma run_ps_shows:
  assumes "sv_key s = None" and "\<And>v. v \<in> set (sv_vms s) \<Longrightarrow> vi_job v \<le> u64_max \<and> vi_slot v \<le> u64_max"
  shows "run_ps env endpoint s =
    ((if sv_vms s = [] then [''no running VMs''] else vm_header # map vm_row (sv_vms s), Inr ()), s)"
  by (simp add: run_ps_def client_lists_vms [OF assms] print_answer_def)

text \<open>The declared defaults.\<close>

lemma command_defaults:
  "command_of [''server''] Map.empty = Some (CmdServer ''/etc/fc-runner/config.toml'')"
  "command_of [''agent''] Map.empty = Some (CmdAgent ''info'')"
  "command_of [''validate''] Map.empty = Some (CmdValidate ''/etc/fc-runner/config.toml'')"
  "command_of [''ps''] Map.empty = Some (CmdPs ''http://localhost:9090'')"
  "command_of [''logs''] Map.empty = Some (CmdLogs ''http://localhost:9090'' None)"
  "command_of [''pools'', ''list''] Map.empty = Some (CmdPools (PoolList ''http://localhost:9090''))"
  "command_of [''pools'', ''scale''] Map.empty = None" "command_of [''pools'', ''pause''] Map.empty = None"
  by (simp_all add: command_of_def arg_value_def arg_specs_def config_arg_def log_level_arg_def endpoint_arg_def long_arg_def
      name_arg_def)

definition demo_event :: vm_log_event where
  "demo_event = \<lparr>le_vm = ''fc-1'', le_type = ''ready'', le_message = ''up'', le_timestamp = ''12:00''\<rparr>"

theorem log_stream_shows_events_witness:
  "fst (fst (run_logs demo_api (\<lambda>_. Some (event_json demo_event))
     (\<lambda>_. [Some (unlines [''event: ready'', ''data: {}'', []])]) ''http://h'' None (demo_server None))) =
   [logs_heading ''http://h'' None, ''[12:00] fc-1 [ready] up'']"
proof -
  let ?f = "\<lambda>(ty, j :: json). unlines [''event: '' @ ty, ''data: '' @ ''{}'', []]"
  have key: "sv_key (demo_server None) = None" by (simp add: demo_server_def set_pools_def set_mode_def server_new_def)
  have es: "concat [[(''ready'', event_json demo_event)]] = stream_events None None [demo_event]"
    by (simp add: stream_events_eq matches_type_filter_def) (simp add: demo_event_def)
  have "list_all (\<lambda>c. (of_char c :: nat) < 0x80) (?f (''ready'', event_json demo_event))" by (simp add: unlines_def)
  then have "from_utf8 (?f (le_type demo_event, event_json demo_event)) \<noteq> None"
    using from_utf8_ascii by (fastforce simp: demo_event_def)
  then have e: "\<And>e. e \<in> set [demo_event] \<Longrightarrow> plain_line (le_type e) \<and> plain_line ''{}'' \<and>
      Some (event_json demo_event) = Some (event_json e) \<and> from_utf8 (?f (le_type e, event_json e)) \<noteq> None"
    by (simp add: plain_line_def) (simp add: demo_event_def)
  from log_stream_shows_events [where s = "demo_server None" and vm = None and es = "[demo_event]" and wire = "\<lambda>_. [Some (unlines [''event: ready'', ''data: {}'', []])]"
      and parse = "\<lambda>_. Some (event_json demo_event)" and env = demo_api and endpoint = "''http://h''" and frame = ?f and enc = "\<lambda>_. ''{}''", OF key _ _ es _ e]
  show ?thesis by (simp add: event_line_def demo_event_def)
qed

end
