(* ===== verification/Program.thy ===== *)
theory Program
  imports Setup Vm_Runs Orchestrator Cache_Start Telemetry Cli
begin

text \<open>
  The program as a whole (\<open>src/src/main.rs\<close>): its version, from the build script and the environment
  (\<open>src/build.rs\<close>, \<open>src/src/version.rs\<close>), the check of a configuration, and the start of the daemon, which
  joins the configuration, the host's assets, the cache service, the management server and the
  client of GitHub.
\<close>

section \<open>The version\<close>

text \<open>A run of git by the build script: \<open>None\<close> when it could not be started, else whether it succeeded and
  what it printed.\<close>

type_synonym git = "string list \<Rightarrow> (bool \<times> string) option"

record build_vars =
  bv_sha :: string
  bv_branch :: string
  bv_tag :: string
  bv_dirty :: string

definition git_text :: "(bool \<times> string) option \<Rightarrow> string" where
  "git_text r = (case obind r (\<lambda>(_, out). from_utf8 out) of None \<Rightarrow> [] | Some t \<Rightarrow> trim t)"

definition build_script :: "git \<Rightarrow> build_vars" where
  "build_script git =
     \<lparr>bv_sha = git_text (git [''rev-parse'', ''--short=7'', ''HEAD'']),
      bv_branch = git_text (git [''rev-parse'', ''--abbrev-ref'', ''HEAD'']),
      bv_tag = git_text (obind (git [''describe'', ''--tags'', ''--exact-match'', ''HEAD'']) (\<lambda>r. if fst r then Some r else None)),
      bv_dirty = (case git [''status'', ''--porcelain''] of
        None \<Rightarrow> [] | Some (_, out) \<Rightarrow> if out \<noteq> [] then ''-dirty'' else [])\<rparr>"

text \<open>\<open>override\<close> is the variable \<open>FC_RUNNER_VERSION\<close>, \<open>cargo\<close> the package's version.\<close>

definition built_version :: "build_vars \<Rightarrow> string \<Rightarrow> string" where
  "built_version b cargo =
     (if bv_tag b \<noteq> [] then bv_tag b @ bv_dirty b
      else if bv_sha b \<noteq> [] then bv_branch b @ ''/'' @ bv_sha b @ bv_dirty b else cargo)"

definition program_version :: "string option \<Rightarrow> build_vars \<Rightarrow> string \<Rightarrow> string" where
  "program_version override b cargo =
     (case override of None \<Rightarrow> built_version b cargo | Some v \<Rightarrow> if v = [] then built_version b cargo else v)"

section \<open>Checking a configuration\<close>

definition pool_line :: "pool_config \<Rightarrow> string" where
  "pool_line p = ''    - '' @ pool_name p @ '' (repos: '' @ debug_list (pool_repos p) @ '', min_ready: '' @
     show_nat (min_ready p) @ '', max_ready: '' @ show_nat (max_ready p) @ '')''"

text \<open>The lines printed and the exit code; the error's text goes to the other stream.\<close>

definition run_validate :: "(string \<Rightarrow> app_config option) \<Rightarrow> host_fs \<Rightarrow> string \<Rightarrow> fs_effect list \<times> string list \<times> nat" where
  "run_validate toml fs path =
     (case load_config toml fs path of
        (eff, Inl e) \<Rightarrow> (eff, [], 1)
      | (eff, Inr c) \<Rightarrow> (eff,
          [''configuration is valid'', ''  owner: '' @ gh_owner (github c), ''  repos: '' @ debug_list (all_repos (github c)),
           ''  max_concurrent_jobs: '' @ show_nat (max_concurrent_jobs (runner c)),
           ''  vcpu: '' @ show_nat (unat (vcpu_count (firecracker c))) @ '', mem: '' @
             show_nat (unat (mem_size_mib (firecracker c))) @ '' MiB''] @
          (if pools c = [] then [] else ''  pools:'' # map pool_line (pools c)), 0))"

section \<open>Socket addresses\<close>

definition split_last :: "char \<Rightarrow> string \<Rightarrow> (string \<times> string) option" where
  "split_last c s = map_option (\<lambda>(a, b). (rev b, rev a)) (split_once c (rev s))"

definition parse_port :: "string \<Rightarrow> nat option" where
  "parse_port p =
     (if p = [] then None else obind (digits_val 0 p) (\<lambda>n. if n \<le> u16_max then Some n else None))"

text \<open>\<open>s.parse::<SocketAddr>()\<close>: an address and a port. \<open>v6\<close> says which texts are an address of version 6 in
  its brackets.\<close>

definition parse_socket_addr :: "(string \<Rightarrow> bool) \<Rightarrow> string \<Rightarrow> (string \<times> nat) option" where
  "parse_socket_addr v6 s =
     obind (split_last (CHR '':'') s) (\<lambda>(h, p).
     obind (parse_port p) (\<lambda>n. if parse_ipv4 h \<noteq> None \<or> v6 h then Some (h, n) else None))"

section \<open>The start of the daemon\<close>

text \<open>What the start finds outside: files and their parsing, the host, the object store, GitHub's world.\<close>

record ('s, 'w) start_env =
  pe_toml :: "string \<Rightarrow> app_config option"
  pe_files :: host_fs
  pe_assets :: assets_env
  pe_cache :: "'s cache_host"
  pe_v6 :: "string \<Rightarrow> bool"
  pe_key :: "string \<Rightarrow> string option"
  pe_world :: 'w
  pe_uuid :: string
  pe_now :: nat
  pe_version :: string

record 's machine =
  mc_effects :: "fs_effect list"
  mc_host :: bhost
  mc_net :: fw_host
  mc_store :: 's

record ('s, 'w) daemon =
  dm_config :: app_config
  dm_cache :: "'s cache_state option"
  dm_server :: server_state
  dm_listen :: "(string \<times> nat) option"
  dm_gauges :: gauges
  dm_github :: "gh_client \<times> 'w gh_state"
  dm_mode :: sched_mode

datatype start_error =
    LoadFailed config_error
  | AssetsFailed asset_error
  | CacheFailed cache_start_error
  | BadListenAddr string
  | GithubFailed gh_error

type_synonym ('s, 'a) start_op = "('s machine, start_error, 'a) op"

definition do_load :: "('s, 'w) start_env \<Rightarrow> string \<Rightarrow> ('s, app_config) start_op" where
  "do_load env path m =
     (case load_config (pe_toml env) (pe_files env) path of
        (eff, r) \<Rightarrow> (map_sum LoadFailed id r, m\<lparr>mc_effects := mc_effects m @ eff\<rparr>))"

definition do_assets :: "('s, 'w) start_env \<Rightarrow> app_config \<Rightarrow> ('s, app_config) start_op" where
  "do_assets env c m =
     (case ensure_vm_assets (pe_assets env) \<lparr>as_host = mc_host m, as_net = mc_net m, as_config = c\<rparr> of
        (r, a) \<Rightarrow> (map_sum AssetsFailed (\<lambda>_. as_config a) r, m\<lparr>mc_host := as_host a, mc_net := as_net a\<rparr>))"

text \<open>A token is made up when the cache service has none, before anybody reads the configuration.\<close>

definition resolve_cache_token :: "string \<Rightarrow> app_config \<Rightarrow> app_config" where
  "resolve_cache_token uuid c =
     (if cs_enabled (cache_service c) \<and> cs_token (cache_service c) = None
      then c\<lparr>cache_service := (cache_service c)\<lparr>cs_token := Some uuid\<rparr>\<rparr> else c)"

definition do_cache :: "('s, 'w) start_env \<Rightarrow> app_config \<Rightarrow> ('s, 's cache_state option) start_op" where
  "do_cache env c m =
     (if cs_enabled (cache_service c)
      then (case cache_open (pe_cache env) (cache_service c)
                   (case cs_token (cache_service c) of Some t \<Rightarrow> t | None \<Rightarrow> []) (mc_store m) of
              (r, st) \<Rightarrow> (map_sum CacheFailed Some r, m\<lparr>mc_store := st\<rparr>))
      else (Inr None, m))"

definition listen_on :: "('s, 'w) start_env \<Rightarrow> server_config \<Rightarrow> (start_error, (string \<times> nat) option) result" where
  "listen_on env sv =
     (if sv_enabled sv
      then map_sum id Some (ok_or (parse_socket_addr (pe_v6 env) (listen_addr sv)) (BadListenAddr (listen_addr sv)))
      else Inr None)"

definition run_server :: "('s, 'w) start_env \<Rightarrow> string \<Rightarrow> ('s, ('s, 'w) daemon) start_op" where
  "run_server env path =
     op_bind (do_load env path) (\<lambda>c0.
     op_bind (do_assets env c0) (\<lambda>c1.
     let c = resolve_cache_token (pe_uuid env) c1 in
     op_bind (do_cache env c) (\<lambda>cache.
     op_bind (op_lift (listen_on env (server c))) (\<lambda>addr.
     op_bind (op_lift (map_sum GithubFailed id (client_new (pe_key env) (pe_world env) (github c)))) (\<lambda>gh.
     op_ret \<lparr>dm_config = c, dm_cache = cache, dm_server = server_new (pe_now env) (pe_version env) (server c),
       dm_listen = addr, dm_gauges = gauges_at_start (max_concurrent_jobs (runner c)), dm_github = gh,
       dm_mode = select_mode c\<rparr>)))))"

text \<open>The cache service answers on the server's address, when there are both and the address can be bound; a
  binding that fails is only logged.\<close>

definition cache_served :: "('s, 'w) daemon \<Rightarrow> (nat \<times> 's cache_state) option" where
  "cache_served d = (case (dm_listen d, dm_cache d) of (Some (h, p), Some c) \<Rightarrow> Some (p, c) | _ \<Rightarrow> None)"

section \<open>The port VMs are told is the port served\<close>

lemma digits_val_no_sign: "digits_val n p \<noteq> None \<Longrightarrow> CHR '':'' \<notin> set p \<and> (p \<noteq> [] \<longrightarrow> hd p \<noteq> CHR ''+'')"
proof -
  assume p: "digits_val n p \<noteq> None"
  have "\<forall>c \<in> set p. digit_val c \<noteq> None"
    using p by (induction n p rule: digits_val.induct) (auto split: option.splits)
  then show ?thesis by (cases p) (auto simp: digit_val_def)
qed

lemma parse_socket_addr_port:
  assumes "parse_socket_addr v6 s = Some (h, n)"
  shows "parse_unsigned 65535 (after_last (CHR '':'') s) = Some n"
proof -
  obtain a b where ab: "split_once (CHR '':'') (rev s) = Some (a, b)" "parse_port (rev a) = Some n"
    using assms by (auto simp: parse_socket_addr_def split_last_def split: if_splits)
  have s: "s = rev b @ CHR '':'' # rev a" using split_once_SomeD [OF ab(1)] by (metis append.assoc append_Cons append_Nil rev.simps(2) rev_append rev_rev_ident)
  have p: "digits_val 0 (rev a) = Some n" "n \<le> u16_max" "rev a \<noteq> []"
    using ab(2) by (auto simp: parse_port_def split: if_splits)
  then have "CHR '':'' \<notin> set (rev a)" "hd (rev a) \<noteq> CHR ''+''" using digits_val_no_sign [of 0 "rev a"] by auto
  then show ?thesis using p by (cases "rev a") (auto simp: s after_last_app parse_unsigned_def)
qed

section \<open>What a started daemon is\<close>

lemma map_sum_Inr: "map_sum f g r = Inr x \<longleftrightarrow> (\<exists>y. r = Inr y \<and> x = g y)"
  by (cases r) auto

lemma do_assets_Inr:
  "do_assets env c m = (Inr x, t) \<Longrightarrow> \<exists>a. ensure_vm_assets (pe_assets env)
     \<lparr>as_host = mc_host m, as_net = mc_net m, as_config = c\<rparr> = (Inr (), a) \<and> x = as_config a"
  by (cases "ensure_vm_assets (pe_assets env) \<lparr>as_host = mc_host m, as_net = mc_net m, as_config = c\<rparr>")
    (auto simp: do_assets_def map_sum_Inr)

lemma assets_config: "ensure_vm_assets ae s = (Inr (), a) \<Longrightarrow> as_config a = resolve_config ae (as_config s)"
  by (auto simp: ensure_vm_assets_def Let_def both_Inr on_host_Inr on_net_Inr op_modify_def)

lemma run_server_Inr:
  assumes "run_server env path m = (Inr d, m')"
  obtains c0 c cache where "snd (load_config (pe_toml env) (pe_files env) path) = Inr c0"
    "c = resolve_cache_token (pe_uuid env) (resolve_config (pe_assets env) c0)" "dm_config d = c" "dm_cache d = cache"
    "\<exists>u v. do_cache env c u = (Inr cache, v)" "listen_on env (server c) = Inr (dm_listen d)"
proof -
  obtain c0 t0 where 0: "do_load env path m = (Inr c0, t0)"
    and r0: "(op_bind (do_assets env c0) (\<lambda>c1.
     let c = resolve_cache_token (pe_uuid env) c1 in
     op_bind (do_cache env c) (\<lambda>cache.
     op_bind (op_lift (listen_on env (server c))) (\<lambda>addr.
     op_bind (op_lift (map_sum GithubFailed id (client_new (pe_key env) (pe_world env) (github c)))) (\<lambda>gh.
     op_ret \<lparr>dm_config = c, dm_cache = cache, dm_server = server_new (pe_now env) (pe_version env) (server c),
       dm_listen = addr, dm_gauges = gauges_at_start (max_concurrent_jobs (runner c)), dm_github = gh,
       dm_mode = select_mode c\<rparr>))))) t0 = (Inr d, m')"
    using assms by (auto simp: run_server_def op_bind_apply split: prod.splits sum.splits)
  obtain c1 t1 where 1: "do_assets env c0 t0 = (Inr c1, t1)"
    using r0 by (auto simp: op_bind_apply split: prod.splits sum.splits)
  have c1: "c1 = resolve_config (pe_assets env) c0" using do_assets_Inr [OF 1] assets_config by fastforce
  define c where "c = resolve_cache_token (pe_uuid env) c1"
  obtain cache t2 addr where 2: "do_cache env c t1 = (Inr cache, t2)" "listen_on env (server c) = Inr addr"
    "dm_config d = c" "dm_cache d = cache" "dm_listen d = addr"
    using r0 1 by (auto simp: op_bind_apply op_simps Let_def c_def [symmetric] split: prod.splits sum.splits)
  have "snd (load_config (pe_toml env) (pe_files env) path) = Inr c0"
    using 0 by (cases "snd (load_config (pe_toml env) (pe_files env) path)") (auto simp: do_load_def split: prod.splits)
  then show thesis using that c1 c_def 2 by blast
qed

lemma cache_open_auth: "cache_open h c tk st = (Inr s, u) \<Longrightarrow> cs_auth s = tk"
  using cache_open_Inr [of h c tk st s u] cache_new_auth by metis

lemma do_cache_Inr:
  "do_cache env c u = (Inr cache, v) \<Longrightarrow> cs_enabled (cache_service c) \<Longrightarrow> cs_token (cache_service c) = Some t \<Longrightarrow>
     \<exists>s. cache = Some s \<and> cs_auth s = t"
  by (auto simp: do_cache_def map_sum_Inr cache_open_auth split: prod.splits)

lemma resolved_token:
  "d = resolve_cache_token uuid c \<Longrightarrow> cs_enabled (cache_service d) \<Longrightarrow>
     \<exists>t. cs_token (cache_service d) = Some t \<and> (cs_token (cache_service c) = None \<longrightarrow> t = uuid)"
  by (auto simp: resolve_cache_token_def)

lemma bearer_is_token: "check_bearer c h \<longleftrightarrow> h ''authorization'' = Some (''Bearer '' @ cs_auth c)"
  by (cases "h ''authorization''") (simp_all add: check_bearer_def strip_prefix_Some_iff)

lemma daemon_cache:
  assumes "run_server env path m = (Inr d, m')" and "cs_enabled (cache_service (dm_config d))"
  shows "\<exists>t c c0. snd (load_config (pe_toml env) (pe_files env) path) = Inr c0 \<and> dm_cache d = Some c \<and> cs_auth c = t \<and>
    cs_token (cache_service (dm_config d)) = Some t \<and> (cs_token (cache_service c0) = None \<longrightarrow> t = pe_uuid env) \<and>
    listen_on env (server (dm_config d)) = Inr (dm_listen d)"
proof -
  obtain c0 c cache where o: "snd (load_config (pe_toml env) (pe_files env) path) = Inr c0"
    "c = resolve_cache_token (pe_uuid env) (resolve_config (pe_assets env) c0)" "dm_config d = c" "dm_cache d = cache"
    "\<exists>u v. do_cache env c u = (Inr cache, v)" "listen_on env (server c) = Inr (dm_listen d)"
    using run_server_Inr [OF assms(1)] by blast
  have en: "cs_enabled (cache_service c)" using assms(2) o(3) by simp
  obtain t where t: "cs_token (cache_service c) = Some t"
    "cs_token (cache_service (resolve_config (pe_assets env) c0)) = None \<longrightarrow> t = pe_uuid env"
    using resolved_token [OF o(2) en] by (elim exE conjE)
  obtain s where "cache = Some s" "cs_auth s = t" using o(5) do_cache_Inr [OF _ en t(1)] by blast
  moreover have "cs_token (cache_service c0) = None \<longrightarrow> t = pe_uuid env" using t(2) by (simp add: resolve_config_def)
  ultimately show ?thesis using o(1,3,4,6) t(1) by (intro exI [of _ t] exI [of _ s] exI [of _ c0]) simp
qed

text \<open>The runner's environment from the metadata of a VM with the cache.\<close>

lemma runner_gets_token:
  "cache_access cfg = Some (t, p) \<Longrightarrow> t \<noteq> [] \<Longrightarrow> (''ACTIONS_RUNTIME_TOKEN'', t) \<in> set (runner_env (with_cache_metadata cfg vm s3 md)) \<and>
     (''ACTIONS_CACHE_URL'', cache_url vm p) \<in> set (runner_env (with_cache_metadata cfg vm s3 md))"
  by (simp add: runner_env_def with_cache_metadata_def Let_def when_set_def cache_url_def)


section \<open>A start, for the witness\<close>

definition demo_cache_host :: "unit cache_host" where
  "demo_cache_host = \<lparr>ch_mkdirs = True, ch_index = NoIndex, ch_parse = (\<lambda>_. None), ch_tmp = Map.empty,
     ch_list_buckets = (\<lambda>_ _. True), ch_head_bucket = (\<lambda>_ _ _. True), ch_create_bucket = (\<lambda>_ _ _. None)\<rparr>"

definition demo_daemon_env :: "(unit, unit) start_env" where
  "demo_daemon_env = \<lparr>pe_toml = (\<lambda>_. Some demo_start_config), pe_files = plain_host, pe_assets = demo_start_env,
     pe_cache = demo_cache_host, pe_v6 = (\<lambda>_. False), pe_key = (\<lambda>_. None), pe_world = (), pe_uuid = ''u1'', pe_now = 0,
     pe_version = ''v1''\<rparr>"

definition demo_machine :: "unit machine" where
  "demo_machine = \<lparr>mc_effects = [], mc_host = demo_start_host, mc_net = fresh_fw, mc_store = ()\<rparr>"

lemma demo_loads: "snd (load_config (pe_toml demo_daemon_env) (pe_files demo_daemon_env) path) = Inr demo_start_config"
proof -
  have "wf_config plain_host demo_start_config"
    by (simp add: demo_start_config_def wf_config_def minimal_config_def plain_host_def safe_path_def all_repos_def
      default_firecracker_config_def default_runner_config_def)
  then show ?thesis
    by (simp add: load_config_ok_iff check_mode_ok_iff demo_daemon_env_def plain_host_def)
qed

lemma demo_listens: "parse_socket_addr v6 default_listen_addr = Some (''0.0.0.0'', 9090)"
proof -
  have "parse_octet ''0'' = Some 0" by (simp add: parse_octet_def digit_val_def)
  then have "parse_ipv4 ''0.0.0.0'' = Some [0, 0, 0, 0]" by (simp add: parse_ipv4_def)
  then show ?thesis
    by (simp add: parse_socket_addr_def default_listen_addr_def split_last_def parse_port_def digit_val_def)
qed

lemma demo_daemon_starts: "\<exists>d t. run_server demo_daemon_env ''c.toml'' demo_machine = (Inr d, t) \<and>
    cs_enabled (cache_service (dm_config d)) \<and> sv_enabled (server (dm_config d))"
proof -
  obtain u where u: "do_load demo_daemon_env ''c.toml'' demo_machine = (Inr demo_start_config, u)"
    "mc_host u = demo_start_host" "mc_net u = fresh_fw"
    using demo_loads [of "''c.toml''"] by (simp add: do_load_def demo_machine_def case_prod_unfold)
  obtain a where a: "ensure_vm_assets demo_start_env demo_start = (Inr (), a)" using demo_start_succeeds by blast
  define c where "c = resolve_config demo_start_env demo_start_config"
  have "as_config a = c" using assets_config [OF a] by (simp add: demo_start_def c_def)
  then obtain v where v: "do_assets demo_daemon_env demo_start_config u = (Inr c, v)"
    using a u by (auto simp: do_assets_def demo_daemon_env_def demo_start_def)
  define e where "e = resolve_cache_token ''u1'' c"
  have e: "cs_enabled (cache_service e)" "cs_token (cache_service e) = Some ''u1''" "server e = default_server_config"
      "github e = github (minimal_config ''runner'')"
    by (simp_all add: e_def resolve_cache_token_def c_def resolve_config_def demo_start_config_def minimal_config_def default_cache_config_def)
  obtain s where s: "do_cache demo_daemon_env e v = (Inr (Some s), v)"
    using e by (simp add: do_cache_def cache_open_def Let_def op_simps demo_daemon_env_def demo_cache_host_def ensure_def read_index_def
        check_s3_connectivity_def ensure_bucket_def)
  have l: "listen_on demo_daemon_env (server e) = Inr (Some (''0.0.0.0'', 9090))"
    using demo_listens [of "pe_v6 demo_daemon_env"] by (simp add: listen_on_def e default_server_config_def)
  have g: "\<exists>g. client_new (pe_key demo_daemon_env) (pe_world demo_daemon_env) (github e) = Inr g"
    by (simp add: client_new_def auth_from_config_def e minimal_config_def)
  have "pe_uuid demo_daemon_env = ''u1''" by (simp add: demo_daemon_env_def)
  then show ?thesis
    using u(1) v s l g e by (auto simp: run_server_def op_simps Let_def e_def [symmetric] default_server_config_def)
qed


section \<open>What goes wrong at a start\<close>

text \<open>With the server disabled the cache service is made and nobody serves it; the VMs are still told its
  address and its token.\<close>

theorem cache_without_server:
  assumes "run_server env path m = (Inr d, m')" and "cs_enabled (cache_service (dm_config d))"
    and "\<not> sv_enabled (server (dm_config d))" and "listen_port (dm_config d) = Some p"
  shows "cache_served d = None \<and> (\<exists>t. cache_access (dm_config d) = Some (t, p))"
proof -
  obtain t c where "dm_cache d = Some c" "cs_token (cache_service (dm_config d)) = Some t"
    "listen_on env (server (dm_config d)) = Inr (dm_listen d)"
    using daemon_cache [OF assms(1,2)] by (elim exE conjE)
  then show ?thesis using assms(2-4) by (auto simp: cache_served_def cache_access_def listen_on_def split: option.splits)
qed

text \<open>The check of a configuration exits with 0 exactly when the daemon would load it.\<close>

lemma validate_exit: "snd (snd (run_validate toml fs path)) = 0 \<longleftrightarrow> is_ok (snd (load_config toml fs path))"
  by (simp add: run_validate_def split: prod.splits sum.splits)

text \<open>It does not look at the server's address: such a configuration is said to be valid, and the daemon stops at
  it after it has provisioned the host.\<close>

theorem validation_misses_listen_addr:
  assumes "snd (load_config (pe_toml env) (pe_files env) path) = Inr c" and "sv_enabled (server c)"
    and "parse_socket_addr (pe_v6 env) (listen_addr (server c)) = None" and "\<not> cs_enabled (cache_service c)"
    and "ensure_vm_assets (pe_assets env) \<lparr>as_host = mc_host m, as_net = mc_net m, as_config = c\<rparr> = (Inr (), a)"
  shows "snd (snd (run_validate (pe_toml env) (pe_files env) path)) = 0 \<and>
    (\<exists>t. run_server env path m = (Inl (BadListenAddr (listen_addr (server c))), t) \<and> mc_host t = as_host a \<and> mc_net t = as_net a)"
proof -
  let ?m = "m\<lparr>mc_effects := mc_effects m @ fst (load_config (pe_toml env) (pe_files env) path)\<rparr>"
  have 1: "do_load env path m = (Inr c, ?m)" using assms(1) by (simp add: do_load_def case_prod_unfold)
  have 2: "do_assets env c ?m = (Inr (as_config a), ?m\<lparr>mc_host := as_host a, mc_net := as_net a\<rparr>)"
    using assms(5) by (simp add: do_assets_def)
  have a: "as_config a = resolve_config (pe_assets env) c" using assets_config [OF assms(5)] by simp
  have 3: "resolve_cache_token (pe_uuid env) (as_config a) = as_config a" "server (as_config a) = server c"
    "cache_service (as_config a) = cache_service c"
    using assms(4) by (simp_all add: a resolve_config_def resolve_cache_token_def)
  have "listen_on env (server c) = Inl (BadListenAddr (listen_addr (server c)))"
    using assms(2,3) by (simp add: listen_on_def)
  then have "run_server env path m = (Inl (BadListenAddr (listen_addr (server c))), ?m\<lparr>mc_host := as_host a, mc_net := as_net a\<rparr>)"
    using assms(4) by (simp add: run_server_def op_simps 1 2 3 Let_def do_cache_def)
  then show ?thesis using assms(1) by (simp add: validate_exit)
qed

text \<open>The name of a host is such an address.\<close>

lemma host_name_is_no_address: "\<not> v6 ''localhost'' \<Longrightarrow> parse_socket_addr v6 ''localhost:9090'' = None"
proof -
  assume "\<not> v6 ''localhost''"
  moreover have "parse_ipv4 ''localhost'' = None" by (simp add: parse_ipv4_def)
  moreover have "split_last (CHR '':'') ''localhost:9090'' = Some (''localhost'', ''9090'')" by (simp add: split_last_def)
  ultimately show ?thesis by (cases "parse_port ''9090''") (simp_all add: parse_socket_addr_def)
qed

section \<open>The version string\<close>

text \<open>The order of the sources: the override, a tag of the commit, branch and commit, the package; a tree
  with changes says so, and the version is never empty.\<close>

lemma version_sources:
  "v \<noteq> [] \<Longrightarrow> program_version (Some v) b cargo = v"
  "bv_tag b \<noteq> [] \<Longrightarrow> program_version None b cargo = bv_tag b @ bv_dirty b"
  "bv_tag b = [] \<Longrightarrow> bv_sha b \<noteq> [] \<Longrightarrow> program_version None b cargo = bv_branch b @ ''/'' @ bv_sha b @ bv_dirty b"
  "bv_tag b = [] \<Longrightarrow> bv_sha b = [] \<Longrightarrow> program_version None b cargo = cargo"
  "program_version (Some []) b cargo = program_version None b cargo"
  "cargo \<noteq> [] \<Longrightarrow> program_version x b cargo \<noteq> []"
  by (simp_all add: program_version_def built_version_def split: option.split)

lemma version_without_git: "(\<And>a. git a = None) \<Longrightarrow> program_version None (build_script git) cargo = cargo"
  by (simp add: program_version_def built_version_def build_script_def git_text_def)

section \<open>The token is never shown\<close>

text \<open>\<open>Debug\<close> of the GitHub section: five fields, the last one fixed.\<close>

definition debug_github :: "github_config \<Rightarrow> string" where
  "debug_github g =
     ''GitHubConfig { owner: '' @ debug_str (gh_owner g) @ '', repos: '' @ debug_list (all_repos g) @
     '', runner_group_id: '' @ show_nat (runner_group_id g) @ '', labels: '' @ debug_list (gh_labels g) @
     '', token: '' @ debug_str ''[REDACTED]'' @ '' }''"

lemma debug_github_hides_secrets:
  "debug_github (g\<lparr>gh_token := t, gh_app := a\<rparr>) = debug_github g"
  by (cases "gh_repo g") (simp_all add: debug_github_def all_repos_def)

end
