(* ===== verification/Downloads.thy ===== *)
theory Downloads
  imports Setup
begin

text \<open>
  What an interrupted start leaves for the next one (\<open>src/src/vm/setup.rs\<close>): the guest kernel (\<open>ensure_kernel\<close>),
  however its writing ends, the downloaded cloud image, and the golden image before its filling.
\<close>

lemma do_write_host:
  assumes "host_at f tr s" and "site ds f" and "ordinary x" and "parts_of h p = ds @ [x]"
    and "f (ds @ [x]) = None \<or> (\<exists>a. f (ds @ [x]) = Some (Reg a None))"
  shows "\<exists>u. do_write h p c s = Some u \<and> host_at (f(ds @ [x] \<mapsto> Reg c None)) tr u \<and> bh_tick u = bh_tick s"
proof -
  note r = host_at_reach [OF assms(1-4), of True]
  obtain u where u: "set_node (ds @ [x]) (Some (Reg c None)) s = Some u" "host_at (f(ds @ [x] \<mapsto> Reg c None)) tr u"
    using host_at_set [OF assms(1)] by blast
  have "mount_over s (ds @ [x]) = None" using assms(1) by (simp add: host_at_def mount_over_def)
  then have "bh_tick u = bh_tick s" using u(1) by (auto simp: set_node_def)
  moreover have "do_write h p c s = Some u" using r assms(5) u(1) by (auto simp: do_write_def)
  ultimately show ?thesis using u(2) by blast
qed

lemma b_sys_ok: "be_ok h (bh_tick s) \<Longrightarrow> g s = Some u \<Longrightarrow> b_sys h e g s = (Inr (), bh_step u)"
  by (simp add: b_sys_def)

lemma bh_tick_step [simp]: "bh_tick (bh_step s) = Suc (bh_tick s)"
  by (simp add: bh_step_def)

lemma mkdirs_there_ok:
  assumes "be_ok h (bh_tick s)" and "host_at f tr s" and "site ds f" and "parts_of h p = ds"
  shows "mkdirs_path h p s = (Inr (), bh_step s)"
proof -
  have "do_mkdirs [] (ds @ []) s = do_mkdirs ([] @ ds) [] s"
    using assms(3) host_at_visible [OF assms(2)] by (intro do_mkdirs_skip) (auto simp: site_def)
  then show ?thesis using assms(1,4) by (simp add: mkdirs_path_def b_sys_def)
qed

text \<open>Writing the body: all of it, or an error and a part.\<close>

lemma write_all_host:
  assumes "host_at f tr s" and "site ds f" and "ordinary x" and "parts_of (se_host env) p = ds @ [x]"
    and "\<exists>a. f (ds @ [x]) = Some (Reg a None)"
  shows "\<exists>t. write_all env p c s = (if be_ok (se_host env) (bh_tick s) then Inr () else Inl (CallFailed p), t) \<and>
    host_at (f(ds @ [x] \<mapsto> Reg (if be_ok (se_host env) (bh_tick s) then c else take (se_written env (bh_tick s)) c) None)) tr t"
proof -
  let ?c = "if be_ok (se_host env) (bh_tick s) then c else take (se_written env (bh_tick s)) c"
  obtain u where u: "do_write (se_host env) p ?c s = Some u" "host_at (f(ds @ [x] \<mapsto> Reg ?c None)) tr u"
    using do_write_host [OF assms(1-4), of ?c] assms(5) by blast
  then show ?thesis
    by (cases "be_ok (se_host env) (bh_tick s)") (simp_all add: write_all_def b_sys_ok)
qed

text \<open>C18: The guest kernel is downloaded at most once, and badly at most once too. On a host without the file
  and with its directory, when the server answers and the file can be made, the call for the kernel leaves the file
  with the whole body when the writing succeeds, and else reports the failure and leaves the part that was
  written. After either, every later call finds the file, fetches nothing, changes nothing and reports
  success: a part of a kernel is kept and booted from.\<close>

theorem kernel_is_fetched_once:
  assumes "host_at f tr s" and "site ds f" and "ordinary x" and "parts_of (se_host env) path = ds @ [x]"
    and "f (ds @ [x]) = None" and "path_parent path = Some d" and "d \<noteq> []" and "parts_of (se_host env) d = ds"
    and "se_get env url = Some body"
    and "be_ok (se_host env) (bh_tick s)" and "be_ok (se_host env) (bh_tick s + 1)"
  defines "written \<equiv> be_ok (se_host env) (bh_tick s + 2)"
    and "part \<equiv> take (se_written env (bh_tick s + 2)) body"
  shows "\<exists>t. ensure_kernel env path url s = (if written then Inr () else Inl (CallFailed path), t) \<and>
    host_at (f(ds @ [x] \<mapsto> Reg (if written then body else part) None)) tr t \<and>
    (\<forall>env' url'. be_cwd (se_host env') = be_cwd (se_host env) \<longrightarrow> ensure_kernel env' path url' t = (Inr (), t))"
proof -
  let ?h = "se_host env" and ?p = "ds @ [x]" and ?g = "f(ds @ [x] \<mapsto> Reg [] None)"
  have absent: "\<not> file_exists ?h path s" using host_at_exists [OF assms(1-4)] assms(5) by simp
  have 1: "make_parent ?h d s = (Inr (), bh_step s)"
    using mkdirs_there_ok [OF assms(10,1,2,8)] assms(7) by (simp add: make_parent_def)
  obtain u where u: "do_write ?h path [] (bh_step s) = Some u" "host_at ?g tr u" "bh_tick u = Suc (bh_tick s)"
    using do_write_host [OF _ assms(2-4), of tr "bh_step s" "[]"] assms(1,5) by auto
  have 2: "write_path ?h path [] (bh_step s) = (Inr (), bh_step u)"
    using u(1) assms(11) by (simp add: write_path_def b_sys_ok)
  have "host_at ?g tr (bh_step u)" "site ds ?g" using u(2) site_upd [OF assms(2)] by simp_all
  then obtain t where t: "write_all env path body (bh_step u) =
      (if be_ok ?h (bh_tick (bh_step u)) then Inr () else Inl (CallFailed path), t)"
    "host_at (?g(?p \<mapsto> Reg (if be_ok ?h (bh_tick (bh_step u)) then body
        else take (se_written env (bh_tick (bh_step u))) body) None)) tr t"
    using write_all_host [OF _ _ assms(3,4), of ?g tr "bh_step u" body] by auto
  have tick: "bh_tick (bh_step u) = bh_tick s + 2" by (simp add: u(3))
  have t': "write_all env path body (bh_step u) = (if written then Inr () else Inl (CallFailed path), t)"
    "host_at (f(?p \<mapsto> Reg (if written then body else part) None)) tr t"
    using t unfolding tick written_def part_def by simp_all
  have run: "ensure_kernel env path url s = (if written then Inr () else Inl (CallFailed path), t)"
    using absent 1 2 t'(1) assms(6,9) by (simp add: ensure_kernel_def download_file_def op_seq_apply op_ret_def)
  have "ensure_kernel env' path url' t = (Inr (), t)" if "be_cwd (se_host env') = be_cwd ?h" for env' url'
  proof -
    have "parts_of (se_host env') path = ?p" using assms(4) that by (simp add: parts_of_def)
    then have "file_exists (se_host env') path t"
      using host_at_exists [OF t'(2) site_upd [OF assms(2)] assms(3)] by simp
    then show ?thesis by (simp add: ensure_kernel_def)
  qed
  with run t'(2) show ?thesis by blast
qed

definition empty_opt :: bhost where
  "empty_opt = demo_start_host\<lparr>bh_fs := [[''opt''] \<mapsto> Dir]\<rparr>"

text \<open>A host on which the third call fails, here the writing, of which one byte reaches the file.\<close>

definition full_disk :: setup_env where
  "full_disk = demo_setup_env\<lparr>se_host := (quiet_env_at [])\<lparr>be_ok := (\<lambda>k. k \<noteq> bh_tick empty_opt + 2)\<rparr>,
     se_get := (\<lambda>_. Some ''ELF''), se_written := (\<lambda>_. 1)\<rparr>"

theorem kernel_is_fetched_once_witness:
  "\<exists>t. ensure_kernel full_disk ''/opt/vmlinux'' ''u'' empty_opt = (Inl (CallFailed ''/opt/vmlinux''), t) \<and>
     bh_fs t [''opt'', ''vmlinux''] = Some (Reg ''E'' None) \<and>
     ensure_kernel demo_setup_env ''/opt/vmlinux'' ''u'' t = (Inr (), t)"
proof -
  have host: "host_at [[''opt''] \<mapsto> Dir] (\<lambda>_. demo_linked_tree) empty_opt"
    by (simp add: host_at_def empty_opt_def demo_start_host_def demo_golden_host_def)
  have site: "site [''opt''] [[''opt''] \<mapsto> Dir]" by (auto simp: site_def ordinary_def prefix_Cons)
  have cwd: "be_cwd (se_host full_disk) = []" "be_cwd (se_host demo_setup_env) = []"
    by (simp_all add: full_disk_def demo_setup_env_def quiet_env_at_def)
  have parts: "parts_of (se_host full_disk) ''/opt/vmlinux'' = [''opt''] @ [''vmlinux'']" "parts_of (se_host full_disk) ''/opt'' = [''opt'']"
    unfolding parts_of_def cwd by code_simp+
  have parent: "path_parent ''/opt/vmlinux'' = Some ''/opt''" by code_simp
  have ok: "be_ok (se_host full_disk) (bh_tick empty_opt)" "be_ok (se_host full_disk) (bh_tick empty_opt + 1)"
    "\<not> be_ok (se_host full_disk) (bh_tick empty_opt + 2)" "se_get full_disk ''u'' = Some ''ELF''" "se_written full_disk k = 1" for k
    by (simp_all add: full_disk_def)
  have x: "ordinary ''vmlinux''" by (simp add: ordinary_def)
  obtain t where t: "ensure_kernel full_disk ''/opt/vmlinux'' ''u'' empty_opt = (Inl (CallFailed ''/opt/vmlinux''), t)"
    "host_at ([[''opt''] \<mapsto> Dir]([''opt''] @ [''vmlinux''] \<mapsto> Reg ''E'' None)) (\<lambda>_. demo_linked_tree) t"
    "\<forall>env' url'. be_cwd (se_host env') = be_cwd (se_host full_disk) \<longrightarrow> ensure_kernel env' ''/opt/vmlinux'' url' t = (Inr (), t)"
    using kernel_is_fetched_once [OF host site x parts(1) _ parent _ parts(2) ok(4,1,2)] ok(3,5) by auto
  then show ?thesis using cwd by (intro exI [of _ t]) (simp add: host_at_def)
qed

section \<open>The cloud image\<close>

text \<open>A downloaded cloud image that is not a disk, such as a part of one, is never fetched again: every
  start, whatever its calls do, fails and leaves the host's files as they are.\<close>

theorem broken_cloud_image_stays:
  assumes "host_at f tr s" and "site ds f" and "path_parent rootfs = Some dir"
    and "parts_of (se_host env) dir = ds" and "parts_of (se_host env) (dir @ ''/cloud-base.img'') = ds @ [''cloud-base.img'']"
    and "parts_of (se_host env) rootfs = ds @ [r]" and "ordinary r" and "f (ds @ [r]) = None"
    and "f (ds @ [''cloud-base.img'']) = Some (Reg part m)" and "se_qcow env part = None"
  shows "\<exists>e t. ensure_golden_rootfs env rootfs url nw s = (Inl e, t) \<and> host_at f tr t"
proof -
  let ?h = "se_host env" and ?c = "dir @ ''/cloud-base.img''"
  have c: "ordinary ''cloud-base.img''" by (simp add: ordinary_def)
  have absent: "\<not> file_exists ?h rootfs s" using host_at_exists [OF assms(1,2,7,6)] assms(8) by simp
  have there: "file_exists ?h ?c t" "read_at ?h ?c t = Some part" if "host_at f tr t" for t
    using host_at_exists [OF that assms(2) c assms(5)] host_at_reach [OF that assms(2) c assms(5), of True] assms(9)
    by (simp_all add: read_at_def)
  have "make_parent ?h dir s = (Inr (), s) \<or> make_parent ?h dir s = (Inr (), bh_step s) \<or> (\<exists>e. make_parent ?h dir s = (Inl e, bh_step s))"
    using mkdirs_there_ok [OF _ assms(1,2,4)]
    by (cases "be_ok ?h (bh_tick s)") (auto simp: make_parent_def op_ret_def mkdirs_path_def b_sys_def)
  then obtain r t where p: "make_parent ?h dir s = (r, t)" "host_at f tr t" using assms(1) by (metis host_at_step)
  have "qcow_to_raw env ?c raw t = (Inl (CallFailed ?c), bh_step t)" for raw
    using there(2) [OF p(2)] assms(10) by (simp add: qcow_to_raw_def)
  then show ?thesis
    using p absent there(1) [OF p(2)] assms(3)
    by (cases r) (simp_all add: ensure_golden_rootfs_def build_rootfs_def Let_def op_seq_apply op_bind_apply b_ask_def b_when_def op_ret_def)
qed

section \<open>The golden image before its filling\<close>

text \<open>The end of the building, from the mount on.\<close>

lemma build_rootfs_end:
  "build_rootfs env rootfs url nw dir =
     op_seq (b_all [make_parent (se_host env) dir,
        op_bind (b_ask (\<lambda>s. \<not> file_exists (se_host env) (dir @ ''/cloud-base.img'') s))
          (\<lambda>b. b_when b [download_file env url (dir @ ''/cloud-base.img'')]),
        qcow_to_raw env (dir @ ''/cloud-base.img'') (dir @ ''/cloud-raw.img''),
        raw_to_rootfs env (dir @ ''/cloud-raw.img'') rootfs, unlink_path (se_host env) (dir @ ''/cloud-raw.img''),
        b_ignore (run_e2fs_tool env ''e2fsck'' rootfs), b_ignore (run_e2fs_tool env ''resize2fs'' rootfs)])
      (b_all [mkdirs_path (se_host env) (rootfs @ ''.mnt''), mount_ext4 (se_host env) rootfs (rootfs @ ''.mnt'') False,
        fill_rootfs env nw rootfs (rootfs @ ''.mnt''), shrink_rootfs env rootfs])"
  by (rule ext) (simp add: build_rootfs_def Let_def op_seq_apply op_ret_def split: prod.splits sum.splits)

text \<open>When the mount fails there, the image without the runner stays under the golden image's name, and
  the next start takes it for the golden image.\<close>

theorem unmounted_image_is_kept:
  assumes "host_at f tr s" and "site ds f" and "parts_of (se_host env) rootfs = ds @ [r]" and "ordinary r"
    and "parts_of (se_host env) (rootfs @ ''.mnt'') = ds @ [r @ ''.mnt'']" and "f (ds @ [r @ ''.mnt'']) = None"
    and "f (ds @ [r]) = Some (Disk n True)" and "\<forall>k. be_ok (se_host env) k" and "\<forall>k. be_out (se_host env) k \<noteq> Runs"
  shows "\<exists>e t. b_all [mkdirs_path (se_host env) (rootfs @ ''.mnt''), mount_ext4 (se_host env) rootfs (rootfs @ ''.mnt'') False,
        fill_rootfs env nw rootfs (rootfs @ ''.mnt''), shrink_rootfs env rootfs] s = (Inl e, t) \<and>
    (\<forall>env' url nw'. be_cwd (se_host env') = be_cwd (se_host env) \<longrightarrow> ensure_golden_rootfs env' rootfs url nw' t = (Inr (), t))"
proof -
  let ?h = "se_host env" and ?m = "rootfs @ ''.mnt''"
  have x: "ordinary (r @ ''.mnt'')" by (simp add: ordinary_def)
  define q where "q = ?h\<lparr>be_out := (\<lambda>_. Runs)\<rparr>"
  have q: "quiet q" "parts_of q ?m = ds @ [r @ ''.mnt'']" "mkdirs_path q p = mkdirs_path ?h p" for p
    using assms(5,8) by (auto simp: q_def quiet_def parts_of_def mkdirs_path_def b_sys_def)
  obtain u where u: "mkdirs_path ?h ?m s = (Inr (), u)" "host_at (f(ds @ [r @ ''.mnt''] \<mapsto> Dir)) tr u"
    using host_mkdirs [OF q(1) assms(1,2) x q(2)] assms(6) q(3) by auto
  obtain e where e: "mount_ext4 ?h rootfs ?m False u = (Inl e, bh_step u)"
    using assms(9) by (cases "be_out ?h (bh_tick u)") (auto simp: mount_ext4_def b_must_def b_cmd_def op_bind_apply op_fail_def)
  have "ensure_golden_rootfs env' rootfs url nw' (bh_step u) = (Inr (), bh_step u)"
    if "be_cwd (se_host env') = be_cwd ?h" for env' url nw'
  proof -
    have p: "parts_of (se_host env') rootfs = ds @ [r]" using assms(3) that by (simp add: parts_of_def)
    have "host_at (f(ds @ [r @ ''.mnt''] \<mapsto> Dir)) tr (bh_step u)" using u(2) by simp
    from host_at_exists [OF this site_upd [OF assms(2)] assms(4) p] assms(7)
    have "file_exists (se_host env') rootfs (bh_step u)" by simp
    then show ?thesis by (simp add: ensure_golden_rootfs_def)
  qed
  then show ?thesis using u(1) e by (simp add: op_seq_apply)
qed

end
