(* ===== verification/Processes.thy ===== *)
theory Processes
  imports Rust_Strings
begin

text \<open>
  The three helpers of \<open>src/src/vm/firecracker/process.rs\<close> over the host's table of processes, the
  daemon's own children among them. A child that has exited stays in the table until somebody waits
  for it. Numbers of processes are below the bound where the cast to 32 signed bits matters.
\<close>

section \<open>The process table of the host\<close>

datatype proc_life = Running | Exited

record proc =
  pr_pid :: nat
  pr_child :: bool
  pr_life :: proc_life

text \<open>What \<open>waitpid\<close> with \<open>WNOHANG\<close> answers. A child that has exited is removed by it.\<close>

datatype wait_answer = StillAlive | Reaped nat | NoChild

definition is_zombie :: "proc \<Rightarrow> bool" where
  "is_zombie p \<longleftrightarrow> pr_child p \<and> pr_life p = Exited"

definition waitpid_one :: "nat \<Rightarrow> proc list \<Rightarrow> wait_answer \<times> proc list" where
  "waitpid_one i t =
     (case find (\<lambda>p. pr_pid p = i \<and> pr_child p) t of
        None \<Rightarrow> (NoChild, t)
      | Some p \<Rightarrow> if pr_life p = Exited then (Reaped i, remove1 p t) else (StillAlive, t))"

definition waitpid_any :: "proc list \<Rightarrow> wait_answer \<times> proc list" where
  "waitpid_any t =
     (case find is_zombie t of
        Some p \<Rightarrow> (Reaped (pr_pid p), remove1 p t)
      | None \<Rightarrow> (if \<exists>p \<in> set t. pr_child p then StillAlive else NoChild, t))"

text \<open>\<open>status\<close> is the text of \<open>/proc/<pid>/status\<close>, if it can be read.\<close>

definition is_process_alive :: "(nat \<Rightarrow> string option) \<Rightarrow> nat \<Rightarrow> proc list \<Rightarrow> bool \<times> proc list" where
  "is_process_alive status i t =
     (case waitpid_one i t of
        (StillAlive, u) \<Rightarrow> (True, u)
      | (Reaped _, u) \<Rightarrow> (False, u)
      | (NoChild, u) \<Rightarrow>
          (if \<forall>p \<in> set u. pr_pid p \<noteq> i then False
           else (case status i of None \<Rightarrow> False | Some s \<Rightarrow> \<not> contains_str s (CHR 0x0A # ''State:'' @ CHR 0x09 # ''Z'')), u))"

text \<open>\<open>SIGKILL\<close> ends the process and leaves it in the table; other processes see nothing of it.\<close>

definition kill_process :: "nat \<Rightarrow> proc list \<Rightarrow> proc list" where
  "kill_process i = map (\<lambda>p. if pr_pid p = i then p\<lparr>pr_life := Exited\<rparr> else p)"

lemma reaping_shrinks: "waitpid_any t = (Reaped i, u) \<Longrightarrow> length u < length t"
  using length_pos_if_in_set by (fastforce simp: waitpid_any_def length_remove1 split: option.splits if_splits dest!: find_SomeD)

function reap_zombies :: "proc list \<Rightarrow> proc list" where
  "reap_zombies t = (case waitpid_any t of (Reaped _, u) \<Rightarrow> reap_zombies u | (StillAlive, u) \<Rightarrow> u | (NoChild, u) \<Rightarrow> u)"
  by auto
termination by (relation "measure length") (auto simp: reaping_shrinks dest!: sym [of "(_, _)"])

declare reap_zombies.simps [simp del]

lemma remove1_find_filter: "find P t = Some x \<Longrightarrow> filter (\<lambda>p. \<not> P p) (remove1 x t) = filter (\<lambda>p. \<not> P p) t"
  using find_SomeD [of P t x] by (simp add: filter_remove1 remove1_idem)

text \<open>All children that have exited are taken, whoever started them, and nothing else.\<close>

lemma reap_zombies_eq: "reap_zombies t = filter (\<lambda>p. \<not> is_zombie p) t"
proof (induction t rule: reap_zombies.induct)
  case (1 t)
  show ?case
  proof (cases "find is_zombie t")
    case None
    then have "filter (\<lambda>p. \<not> is_zombie p) t = t" by (simp add: find_None_iff_all)
    with None show ?thesis by (subst reap_zombies.simps) (simp add: waitpid_any_def)
  next
    case (Some p)
    then have w: "waitpid_any t = (Reaped (pr_pid p), remove1 p t)" by (simp add: waitpid_any_def)
    have "reap_zombies t = reap_zombies (remove1 p t)" by (subst reap_zombies.simps) (simp add: w)
    also have "\<dots> = filter (\<lambda>p. \<not> is_zombie p) (remove1 p t)" using 1 w by simp
    finally show ?thesis using remove1_find_filter [OF Some] by simp
  qed
qed

lemma reap_zombies_idem: "reap_zombies (reap_zombies t) = reap_zombies t"
  by (simp add: reap_zombies_eq)

text \<open>
  The state line of \<open>/proc/<pid>/status\<close>: there for every process, and a zombie's says so.
\<close>

definition status_tells :: "(nat \<Rightarrow> string option) \<Rightarrow> proc list \<Rightarrow> bool" where
  "status_tells status t \<longleftrightarrow>
     (\<forall>p \<in> set t. \<exists>s. status (pr_pid p) = Some s \<and>
        (contains_str s (CHR 0x0A # ''State:'' @ CHR 0x09 # ''Z'') \<longleftrightarrow> pr_life p = Exited))"

theorem process_alive_spec:
  assumes "status_tells status t" and "distinct (map pr_pid t)"
  shows "fst (is_process_alive status i t) \<longleftrightarrow> (\<exists>p \<in> set t. pr_pid p = i \<and> pr_life p = Running)"
    and "set t - {p. is_zombie p \<and> pr_pid p = i} \<subseteq> set (snd (is_process_alive status i t))"
proof -
  let ?F = "find (\<lambda>p. pr_pid p = i \<and> pr_child p) t"
  have uniq: "p = q" if "p \<in> set t" "q \<in> set t" "pr_pid p = i" "pr_pid q = i" for p q
    using assms(2) that by (metis distinct_map inj_onD)
  show "fst (is_process_alive status i t) \<longleftrightarrow> (\<exists>p \<in> set t. pr_pid p = i \<and> pr_life p = Running)"
  proof (cases ?F)
    case (Some p)
    then have p: "p \<in> set t" "pr_pid p = i" "pr_child p" by (auto dest: find_SomeD)
    have "(\<exists>q \<in> set t. pr_pid q = i \<and> pr_life q = Running) \<longleftrightarrow> pr_life p = Running" using p uniq by blast
    then show ?thesis using Some by (cases "pr_life p") (simp_all add: is_process_alive_def waitpid_one_def)
  next
    case None
    show ?thesis
    proof (cases "\<exists>p \<in> set t. pr_pid p = i")
      case True
      then obtain p where p: "p \<in> set t" "pr_pid p = i" by blast
      then obtain s where s: "status i = Some s" "contains_str s (CHR 0x0A # ''State:'' @ CHR 0x09 # ''Z'') \<longleftrightarrow> pr_life p = Exited"
        using assms(1) unfolding status_tells_def by blast
      have "(\<exists>q \<in> set t. pr_pid q = i \<and> pr_life q = Running) \<longleftrightarrow> pr_life p = Running" using p uniq by blast
      then show ?thesis using None p s by (cases "pr_life p") (auto simp: is_process_alive_def waitpid_one_def)
    next
      case False
      then show ?thesis using None by (auto simp: is_process_alive_def waitpid_one_def)
    qed
  qed
  show "set t - {p. is_zombie p \<and> pr_pid p = i} \<subseteq> set (snd (is_process_alive status i t))"
  proof (cases ?F)
    case (Some p)
    then have p: "p \<in> set t" "pr_pid p = i" "pr_child p" by (auto dest: find_SomeD)
    have "q \<in> set (remove1 p t)" if "q \<in> set t" "q \<noteq> p" for q using that by simp
    then have "set t - {p} \<subseteq> set (remove1 p t)" by blast
    then show ?thesis using Some p
      by (cases "pr_life p") (fastforce simp: is_process_alive_def waitpid_one_def is_zombie_def)+
  next
    case None
    then show ?thesis by (auto simp: is_process_alive_def waitpid_one_def)
  qed
qed

text \<open>
  The helper that runs after every VM of the metadata mode takes the exit of children it did not
  start: whoever started such a child and still waits for it is told that there is no such child.
\<close>

theorem reaping_takes_exit_of_others:
  assumes "p \<in> set t" and "is_zombie p" and "distinct (map pr_pid t)"
  shows "fst (waitpid_one (pr_pid p) t) = Reaped (pr_pid p) \<and>
    fst (waitpid_one (pr_pid p) (reap_zombies t)) = NoChild"
proof -
  have uniq: "q = p" if "q \<in> set t" "pr_pid q = pr_pid p" for q
    using assms(1,3) that by (metis distinct_map inj_onD)
  have "find (\<lambda>q. pr_pid q = pr_pid p \<and> pr_child q) t \<noteq> None"
    using assms(1,2) by (auto simp: find_None_iff_all is_zombie_def)
  then obtain q where q: "find (\<lambda>q. pr_pid q = pr_pid p \<and> pr_child q) t = Some q" by auto
  then have "q = p" using uniq by (auto dest: find_SomeD)
  moreover have "find (\<lambda>q. pr_pid q = pr_pid p \<and> pr_child q) (reap_zombies t) = None"
    using uniq assms(2) by (auto simp: find_None_iff_all reap_zombies_eq)
  ultimately show ?thesis using q assms(2) by (simp add: waitpid_one_def is_zombie_def)
qed

theorem reaping_takes_exit_of_others_witness:
  "fst (waitpid_one 7 (reap_zombies [\<lparr>pr_pid = 5, pr_child = True, pr_life = Running\<rparr>,
     \<lparr>pr_pid = 7, pr_child = True, pr_life = Exited\<rparr>])) = NoChild"
  using reaping_takes_exit_of_others [of "\<lparr>pr_pid = 7, pr_child = True, pr_life = Exited\<rparr>"
    "[\<lparr>pr_pid = 5, pr_child = True, pr_life = Running\<rparr>, \<lparr>pr_pid = 7, pr_child = True, pr_life = Exited\<rparr>]"]
  by (simp add: is_zombie_def)

end
