(* ===== verification/Runner_User.thy ===== *)
theory Runner_User
  imports Agent
begin

text \<open>
  How the guest's agent leaves root before it starts the runner (\<open>as_runner_user\<close> of
  \<open>src/src/agent.rs\<close>), and its check of the container runtime. The credentials are those of the child
  between its fork and its program; the three system calls follow the rules of the kernel for
  processes with and without privileges.
\<close>

section \<open>Credentials of a process\<close>

record creds =
  cr_uid :: nat
  cr_gid :: nat
  cr_groups :: "nat list"

datatype os_error = NotPermitted | InvalidArgument

text \<open>The identifier with all bits set means none, and a process has at most 65536 groups.\<close>

definition set_groups :: "nat list \<Rightarrow> creds \<Rightarrow> (os_error, creds) result" where
  "set_groups gs c =
     (if cr_uid c \<noteq> 0 then Inl NotPermitted
      else if 65536 < length gs then Inl InvalidArgument else Inr (c\<lparr>cr_groups := gs\<rparr>))"

definition set_gid :: "nat \<Rightarrow> creds \<Rightarrow> (os_error, creds) result" where
  "set_gid g c =
     (if g = u32_max then Inl InvalidArgument
      else if cr_uid c = 0 \<or> g = cr_gid c then Inr (c\<lparr>cr_gid := g\<rparr>) else Inl NotPermitted)"

definition set_uid :: "nat \<Rightarrow> creds \<Rightarrow> (os_error, creds) result" where
  "set_uid u c =
     (if u = u32_max then Inl InvalidArgument
      else if cr_uid c = 0 \<or> u = cr_uid c then Inr (c\<lparr>cr_uid := u\<rparr>) else Inl NotPermitted)"

text \<open>The child's steps before its program; an error stops the start of the command.\<close>

definition as_runner_user :: "string option \<Rightarrow> string option \<Rightarrow> creds \<Rightarrow> (os_error, creds) result" where
  "as_runner_user passwd groupf c =
     (case runner_credentials passwd groupf of (uid, gid, groups) \<Rightarrow>
        bindE (if groups = [] then Inr c else set_groups groups c) (\<lambda>c1.
        bindE (set_gid gid c1) (set_uid uid)))"

definition root_creds :: creds where
  "root_creds = \<lparr>cr_uid = 0, cr_gid = 0, cr_groups = [0]\<rparr>"

section \<open>The check of the container runtime\<close>

text \<open>A command with its arguments and whether it runs as the runner. Only what is run matters: the
  outputs are logged.\<close>

definition docker_info :: "string \<times> string list \<times> bool" where
  "docker_info = (''docker'', [''info'', ''--format'', ''{{.Host.OCIRuntime.Name}}''], True)"

definition podman_version :: "string \<times> string list \<times> bool" where
  "podman_version = (''podman'', [''version''], False)"

definition verify_container_runtime :: "(string \<times> string list \<times> bool \<Rightarrow> exec_result) \<Rightarrow> (string \<times> string list \<times> bool) list" where
  "verify_container_runtime exec =
     (case exec docker_info of
        StartFailed \<Rightarrow> [docker_info]
      | WaitFailed \<Rightarrow> [docker_info]
      | r \<Rightarrow> if r = ExitCode 0 then [docker_info] else [docker_info, podman_version])"

section \<open>The runner has no privileges\<close>

text \<open>The line of a group that the runner is a member of.\<close>

definition group_member :: "string \<Rightarrow> nat \<Rightarrow> bool" where
  "group_member l g \<longleftrightarrow>
     (let fs = split_on (CHR '':'') l in
      4 \<le> length fs \<and> parse_unsigned u32_max (fs ! 2) = Some g \<and>
      (\<exists>x \<in> set (split_on (CHR '','') (fs ! 3)). trim x = ''runner''))"

lemma set_group_gids: "set (group_gids p ls) = {g. g \<noteq> p \<and> (\<exists>l \<in> set ls. group_member l g)}"
  by (induction p ls rule: group_gids.induct) (auto simp: Let_def group_member_def split: option.splits)

lemma runner_group_set:
  "runner_credentials passwd groupf = (uid, gid, gs) \<Longrightarrow>
     g \<in> set gs \<longleftrightarrow> g = gid \<or> (\<exists>t. groupf = Some t \<and> (\<exists>l \<in> set (str_lines t). group_member l g))"
  by (auto simp: runner_credentials_def Let_def set_group_gids split: option.splits prod.splits)

lemma runner_has_group: "runner_credentials passwd groupf = (uid, gid, gs) \<Longrightarrow> gs \<noteq> []"
  by (auto simp: runner_credentials_def Let_def split: prod.splits)

lemma as_runner_user_Inr:
  assumes "runner_credentials passwd groupf = (uid, gid, gs)"
  shows "as_runner_user passwd groupf c = Inr d \<longleftrightarrow>
    cr_uid c = 0 \<and> length gs \<le> 65536 \<and> gid \<noteq> u32_max \<and> uid \<noteq> u32_max \<and> d = \<lparr>cr_uid = uid, cr_gid = gid, cr_groups = gs\<rparr>"
  using runner_has_group [OF assms]
  by (cases c) (auto simp: as_runner_user_def assms set_groups_def set_gid_def set_uid_def split: if_splits)

text \<open>What a process without privileges can still change: nothing.\<close>

lemma no_way_back:
  "cr_uid d \<noteq> 0 \<Longrightarrow> set_uid u d = Inr e \<Longrightarrow> e = d"
  "cr_uid d \<noteq> 0 \<Longrightarrow> set_gid g d = Inr e \<Longrightarrow> e = d"
  "cr_uid d \<noteq> 0 \<Longrightarrow> set_groups gs d = Inr e \<Longrightarrow> e = d"
  by (auto simp: set_uid_def set_gid_def set_groups_def split: if_splits)


definition demo_passwd :: string where
  "demo_passwd = ''runner:x:7:8''"

definition demo_groups :: string where
  "demo_groups = ''docker:x:9:ci,runner''"

lemma demo_credentials: "runner_credentials (Some demo_passwd) (Some demo_groups) = (7, 8, [8, 9])"
proof -
  have l: "str_lines demo_passwd = [demo_passwd]" "str_lines demo_groups = [demo_groups]"
    by (simp_all add: str_lines_def demo_passwd_def demo_groups_def split_on_no_sep)
  have p: "split_on (CHR '':'') demo_passwd = [''runner'', ''x'', ''7'', ''8'']" by code_simp
  have g: "split_on (CHR '':'') demo_groups = [''docker'', ''x'', ''9'', ''ci,runner'']" by code_simp
  have m: "split_on (CHR '','') ''ci,runner'' = [''ci'', ''runner'']" by code_simp
  have n: "parse_unsigned 4294967295 ''7'' = Some 7" "parse_unsigned 4294967295 ''8'' = Some 8"
    "parse_unsigned 4294967295 ''9'' = Some 9"
    by (simp_all add: parse_unsigned_def digit_val_def)
  have t: "trim ''runner'' = ''runner''" by (simp add: trim_def is_ws_def)
  show ?thesis by (simp add: runner_credentials_def l p g m n t parse_u32_or_def)
qed


text \<open>Leaving the user root first would leave the other two calls without the right to do their work.\<close>

lemma groups_first: "set_uid u c = Inr d \<Longrightarrow> u \<noteq> 0 \<Longrightarrow> set_groups gs d = Inl NotPermitted"
  by (auto simp: set_uid_def set_groups_def split: if_splits)

end
