(* ===== verification/Spec2Isabelle.thy ===== *)
theory Spec2Isabelle
  imports Job_Table Program Downloads Processes Runner_User
begin

text \<open>
  A verification development of fc-runner, a daemon that runs the jobs of GitHub Actions in
  Firecracker virtual machines that live for one job.

  \<^bold>\<open>The program and its parts.\<close>
  The daemon reads a configuration (\<open>src/src/config.rs\<close>), talks to GitHub (\<open>src/src/github.rs\<close>) and
  runs one of three modes (\<open>src/src/scheduler/orchestrator.rs\<close>): it polls for queued jobs and gives
  each one a VM with a single-use token, or keeps a number of registered runners warm, or hands its
  slots to named pools (\<open>src/src/scheduler/pool.rs\<close>). A slot is a number from which the names and
  addresses of a VM follow, so a slot must never be used twice at a time. A VM is prepared, run and
  removed by \<open>src/src/vm/\<close>: a disk image is made or copied, the configuration of the guest is put into
  it, a TAP device is made, Firecracker is started with a configuration file or over its API, and
  everything is removed in the end. Inside the guest the agent (\<open>src/src/agent.rs\<close>) reads the metadata,
  runs the GitHub runner and reports over a VSOCK connection to the host's listener
  (\<open>src/src/vm/vsock.rs\<close>). A management server (\<open>src/src/api/server.rs\<close>), its client
  (\<open>src/src/api/client.rs\<close>) and a cache service for the jobs (\<open>src/src/api/cache_server.rs\<close>) run beside.

  \<^bold>\<open>The theories, in the order of the imports.\<close>
  \<^item> \<open>Prelude\<close>: results, stateful operations, sequences of steps, the locales for step systems with
    invariants, and lemmas on lists and maps; \<open>Rust_Strings\<close>: the string operations of Rust's standard
    library that the program uses; \<open>Json\<close>: JSON values and their typed reading.
  \<^item> \<open>Config\<close>: the configuration's records, defaults and validation; \<open>Micro_Vm\<close>: the VM record, the
    names and addresses of a slot.
  \<^item> \<open>Github\<close>: authentication with its token cache, the API operations, the cleanup of offline runners.
  \<^item> \<open>Pool\<close>, \<open>Jit\<close>, \<open>Warm\<close>: the three schedulers as step relations over the manager and its tasks;
    \<open>Orchestrator\<close>: the choice of the mode, the distribution of slots, the wait at shutdown;
    \<open>Job_Table\<close>: a table of jobs as the specification that the reactive mode refines.
  \<^item> \<open>Mmds\<close>: metadata from the environment text; \<open>Agent\<close>: the guest's agent; \<open>Vsock\<close>: the host's listener.
  \<^item> \<open>Vm_Config\<close>: configuration file, API calls and the jail's contents; \<open>Host\<close>: the host as a state with
    system calls that may fail, the disk images, the injection and the TAP devices on it;
    \<open>Lifecycle\<close>: the whole life of a VM with its clean-up; \<open>Vm_Runs\<close>: one run in each of the three modes,
    which joins GitHub, the server's list of VMs, the metadata and the host.
  \<^item> \<open>Cache_Server\<close>: both APIs of the cache service; \<open>Api_Server\<close>: the management server and its client.
  \<^item> The start on the host (\<open>src/src/vm/setup.rs\<close>, \<open>src/src/image.rs\<close>). \<open>Firewall\<close>: the networks VMs may
    reach, the rules and sets of the host's firewall, and what they do to a packet; \<open>Layers\<close>: trees with
    symbolic links, the walk of a path, and the extraction of a container image's layers;
    \<open>Build_Host\<close>: the host's files, images and mounts with calls that may fail; \<open>Mounted\<close>: what a list of
    calls does to the tree of a mounted image; \<open>Image\<close>: pulling a container image; \<open>Ext4\<close>: the bytes of
    superblocks, partitions and kernels; \<open>Rootfs\<close>: the golden image from a cloud image, its overlay
    init and its squashfs; \<open>Rootfs_Fill\<close>: what holds however the filling of the image ends; \<open>Overlay\<close>:
    the overlay init and the squashfs after a start; \<open>Setup\<close>: the whole start on the host; \<open>Downloads\<close>: the
    kernel and the cloud image, however their downloads end.
  \<^item> The program (\<open>src/src/main.rs\<close>, \<open>src/src/cli.rs\<close>). \<open>Utf8\<close>: bytes and text; \<open>Cli\<close>: the declared arguments
    and the commands that talk to a server, with the lines they print; \<open>Cache_Start\<close>: the start of the cache
    service; \<open>Telemetry\<close>: the metrics; \<open>Program\<close>: the version, the check of a configuration and the start of the
    daemon, which joins all of the above. \<open>Processes\<close>: the helpers over the host's table of processes;
    \<open>Runner_User\<close>: how the guest's agent drops its privileges.

  \<^bold>\<open>How the state is modelled.\<close>
  A Rust struct is a record, an enum a datatype, a \<open>Result\<close> the sum type \<open>result\<close> of \<open>Prelude\<close>; a
  function that changes state returns the new state beside its result (\<open>op\<close>). Concurrency is a step
  relation: each section of code between two waits is one step, the tasks are a multiset, and a
  property of all reachable states holds in every interleaving. What the program only calls is a
  parameter: the HTTP transport and the clock (\<open>http_env\<close>), the failures of system calls and the end of
  the Firecracker process (\<open>host_env\<close>), the random identifiers, the TOML and JSON texts, the object
  store, the registry, archives, commands inside an image and what a firewall rule says about a packet.
  The host's files are a map from paths to directories, files, links and disks; a mount shows the tree of
  an image at a path, and paths are walked through links as the kernel does. A theorem for all values of
  a parameter holds for all behaviours of what it stands for.
  Integers the program cannot overflow are natural numbers; the fields of the configuration with a
  width are words.

  \<^bold>\<open>What the lemmas show.\<close>
  Slots: conserved and exclusive in the pools and in the reactive mode, in the warm mode without the
  early signal; pools are disjoint; two VMs with different slots and identifiers share no name,
  address or file, and a run changes nothing that belongs to another one. Runs: every failure ends in
  the clean-up, the result is decided by the first failing step or by the process, the text a run writes
  is what its guest reads, an accepted configuration never makes a run panic. Jobs: none is in flight
  twice, all permits and slots come back, the tasks refine a table of jobs. Services: the cache gives
  back what was saved, needs its token and keeps its index sound; the management calls need the key
  and reach exactly the pool they name, the log command shows every event once, and the VMs are told the
  token and the address of the very cache service the daemon serves. The guest: a command of the runner has
  the credentials its files name and cannot get root's back. The start: a start that succeeds closes the network to the allowed
  ranges and a second one changes nothing of it; a layer is extracted as the image specification says; a
  pulled image holds its layers and the agent; the partition, the superblock and the shrunk size are right
  to the byte; the filling of an image leaves no mount and no half-filled image behind; the overlay init and
  the squashfs are those of the version. The theorems about the code's own surprises (a slot shared by the early signal,
  a pool that runs dry, a mount or a process left behind) state what the code does.

  \<^bold>\<open>Bounds and fuel.\<close>
  Loops over lists are structural. The retry loop of the agent and the wait at the shutdown have
  measures, as have the copying loops of the disk images; \<open>umount_tries\<close> counts down from three as the
  code does; a path is walked through forty links as the kernel does. No fuel is used.

  \<^bold>\<open>Not modelled.\<close>
  The matching of the words of the command line against the declared arguments, which a package does; the
  counters of the metrics, which nothing reads back; log messages; the fallbacks for machines that are not Linux; ownership of files and the times of reading
  them; the files below directories mounted a second time and below the kernel's file systems.
\<close>

end
